(* ===== verification/PSI_Prelude.thy ===== *)
theory PSI_Prelude
  imports Main "HOL-Library.Word"
begin

text \<open>
  Shared vocabulary of the development: the fixed-width integer types of
  \<open>cryptoTools/Common/Defines.h\<close>, the exceptions the code throws as an error type, the
  sequencing of fallible code, and the generic facts about lists, slices and exclusive-or
  that the components use.
\<close>

unbundle bit_operations_syntax

section \<open>Machine types\<close>

type_synonym u8 = "8 word"
type_synonym u16 = "16 word"
type_synonym u32 = "32 word"
type_synonym u64 = "64 word"
type_synonym block = "128 word"

section \<open>Exceptions\<close>

text \<open>
  \<open>std::invalid_argument\<close>, \<open>std::runtime_error\<close>, \<open>std::out_of_range\<close> and \<open>std::future_error\<close>, with their message.
  A function that may throw returns \<open>Inl\<close> of the exception or \<open>Inr\<close> of its result.
  \<open>Terminate\<close> is the call of \<open>std::terminate\<close> by a thread that lets an exception escape, \<open>Undefined\<close>
  an execution to which the C++ standard gives no meaning.
\<close>

datatype error = InvalidArgument string | RuntimeError string | OutOfRange string | FutureError string | Terminate | Undefined string

type_synonym 'a result = "error + 'a"

named_theorems result_simps

definition bindE :: "'a result \<Rightarrow> ('a \<Rightarrow> 'b result) \<Rightarrow> 'b result" where
  "bindE m f = (case m of Inl e \<Rightarrow> Inl e | Inr x \<Rightarrow> f x)"

definition guardE :: "bool \<Rightarrow> error \<Rightarrow> 'a result \<Rightarrow> 'a result" where
  "guardE bad e k = (if bad then Inl e else k)"

fun mapE :: "('a \<Rightarrow> 'b result) \<Rightarrow> 'a list \<Rightarrow> 'b list result" where
  "mapE f [] = Inr []"
| "mapE f (x # xs) = bindE (f x) (\<lambda>y. bindE (mapE f xs) (\<lambda>ys. Inr (y # ys)))"

lemma bindE_simps [simp]: "bindE (Inl e) f = Inl e" "bindE (Inr x) f = f x"
  by (simp_all add: bindE_def)

lemma guardE_simps [simp]: "guardE True e k = Inl e" "guardE False e k = k"
  by (simp_all add: guardE_def)

lemma bindE_Inr_iff [result_simps]: "bindE m f = Inr y \<longleftrightarrow> (\<exists>x. m = Inr x \<and> f x = Inr y)"
  by (cases m) auto

lemma bindE_Inl_iff [result_simps]:
  "bindE m f = Inl e \<longleftrightarrow> m = Inl e \<or> (\<exists>x. m = Inr x \<and> f x = Inl e)"
  by (cases m) auto

lemma guardE_Inr_iff [result_simps]: "guardE b e k = Inr y \<longleftrightarrow> \<not> b \<and> k = Inr y"
  by (cases b) auto

lemma guardE_Inl_iff [result_simps]:
  "guardE b e k = Inl e' \<longleftrightarrow> (b \<and> e = e') \<or> (\<not> b \<and> k = Inl e')"
  by (cases b) auto

lemma mapE_Inr_iff: "mapE f xs = Inr ys \<longleftrightarrow> list_all2 (\<lambda>x y. f x = Inr y) xs ys"
  by (induction xs arbitrary: ys) (auto simp: result_simps list_all2_Cons1)

lemma mapE_all_Inr: "(\<And>x. x \<in> set xs \<Longrightarrow> f x = Inr (g x)) \<Longrightarrow> mapE f xs = Inr (map g xs)"
  by (induction xs) auto

lemma mapE_Inr_length: "mapE f xs = Inr ys \<Longrightarrow> length ys = length xs"
  by (auto simp: mapE_Inr_iff dest: list_all2_lengthD)

lemma mapE_Inr_nth: "mapE f xs = Inr ys \<Longrightarrow> i < length xs \<Longrightarrow> f (xs ! i) = Inr (ys ! i)"
  by (auto simp: mapE_Inr_iff dest: list_all2_nthD)

lemma mapE_Inl_iff:
  "(\<exists>e. mapE f xs = Inl e) \<longleftrightarrow> (\<exists>x \<in> set xs. \<exists>e. f x = Inl e)"
proof (induction xs)
  case (Cons x xs)
  then show ?case by (cases "f x") (auto simp: result_simps)
qed simp

lemma bindE_cong [fundef_cong]:
  "m = m' \<Longrightarrow> (\<And>x. m' = Inr x \<Longrightarrow> f x = f' x) \<Longrightarrow> bindE m f = bindE m' f'"
  by (cases m') auto

text \<open>A loop whose body may throw: state \<open>a\<close>, one pass per element of the list.\<close>

fun foldE :: "('s \<Rightarrow> 'a \<Rightarrow> 's result) \<Rightarrow> 's \<Rightarrow> 'a list \<Rightarrow> 's result" where
  "foldE f a [] = Inr a"
| "foldE f a (x # xs) = bindE (f a x) (\<lambda>b. foldE f b xs)"

lemma foldE_append: "foldE f a (xs @ ys) = bindE (foldE f a xs) (\<lambda>b. foldE f b ys)"
  by (induction xs arbitrary: a) (auto simp: bindE_def split: sum.splits)

text \<open>A loop of invertible rounds is undone by the inverse rounds in the reverse order.\<close>

lemma foldE_inverse:
  assumes "\<And>st r. P st \<Longrightarrow> \<exists>st'. f st r = Inr st' \<and> P st' \<and> g st' r = Inr st" and "P st"
  shows "\<exists>st'. foldE f st rs = Inr st' \<and> P st' \<and> foldE g st' (rev rs) = Inr st"
  using assms(2)
proof (induction rs arbitrary: st)
  case (Cons r rs)
  obtain s1 where s1: "f st r = Inr s1" "P s1" "g s1 r = Inr st" using assms(1) Cons.prems by blast
  obtain s2 where "foldE f s1 rs = Inr s2" "P s2" "foldE g s2 (rev rs) = Inr s1" using Cons.IH [OF s1(2)] by blast
  then show ?case using s1 by (simp add: foldE_append)
qed simp

text \<open>A loop simulates another along a view of its state.\<close>

lemma foldE_sim:
  assumes "\<And>st r. P st \<Longrightarrow> r \<in> set rs \<Longrightarrow> \<exists>st'. f st r = Inr st' \<and> P st' \<and> g (v st) r = Inr (v st')" and "P st"
  shows "\<exists>st'. foldE f st rs = Inr st' \<and> P st' \<and> foldE g (v st) rs = Inr (v st')"
  using assms
proof (induction rs arbitrary: st)
  case (Cons r rs)
  obtain s1 where s1: "f st r = Inr s1" "P s1" "g (v st) r = Inr (v s1)" using Cons.prems by force
  obtain s2 where "foldE f s1 rs = Inr s2" "P s2" "foldE g (v s1) rs = Inr (v s2)"
    using Cons.IH [OF _ s1(2)] Cons.prems(1) by force
  then show ?case using s1 by simp
qed simp

section \<open>Computations that may not return\<close>

text \<open>\<open>None\<close> is a loop that never ends, \<open>Some (Inl e)\<close> an exception.\<close>

type_synonym 'a comp = "'a result option"

definition retC :: "'a \<Rightarrow> 'a comp" where
  "retC x = Some (Inr x)"

definition throwC :: "error \<Rightarrow> 'a comp" where
  "throwC e = Some (Inl e)"

definition bindC :: "'a comp \<Rightarrow> ('a \<Rightarrow> 'b comp) \<Rightarrow> 'b comp" where
  "bindC m f = (case m of None \<Rightarrow> None | Some (Inl e) \<Rightarrow> Some (Inl e) | Some (Inr x) \<Rightarrow> f x)"

definition liftC :: "'a result \<Rightarrow> 'a comp" where
  "liftC m = Some m"

lemma bindC_simps [simp]:
  "bindC None f = None" "bindC (Some (Inl e)) f = Some (Inl e)" "bindC (Some (Inr x)) f = f x"
  "bindC (retC x) f = f x" "bindC (throwC e) f = throwC e"
  "bindC (liftC (Inr x)) f = f x" "bindC (liftC (Inl e)) f = throwC e"
  by (simp_all add: bindC_def retC_def throwC_def liftC_def)

lemma retC_eq [simp]: "retC x = retC y \<longleftrightarrow> x = y" "retC x \<noteq> throwC e" "throwC e \<noteq> retC x"
  "retC x \<noteq> None" "None \<noteq> retC x"
  by (auto simp: retC_def throwC_def)

lemma bindC_retC_iff [result_simps]: "bindC m f = retC y \<longleftrightarrow> (\<exists>x. m = retC x \<and> f x = retC y)"
  by (auto simp: bindC_def retC_def split: option.splits sum.splits)

lemma liftC_retC [simp]: "liftC m = retC x \<longleftrightarrow> m = Inr x"
  by (simp add: liftC_def retC_def)

section \<open>Exclusive-or of rows\<close>

text \<open>The element-wise exclusive-or that the loops \<open>a[i] ^= b[i]\<close> compute.\<close>

definition xor_list :: "'w::len word list \<Rightarrow> 'w word list \<Rightarrow> 'w word list" where
  "xor_list xs ys = map2 (XOR) xs ys"

lemma xor_cancel_right: "x XOR z = y XOR z \<longleftrightarrow> x = (y :: 'w::len word)"
proof
  assume "x XOR z = y XOR z"
  then have "(x XOR z) XOR z = (y XOR z) XOR z" by simp
  then show "x = y" by (simp add: xor.assoc)
qed simp

lemma length_xor_list [simp]: "length (xor_list xs ys) = min (length xs) (length ys)"
  by (simp add: xor_list_def)

lemma nth_xor_list [simp]:
  "i < length xs \<Longrightarrow> i < length ys \<Longrightarrow> xor_list xs ys ! i = xs ! i XOR ys ! i"
  by (simp add: xor_list_def)

lemma xor_list_commute: "xor_list xs ys = xor_list ys xs"
  by (rule nth_equalityI) (auto simp: xor.commute)

lemma xor_list_assoc: "xor_list (xor_list xs ys) zs = xor_list xs (xor_list ys zs)"
  by (rule nth_equalityI) (auto simp: xor.assoc)

lemma xor_list_cancel [simp]:
  "length xs \<le> length ys \<Longrightarrow> xor_list (xor_list xs ys) ys = xs"
  by (rule nth_equalityI) (auto simp: xor.assoc)

lemma xor_list_zero [simp]: "length xs \<le> n \<Longrightarrow> xor_list xs (replicate n 0) = xs"
  by (rule nth_equalityI) auto

lemma xor_list_self: "xor_list xs xs = replicate (length xs) 0"
  by (rule nth_equalityI) auto

lemma xor_list_Cons [simp]: "xor_list (x # xs) (y # ys) = (x XOR y) # xor_list xs ys"
  by (simp add: xor_list_def)

lemma xor_list_Nil [simp]: "xor_list [] ys = []" "xor_list xs [] = []"
  by (simp_all add: xor_list_def)

lemma take_xor_list: "take k (xor_list xs ys) = xor_list (take k xs) (take k ys)"
  by (rule nth_equalityI) auto

lemma drop_xor_list: "drop k (xor_list xs ys) = xor_list (drop k xs) (drop k ys)"
  by (rule nth_equalityI) (auto simp: less_diff_conv add.commute)

section \<open>Slices of flat buffers\<close>

text \<open>
  A pointer into a vector with a length: \<open>slice off n xs\<close> is what
  \<open>xs.data() + off .. xs.data() + off + n\<close> holds and \<open>patch_at off ys xs\<close> is the vector after
  \<open>memcpy(xs.data() + off, ys, |ys|)\<close>.
\<close>

definition slice :: "nat \<Rightarrow> nat \<Rightarrow> 'a list \<Rightarrow> 'a list" where
  "slice off n xs = take n (drop off xs)"

definition patch_at :: "nat \<Rightarrow> 'a list \<Rightarrow> 'a list \<Rightarrow> 'a list" where
  "patch_at off ys xs = take off xs @ ys @ drop (off + length ys) xs"

lemma length_slice [simp]: "off + n \<le> length xs \<Longrightarrow> length (slice off n xs) = n"
  by (simp add: slice_def)

lemma nth_slice [simp]: "off + n \<le> length xs \<Longrightarrow> i < n \<Longrightarrow> slice off n xs ! i = xs ! (off + i)"
  by (simp add: slice_def)

lemma length_patch_at [simp]: "off + length ys \<le> length xs \<Longrightarrow> length (patch_at off ys xs) = length xs"
  by (simp add: patch_at_def)

lemma nth_patch_at:
  "off + length ys \<le> length xs \<Longrightarrow> i < length xs \<Longrightarrow>
   patch_at off ys xs ! i = (if off \<le> i \<and> i < off + length ys then ys ! (i - off) else xs ! i)"
  by (auto simp: patch_at_def nth_append min_def)

lemma slice_patch_at_same [simp]:
  "off + length ys \<le> length xs \<Longrightarrow> n = length ys \<Longrightarrow> slice off n (patch_at off ys xs) = ys"
  by (rule nth_equalityI) (auto simp: nth_patch_at)

lemma slice_patch_at_other:
  "off + length ys \<le> length xs \<Longrightarrow> off' + n \<le> length xs \<Longrightarrow>
   off' + n \<le> off \<or> off + length ys \<le> off' \<Longrightarrow> slice off' n (patch_at off ys xs) = slice off' n xs"
  by (rule nth_equalityI) (auto simp: nth_patch_at)

lemma slice_concat:
  assumes "\<And>y. y \<in> set xss \<Longrightarrow> length y = n" and "i < length xss"
  shows "slice (i * n) n (concat xss) = xss ! i"
  using assms
proof (induction xss arbitrary: i)
  case (Cons y ys)
  show ?case
  proof (cases i)
    case 0
    with Cons.prems show ?thesis by (simp add: slice_def)
  next
    case (Suc j)
    with Cons show ?thesis by (simp add: slice_def add.commute)
  qed
qed simp

lemma length_concat_uniform:
  "(\<And>y. y \<in> set xss \<Longrightarrow> length y = n) \<Longrightarrow> length (concat xss) = length xss * n"
  by (induction xss) auto

lemma patch_at_concat:
  assumes "\<And>y. y \<in> set xss \<Longrightarrow> length y = n" and "i < length xss" and "length ys = n"
  shows "patch_at (i * n) ys (concat xss) = concat (xss[i := ys])"
  using assms
proof (induction xss arbitrary: i)
  case (Cons z zs)
  show ?case
  proof (cases i)
    case 0
    with Cons.prems show ?thesis by (simp add: patch_at_def)
  next
    case (Suc j)
    with Cons have "patch_at (j * n) ys (concat zs) = concat (zs[j := ys])" by simp
    with Suc Cons.prems show ?thesis by (simp add: patch_at_def add.assoc)
  qed
qed simp

text \<open>\<open>span::subspan\<close>, with its bounds check.\<close>

definition subspan :: "'a list \<Rightarrow> nat \<Rightarrow> nat \<Rightarrow> 'a list result" where
  "subspan xs off count =
     guardE (off > length xs \<or> off + count > length xs) (OutOfRange ''span::subspan'')
       (Inr (slice off count xs))"

lemma subspan_ok: "off + count \<le> length xs \<Longrightarrow> subspan xs off count = Inr (slice off count xs)"
  by (simp add: subspan_def)

section \<open>Loops over an index range\<close>

lemma map_nth_upt [simp]: "map (\<lambda>i. xs ! i) [0..<length xs] = xs"
  by (rule map_nth)

lemma nth_map_upt0 [simp]: "i < n \<Longrightarrow> map f [0..<n] ! i = f i"
  by simp

section \<open>Splitting a range into chunks\<close>

text \<open>
  The ranges that chunks of a common size cut out of \<open>[0..<n]\<close>: the arithmetic behind every
  parallel loop and every split network transfer.
\<close>

lemma upt_join: "i \<le> j \<Longrightarrow> j \<le> k \<Longrightarrow> [i..<j] @ [j..<k] = [i..<k]"
  by (metis le_Suc_ex upt_add_eq_append)

lemma concat_chunk_ranges:
  "concat (map (\<lambda>t. [min n (t * c)..<min n (t * c + c)]) [0..<k]) = [0..<min n (k * c)]"
proof (induction k)
  case (Suc k)
  have "[0..<min n (k * c)] @ [min n (k * c)..<min n (k * c + c)] = [0..<min n (k * c + c)]"
    by (rule upt_join) auto
  with Suc show ?case by (simp add: add.commute)
qed simp

lemma ceil_div_mult:
  fixes n k :: nat
  assumes "0 < k"
  shows "n \<le> k * ((n + k - 1) div k)"
proof -
  have "k * ((n + k - 1) div k) = (n + k - 1) - (n + k - 1) mod k"
    by (rule minus_mod_eq_mult_div [symmetric])
  moreover have "(n + k - 1) mod k < k" using assms by simp
  ultimately show ?thesis by linarith
qed

lemma ceil_div_pos: "0 < n \<Longrightarrow> 0 < k \<Longrightarrow> 0 < (n + k - 1) div (k::nat)"
  by (simp add: div_greater_zero_iff)

end
