(* ===== verification/RB_Bits.thy ===== *)
theory RB_Bits
  imports PSI_Prelude
begin

text \<open>
  The 256-bit band masks of \<open>frontend/okvs/rb/rows.h\<close> (\<open>RBBits\<close>, four 64-bit limbs) and
  their operations. \<open>band\<close> reads a mask as the set of its bit positions; every operation is
  characterised by its effect on that set.
\<close>

type_synonym RBBits = "u64 list"

section \<open>Operations\<close>

text \<open>Trailing-zero count, as \<open>__builtin_ctzll\<close> returns it on a non-zero word.\<close>

definition ctz64 :: "u64 \<Rightarrow> nat" where
  "ctz64 x = (case List.find (bit x) [0..<64] of None \<Rightarrow> 64 | Some i \<Rightarrow> i)"

definition RBTrimBits :: "RBBits \<Rightarrow> nat \<Rightarrow> RBBits result" where
  "RBTrimBits bits width =
     guardE (width > 256) (InvalidArgument ''RBTrimBits width > 256'')
       (if width = 256 then Inr bits
        else
          let full = width div 64;
              rem = width mod 64;
              from = full + (if rem \<noteq> 0 then 1 else 0);
              zeroed = map (\<lambda>i. if from \<le> i then 0 else bits ! i) [0..<length bits]
          in Inr (if rem \<noteq> 0 \<and> full < length zeroed
                  then zeroed[full := zeroed ! full AND (push_bit rem 1 - 1)]
                  else zeroed))"

definition RBMaskBits :: "u64 list \<Rightarrow> nat \<Rightarrow> RBBits result" where
  "RBMaskBits m width = RBTrimBits m width"

definition RBHasBits :: "RBBits \<Rightarrow> bool" where
  "RBHasBits bits = ((bits ! 0 OR bits ! 1 OR bits ! 2 OR bits ! 3) \<noteq> 0)"

definition RBEnsureBits :: "RBBits \<Rightarrow> RBBits" where
  "RBEnsureBits bits = (if \<not> RBHasBits bits then bits[0 := 1] else bits)"

definition RBBit :: "RBBits \<Rightarrow> nat \<Rightarrow> bool" where
  "RBBit bits idx = ((drop_bit (idx mod 64) (bits ! (idx div 64)) AND 1) \<noteq> 0)"

fun RBLead_from :: "nat \<Rightarrow> RBBits \<Rightarrow> nat \<Rightarrow> nat" where
  "RBLead_from i [] width = width"
| "RBLead_from i (b # bs) width =
     (if b \<noteq> 0 then i * 64 + ctz64 b else RBLead_from (Suc i) bs width)"

definition RBLead :: "RBBits \<Rightarrow> nat \<Rightarrow> nat" where
  "RBLead bits width = RBLead_from 0 bits width"

definition RBZeroBelow :: "RBBits \<Rightarrow> nat \<Rightarrow> RBBits" where
  "RBZeroBelow bits idx =
     (let limb = idx div 64;
          off = idx mod 64;
          zeroed = map (\<lambda>i. if i < limb then 0 else bits ! i) [0..<length bits]
      in if limb < length zeroed \<and> off \<noteq> 0
         then zeroed[limb := zeroed ! limb AND NOT (push_bit off 1 - 1)]
         else zeroed)"

text \<open>One pass of the loop body of \<open>RBShiftLeft\<close>, for input limb \<open>i\<close>.\<close>

definition RBShiftLeft_step :: "RBBits \<Rightarrow> nat \<Rightarrow> nat \<Rightarrow> RBBits \<Rightarrow> nat \<Rightarrow> RBBits" where
  "RBShiftLeft_step inp limbShift bitShift out i =
     (if inp ! i = 0 then out
      else
        let dst = i + limbShift;
            out1 = (if dst < length out
                    then out[dst := out ! dst OR push_bit bitShift (inp ! i)] else out)
        in if bitShift \<noteq> 0 \<and> dst + 1 < length out1
           then out1[dst + 1 := out1 ! (dst + 1) OR drop_bit (64 - bitShift) (inp ! i)]
           else out1)"

definition RBShiftLeft :: "RBBits \<Rightarrow> nat \<Rightarrow> RBBits" where
  "RBShiftLeft inp shift =
     (if shift \<ge> 256 then replicate 4 0
      else foldl (RBShiftLeft_step inp (shift div 64) (shift mod 64))
             (replicate 4 0) [0..<length inp])"

text \<open>One pass of the loop body of \<open>RBShiftRight\<close>, for input limb \<open>i \<ge> limbShift\<close>.\<close>

definition RBShiftRight_step :: "RBBits \<Rightarrow> nat \<Rightarrow> nat \<Rightarrow> RBBits \<Rightarrow> nat \<Rightarrow> RBBits" where
  "RBShiftRight_step inp limbShift bitShift out i =
     (let dst = i - limbShift;
          out1 = out[dst := out ! dst OR drop_bit bitShift (inp ! i)]
      in if bitShift \<noteq> 0 \<and> i + 1 < length inp
         then out1[dst := out1 ! dst OR push_bit (64 - bitShift) (inp ! (i + 1))]
         else out1)"

definition RBShiftRight :: "RBBits \<Rightarrow> nat \<Rightarrow> RBBits" where
  "RBShiftRight inp shift =
     (if shift \<ge> 256 then replicate 4 0
      else foldl (RBShiftRight_step inp (shift div 64) (shift mod 64))
             (replicate 4 0) [shift div 64..<length inp])"

definition RBXorShifted :: "RBBits \<Rightarrow> nat \<Rightarrow> RBBits \<Rightarrow> nat \<Rightarrow> nat \<Rightarrow> RBBits result" where
  "RBXorShifted dst dstOff src srcOff width =
     (let tmp = RBZeroBelow src srcOff;
          tmp = (if srcOff \<le> dstOff then RBShiftLeft tmp (dstOff - srcOff)
                 else RBShiftRight tmp (srcOff - dstOff))
      in bindE (RBTrimBits tmp width) (\<lambda>tmp. Inr (xor_list dst tmp)))"

section \<open>Masks as sets of bit positions\<close>

definition wf_bits :: "RBBits \<Rightarrow> bool" where
  "wf_bits bits \<longleftrightarrow> length bits = 4"

definition band :: "RBBits \<Rightarrow> nat set" where
  "band bits = {i. i < 256 \<and> bit (bits ! (i div 64)) (i mod 64)}"

lemma band_lt: "i \<in> band bits \<Longrightarrow> i < 256"
  by (simp add: band_def)

lemma RBBit_iff: "RBBit bits idx \<longleftrightarrow> bit (bits ! (idx div 64)) (idx mod 64)"
  by (simp add: RBBit_def and_one_eq bit_iff_odd_drop_bit odd_iff_mod_2_eq_one)

lemma RBBit_band: "idx < 256 \<Longrightarrow> RBBit bits idx \<longleftrightarrow> idx \<in> band bits"
  by (simp add: RBBit_iff band_def)

lemma bit_mask64 [simp]: "bit (2 ^ n - 1 :: u64) i \<longleftrightarrow> i < n \<and> i < 64"
  using bit_mask_iff [of n i, where ?'a = "u64"] by (auto simp: mask_eq_exp_minus_1)

lemma wf_bits_cases:
  assumes "wf_bits bits"
  obtains a b c d where "bits = [a, b, c, d]"
  using assms by (auto simp: wf_bits_def length_Suc_conv eval_nat_numeral)

lemma limb_index: "i < 256 \<Longrightarrow> i div 64 < (4::nat)"
  by simp

lemma band_eqI:
  assumes "\<And>k m. k < 4 \<Longrightarrow> m < 64 \<Longrightarrow>
    bit (bits ! k) m \<longleftrightarrow> 64 * k + m \<in> S"
    and "\<And>i. i \<in> S \<Longrightarrow> i < 256"
  shows "band bits = S"
proof (rule set_eqI)
  fix i
  show "i \<in> band bits \<longleftrightarrow> i \<in> S"
    using assms(1)[of "i div 64" "i mod 64"] assms(2)[of i]
    by (auto simp: band_def)
qed

lemma band_iff: "k < 4 \<Longrightarrow> m < 64 \<Longrightarrow> 64 * k + m \<in> band bits \<longleftrightarrow> bit (bits ! k) m"
  by (simp add: band_def)

lemma RBTrimBits_spec:
  assumes "wf_bits bits" and "width \<le> 256"
  shows "\<exists>bits'. RBTrimBits bits width = Inr bits' \<and> wf_bits bits'
           \<and> band bits' = {i \<in> band bits. i < width}"
proof (cases "width = 256")
  case True
  then have "{i \<in> band bits. i < width} = band bits" by (auto dest: band_lt)
  with True assms show ?thesis by (auto simp: RBTrimBits_def)
next
  case False
  define full rem from' where "full = width div 64" and "rem = width mod 64"
    and "from' = full + (if rem \<noteq> 0 then 1 else 0)"
  define z where "z = map (\<lambda>i. if from' \<le> i then 0 else bits ! i) [0..<length bits]"
  define r where "r = (if rem \<noteq> 0 \<and> full < length z
                  then z[full := z ! full AND (push_bit rem 1 - 1)] else z)"
  have len: "length bits = 4" using assms(1) by (simp add: wf_bits_def)
  have full: "full < 4" using assms(2) False by (simp add: full_def)
  have w: "width = 64 * full + rem" and rem: "rem < 64" by (simp_all add: full_def rem_def)
  have lenz: "length z = 4" and lenr: "length r = 4" by (simp_all add: z_def r_def len)
  have "band r = {i \<in> band bits. i < width}"
  proof (rule band_eqI)
    fix k m :: nat
    assume k: "k < 4" and m: "m < 64"
    consider "k < full" "64 * k + m < width" | "k = full" "64 * k + m < width \<longleftrightarrow> m < rem"
      | "k > full" "\<not> 64 * k + m < width"
      using w rem m by linarith
    then show "bit (r ! k) m \<longleftrightarrow> 64 * k + m \<in> {i \<in> band bits. i < width}"
      using k m len full rem lenz
      by cases (auto simp: r_def z_def from'_def bit_and_iff band_iff)
  qed (auto dest: band_lt)
  moreover have "RBTrimBits bits width = Inr r"
    using False assms(2) unfolding RBTrimBits_def r_def z_def from'_def full_def rem_def
    by (simp add: Let_def)
  ultimately show ?thesis using lenr by (simp add: wf_bits_def)
qed

lemma RBZeroBelow_spec:
  assumes "wf_bits bits"
  shows "wf_bits (RBZeroBelow bits idx)"
    and "band (RBZeroBelow bits idx) = {i \<in> band bits. idx \<le> i}"
proof -
  define limb off where "limb = idx div 64" and "off = idx mod 64"
  have len: "length bits = 4" using assms by (simp add: wf_bits_def)
  have idx: "idx = 64 * limb + off" and off: "off < 64" by (simp_all add: limb_def off_def)
  show "wf_bits (RBZeroBelow bits idx)" by (simp add: RBZeroBelow_def wf_bits_def len Let_def)
  show "band (RBZeroBelow bits idx) = {i \<in> band bits. idx \<le> i}"
  proof (rule band_eqI)
    fix k m :: nat
    assume k: "k < 4" and m: "m < 64"
    consider "k < limb" "\<not> idx \<le> 64 * k + m" | "k = limb" "idx \<le> 64 * k + m \<longleftrightarrow> off \<le> m"
      | "k > limb" "idx \<le> 64 * k + m"
      using idx off m by linarith
    then show "bit (RBZeroBelow bits idx ! k) m \<longleftrightarrow> 64 * k + m \<in> {i \<in> band bits. idx \<le> i}"
      using k m len off
      by cases (auto simp: RBZeroBelow_def Let_def bit_and_iff bit_not_iff band_iff
          simp flip: limb_def off_def)
  qed (auto dest: band_lt)
qed

lemma RBShiftLeft_step_alt:
  "RBShiftLeft_step inp l s out i =
     (let out1 = (if i + l < length out
                    then out[i + l := out ! (i + l) OR push_bit s (inp ! i)] else out)
        in if s \<noteq> 0 \<and> i + l + 1 < length out1
           then out1[i + l + 1 := out1 ! (i + l + 1) OR drop_bit (64 - s) (inp ! i)]
           else out1)"
  by (simp add: RBShiftLeft_step_def Let_def)

lemma bit_shift_pair:
  fixes x y :: u64
  assumes "s < 64" and "m < 64"
  shows "bit (push_bit s x) m \<longleftrightarrow> s \<le> m \<and> bit x (m - s)"
    and "s \<noteq> 0 \<Longrightarrow> bit (drop_bit (64 - s) y) m \<longleftrightarrow> m < s \<and> bit y (64 + m - s)"
    and "bit (drop_bit s x) m \<longleftrightarrow> m + s < 64 \<and> bit x (m + s)"
    and "s \<noteq> 0 \<Longrightarrow> bit (push_bit (64 - s) y) m \<longleftrightarrow> 64 \<le> m + s \<and> bit y (m + s - 64)"
  using assms bit_imp_le_length[of x] bit_imp_le_length[of y]
  by (auto simp: bit_push_bit_iff bit_drop_bit_eq add.commute dest: bit_imp_le_length)


lemma length_RBShiftLeft_step [simp]: "length (RBShiftLeft_step inp l s out i) = length out"
  by (simp add: RBShiftLeft_step_def Let_def)

lemma length_RBShiftLeft_fold [simp]:
  "length (foldl (RBShiftLeft_step inp l s) out xs) = length out"
  by (induction xs arbitrary: out) simp_all

lemma length_RBShiftRight_step [simp]: "length (RBShiftRight_step inp l s out i) = length out"
  by (simp add: RBShiftRight_step_def Let_def)

lemma length_RBShiftRight_fold [simp]:
  "length (foldl (RBShiftRight_step inp l s) out xs) = length out"
  by (induction xs arbitrary: out) simp_all

text \<open>What the two loops have accumulated in limb \<open>k\<close> after the first \<open>n\<close> input limbs.\<close>

lemma RBShiftLeft_fold_nth:
  assumes "k < 4"
  shows "foldl (RBShiftLeft_step inp l s) (replicate 4 0) [0..<n] ! k =
     (if l \<le> k \<and> k - l < n then push_bit s (inp ! (k - l)) else 0) OR
     (if s \<noteq> 0 \<and> l < k \<and> k - l - 1 < n then drop_bit (64 - s) (inp ! (k - l - 1)) else 0)"
  using assms
proof (induction n)
  case 0
  then show ?case by simp
next
  case (Suc n)
  define acc where "acc = foldl (RBShiftLeft_step inp l s) (replicate 4 0) [0..<n]"
  have len: "length acc = 4" by (simp add: acc_def)
  have "RBShiftLeft_step inp l s acc n ! k =
     acc ! k OR (if k = n + l then push_bit s (inp ! n) else 0)
       OR (if s \<noteq> 0 \<and> k = n + l + 1 then drop_bit (64 - s) (inp ! n) else 0)"
    using Suc.prems len by (auto simp: RBShiftLeft_step_alt Let_def nth_list_update)
  moreover have "foldl (RBShiftLeft_step inp l s) (replicate 4 0) [0..<Suc n]
      = RBShiftLeft_step inp l s acc n"
    by (simp add: acc_def)
  moreover have "acc ! k = (if l \<le> k \<and> k - l < n then push_bit s (inp ! (k - l)) else 0) OR
     (if s \<noteq> 0 \<and> l < k \<and> k - l - 1 < n then drop_bit (64 - s) (inp ! (k - l - 1)) else 0)"
    using Suc by (simp add: acc_def)
  ultimately show ?case by (auto simp: ac_simps less_Suc_eq)
qed

lemma RBShiftRight_fold_nth:
  assumes "k < 4" and "length inp = 4" and "l \<le> n" and "n \<le> 4"
  shows "foldl (RBShiftRight_step inp l s) (replicate 4 0) [l..<n] ! k =
     (if l + k < n then drop_bit s (inp ! (l + k)) OR
        (if s \<noteq> 0 \<and> l + k + 1 < 4 then push_bit (64 - s) (inp ! (l + k + 1)) else 0)
      else 0)"
  using assms(3,4)
proof (induction n rule: dec_induct)
  case base
  then show ?case using assms(1) by simp
next
  case (step n)
  define acc where "acc = foldl (RBShiftRight_step inp l s) (replicate 4 0) [l..<n]"
  have len: "length acc = 4" by (simp add: acc_def)
  have "acc ! k = (if l + k < n then drop_bit s (inp ! (l + k)) OR
        (if s \<noteq> 0 \<and> l + k + 1 < 4 then push_bit (64 - s) (inp ! (l + k + 1)) else 0)
      else 0)"
    using step by (simp add: acc_def)
  moreover have "foldl (RBShiftRight_step inp l s) (replicate 4 0) [l..<Suc n]
      = RBShiftRight_step inp l s acc n"
    using step.hyps by (simp add: acc_def)
  moreover have "RBShiftRight_step inp l s acc n ! k = acc ! k OR
      (if k = n - l then drop_bit s (inp ! n) OR
        (if s \<noteq> 0 \<and> n + 1 < 4 then push_bit (64 - s) (inp ! (n + 1)) else 0) else 0)"
    using assms(1,2) len step.prems step.hyps
    by (simp add: RBShiftRight_step_def Let_def nth_list_update or.assoc)
  moreover have "k = n - l \<longleftrightarrow> l + k = n" using step.hyps by linarith
  ultimately show ?case by (auto simp: less_Suc_eq)
qed

lemma limb_lt: "m < 64 \<Longrightarrow> 64 * k + m < 256 \<longleftrightarrow> k < (4::nat)"
  by linarith

lemma sub_limbs:
  fixes k l m s :: nat
  assumes "m < 64" and "s < 64"
  shows "s \<le> m \<Longrightarrow> l \<le> k \<Longrightarrow> 64 * k + m - (64 * l + s) = 64 * (k - l) + (m - s)"
    and "m < s \<Longrightarrow> l < k \<Longrightarrow> 64 * k + m - (64 * l + s) = 64 * (k - l - 1) + (64 + m - s)"
    and "64 * l + s \<le> 64 * k + m \<longleftrightarrow> (l < k \<or> (l = k \<and> s \<le> m))"
  using assms by arith+

lemma RBShiftLeft_spec:
  assumes "wf_bits bits"
  shows "wf_bits (RBShiftLeft bits shift)"
    and "band (RBShiftLeft bits shift) = {i. i < 256 \<and> shift \<le> i \<and> i - shift \<in> band bits}"
proof -
  define l s where "l = shift div 64" and "s = shift mod 64"
  have shift: "shift = 64 * l + s" and s: "s < 64" by (simp_all add: l_def s_def)
  have len: "length bits = 4" using assms by (simp add: wf_bits_def)
  show "wf_bits (RBShiftLeft bits shift)" by (simp add: RBShiftLeft_def wf_bits_def)
  show "band (RBShiftLeft bits shift) = {i. i < 256 \<and> shift \<le> i \<and> i - shift \<in> band bits}"
  proof (cases "shift \<ge> 256")
    case True
    then show ?thesis by (intro band_eqI) (auto simp: RBShiftLeft_def)
  next
    case False
    show ?thesis
    proof (rule band_eqI)
      fix k m :: nat
      assume k: "k < 4" and m: "m < 64"
      have "RBShiftLeft bits shift ! k =
        (if l \<le> k then push_bit s (bits ! (k - l)) else 0) OR
        (if s \<noteq> 0 \<and> l < k then drop_bit (64 - s) (bits ! (k - l - 1)) else 0)"
        using False RBShiftLeft_fold_nth [OF k, of bits l s 4] diff_le_self [of k l]
          diff_le_self [of "k - l" 1] k
        by (auto simp add: RBShiftLeft_def len simp flip: l_def s_def)
      then have "bit (RBShiftLeft bits shift ! k) m \<longleftrightarrow>
        (l \<le> k \<and> s \<le> m \<and> bit (bits ! (k - l)) (m - s)) \<or>
        (l < k \<and> m < s \<and> bit (bits ! (k - l - 1)) (64 + m - s))"
        using bit_shift_pair [OF s m] by (auto simp: bit_or_iff)
      also have "\<dots> \<longleftrightarrow> shift \<le> 64 * k + m \<and> 64 * k + m - shift \<in> band bits"
        using sub_limbs [OF m s, of l k] k m s band_iff [of "k - l" "m - s" bits]
          band_iff [of "k - l - 1" "64 + m - s" bits] unfolding shift
        by (cases "s \<le> m") auto
      finally show "bit (RBShiftLeft bits shift ! k) m \<longleftrightarrow>
          64 * k + m \<in> {i. i < 256 \<and> shift \<le> i \<and> i - shift \<in> band bits}"
        using k m by auto
    qed auto
  qed
qed

lemma RBShiftRight_spec:
  assumes "wf_bits bits"
  shows "wf_bits (RBShiftRight bits shift)"
    and "band (RBShiftRight bits shift) = {i. i + shift \<in> band bits}"
proof -
  define l s where "l = shift div 64" and "s = shift mod 64"
  have shift: "shift = 64 * l + s" and s: "s < 64" by (simp_all add: l_def s_def)
  have len: "length bits = 4" using assms by (simp add: wf_bits_def)
  show "wf_bits (RBShiftRight bits shift)" by (simp add: RBShiftRight_def wf_bits_def)
  show "band (RBShiftRight bits shift) = {i. i + shift \<in> band bits}"
  proof (cases "shift \<ge> 256")
    case True
    then show ?thesis by (intro band_eqI) (auto simp: RBShiftRight_def dest: band_lt)
  next
    case False
    then have l: "l \<le> 4" by (simp add: l_def)
    show ?thesis
    proof (rule band_eqI)
      fix k m :: nat
      assume k: "k < 4" and m: "m < 64"
      have "RBShiftRight bits shift ! k =
        (if l + k < 4 then drop_bit s (bits ! (l + k)) OR
          (if s \<noteq> 0 \<and> l + k + 1 < 4 then push_bit (64 - s) (bits ! (l + k + 1)) else 0) else 0)"
        using False RBShiftRight_fold_nth [OF k len l order_refl]
        by (simp add: RBShiftRight_def len flip: l_def s_def)
      then have "bit (RBShiftRight bits shift ! k) m \<longleftrightarrow>
        (l + k < 4 \<and> m + s < 64 \<and> bit (bits ! (l + k)) (m + s)) \<or>
        (l + k + 1 < 4 \<and> 64 \<le> m + s \<and> bit (bits ! (l + k + 1)) (m + s - 64))"
        using bit_shift_pair [OF s m] m by (auto simp: bit_or_iff)
      also have "\<dots> \<longleftrightarrow> 64 * k + m + shift \<in> band bits"
      proof (cases "m + s < 64")
        case True
        then have "64 * k + m + shift = 64 * (l + k) + (m + s)" by (simp add: shift)
        moreover have "64 * (l + k) + (m + s) < 256 \<longleftrightarrow> l + k < 4" using True by (rule limb_lt)
        ultimately show ?thesis using True band_iff [of "l + k" "m + s" bits]
          by (metis band_lt linorder_not_less)
      next
        case False
        then have "64 * k + m + shift = 64 * (l + k + 1) + (m + s - 64)" by (simp add: shift)
        moreover have r: "m + s - 64 < 64" using m s by linarith
        moreover note limb_lt [OF r, of "l + k + 1"]
        ultimately show ?thesis using False band_iff [of "l + k + 1" "m + s - 64" bits]
          by (metis band_lt linorder_not_less)
      qed
      finally show "bit (RBShiftRight bits shift ! k) m \<longleftrightarrow>
          64 * k + m \<in> {i. i + shift \<in> band bits}" by simp
    qed (auto dest: band_lt)
  qed
qed

lemma band_xor:
  assumes "wf_bits a" and "wf_bits b"
  shows "wf_bits (xor_list a b)"
    and "i \<in> band (xor_list a b) \<longleftrightarrow> (i \<in> band a) \<noteq> (i \<in> band b)"
  using assms by (auto simp: wf_bits_def band_def bit_xor_iff)

text \<open>
  \<open>RBXorShifted\<close> aligns bit \<open>srcOff\<close> of the source with bit \<open>dstOff\<close> of the destination and
  flips, below \<open>width\<close>, the bits at and above that position that the source has.
\<close>

lemma RBXorShifted_spec:
  assumes "wf_bits dst" and "wf_bits src" and "width \<le> 256"
  shows "\<exists>r. RBXorShifted dst dstOff src srcOff width = Inr r \<and> wf_bits r \<and>
    (\<forall>i. i \<in> band r \<longleftrightarrow>
       (i \<in> band dst) \<noteq> (i < width \<and> dstOff \<le> i \<and> i - dstOff + srcOff \<in> band src))"
proof -
  define t where "t = RBZeroBelow src srcOff"
  define t' where "t' = (if srcOff \<le> dstOff then RBShiftLeft t (dstOff - srcOff)
                         else RBShiftRight t (srcOff - dstOff))"
  have t: "wf_bits t" "band t = {i \<in> band src. srcOff \<le> i}"
    using RBZeroBelow_spec [OF assms(2)] by (simp_all add: t_def)
  have t': "wf_bits t'" "\<And>i. i < width \<Longrightarrow>
      i \<in> band t' \<longleftrightarrow> dstOff \<le> i \<and> i - dstOff + srcOff \<in> band src"
    using RBShiftLeft_spec [OF t(1)] RBShiftRight_spec [OF t(1)] assms(3)
    by (auto simp: t'_def t(2))
  obtain t'' where t'': "RBTrimBits t' width = Inr t''" "wf_bits t''"
      "band t'' = {i \<in> band t'. i < width}"
    using RBTrimBits_spec [OF t'(1) assms(3)] by blast
  have "RBXorShifted dst dstOff src srcOff width = Inr (xor_list dst t'')"
    using t''(1) by (simp add: RBXorShifted_def Let_def flip: t_def t'_def)
  moreover have "i \<in> band (xor_list dst t'') \<longleftrightarrow>
      (i \<in> band dst) \<noteq> (i < width \<and> dstOff \<le> i \<and> i - dstOff + srcOff \<in> band src)" for i
  proof -
    have "i \<in> band t'' \<longleftrightarrow> i < width \<and> dstOff \<le> i \<and> i - dstOff + srcOff \<in> band src"
      using t'(2) [of i] by (auto simp: t''(3))
    then show ?thesis by (simp add: band_xor(2) [OF assms(1) t''(2)])
  qed
  ultimately show ?thesis using band_xor(1) [OF assms(1) t''(2)] by blast
qed

lemma ctz64_spec:
  assumes "x \<noteq> 0"
  shows "ctz64 x < 64" and "bit x (ctz64 x)" and "\<And>i. i < ctz64 x \<Longrightarrow> \<not> bit x i"
proof -
  obtain j where j: "bit x j" "j < 64"
    using assms bit_imp_le_length[of x] by (auto simp: bit_eq_iff)
  then obtain i where i: "List.find (bit x) [0..<64] = Some i"
    by (metis atLeastLessThan_iff find_None_iff not_Some_eq set_upt zero_le)
  then have c: "ctz64 x = i" by (simp add: ctz64_def)
  from i obtain k where k: "k < length [0..<64]" "bit x ([0..<64] ! k)" "i = [0..<64] ! k"
    "\<forall>j<k. \<not> bit x ([0..<64] ! j)"
    by (auto simp: find_Some_iff)
  then have "k < 64" "i = k" by simp_all
  with k c show "ctz64 x < 64" "bit x (ctz64 x)" by auto
  show "\<not> bit x j" if "j < ctz64 x" for j using that k \<open>i = k\<close> c by auto
qed

lemma RBLead_from_spec:
  "(\<forall>b \<in> set bs. b = 0) \<and> RBLead_from i bs w = w \<or>
   (\<exists>k < length bs. bs ! k \<noteq> 0 \<and> (\<forall>j < k. bs ! j = 0) \<and>
      RBLead_from i bs w = (i + k) * 64 + ctz64 (bs ! k))"
proof (induction bs arbitrary: i)
  case (Cons b bs)
  show ?case
  proof (cases "b = 0")
    case True
    from Cons [of "Suc i"] show ?thesis
    proof
      assume "\<exists>k < length bs. bs ! k \<noteq> 0 \<and> (\<forall>j < k. bs ! j = 0) \<and>
        RBLead_from (Suc i) bs w = (Suc i + k) * 64 + ctz64 (bs ! k)"
      then obtain k where "k < length bs" "bs ! k \<noteq> 0" "\<forall>j < k. bs ! j = 0"
        "RBLead_from (Suc i) bs w = (Suc i + k) * 64 + ctz64 (bs ! k)" by blast
      with True show ?thesis
        by (intro disjI2 exI [of _ "Suc k"]) (auto simp: nth_Cons split: nat.splits)
    qed (use True in auto)
  qed (auto intro: exI [of _ 0])
qed simp

lemma RBLead_spec:
  assumes "wf_bits bits"
  shows "band bits = {} \<Longrightarrow> RBLead bits width = width"
    and "band bits \<noteq> {} \<Longrightarrow> RBLead bits width \<in> band bits \<and> (\<forall>i \<in> band bits. RBLead bits width \<le> i)"
proof -
  have len: "length bits = 4" using assms by (simp add: wf_bits_def)
  consider (none) "\<forall>b \<in> set bits. b = 0" "RBLead bits width = width"
    | (some) k where "k < 4" "bits ! k \<noteq> 0" "\<forall>j < k. bits ! j = 0"
        "RBLead bits width = 64 * k + ctz64 (bits ! k)"
    using RBLead_from_spec [of bits 0 width] len by (auto simp: RBLead_def mult.commute)
  note cs = this
  have nonzero: "bits ! k = 0 \<or> band bits \<noteq> {}" if "k < 4" for k
  proof (rule disjCI)
    assume "\<not> band bits \<noteq> {}"
    then have "\<not> bit (bits ! k) m" for m
      using band_iff [OF that, of m bits] bit_imp_le_length [of "bits ! k" m] by auto
    then show "bits ! k = 0" by (simp add: bit_eq_iff)
  qed
  show "RBLead bits width = width" if "band bits = {}"
    using cs nonzero that by cases blast+
  show "RBLead bits width \<in> band bits \<and> (\<forall>i \<in> band bits. RBLead bits width \<le> i)"
    if ne: "band bits \<noteq> {}"
  proof (cases rule: cs)
    case none
    have "bits ! (i div 64) = 0" if "i < 256" for i
      using none(1) that len by (metis limb_index nth_mem)
    then have "band bits = {}" by (auto simp: band_def)
    with ne show ?thesis by simp
  next
    case (some k)
    note z = ctz64_spec [OF some(2)]
    have "RBLead bits width \<in> band bits"
      using z some(1) by (simp add: some(4) band_iff)
    moreover have "RBLead bits width \<le> i" if "i \<in> band bits" for i
    proof -
      have b: "bit (bits ! (i div 64)) (i mod 64)" using that by (simp add: band_def)
      then have "k \<le> i div 64" using some(3) by (metis bit_0_eq bot_apply bot_bool_def not_le)
      moreover have "i = 64 * (i div 64) + i mod 64" by simp
      moreover have "ctz64 (bits ! k) \<le> i mod 64" if "i div 64 = k"
        using z(3) b that by (meson not_le)
      ultimately show ?thesis using z(1) some(4) by (cases "i div 64 = k") linarith+
    qed
    ultimately show ?thesis by blast
  qed
qed

lemma RBHasBits_spec: "wf_bits bits \<Longrightarrow> RBHasBits bits \<longleftrightarrow> band bits \<noteq> {}"
proof -
  assume "wf_bits bits"
  then obtain a b c d where bits: "bits = [a, b, c, d]" by (rule wf_bits_cases)
  have "(x = 0) \<longleftrightarrow> (\<forall>m < 64. \<not> bit x m)" for x :: u64
    using bit_imp_le_length [of x] by (auto simp: bit_eq_iff)
  note z = this
  have k4: "k < 4 \<longleftrightarrow> k = 0 \<or> k = 1 \<or> k = 2 \<or> k = 3" for k :: nat by linarith
  have "RBHasBits bits \<longleftrightarrow> \<not> (a = 0 \<and> b = 0 \<and> c = 0 \<and> d = 0)"
    by (simp add: RBHasBits_def bits or_eq_0_iff)
  also have "\<dots> \<longleftrightarrow> (\<exists>k < 4. bits ! k \<noteq> 0)"
    unfolding k4 conj_disj_distribR ex_disj_distrib by (simp add: bits)
  also have "\<dots> \<longleftrightarrow> (\<exists>k < 4. \<exists>m < 64. 64 * k + m \<in> band bits)"
    using z band_iff by (metis (no_types))
  also have "\<dots> \<longleftrightarrow> band bits \<noteq> {}"
  proof
    assume "band bits \<noteq> {}"
    then obtain i where i: "i \<in> band bits" by blast
    then have "i div 64 < 4" "i mod 64 < 64" "64 * (i div 64) + i mod 64 \<in> band bits"
      using band_lt [OF i] by simp_all
    then show "\<exists>k < 4. \<exists>m < 64. 64 * k + m \<in> band bits" by blast
  qed blast
  finally show ?thesis .
qed

lemma RBEnsureBits_spec:
  assumes "wf_bits bits"
  shows "wf_bits (RBEnsureBits bits)"
    and "band (RBEnsureBits bits) = (if band bits = {} then {0} else band bits)"
proof -
  show "wf_bits (RBEnsureBits bits)" using assms by (simp add: RBEnsureBits_def wf_bits_def)
  have "band (bits[0 := 1]) = {0}" if "band bits = {}"
  proof (rule band_eqI)
    fix k m :: nat assume "k < 4" "m < 64"
    then show "bit (bits[0 := 1] ! k) m \<longleftrightarrow> 64 * k + m \<in> {0}"
      using assms that band_iff [of k m bits] by (auto simp: nth_list_update wf_bits_def bit_1_iff)
  qed simp
  then show "band (RBEnsureBits bits) = (if band bits = {} then {0} else band bits)"
    using RBHasBits_spec [OF assms] by (auto simp: RBEnsureBits_def)
qed

end
