(* ===== verification/RB_Parallel.thy ===== *)
theory RB_Parallel
  imports PSI_Prelude
begin

text \<open>
  The thread-chunked loop of \<open>frontend/okvs/rb/parallel.h\<close>. The hardware concurrency the
  standard library reports is the argument \<open>hc\<close>. A loop body that fills slot \<open>i\<close> of an output
  vector is a function of \<open>i\<close>; the loop is the list of its results, chunk after chunk.
\<close>

definition RBHwThreads :: "nat \<Rightarrow> nat" where
  "RBHwThreads hc = max 1 hc"

definition RBWorkerThreads :: "nat \<Rightarrow> bool \<Rightarrow> nat \<Rightarrow> nat" where
  "RBWorkerThreads hc multiThread requested =
     (if \<not> multiThread then 1
      else let hw = RBHwThreads hc
           in if requested = 0 then hw else max 1 (min requested hw))"

function RBFor_spawn :: "nat \<Rightarrow> nat \<Rightarrow> nat \<Rightarrow> nat \<Rightarrow> (nat \<times> nat) list" where
  "RBFor_spawn n chunk thrN t =
     (if t < thrN
      then let begin = min n (t * chunk); end = min n (begin + chunk)
           in if begin \<ge> end then [] else (begin, end) # RBFor_spawn n chunk thrN (Suc t)
      else [])"
  by pat_completeness auto
termination
  by (relation "measure (\<lambda>(n, chunk, thrN, t). thrN - t)") auto

declare RBFor_spawn.simps [simp del]

definition RBFor_chunks :: "nat \<Rightarrow> nat \<Rightarrow> bool \<Rightarrow> nat \<Rightarrow> (nat \<times> nat) list" where
  "RBFor_chunks hc n multiThread workerThreads =
     (if n = 0 then []
      else if \<not> multiThread then [(0, n)]
      else
        let thrN = min (RBWorkerThreads hc multiThread workerThreads) n
        in if thrN \<le> 1 \<or> n < 64 then [(0, n)]
           else RBFor_spawn n ((n + thrN - 1) div thrN) thrN 0)"

text \<open>
  The loop itself. A body that throws ends its own chunk; the threads are joined and an
  exception is rethrown (the one of the first failing chunk here).
\<close>

definition RBFor :: "nat \<Rightarrow> nat \<Rightarrow> bool \<Rightarrow> nat \<Rightarrow> (nat \<Rightarrow> 'a result) \<Rightarrow> 'a list result" where
  "RBFor hc n multiThread workerThreads fn =
     bindE (mapE (\<lambda>(begin, end). mapE fn [begin..<end]) (RBFor_chunks hc n multiThread workerThreads))
       (\<lambda>rs. Inr (concat rs))"

section \<open>Equivalence with the sequential loop\<close>

lemma RBFor_spawn_ranges:
  "0 < chunk \<Longrightarrow> concat (map (\<lambda>(b, e). [b..<e]) (RBFor_spawn n chunk thrN t)) =
    concat (map (\<lambda>t. [min n (t * chunk)..<min n (t * chunk + chunk)]) [t..<thrN])"
proof (induction n chunk thrN t rule: RBFor_spawn.induct)
  case (1 n chunk thrN t)
  show ?case
  proof (cases "t < thrN")
    case False
    then show ?thesis by (simp add: RBFor_spawn.simps)
  next
    case True
    define b e where "b = min n (t * chunk)" and "e = min n (b + chunk)"
    have e: "e = min n (t * chunk + chunk)" by (auto simp: e_def b_def min_def)
    show ?thesis
    proof (cases "b \<ge> e")
      case True
      then have "n \<le> t * chunk"
        using e "1.prems" by (auto simp: b_def min_def split: if_splits)
      then have "n \<le> t' * chunk" if "t \<le> t'" for t'
        using mult_le_mono1 [OF that, of chunk] by linarith
      then have "\<forall>t' \<in> set [t..<thrN]. [min n (t' * chunk)..<min n (t' * chunk + chunk)] = []"
        by (auto simp: min_def)
      then show ?thesis using True \<open>t < thrN\<close>
        by (simp add: RBFor_spawn.simps [of n chunk thrN t] Let_def flip: b_def e_def)
    next
      case False
      with "1.IH" "1.prems" True have "concat (map (\<lambda>(b, e). [b..<e]) (RBFor_spawn n chunk thrN (Suc t))) =
        concat (map (\<lambda>t. [min n (t * chunk)..<min n (t * chunk + chunk)]) [Suc t..<thrN])"
        by (simp add: b_def e_def)
      then show ?thesis using True False
        by (simp add: RBFor_spawn.simps [of n chunk thrN t] Let_def upt_conv_Cons e b_def
            flip: b_def e_def)
    qed
  qed
qed

text \<open>The chunks are consecutive and cover every index exactly once, whatever the thread count.\<close>

lemma RBFor_chunks_cover:
  "concat (map (\<lambda>(b, e). [b..<e]) (RBFor_chunks hc n multiThread workerThreads)) = [0..<n]"
proof -
  define thrN where "thrN = min (RBWorkerThreads hc multiThread workerThreads) n"
  have "concat (map (\<lambda>(b, e). [b..<e]) (RBFor_spawn n ((n + thrN - 1) div thrN) thrN 0)) = [0..<n]"
    if "1 < thrN" "0 < n"
  proof -
    have "0 < (n + thrN - 1) div thrN" using that by (intro ceil_div_pos) auto
    moreover have "n \<le> thrN * ((n + thrN - 1) div thrN)" using that by (intro ceil_div_mult) auto
    ultimately show ?thesis by (simp add: RBFor_spawn_ranges concat_chunk_ranges min_absorb1)
  qed
  then show ?thesis
    by (cases multiThread) (auto simp: RBFor_chunks_def Let_def not_le thrN_def)
qed

lemma mapE_append:
  "mapE f (xs @ ys) = bindE (mapE f xs) (\<lambda>rs. bindE (mapE f ys) (\<lambda>rs'. Inr (rs @ rs')))"
  by (induction xs) (auto simp: bindE_def split: sum.splits)

lemma mapE_concat:
  "bindE (mapE (mapE f) xss) (\<lambda>rs. Inr (concat rs)) = mapE f (concat xss)"
  by (induction xss) (auto simp: mapE_append bindE_def split: sum.splits)

lemma mapE_map: "mapE f (map g xs) = mapE (\<lambda>x. f (g x)) xs"
  by (induction xs) auto

lemma RBFor_sequential: "RBFor hc n multiThread workerThreads fn = mapE fn [0..<n]"
proof -
  have "RBFor hc n multiThread workerThreads fn =
      bindE (mapE (mapE fn) (map (\<lambda>(b, e). [b..<e]) (RBFor_chunks hc n multiThread workerThreads)))
        (\<lambda>rs. Inr (concat rs))"
    by (simp add: RBFor_def mapE_map case_prod_unfold)
  then show ?thesis by (simp only: mapE_concat RBFor_chunks_cover)
qed

end
