(* ===== verification/Float64.thy ===== *)
theory Float64
  imports Complex_Main
begin

text \<open>
  IEEE 754 binary64 arithmetic as the C++ type \<open>double\<close> performs it: every operation is the
  exact real operation followed by rounding to the nearest representable value, ties to even.
  Finite values only (the parameter code of \<open>frontend/okvs/rb/fit.h\<close> never reaches the
  overflow threshold), gradual underflow included.
\<close>

definition rne :: "real \<Rightarrow> int" where
  "rne y =
     (let f = \<lfloor>y\<rfloor>; d = y - of_int f
      in if d < 1/2 then f else if d > 1/2 then f + 1 else if even f then f else f + 1)"

text \<open>Binary exponent of a double: the least exponent of the format is \<open>-1022\<close>.\<close>

definition double_exps :: "int list" where
  "double_exps = [-1022..1023]"

definition dexp :: "real \<Rightarrow> int" where
  "dexp x = (case List.find (\<lambda>e. \<bar>x\<bar> < 2 powi (e + 1)) double_exps of
       None \<Rightarrow> 1023 | Some e \<Rightarrow> e)"

definition rnd64 :: "real \<Rightarrow> real" where
  "rnd64 x = (let u = 2 powi (dexp x - 52) in of_int (rne (x / u)) * u)"

text \<open>\<open>std::round\<close>: to the nearest integer, ties away from zero.\<close>

definition std_round :: "real \<Rightarrow> real" where
  "std_round x = (if 0 \<le> x then of_int \<lfloor>x + 1/2\<rfloor> else - of_int \<lfloor>- x + 1/2\<rfloor>)"

section \<open>Error bound\<close>

lemma rne_error: "\<bar>of_int (rne y) - y\<bar> \<le> 1/2"
  unfolding rne_def Let_def by (auto split: if_splits)

lemma rne_of_int [simp]: "rne (of_int k) = k"
  by (simp add: rne_def)

lemma dexp_spec:
  assumes "\<bar>x\<bar> < 2 powi 1024"
  shows "dexp x \<in> {-1022..1023}" and "\<bar>x\<bar> < 2 powi (dexp x + 1)"
    and "2 powi (-1022) \<le> \<bar>x\<bar> \<Longrightarrow> 2 powi (dexp x) \<le> \<bar>x\<bar>"
proof -
  let ?P = "\<lambda>e. \<bar>x\<bar> < 2 powi (e + 1)"
  let ?xs = double_exps
  have "?P 1023" using assms by simp
  moreover have "1023 \<in> set ?xs" by (simp add: double_exps_def)
  ultimately obtain e where e: "List.find ?P ?xs = Some e"
    by (metis (no_types, lifting) find_None_iff not_Some_eq)
  then have d: "dexp x = e" by (simp add: dexp_def)
  obtain i where i: "i < length ?xs" "?P (?xs ! i)" "e = ?xs ! i" "\<forall>j < i. \<not> ?P (?xs ! j)"
    using e unfolding find_Some_iff by blast
  have nth: "?xs ! j = -1022 + int j" if "j < length ?xs" for j
    using that unfolding double_exps_def length_upto by (subst nth_upto) auto
  show "dexp x \<in> {-1022..1023}"
    using i(3) nth_mem [OF i(1)] unfolding d double_exps_def set_upto by simp
  show "\<bar>x\<bar> < 2 powi (dexp x + 1)" using i by (simp add: d)
  show "2 powi (dexp x) \<le> \<bar>x\<bar>" if "2 powi (-1022) \<le> \<bar>x\<bar>"
  proof (cases i)
    case 0
    then show ?thesis using that nth [OF i(1)] by (simp add: d i(3))
  next
    case (Suc j)
    then have "\<not> ?P (?xs ! j)" and j: "j < length ?xs" using i by auto
    then have "2 powi (?xs ! j + 1) \<le> \<bar>x\<bar>" by linarith
    moreover have "?xs ! j + 1 = e" using nth [OF i(1)] nth [OF j] Suc i(3) by simp
    ultimately show ?thesis by (simp add: d)
  qed
qed

lemma dexp_least: "\<bar>x\<bar> < 2 powi (-1022) \<Longrightarrow> dexp x = -1022"
proof -
  assume "\<bar>x\<bar> < 2 powi (-1022)"
  also have "(2::real) powi (-1022) \<le> 2 powi (-1022 + 1)" by (intro power_int_increasing) auto
  finally have "\<bar>x\<bar> < 2 powi (-1022 + 1)" .
  moreover have "double_exps = -1022 # [-1021..1023]"
    unfolding double_exps_def by (subst upto_rec1) (simp_all del: upto_rec_numeral)
  ultimately have "List.find (\<lambda>e. \<bar>x\<bar> < 2 powi (e + 1)) double_exps = Some (-1022)"
    by (metis (no_types, lifting) List.find.simps(2))
  then show ?thesis by (simp add: dexp_def)
qed

lemma rnd64_error_abs: "\<bar>rnd64 x - x\<bar> \<le> 2 powi (dexp x - 52) / 2"
proof -
  define u :: real where "u = 2 powi (dexp x - 52)"
  have u: "u > 0" by (simp add: u_def)
  have "rnd64 x - x = (of_int (rne (x / u)) - x / u) * u"
    using u by (simp add: rnd64_def Let_def field_simps flip: u_def)
  then have "\<bar>rnd64 x - x\<bar> = \<bar>of_int (rne (x / u)) - x / u\<bar> * u"
    using u by (simp add: abs_mult)
  also have "\<dots> \<le> (1/2) * u" using rne_error [of "x / u"] u by (intro mult_right_mono) auto
  finally show ?thesis by (simp add: u_def)
qed

text \<open>Rounding changes a value of the normal range by at most one part in \<open>2 ^ 53\<close>.\<close>

lemma rnd64_error:
  assumes "\<bar>x\<bar> < 2 powi 1024" and "2 powi (-1022) \<le> \<bar>x\<bar>"
  shows "\<bar>rnd64 x - x\<bar> \<le> \<bar>x\<bar> / 2 ^ 53"
proof -
  have "\<bar>rnd64 x - x\<bar> \<le> 2 powi (dexp x - 52) / 2" by (rule rnd64_error_abs)
  also have "(2::real) powi (dexp x - 52) = 2 powi dexp x / 2 ^ 52"
    by (simp add: power_int_diff)
  also have "2 powi dexp x / 2 ^ 52 / 2 \<le> \<bar>x\<bar> / 2 ^ 53"
    using dexp_spec(3) [OF assms] by (simp add: field_simps)
  finally show ?thesis .
qed

lemma rnd64_0 [simp]: "rnd64 0 = 0"
  using rne_of_int [of 0] by (simp add: rnd64_def Let_def del: rne_of_int)

text \<open>A value with at most 53 significant bits is not changed.\<close>

lemma rnd64_exact:
  assumes x: "x = of_int m * 2 powi e" and m: "\<bar>m\<bar> < 2 ^ 53" and e: "-1074 \<le> e"
    and lt: "\<bar>x\<bar> < 2 powi 1024"
  shows "rnd64 x = x"
proof (cases "m = 0")
  case True
  then show ?thesis by (simp add: x)
next
  case False
  have mx: "real_of_int \<bar>m\<bar> < 2 ^ 53" using m
    by (metis of_int_less_iff of_int_numeral of_int_power)
  have le: "dexp x - 52 \<le> e"
  proof (rule ccontr)
    assume "\<not> dexp x - 52 \<le> e"
    then have ge: "e + 53 \<le> dexp x" by simp
    have "\<bar>x\<bar> = of_int \<bar>m\<bar> * 2 powi e" by (simp add: x abs_mult)
    also have "\<dots> < 2 ^ 53 * 2 powi e" using mx by simp
    also have "\<dots> = 2 powi (e + 53)" by (simp add: power_int_add)
    also have "\<dots> \<le> 2 powi (dexp x)" using ge by (simp add: power_int_increasing)
    finally have *: "\<bar>x\<bar> < 2 powi dexp x" .
    then have "\<not> 2 powi (-1022) \<le> \<bar>x\<bar>" using dexp_spec(3) [OF lt] by linarith
    then have "dexp x = -1022" by (intro dexp_least) simp
    with ge e show False by simp
  qed
  define k where "k = nat (e - (dexp x - 52))"
  have "x / 2 powi (dexp x - 52) = of_int (m * 2 ^ k)"
  proof -
    have "(2::real) powi e = 2 ^ k * 2 powi (dexp x - 52)"
      using le by (simp add: k_def flip: power_int_of_nat power_int_add)
    then have "x = of_int (m * 2 ^ k) * 2 powi (dexp x - 52)" using x by simp
    moreover have "(2::real) powi (dexp x - 52) \<noteq> 0" by simp
    ultimately show ?thesis by (metis nonzero_mult_div_cancel_right)
  qed
  then have "of_int (rne (x / 2 powi (dexp x - 52))) = x / 2 powi (dexp x - 52)"
    by (metis rne_of_int)
  then show ?thesis by (simp add: rnd64_def Let_def)
qed

end
