(* ===== verification/RB_Params.thy ===== *)
theory RB_Params
  imports RB_Parallel Float64
begin

text \<open>
  Parameter selection of the random-band OKVS: \<open>frontend/okvs/rb/types.h\<close> and
  \<open>frontend/okvs/rb/fit.h\<close>. A \<open>double\<close> is a real number, each arithmetic operation is
  followed by \<open>rnd64\<close>, a decimal literal is its rounded value. The library function
  \<open>std::log2\<close>, whose last digit the standard does not fix, and the hardware concurrency are
  the environment \<open>rb_env\<close>.
\<close>

record RBParams =
  prm_lambda :: nat
  prm_eps :: real
  prm_columns :: nat
  prm_bandWidth :: nat
  prm_check :: bool
  prm_multiThread :: bool
  prm_workerThreads :: nat
  prm_startSeed :: block
  prm_maskSeed :: block

record RBInfo =
  inf_n :: nat
  inf_lambda :: nat
  inf_lambdaReal :: real
  inf_eps :: real
  inf_columns :: nat
  inf_bandWidth :: nat
  inf_workerThreads :: nat

record rb_env =
  env_log2 :: "real \<Rightarrow> real"
  env_hc :: nat

definition toBlock :: "u64 \<Rightarrow> u64 \<Rightarrow> block" where
  "toBlock x y = push_bit 64 (ucast x) OR ucast y"

definition RBParams_default :: RBParams where
  "RBParams_default =
     \<lparr> prm_lambda = 40, prm_eps = 0, prm_columns = 0, prm_bandWidth = 0, prm_check = True,
       prm_multiThread = True, prm_workerThreads = 4,
       prm_startSeed = toBlock 0x9b3a7f21 0x6c8e1d44,
       prm_maskSeed = toBlock 0x4f12c0de 0xa55a91b7 \<rparr>"

section \<open>The width and size formulas\<close>

definition RBDefaultEps :: "nat \<Rightarrow> nat \<Rightarrow> real" where
  "RBDefaultEps n lambda =
     (let n = max n 1
      in if n \<le> 128 then rnd64 0.12 else if n \<le> 1024 then rnd64 0.07 else rnd64 0.07)"

definition RBRoundW :: "nat \<Rightarrow> nat" where
  "RBRoundW w =
     (let w = max w 16; step = 16; w = ((w + step - 1) div step) * step
      in if w > 256 then 256 else w)"

definition RBLog2 :: "rb_env \<Rightarrow> nat \<Rightarrow> real" where
  "RBLog2 env n = env_log2 env (rnd64 (real (max n 1)))"

definition RBLerp :: "real \<Rightarrow> real \<Rightarrow> real \<Rightarrow> real" where
  "RBLerp a b t = rnd64 (a + rnd64 (rnd64 (b - a) * t))"

definition RBApprox :: "real \<Rightarrow> real \<Rightarrow> bool" where
  "RBApprox a b = (\<bar>rnd64 (a - b)\<bar> \<le> rnd64 0.005)"

text \<open>The parameter \<open>t = (x - x0) / (x1 - x0)\<close> of one table interval.\<close>

definition RBInterp_t :: "real \<Rightarrow> real \<Rightarrow> real \<Rightarrow> real" where
  "RBInterp_t x x0 x1 = rnd64 (rnd64 (x - x0) / rnd64 (x1 - x0))"

fun RBInterp_scan :: "real list \<Rightarrow> real list \<Rightarrow> real \<Rightarrow> real \<Rightarrow> real" where
  "RBInterp_scan (x0 # x1 # xs) (y0 # y1 # ys) x back =
     (if x \<le> x1 then RBLerp y0 y1 (RBInterp_t x x0 x1)
      else RBInterp_scan (x1 # xs) (y1 # ys) x back)"
| "RBInterp_scan xs ys x back = back"

definition RBInterp :: "real list \<Rightarrow> real list \<Rightarrow> real \<Rightarrow> real result" where
  "RBInterp xs ys x =
     guardE (xs = [] \<or> ys = [] \<or> length xs \<noteq> length ys) (InvalidArgument ''RBInterp bad table'')
       (Inr (if x \<le> hd xs then hd ys
             else if x \<ge> last xs
             then let i = length xs - 2
                  in RBLerp (ys ! i) (ys ! (i + 1)) (RBInterp_t x (xs ! i) (xs ! (i + 1)))
             else RBInterp_scan xs ys x (last ys)))"

text \<open>The chain of \<open>if (RBApprox(eps2, e)) return g;\<close> of one size class.\<close>

fun RBG_lookup :: "(real \<times> real) list \<Rightarrow> real \<Rightarrow> real option" where
  "RBG_lookup [] eps2 = None"
| "RBG_lookup ((e, g) # rest) eps2 =
     (if RBApprox eps2 (rnd64 e) then Some (rnd64 g) else RBG_lookup rest eps2)"

definition g128 :: "(real \<times> real) list" where
  "g128 = [(0.10, 21.29), (0.11, 20.63), (0.12, 21.51), (0.13, 19.97), (0.14, 21.51),
     (0.15, 26.80), (0.16, 22.39), (0.17, 21.29), (0.18, 24.15), (0.19, 23.27), (0.20, 22.39)]"

definition g256 :: "(real \<times> real) list" where
  "g256 = [(0.07, 25.36), (0.08, 27.68), (0.09, 24.15), (0.10, 26.80), (0.11, 27.90),
     (0.12, 26.80)]"

definition g512 :: "(real \<times> real) list" where
  "g512 = [(0.07, 24.59), (0.08, 27.68), (0.09, 28.12), (0.10, 26.80), (0.11, 27.90),
     (0.12, 26.80)]"

definition g1024 :: "(real \<times> real) list" where
  "g1024 = [(0.07, 23.82)]"

definition epsXs :: "real list" where
  "epsXs = map rnd64 [0.03, 0.05, 0.07, 0.10]"

definition logXs :: "real list" where
  "logXs = map rnd64 [10, 14, 16, 18, 20]"

definition gGrid :: "real list list" where
  "gGrid = map (map rnd64)
    [[-3.4, -6.1, -7.5, -9.0, -10.7],
     [-4.3, -7.5, -9.2, -10.8, -12.9],
     [-5.3, -8.3, -10.3, -12.1, -14.0],
     [-6.3, -9.4, -11.6, -13.5, -15.3]]"

definition RBGOf_paper :: "rb_env \<Rightarrow> nat \<Rightarrow> real \<Rightarrow> real result" where
  "RBGOf_paper env n eps =
     (let logN = max (rnd64 10) (RBLog2 env n)
      in bindE (mapE (\<lambda>row. RBInterp logXs row logN) gGrid) (\<lambda>gAtN.
           if eps \<le> hd epsXs then Inr (hd gAtN)
           else if eps \<ge> last epsXs
           then let i = length epsXs - 2
                in Inr (RBLerp (gAtN ! i) (gAtN ! (i + 1))
                          (RBInterp_t eps (epsXs ! i) (epsXs ! (i + 1))))
           else RBInterp epsXs gAtN eps))"

definition RBGOf :: "rb_env \<Rightarrow> nat \<Rightarrow> real \<Rightarrow> real result" where
  "RBGOf env n eps =
     (let eps2 = rnd64 (std_round (rnd64 (eps * 100)) / 100);
          pick = (\<lambda>bound tbl rest.
            case (if n \<le> bound then RBG_lookup tbl eps2 else None) of
              Some g \<Rightarrow> Inr g | None \<Rightarrow> rest)
      in pick 128 g128 (pick 256 g256 (pick 512 g512 (pick 1024 g1024
           (RBGOf_paper env n eps)))))"

definition RBEpsOf :: "nat \<Rightarrow> nat \<Rightarrow> real" where
  "RBEpsOf n columns =
     (let n = max n 1; columns = max columns n
      in rnd64 (rnd64 (rnd64 (real columns) / rnd64 (real n)) - 1))"

definition RBLambdaMain :: "nat \<Rightarrow> real \<Rightarrow> real" where
  "RBLambdaMain bandWidth eps =
     (if eps \<le> 0 \<or> bandWidth = 0 then 0
      else rnd64 (rnd64 (rnd64 2.751 * eps) * rnd64 (real bandWidth)))"

definition RBLambdaOf :: "rb_env \<Rightarrow> nat \<Rightarrow> nat \<Rightarrow> real \<Rightarrow> real result" where
  "RBLambdaOf env n bandWidth eps =
     bindE (RBGOf env n eps) (\<lambda>g. Inr (rnd64 (RBLambdaMain bandWidth eps + g)))"

text \<open>\<open>ceil((lambda - g) / (2.751 * eps))\<close>.\<close>

definition RBNeedD :: "nat \<Rightarrow> real \<Rightarrow> real \<Rightarrow> int" where
  "RBNeedD lambda g eps = \<lceil>rnd64 (rnd64 (rnd64 (real lambda) - g) / rnd64 (rnd64 2.751 * eps))\<rceil>"

definition RBNeedW :: "rb_env \<Rightarrow> nat \<Rightarrow> nat \<Rightarrow> real \<Rightarrow> nat result" where
  "RBNeedW env n lambda eps =
     guardE (eps \<le> 0) (InvalidArgument ''RBNeedW eps <= 0'')
       (bindE (RBGOf env n eps) (\<lambda>g.
          let needD = RBNeedD lambda g eps
          in if needD \<le> 1 then Inr 1 else Inr (nat needD)))"

definition RBWidth :: "rb_env \<Rightarrow> nat \<Rightarrow> nat \<Rightarrow> nat result" where
  "RBWidth env n lambda =
     (let n = max n 1
      in if n \<le> 128 then Inr 64
         else if n \<le> 256 then Inr 88
         else if n \<le> 512 then Inr 96
         else if n \<le> 1024 then Inr 104
         else if n \<le> 2048 then Inr 240
         else let eps = RBDefaultEps n lambda
              in bindE (RBGOf env n eps) (\<lambda>g.
                   Inr (RBRoundW (nat (max 1 (RBNeedD lambda g eps))))))"

text \<open>\<open>max(n, ceil((1.0 + eps) * n))\<close>.\<close>

definition RBExpand :: "nat \<Rightarrow> real \<Rightarrow> nat" where
  "RBExpand n eps = max n (nat \<lceil>rnd64 (rnd64 (1 + eps) * rnd64 (real n))\<rceil>)"

definition RBSize :: "nat \<Rightarrow> nat \<Rightarrow> nat" where
  "RBSize n lambda = (let n = max n 1 in RBExpand n (RBDefaultEps n lambda))"

definition RBTableSize :: "nat \<Rightarrow> RBParams \<Rightarrow> nat" where
  "RBTableSize n params =
     (let n = max n 1
      in if prm_columns params \<noteq> 0 then max (prm_columns params) n
         else if prm_eps params > 0 then RBExpand n (prm_eps params)
         else RBSize n (prm_lambda params))"

definition RBTableW :: "rb_env \<Rightarrow> nat \<Rightarrow> nat \<Rightarrow> RBParams \<Rightarrow> nat result" where
  "RBTableW env n columns params =
     (if prm_bandWidth params \<noteq> 0 then Inr (prm_bandWidth params)
      else if prm_columns params \<noteq> 0 \<or> prm_eps params > 0
      then RBNeedW env n (prm_lambda params) (RBEpsOf n columns)
      else RBWidth env n (prm_lambda params))"

section \<open>The security gate\<close>

text \<open>The error message of the last check lists the values; the model keeps its head.\<close>

definition RBCheck :: "rb_env \<Rightarrow> nat \<Rightarrow> RBParams \<Rightarrow> RBInfo \<Rightarrow> unit result" where
  "RBCheck env n params info =
     guardE (prm_lambda params = 0) (InvalidArgument ''RBCheck lambda == 0'')
     (guardE (prm_eps params < 0) (InvalidArgument ''RBCheck eps < 0'')
     (guardE (inf_bandWidth info > 256) (InvalidArgument ''RBCheck width > 256'')
     (guardE (inf_bandWidth info > inf_columns info) (InvalidArgument ''RBCheck width > columns'')
     (guardE (prm_columns params \<noteq> 0 \<and> prm_eps params > 0 \<and>
              prm_columns params \<noteq> RBExpand (max n 1) (prm_eps params))
        (InvalidArgument ''RBCheck eps and columns mismatch'')
     (if \<not> prm_check params then Inr ()
      else bindE (RBNeedW env (inf_n info) (inf_lambda info) (inf_eps info)) (\<lambda>needW.
        guardE (inf_bandWidth info < needW) (InvalidArgument ''RBCheck lambda target not met'')
          (Inr ())))))))"

definition RBInfoOf :: "rb_env \<Rightarrow> nat \<Rightarrow> RBParams \<Rightarrow> RBInfo result" where
  "RBInfoOf env n0 params =
     (let n = max n0 1;
          columns = RBTableSize n params;
          eps = RBEpsOf n columns
      in bindE (RBTableW env n columns params) (\<lambda>w.
         bindE (RBLambdaOf env n w eps) (\<lambda>lambdaReal.
         let w' = (if w = 0 then 1 else w);
             out = \<lparr> inf_n = n, inf_lambda = prm_lambda params, inf_lambdaReal = lambdaReal,
                     inf_eps = eps, inf_columns = columns, inf_bandWidth = w',
                     inf_workerThreads =
                       RBWorkerThreads (env_hc env) (prm_multiThread params)
                         (prm_workerThreads params) \<rparr>
         in guardE (w' > 256) (InvalidArgument ''RBInfoOf width > 256'')
            (guardE (w' > columns) (InvalidArgument ''RBInfoOf width > columns'')
             (bindE (RBCheck env n params out) (\<lambda>_. Inr out))))))"

section \<open>What resolved parameters satisfy\<close>

lemma RBExpand_ge: "n \<le> RBExpand n eps"
  by (simp add: RBExpand_def)

lemma RBTableSize_ge: "n \<le> RBTableSize n params" "1 \<le> RBTableSize n params"
proof -
  have "max n 1 \<le> RBTableSize n params"
    using RBExpand_ge [of "max n 1" "prm_eps params"]
      RBExpand_ge [of "max n 1" "RBDefaultEps (max n 1) (prm_lambda params)"]
    by (auto simp: RBTableSize_def RBSize_def Let_def)
  then show "n \<le> RBTableSize n params" "1 \<le> RBTableSize n params" by simp_all
qed

lemma RBTableSize_max [simp]: "RBTableSize (max n (Suc 0)) params = RBTableSize n params"
  by (simp add: RBTableSize_def RBSize_def Let_def)

lemma RBNeedW_pos: "RBNeedW env n lambda eps = Inr w \<Longrightarrow> 1 \<le> w"
  by (auto simp: RBNeedW_def result_simps Let_def split: if_splits)

lemma RBRoundW_bounds: "16 \<le> RBRoundW w" "RBRoundW w \<le> 256"
  by (auto simp: RBRoundW_def Let_def max_def)

lemma RBWidth_pos: "RBWidth env n lambda = Inr w \<Longrightarrow> 1 \<le> w"
  by (auto simp: RBWidth_def result_simps Let_def intro: order_trans [OF _ RBRoundW_bounds(1)]
      split: if_splits)

lemma RBTableW_pos: "RBTableW env n columns params = Inr w \<Longrightarrow> 1 \<le> w"
  by (auto simp: RBTableW_def dest: RBNeedW_pos RBWidth_pos split: if_splits)

lemma RBInterp_total: "xs \<noteq> [] \<Longrightarrow> length ys = length xs \<Longrightarrow> \<exists>y. RBInterp xs ys x = Inr y"
  by (cases ys) (auto simp: RBInterp_def)

lemma RBGOf_paper_total: "\<exists>g. RBGOf_paper env n eps = Inr g"
proof -
  have "\<exists>r. mapE (\<lambda>row. RBInterp logXs row l) gGrid = Inr r" for l
  proof (rule ccontr)
    assume "\<nexists>r. mapE (\<lambda>row. RBInterp logXs row l) gGrid = Inr r"
    then have "\<exists>e. mapE (\<lambda>row. RBInterp logXs row l) gGrid = Inl e"
      by (metis sum.exhaust)
    then obtain row e where "row \<in> set gGrid" "RBInterp logXs row l = Inl e"
      unfolding mapE_Inl_iff by blast
    moreover have "length row = length logXs" if "row \<in> set gGrid" for row
      using that by (auto simp: gGrid_def logXs_def)
    ultimately show False using RBInterp_total [of logXs row l] by (simp add: logXs_def)
  qed
  then obtain r where r: "mapE (\<lambda>row. RBInterp logXs row (max (rnd64 10) (RBLog2 env n))) gGrid = Inr r"
    by blast
  have "length r = 4" using mapE_Inr_length [OF r] by (simp add: gGrid_def)
  then have "\<exists>g. RBInterp epsXs r eps = Inr g"
    by (intro RBInterp_total) (simp_all add: epsXs_def)
  then show ?thesis by (auto simp: RBGOf_paper_def Let_def r)
qed

text \<open>The finite-size correction is defined for every size and expansion.\<close>

lemma RBGOf_total: "\<exists>g. RBGOf env n eps = Inr g"
  using RBGOf_paper_total [of env n eps] by (auto simp: RBGOf_def Let_def split: option.splits)

lemma RBLambdaOf_total: "\<exists>l. RBLambdaOf env n w eps = Inr l"
  using RBGOf_total [of env n eps] by (auto simp: RBLambdaOf_def)

lemma RBInfoOf_bounds:
  assumes "RBInfoOf env n params = Inr info"
  shows "1 \<le> inf_bandWidth info" and "inf_bandWidth info \<le> 256"
    and "inf_bandWidth info \<le> inf_columns info" and "n \<le> inf_columns info"
    and "inf_columns info = RBTableSize n params"
    and "RBTableW env (max n 1) (inf_columns info) params = Inr (inf_bandWidth info)"
    and "inf_n info = max n 1" and "inf_eps info = RBEpsOf n (inf_columns info)"
    and "inf_lambda info = prm_lambda params" and "0 < prm_lambda params"
    and "prm_check params \<Longrightarrow> \<exists>needW. RBNeedW env (inf_n info) (prm_lambda params) (inf_eps info) = Inr needW
           \<and> needW \<le> inf_bandWidth info"
proof -
  obtain w where w: "RBTableW env (max n 1) (RBTableSize n params) params = Inr w"
    using assms by (auto simp: RBInfoOf_def Let_def bindE_Inr_iff)
  obtain l where l: "RBLambdaOf env (max n 1) w (RBEpsOf (max n 1) (RBTableSize n params)) = Inr l"
    using RBLambdaOf_total by blast
  have pos: "w \<noteq> 0" using RBTableW_pos [OF w] by simp
  have out: "info = \<lparr> inf_n = max n 1, inf_lambda = prm_lambda params, inf_lambdaReal = l,
                     inf_eps = RBEpsOf (max n 1) (RBTableSize n params),
                     inf_columns = RBTableSize n params, inf_bandWidth = w,
                     inf_workerThreads =
                       RBWorkerThreads (env_hc env) (prm_multiThread params)
                         (prm_workerThreads params) \<rparr>"
    and lim: "w \<le> 256" "w \<le> RBTableSize n params" "RBCheck env (max n 1) params info = Inr ()"
    using assms pos w l by (simp_all add: RBInfoOf_def Let_def result_simps) (auto split: if_splits)
  have eps: "RBEpsOf (max n 1) (RBTableSize n params) = RBEpsOf n (RBTableSize n params)"
    by (simp add: RBEpsOf_def)
  show "1 \<le> inf_bandWidth info" "inf_bandWidth info \<le> 256"
    "inf_bandWidth info \<le> inf_columns info" "n \<le> inf_columns info"
    "inf_columns info = RBTableSize n params"
    "RBTableW env (max n 1) (inf_columns info) params = Inr (inf_bandWidth info)"
    "inf_n info = max n 1" "inf_eps info = RBEpsOf n (inf_columns info)"
    "inf_lambda info = prm_lambda params"
    using w lim RBTableW_pos [OF w] RBTableSize_ge [of n params] eps by (simp_all add: out)
  show "0 < prm_lambda params"
    using lim(3) by (simp add: RBCheck_def result_simps)
  show "\<exists>needW. RBNeedW env (inf_n info) (prm_lambda params) (inf_eps info) = Inr needW
           \<and> needW \<le> inf_bandWidth info" if "prm_check params"
    using lim(3) that by (auto simp: RBCheck_def result_simps out)
qed

text \<open>Explicit size and width, with the security check off, are taken as they are.\<close>

lemma RBInfoOf_explicit:
  assumes "prm_columns params = m" and "prm_bandWidth params = w" and "\<not> prm_check params"
    and "prm_eps params = 0" and "0 < prm_lambda params"
    and "1 \<le> w" "w \<le> 256" "w \<le> m" "n \<le> m"
  shows "\<exists>info. RBInfoOf env n params = Inr info \<and> inf_columns info = m \<and> inf_bandWidth info = w"
proof -
  obtain l where l: "RBLambdaOf env (max n 1) w (RBEpsOf (max n 1) m) = Inr l"
    using RBLambdaOf_total by blast
  have s: "RBTableSize (max n 1) params = m" using assms by (simp add: RBTableSize_def Let_def)
  have t: "RBTableW env (max n 1) m params = Inr w" using assms by (simp add: RBTableW_def)
  show ?thesis using assms l unfolding RBInfoOf_def Let_def s t
    by (simp add: RBCheck_def)
qed

end
