(* ===== verification/RB_Rows.thy ===== *)
theory RB_Rows
  imports RB_Bits RB_Params
begin

text \<open>
  The hashing of keys to band rows and the row preparation of
  \<open>frontend/okvs/rb/rows.h\<close>. \<open>aes k x\<close> stands for \<open>AES h; h.setKey(k); h.ecbEncBlock(x)\<close>.
\<close>

type_synonym cipher = "block \<Rightarrow> block \<Rightarrow> block"

record RBHashCtx =
  ctx_start :: "block \<Rightarrow> block"
  ctx_mask0 :: "block \<Rightarrow> block"
  ctx_mask1 :: "block \<Rightarrow> block"

definition RBMakeHashCtx :: "cipher \<Rightarrow> RBParams \<Rightarrow> RBHashCtx" where
  "RBMakeHashCtx aes params =
     \<lparr> ctx_start = aes (prm_startSeed params),
       ctx_mask0 = aes (prm_maskSeed params XOR toBlock 0 1),
       ctx_mask1 = aes (prm_maskSeed params XOR toBlock 0 2) \<rparr>"

text \<open>The two 64-bit words \<open>w[0]\<close>, \<open>w[1]\<close> of a block in memory.\<close>

definition block_lo :: "block \<Rightarrow> u64" where
  "block_lo x = ucast x"

definition block_hi :: "block \<Rightarrow> u64" where
  "block_hi x = ucast (drop_bit 64 x)"

definition RBHash64 :: "block \<Rightarrow> (block \<Rightarrow> block) \<Rightarrow> u64" where
  "RBHash64 key h = (let x = h key in block_lo x XOR block_hi x)"

definition RBMask256 :: "block \<Rightarrow> RBHashCtx \<Rightarrow> u64 list" where
  "RBMask256 key ctx =
     (let x0 = ctx_mask0 ctx key; x1 = ctx_mask1 ctx key
      in [block_lo x0, block_hi x0, block_lo x1, block_hi x1])"

record RBRow =
  row_start :: nat
  row_bits :: RBBits
  row_rhs :: "block list"

text \<open>Start column and band mask of a key, as \<open>RBRows\<close> and \<open>RBDecode\<close> both derive them.\<close>

definition RBStart :: "RBHashCtx \<Rightarrow> nat \<Rightarrow> nat \<Rightarrow> block \<Rightarrow> nat" where
  "RBStart hash columns bandWidth key =
     (let h = RBHash64 key (ctx_start hash);
          range = columns - bandWidth + 1
      in if range = 0 then 0 else unat h mod range)"

definition RBKeyBits :: "RBHashCtx \<Rightarrow> nat \<Rightarrow> block \<Rightarrow> RBBits result" where
  "RBKeyBits hash bandWidth key =
     bindE (RBMaskBits (RBMask256 key hash) bandWidth) (\<lambda>bits. Inr (RBEnsureBits bits))"

text \<open>\<open>RBXor(std::vector<block>&, const std::vector<block>&)\<close>.\<close>

definition RBXor :: "block list \<Rightarrow> block list \<Rightarrow> block list result" where
  "RBXor a b = guardE (length a \<noteq> length b) (InvalidArgument ''RBXor size mismatch'')
     (Inr (xor_list a b))"

definition RBRows_body ::
  "RBHashCtx \<Rightarrow> block list \<Rightarrow> block list list \<Rightarrow> nat \<Rightarrow> nat \<Rightarrow> nat \<Rightarrow> nat \<Rightarrow> RBRow result" where
  "RBRows_body hash setKeys setValues rowSize columns bandWidth i =
     guardE (length (setValues ! i) \<noteq> rowSize) (InvalidArgument ''RBRows row width mismatch'')
       (bindE (RBKeyBits hash bandWidth (setKeys ! i)) (\<lambda>bits.
          Inr \<lparr> row_start = RBStart hash columns bandWidth (setKeys ! i),
                row_bits = bits, row_rhs = setValues ! i \<rparr>))"

definition RBRows ::
  "rb_env \<Rightarrow> cipher \<Rightarrow> block list \<Rightarrow> block list list \<Rightarrow> nat \<Rightarrow> nat \<Rightarrow> RBParams \<Rightarrow> RBRow list result" where
  "RBRows env aes setKeys setValues columns bandWidth params =
     guardE (length setKeys \<noteq> length setValues) (InvalidArgument ''RBRows key/value mismatch'')
     (if setKeys = [] then Inr []
      else
        let rowSize = length (setValues ! 0)
        in guardE (rowSize = 0) (InvalidArgument ''RBRows empty row'')
           (guardE (columns < bandWidth) (InvalidArgument ''RBRows columns < bandWidth'')
            (bindE (RBFor (env_hc env) (length setKeys) (prm_multiThread params)
                      (prm_workerThreads params)
                      (RBRows_body (RBMakeHashCtx aes params) setKeys setValues rowSize
                         columns bandWidth))
               (\<lambda>rows. Inr (sort_key row_start rows)))))"

section \<open>Properties of key hashing\<close>

text \<open>The band of a key: the mask bits below the width, or bit 0 when there are none.\<close>

definition key_band :: "RBHashCtx \<Rightarrow> nat \<Rightarrow> block \<Rightarrow> nat set" where
  "key_band hash w key =
     (let S = {i \<in> band (RBMask256 key hash). i < w} in if S = {} then {0} else S)"

lemma wf_RBMask256: "wf_bits (RBMask256 key ctx)"
  by (simp add: wf_bits_def RBMask256_def Let_def)

lemma RBKeyBits_spec:
  assumes "w \<le> 256"
  shows "\<exists>bits. RBKeyBits hash w key = Inr bits \<and> wf_bits bits \<and> band bits = key_band hash w key"
  using RBTrimBits_spec [OF wf_RBMask256 assms, of key hash] RBEnsureBits_spec
  by (fastforce simp: RBKeyBits_def RBMaskBits_def key_band_def Let_def)

lemma key_band_bounds: "1 \<le> w \<Longrightarrow> i \<in> key_band hash w key \<Longrightarrow> i < w"
  by (auto simp: key_band_def Let_def split: if_splits)

lemma key_band_nonempty: "key_band hash w key \<noteq> {}"
  by (auto simp: key_band_def Let_def)

lemma RBStart_le: "w \<le> columns \<Longrightarrow> RBStart hash columns w key + w \<le> columns"
proof -
  assume "w \<le> columns"
  have "RBStart hash columns w key < columns - w + 1"
    by (simp add: RBStart_def Let_def)
  with \<open>w \<le> columns\<close> show ?thesis by linarith
qed

text \<open>A prepared row: key \<open>i\<close>'s start, band and value.\<close>

definition row_of :: "RBHashCtx \<Rightarrow> nat \<Rightarrow> nat \<Rightarrow> block \<Rightarrow> block list \<Rightarrow> RBRow \<Rightarrow> bool" where
  "row_of hash columns w key val r \<longleftrightarrow>
     row_start r = RBStart hash columns w key \<and> wf_bits (row_bits r) \<and>
     band (row_bits r) = key_band hash w key \<and> row_rhs r = val"

lemma RBRows_Inr:
  assumes "RBRows env aes keys vals columns w params = Inr rows" and "w \<le> 256" and "keys \<noteq> []"
  shows "length vals = length keys" and "w \<le> columns"
    and "\<forall>v \<in> set vals. length v = length (vals ! 0)" and "0 < length (vals ! 0)"
    and "\<exists>rs. rows = sort_key row_start rs \<and> length rs = length keys \<and>
          (\<forall>i < length keys. row_of (RBMakeHashCtx aes params) columns w (keys ! i) (vals ! i) (rs ! i))"
proof -
  let ?body = "RBRows_body (RBMakeHashCtx aes params) keys vals (length (vals ! 0)) columns w"
  have len: "length vals = length keys"
    using assms(1) unfolding RBRows_def guardE_Inr_iff by simp
  note r = assms(1) [unfolded RBRows_def guardE_Inr_iff if_not_P [OF assms(3)] Let_def
      RBFor_sequential bindE_Inr_iff]
  then have w: "w \<le> columns" and ne: "0 < length (vals ! 0)" by linarith+
  obtain rs where rs: "mapE ?body [0..<length keys] = Inr rs" "rows = sort_key row_start rs"
    using r by blast
  have body: "?body i = Inr (rs ! i)" if "i < length keys" for i
    using mapE_Inr_nth [OF rs(1), of i] that by simp
  have row: "row_of (RBMakeHashCtx aes params) columns w (keys ! i) (vals ! i) (rs ! i)"
    if "i < length keys" for i
  proof -
    obtain bits where bits: "RBKeyBits (RBMakeHashCtx aes params) w (keys ! i) = Inr bits"
        "wf_bits bits" "band bits = key_band (RBMakeHashCtx aes params) w (keys ! i)"
      using RBKeyBits_spec [OF assms(2)] by blast
    have "rs ! i = \<lparr> row_start = RBStart (RBMakeHashCtx aes params) columns w (keys ! i),
                row_bits = bits, row_rhs = vals ! i \<rparr>"
      using body [OF that] unfolding RBRows_body_def guardE_Inr_iff bits(1) by simp
    with bits show ?thesis by (simp add: row_of_def)
  qed
  have wd: "length (vals ! i) = length (vals ! 0)" if "i < length keys" for i
    using body [OF that] unfolding RBRows_body_def guardE_Inr_iff by simp
  show "length vals = length keys" "w \<le> columns" "0 < length (vals ! 0)" by fact+
  show "\<forall>v \<in> set vals. length v = length (vals ! 0)"
    using wd len by (auto simp: in_set_conv_nth)
  show "\<exists>rs. rows = sort_key row_start rs \<and> length rs = length keys \<and>
          (\<forall>i < length keys. row_of (RBMakeHashCtx aes params) columns w (keys ! i) (vals ! i) (rs ! i))"
    using rs row mapE_Inr_length [OF rs(1)] by auto
qed

end
