(* ===== verification/RB_Encode.thy ===== *)
theory RB_Encode
  imports RB_Rows
begin

text \<open>
  The encoder and decoder of \<open>frontend/okvs/rb/codec.h\<close> on tables of rows
  (\<open>std::vector<std::vector<block>>\<close>): Gaussian elimination on the sorted band rows, back
  substitution, and the decoder's band sum.
\<close>

section \<open>Forward elimination\<close>

text \<open>The inner loop over the rows \<open>j > i\<close>, for pivot row \<open>ri\<close> with pivot column \<open>p\<close>.\<close>

fun RBElim_inner :: "nat \<Rightarrow> RBRow \<Rightarrow> nat \<Rightarrow> nat \<Rightarrow> RBRow list \<Rightarrow> RBRow list result" where
  "RBElim_inner bandWidth ri lead p [] = Inr []"
| "RBElim_inner bandWidth ri lead p (rj # rows) =
     (if row_start rj > p then Inr (rj # rows)
      else
        let off = p - row_start rj
        in if off \<ge> bandWidth \<or> \<not> RBBit (row_bits rj) off
           then bindE (RBElim_inner bandWidth ri lead p rows) (\<lambda>rows'. Inr (rj # rows'))
           else
             bindE (RBXorShifted (row_bits rj) off (row_bits ri) lead bandWidth) (\<lambda>bits.
             bindE (RBXor (row_rhs rj) (row_rhs ri)) (\<lambda>rhs.
             bindE (RBElim_inner bandWidth ri lead p rows) (\<lambda>rows'.
               Inr (rj\<lparr>row_bits := bits, row_rhs := rhs\<rparr> # rows')))))"

lemma RBElim_inner_length: "RBElim_inner w ri lead p rows = Inr rows' \<Longrightarrow> length rows' = length rows"
  by (induction rows arbitrary: rows') (auto simp: Let_def result_simps split: if_splits)

text \<open>
  The outer loop. The result pairs every row, as it is when it becomes the pivot row, with its
  pivot column; \<open>None\<close> is the early \<open>return false\<close> on a row without bits.
\<close>

function RBEliminate :: "nat \<Rightarrow> RBRow list \<Rightarrow> (RBRow \<times> nat) list option result" where
  "RBEliminate bandWidth [] = Inr (Some [])"
| "RBEliminate bandWidth (ri # rows) =
     (let lead = RBLead (row_bits ri) bandWidth
      in if lead = bandWidth then Inr None
         else
           let p = row_start ri + lead
           in bindE (RBElim_inner bandWidth ri lead p rows) (\<lambda>rows'.
              bindE (RBEliminate bandWidth rows') (\<lambda>res.
                Inr (map_option (\<lambda>out. (ri, p) # out) res))))"
  by pat_completeness auto
termination
  by (relation "measure (\<lambda>(w, rows). length rows)") (auto dest: RBElim_inner_length)

section \<open>Back substitution\<close>

definition RBFill_sum :: "nat \<Rightarrow> RBRow \<Rightarrow> nat \<Rightarrow> block list list \<Rightarrow> block list \<Rightarrow> nat \<Rightarrow> block list result" where
  "RBFill_sum bandWidth r p table acc j =
     (if \<not> RBBit (row_bits r) j then Inr acc
      else let col = row_start r + j
           in if col = p then Inr acc else RBXor acc (table ! col))"

definition RBFill_row :: "nat \<Rightarrow> RBRow \<times> nat \<Rightarrow> block list list \<Rightarrow> block list list result" where
  "RBFill_row bandWidth rp table =
     (case rp of (r, p) \<Rightarrow>
        bindE (foldE (RBFill_sum bandWidth r p table) (row_rhs r) [0..<bandWidth]) (\<lambda>acc.
          Inr (table[p := acc])))"

text \<open>The loop runs from the last row to the first.\<close>

fun RBFill :: "nat \<Rightarrow> (RBRow \<times> nat) list \<Rightarrow> block list list \<Rightarrow> block list list result" where
  "RBFill bandWidth [] table = Inr table"
| "RBFill bandWidth (rp # rps) table =
     bindE (RBFill bandWidth rps table) (RBFill_row bandWidth rp)"

section \<open>Encoder and decoder\<close>

text \<open>
  The boolean is the function's result, the table its output parameter: it keeps its old
  contents when the elimination fails.
\<close>

definition RBEncode ::
  "rb_env \<Rightarrow> cipher \<Rightarrow> block list \<Rightarrow> block list list \<Rightarrow> block list list \<Rightarrow> RBParams \<Rightarrow>
   (bool \<times> block list list) result" where
  "RBEncode env aes setKeys setValues okvsTable params =
     (if setKeys = [] then Inr (True, [])
      else
        bindE (RBInfoOf env (length setKeys) params) (\<lambda>cfg.
        let columns = inf_columns cfg; bandWidth = inf_bandWidth cfg
        in bindE (RBRows env aes setKeys setValues columns bandWidth params) (\<lambda>rows.
           let valWidth = length (setValues ! 0)
           in bindE (RBEliminate bandWidth rows) (\<lambda>res.
              case res of
                None \<Rightarrow> Inr (False, okvsTable)
              | Some rps \<Rightarrow>
                  bindE (RBFill bandWidth rps (replicate columns (replicate valWidth 0)))
                    (\<lambda>table. Inr (True, table))))))"

text \<open>The band loop of the decoder, with its \<open>break\<close> at the end of the table.\<close>

fun RBDecode_sum ::
  "block list list \<Rightarrow> nat \<Rightarrow> nat \<Rightarrow> RBBits \<Rightarrow> nat \<Rightarrow> nat list \<Rightarrow> block list \<Rightarrow> block list" where
  "RBDecode_sum table columns start bits valWidth [] acc = acc"
| "RBDecode_sum table columns start bits valWidth (j # js) acc =
     (if \<not> RBBit bits j then RBDecode_sum table columns start bits valWidth js acc
      else
        let col = start + j
        in if col \<ge> columns then acc
           else RBDecode_sum table columns start bits valWidth js
                  (map (\<lambda>k. acc ! k XOR table ! col ! k) [0..<valWidth]))"

definition RBDecode_body ::
  "RBHashCtx \<Rightarrow> block list list \<Rightarrow> block list \<Rightarrow> nat \<Rightarrow> nat \<Rightarrow> nat \<Rightarrow> nat \<Rightarrow> block list result" where
  "RBDecode_body hash okvsTable setKeys columns valWidth bandWidth i =
     bindE (RBKeyBits hash bandWidth (setKeys ! i)) (\<lambda>bits.
       Inr (RBDecode_sum okvsTable columns (RBStart hash columns bandWidth (setKeys ! i)) bits
              valWidth [0..<bandWidth] (replicate valWidth 0)))"

definition RBDecode ::
  "rb_env \<Rightarrow> cipher \<Rightarrow> block list list \<Rightarrow> block list \<Rightarrow> RBParams \<Rightarrow> block list list result" where
  "RBDecode env aes okvsTable setKeys params =
     (if okvsTable = [] then Inr []
      else
        let columns = length okvsTable; valWidth = length (okvsTable ! 0)
        in guardE (prm_columns params \<noteq> 0 \<and> prm_columns params \<noteq> columns)
             (InvalidArgument ''RBDecode columns mismatch'')
           (bindE (RBTableW env (length setKeys) columns params) (\<lambda>bandWidth.
            guardE (bandWidth > 256) (InvalidArgument ''RBDecode width > 256'')
            (guardE (bandWidth > columns) (InvalidArgument ''RBDecode width > columns'')
             (RBFor (env_hc env) (length setKeys) (prm_multiThread params)
                (prm_workerThreads params)
                (RBDecode_body (RBMakeHashCtx aes params) okvsTable setKeys columns valWidth
                   bandWidth))))))"

end
