(* ===== verification/RB_Correct.thy ===== *)
theory RB_Correct
  imports RB_Encode
begin

text \<open>
  Correctness of the random-band codec: the table the encoder produces satisfies the linear
  equation of every key's band row, and the decoder evaluates exactly that equation.
\<close>

section \<open>Exclusive-or over a set of columns\<close>

interpretation xorF: comm_monoid_set "(XOR) :: block \<Rightarrow> block \<Rightarrow> block" "0 :: block"
  by standard (simp_all add: xor.assoc xor.commute)

lemma xorF_sym_diff:
  assumes "finite A" and "finite B"
  shows "xorF.F g {c. (c \<in> A) \<noteq> (c \<in> B)} = xorF.F g A XOR xorF.F g B"
proof -
  have A: "xorF.F g A = xorF.F g (A \<inter> B) XOR xorF.F g (A - B)"
    by (metis Int_Diff_Un Int_Diff_disjoint assms(1) finite_Diff finite_Int xorF.union_disjoint)
  have B: "xorF.F g B = xorF.F g (A \<inter> B) XOR xorF.F g (B - A)"
    by (metis Int_Diff_Un Int_Diff_disjoint Int_commute assms(2) finite_Diff finite_Int xorF.union_disjoint)
  have "{c. (c \<in> A) \<noteq> (c \<in> B)} = (A - B) \<union> (B - A)" by blast
  then have "xorF.F g {c. (c \<in> A) \<noteq> (c \<in> B)} = xorF.F g (A - B) XOR xorF.F g (B - A)"
    using xorF.union_disjoint [of "A - B" "B - A" g] assms by (simp add: Diff_Int_distrib2 inf.commute)
  then show ?thesis unfolding A B by (simp add: xor.left_commute xor.assoc)
qed

lemma xorF_remove:
  "finite A \<Longrightarrow> p \<in> A \<Longrightarrow> xorF.F g A = g p XOR xorF.F g (A - {p})"
  by (rule xorF.remove)

section \<open>Rows as equations\<close>

text \<open>The table columns a row touches, and the equation it stands for.\<close>

definition cols :: "RBRow \<Rightarrow> nat set" where
  "cols r = (\<lambda>i. row_start r + i) ` band (row_bits r)"

definition holds :: "block list list \<Rightarrow> RBRow \<Rightarrow> bool" where
  "holds T r \<longleftrightarrow> (\<forall>k < length (row_rhs r). xorF.F (\<lambda>c. T ! c ! k) (cols r) = row_rhs r ! k)"

definition wf_row :: "nat \<Rightarrow> nat \<Rightarrow> RBRow \<Rightarrow> bool" where
  "wf_row w v r \<longleftrightarrow> wf_bits (row_bits r) \<and> band (row_bits r) \<subseteq> {..<w} \<and> length (row_rhs r) = v"

lemma finite_band [simp]: "finite (band bits)"
  by (rule finite_subset [of _ "{..<256}"]) (auto dest: band_lt)

lemma finite_cols [simp]: "finite (cols r)"
  by (simp add: cols_def)

lemma mem_cols: "c \<in> cols r \<longleftrightarrow> row_start r \<le> c \<and> c - row_start r \<in> band (row_bits r)"
  by (force simp: cols_def)

lemma cols_lt: "wf_row w v r \<Longrightarrow> c \<in> cols r \<Longrightarrow> c < row_start r + w"
  by (auto simp: cols_def wf_row_def)

text \<open>What one pass of the inner loop does to a later row.\<close>

definition elim_rel :: "nat \<Rightarrow> nat \<Rightarrow> RBRow \<Rightarrow> nat \<Rightarrow> RBRow \<Rightarrow> RBRow \<Rightarrow> bool" where
  "elim_rel w v ri p rj rj' \<longleftrightarrow>
     row_start rj' = row_start rj \<and> wf_row w v rj' \<and> p \<notin> cols rj' \<and>
     ((cols rj' = cols rj \<and> row_rhs rj' = row_rhs rj) \<or>
      (cols rj' = {c. (c \<in> cols rj) \<noteq> (c \<in> cols ri)} \<and>
       row_rhs rj' = xor_list (row_rhs rj) (row_rhs ri)))"

lemma elim_rel_holds:
  assumes "elim_rel w v ri p rj rj'" and "wf_row w v ri" and "wf_row w v rj"
    and "holds T ri" and "holds T rj'"
  shows "holds T rj"
  using assms(1) unfolding elim_rel_def
proof (elim conjE disjE)
  assume "cols rj' = cols rj" "row_rhs rj' = row_rhs rj"
  then show ?thesis using assms(5) by (simp add: holds_def)
next
  assume c: "cols rj' = {c. (c \<in> cols rj) \<noteq> (c \<in> cols ri)}"
    and r: "row_rhs rj' = xor_list (row_rhs rj) (row_rhs ri)"
  have v: "length (row_rhs ri) = v" "length (row_rhs rj) = v"
    using assms(2,3) by (simp_all add: wf_row_def)
  show ?thesis unfolding holds_def
  proof (intro allI impI)
    fix k assume k: "k < length (row_rhs rj)"
    have "xorF.F (\<lambda>c. T ! c ! k) (cols rj) XOR xorF.F (\<lambda>c. T ! c ! k) (cols ri) =
        row_rhs rj ! k XOR row_rhs ri ! k"
      using assms(5) k v by (simp add: holds_def c r flip: xorF_sym_diff)
    moreover have "xorF.F (\<lambda>c. T ! c ! k) (cols ri) = row_rhs ri ! k"
      using assms(4) k v by (simp add: holds_def)
    ultimately show "xorF.F (\<lambda>c. T ! c ! k) (cols rj) = row_rhs rj ! k"
      by (simp add: xor_cancel_right)
  qed
qed

lemma RBElim_step:
  assumes ri: "wf_row w v ri" and rj: "wf_row w v rj" and w: "w \<le> 256"
    and lead: "lead \<in> band (row_bits ri)" "\<forall>i \<in> band (row_bits ri). lead \<le> i"
    and p: "p = row_start ri + lead" and le: "row_start ri \<le> row_start rj" "row_start rj \<le> p"
    and hit: "p - row_start rj \<in> band (row_bits rj)"
  shows "\<exists>bits. RBXorShifted (row_bits rj) (p - row_start rj) (row_bits ri) lead w = Inr bits \<and>
     elim_rel w v ri p rj (rj\<lparr>row_bits := bits, row_rhs := xor_list (row_rhs rj) (row_rhs ri)\<rparr>)"
proof -
  define off where "off = p - row_start rj"
  obtain bits where bits: "RBXorShifted (row_bits rj) off (row_bits ri) lead w = Inr bits"
      "wf_bits bits" and mem: "\<And>i. i \<in> band bits \<longleftrightarrow> (i \<in> band (row_bits rj)) \<noteq>
         (i < w \<and> off \<le> i \<and> i - off + lead \<in> band (row_bits ri))"
    using RBXorShifted_spec [of "row_bits rj" "row_bits ri" w off lead] ri rj w
    by (auto simp: wf_row_def)
  define rj' where "rj' = rj\<lparr>row_bits := bits, row_rhs := xor_list (row_rhs rj) (row_rhs ri)\<rparr>"
  have shift: "i < w \<and> off \<le> i \<and> i - off + lead \<in> band (row_bits ri) \<longleftrightarrow>
      row_start rj + i \<in> cols ri" for i
  proof -
    have "i - off + lead = row_start rj + i - row_start ri" if "off \<le> i"
      using that le p by (simp add: off_def)
    moreover have "off \<le> i \<and> i < w" if "row_start rj + i \<in> cols ri"
    proof -
      have "lead \<le> row_start rj + i - row_start ri" using that lead(2) by (simp add: mem_cols)
      then show ?thesis using cols_lt [OF ri that] le p by (auto simp: off_def)
    qed
    ultimately show ?thesis using le by (auto simp: mem_cols)
  qed
  have mem': "i \<in> band bits \<longleftrightarrow> (i \<in> band (row_bits rj)) \<noteq> (row_start rj + i \<in> cols ri)" for i
    unfolding mem shift ..
  have c: "cols rj' = {c. (c \<in> cols rj) \<noteq> (c \<in> cols ri)}"
  proof (rule set_eqI)
    fix c
    show "c \<in> cols rj' \<longleftrightarrow> c \<in> {c. (c \<in> cols rj) \<noteq> (c \<in> cols ri)}"
    proof (cases "row_start rj \<le> c")
      case True
      then have "c \<in> cols rj' \<longleftrightarrow> c - row_start rj \<in> band bits"
        "c \<in> cols rj \<longleftrightarrow> c - row_start rj \<in> band (row_bits rj)"
        by (simp_all add: mem_cols rj'_def)
      then show ?thesis using mem' [of "c - row_start rj"] True by simp
    next
      case False
      then have "c \<notin> cols ri" using lead(2) le p by (auto simp: mem_cols)
      with False show ?thesis by (simp add: mem_cols rj'_def)
    qed
  qed
  have "p \<in> cols ri" "p \<in> cols rj" using lead(1) p hit le by (simp_all add: mem_cols)
  moreover have "wf_row w v rj'"
    using ri rj bits(2) mem by (auto simp: wf_row_def rj'_def)
  ultimately have "elim_rel w v ri p rj rj'"
    using c by (auto simp: elim_rel_def rj'_def)
  then show ?thesis using bits(1) by (auto simp: off_def rj'_def)
qed

lemma elim_rel_refl: "wf_row w v rj \<Longrightarrow> p \<notin> cols rj \<Longrightarrow> elim_rel w v ri p rj rj"
  by (simp add: elim_rel_def)

lemma RBElim_inner_spec:
  assumes ri: "wf_row w v ri" and w: "w \<le> 256"
    and lead: "lead \<in> band (row_bits ri)" "\<forall>i \<in> band (row_bits ri). lead \<le> i"
    and p: "p = row_start ri + lead"
    and rows: "\<forall>r \<in> set rows. wf_row w v r \<and> row_start ri \<le> row_start r"
    and sorted: "sorted (map row_start rows)"
  shows "\<exists>rows'. RBElim_inner w ri lead p rows = Inr rows' \<and> list_all2 (elim_rel w v ri p) rows rows'"
  using rows sorted
proof (induction rows)
  case (Cons rj rows)
  show ?case
  proof (cases "row_start rj > p")
    case True
    then have "\<forall>r \<in> set (rj # rows). p \<notin> cols r"
      using Cons.prems(2) by (auto simp: mem_cols)
    then have "list_all2 (elim_rel w v ri p) (rj # rows) (rj # rows)"
      using Cons.prems(1) by (intro list.rel_refl_strong elim_rel_refl) auto
    with True show ?thesis by auto
  next
    case False
    obtain rows' where IH: "RBElim_inner w ri lead p rows = Inr rows'"
        "list_all2 (elim_rel w v ri p) rows rows'"
      using Cons by auto
    have rj: "wf_row w v rj" "row_start ri \<le> row_start rj" using Cons.prems by auto
    define off where "off = p - row_start rj"
    show ?thesis
    proof (cases "off \<ge> w \<or> \<not> RBBit (row_bits rj) off")
      case True
      then have "off \<notin> band (row_bits rj)"
        using rj(1) RBBit_band [of off "row_bits rj"] band_lt [of off "row_bits rj"]
        by (auto simp: wf_row_def)
      then have "elim_rel w v ri p rj rj"
        using False rj(1) by (intro elim_rel_refl) (simp_all add: mem_cols off_def)
      with True False IH show ?thesis by (auto simp: off_def Let_def)
    next
      case hit: False
      then have "off \<in> band (row_bits rj)"
        using w RBBit_band [of off "row_bits rj"] by auto
      then obtain bits where "RBXorShifted (row_bits rj) off (row_bits ri) lead w = Inr bits"
        "elim_rel w v ri p rj (rj\<lparr>row_bits := bits, row_rhs := xor_list (row_rhs rj) (row_rhs ri)\<rparr>)"
        using RBElim_step [OF ri rj(1) w lead p rj(2)] False by (auto simp: off_def)
      moreover have "RBXor (row_rhs rj) (row_rhs ri) = Inr (xor_list (row_rhs rj) (row_rhs ri))"
        using ri rj(1) by (simp add: RBXor_def wf_row_def)
      ultimately show ?thesis using hit False IH by (auto simp: off_def Let_def)
    qed
  qed
qed simp

section \<open>Elimination yields an equivalent triangular system\<close>

fun triangular :: "(RBRow \<times> nat) list \<Rightarrow> bool" where
  "triangular [] \<longleftrightarrow> True"
| "triangular ((r, p) # rps) \<longleftrightarrow> p \<in> cols r \<and> (\<forall>rp \<in> set rps. p \<notin> cols (fst rp)) \<and> triangular rps"

definition rows_ok :: "nat \<Rightarrow> nat \<Rightarrow> RBRow list \<Rightarrow> bool" where
  "rows_ok w v rows \<longleftrightarrow> (\<forall>r \<in> set rows. wf_row w v r) \<and> sorted (map row_start rows)"

lemma elim_rel_list:
  assumes "list_all2 (elim_rel w v ri p) rows rows'" and "rows_ok w v rows"
  shows "rows_ok w v rows'" and "map row_start rows' = map row_start rows"
    and "\<forall>r \<in> set rows'. p \<notin> cols r"
    and "q \<notin> cols ri \<Longrightarrow> \<forall>r \<in> set rows. q \<notin> cols r \<Longrightarrow> \<forall>r \<in> set rows'. q \<notin> cols r"
    and "wf_row w v ri \<Longrightarrow> holds T ri \<Longrightarrow> \<forall>r \<in> set rows'. holds T r \<Longrightarrow> \<forall>r \<in> set rows. holds T r"
proof -
  have nth: "length rows' = length rows"
    "\<And>i. i < length rows \<Longrightarrow> elim_rel w v ri p (rows ! i) (rows' ! i)"
    using assms(1) by (auto simp: list_all2_conv_all_nth)
  have all: "(\<forall>r \<in> set rows'. P r) \<longleftrightarrow> (\<forall>i < length rows. P (rows' ! i))" for P
    using nth(1) by (metis all_set_conv_all_nth)
  have allr: "(\<forall>r \<in> set rows. P r) \<longleftrightarrow> (\<forall>i < length rows. P (rows ! i))" for P
    by (rule all_set_conv_all_nth)
  show st: "map row_start rows' = map row_start rows"
    using nth by (intro nth_equalityI) (auto simp: elim_rel_def)
  show "rows_ok w v rows'"
    using assms(2) nth(2) unfolding rows_ok_def st all by (auto simp: elim_rel_def)
  show "\<forall>r \<in> set rows'. p \<notin> cols r"
    using nth(2) unfolding all by (auto simp: elim_rel_def)
  show "\<forall>r \<in> set rows'. q \<notin> cols r" if "q \<notin> cols ri" "\<forall>r \<in> set rows. q \<notin> cols r"
    using nth(2) that unfolding all allr by (auto simp: elim_rel_def)
  show "\<forall>r \<in> set rows. holds T r" if "wf_row w v ri" "holds T ri" "\<forall>r \<in> set rows'. holds T r"
    using elim_rel_holds [OF nth(2)] that assms(2) unfolding all allr rows_ok_def by blast
qed

lemma RBEliminate_spec:
  assumes "rows_ok w v rows" and "w \<le> 256"
  shows "\<exists>res. RBEliminate w rows = Inr res \<and>
    (\<forall>rps. res = Some rps \<longrightarrow>
       length rps = length rows \<and> triangular rps \<and> map (row_start \<circ> fst) rps = map row_start rows \<and>
       (\<forall>rp \<in> set rps. wf_row w v (fst rp)) \<and>
       (\<forall>q. (\<forall>r \<in> set rows. q \<notin> cols r) \<longrightarrow> (\<forall>rp \<in> set rps. q \<notin> cols (fst rp))) \<and>
       (\<forall>T. (\<forall>rp \<in> set rps. holds T (fst rp)) \<longrightarrow> (\<forall>r \<in> set rows. holds T r)))"
  using assms
proof (induction w rows rule: RBEliminate.induct)
  case (2 w ri rows)
  let ?lead = "RBLead (row_bits ri) w"
  have ri: "wf_row w v ri" and ok: "rows_ok w v rows"
    and le: "\<forall>r \<in> set rows. wf_row w v r \<and> row_start ri \<le> row_start r"
    using "2.prems"(1) by (auto simp: rows_ok_def)
  show ?case
  proof (cases "?lead = w")
    case True
    then show ?thesis by simp
  next
    case False
    then have lead: "?lead \<in> band (row_bits ri)" "\<forall>i \<in> band (row_bits ri). ?lead \<le> i"
      using RBLead_spec [of "row_bits ri" w] ri by (auto simp: wf_row_def)
    define p where "p = row_start ri + ?lead"
    obtain rows' where inner: "RBElim_inner w ri ?lead p rows = Inr rows'"
      and rel: "list_all2 (elim_rel w v ri p) rows rows'"
      using RBElim_inner_spec [OF ri "2.prems"(2) lead p_def le] ok by (auto simp: rows_ok_def)
    note el = elim_rel_list [OF rel ok]
    obtain res where res: "RBEliminate w rows' = Inr res" and spec: "\<And>rps. res = Some rps \<Longrightarrow>
       length rps = length rows' \<and> triangular rps \<and> map (row_start \<circ> fst) rps = map row_start rows' \<and>
       (\<forall>rp \<in> set rps. wf_row w v (fst rp)) \<and>
       (\<forall>q. (\<forall>r \<in> set rows'. q \<notin> cols r) \<longrightarrow> (\<forall>rp \<in> set rps. q \<notin> cols (fst rp))) \<and>
       (\<forall>T. (\<forall>rp \<in> set rps. holds T (fst rp)) \<longrightarrow> (\<forall>r \<in> set rows'. holds T r))"
      using "2.IH" [OF refl False refl inner [unfolded p_def] el(1) "2.prems"(2)] by blast
    have eq: "RBEliminate w (ri # rows) = Inr (map_option (\<lambda>out. (ri, p) # out) res)"
      using False inner res by (simp add: Let_def p_def)
    have pri: "p \<in> cols ri" using lead(1) by (simp add: mem_cols p_def)
    show ?thesis
    proof (intro exI conjI allI impI)
      show "RBEliminate w (ri # rows) = Inr (map_option (\<lambda>out. (ri, p) # out) res)" by (rule eq)
    next
      fix rps assume "map_option (\<lambda>out. (ri, p) # out) res = Some rps"
      then obtain out where out: "res = Some out" "rps = (ri, p) # out" by auto
      note sp = spec [OF out(1)]
      have sp_len: "length out = length rows'" and sp_tri: "triangular out"
        and sp_st: "map (row_start \<circ> fst) out = map row_start rows'"
        and sp_wf: "\<forall>rp \<in> set out. wf_row w v (fst rp)"
        using sp by blast+
      show "length rps = length (ri # rows)"
        using sp_len list_all2_lengthD [OF rel] out(2) by simp
      have "\<forall>rp \<in> set out. p \<notin> cols (fst rp)" using sp el(3) by blast
      then show "triangular rps" using sp_tri pri by (simp add: out(2))
      show "map (row_start \<circ> fst) rps = map row_start (ri # rows)" using sp_st el(2) by (simp add: out(2))
      show "\<forall>rp \<in> set rps. wf_row w v (fst rp)" using sp_wf ri by (simp add: out(2))
      show "\<forall>rp \<in> set rps. q \<notin> cols (fst rp)" if q: "\<forall>r \<in> set (ri # rows). q \<notin> cols r" for q
      proof -
        have "\<forall>r \<in> set rows'. q \<notin> cols r" using el(4) [of q] q by simp
        then have "\<forall>rp \<in> set out. q \<notin> cols (fst rp)" using sp by blast
        then show ?thesis using q by (simp add: out(2))
      qed
      show "\<forall>r \<in> set (ri # rows). holds T r" if T: "\<forall>rp \<in> set rps. holds T (fst rp)" for T
      proof -
        have "\<forall>rp \<in> set out. holds T (fst rp)" and Tri: "holds T ri" using T by (simp_all add: out(2))
        then have "\<forall>r \<in> set rows'. holds T r" using sp by blast
        then show ?thesis using el(5) [OF ri Tri] Tri by simp
      qed
    qed
  qed
qed simp

section \<open>Back substitution solves the triangular system\<close>

definition table_ok :: "nat \<Rightarrow> nat \<Rightarrow> block list list \<Rightarrow> bool" where
  "table_ok m v T \<longleftrightarrow> length T = m \<and> (\<forall>row \<in> set T. length row = v)"

lemma RBFill_sum_fold:
  assumes r: "wf_row w v r" and T: "table_ok m v T" and m: "row_start r + w \<le> m" and "n \<le> w"
    and w: "w \<le> 256"
  shows "\<exists>acc. foldE (RBFill_sum w r p T) (row_rhs r) [0..<n] = Inr acc \<and> length acc = v \<and>
    (\<forall>k < v. acc ! k = row_rhs r ! k XOR
       xorF.F (\<lambda>c. T ! c ! k) {c \<in> cols r. c < row_start r + n \<and> c \<noteq> p})"
  using assms(4)
proof (induction n)
  case 0
  have "{c \<in> cols r. c < row_start r + 0 \<and> c \<noteq> p} = {}" by (auto simp: mem_cols)
  then have "xorF.F g {c \<in> cols r. c < row_start r + 0 \<and> c \<noteq> p} = 0" for g
    by (simp only: xorF.empty)
  then show ?case using r by (simp add: wf_row_def)
next
  case (Suc n)
  let ?S = "\<lambda>n. {c \<in> cols r. c < row_start r + n \<and> c \<noteq> p}"
  let ?c = "row_start r + n"
  obtain acc where acc: "foldE (RBFill_sum w r p T) (row_rhs r) [0..<n] = Inr acc" "length acc = v"
    "\<forall>k < v. acc ! k = row_rhs r ! k XOR xorF.F (\<lambda>c. T ! c ! k) (?S n)"
    using Suc by auto
  have step: "foldE (RBFill_sum w r p T) (row_rhs r) [0..<Suc n] = RBFill_sum w r p T acc n"
    using acc(1) by (cases "RBFill_sum w r p T acc n") (simp_all add: foldE_append)
  have c: "?c \<in> cols r \<longleftrightarrow> RBBit (row_bits r) n"
    using Suc.prems w by (simp add: mem_cols RBBit_band)
  show ?case
  proof (cases "?c \<in> cols r \<and> ?c \<noteq> p")
    case True
    have "?c < length T" using m Suc.prems T by (simp add: table_ok_def)
    then have len: "length (T ! ?c) = v" using T by (simp add: table_ok_def)
    have S: "?S (Suc n) = insert ?c (?S n)" using True by (auto simp: less_Suc_eq)
    have "xorF.F (\<lambda>c. T ! c ! k) (?S (Suc n)) = T ! ?c ! k XOR xorF.F (\<lambda>c. T ! c ! k) (?S n)" for k
      unfolding S by (subst xorF.insert) auto
    moreover have "RBFill_sum w r p T acc n = Inr (xor_list acc (T ! ?c))"
      using True c acc(2) len by (simp add: RBFill_sum_def RBXor_def)
    ultimately show ?thesis using step acc len
      by (intro exI [of _ "xor_list acc (T ! ?c)"]) (simp add: xor.assoc xor.commute xor.left_commute)
  next
    case False
    have "?S (Suc n) = ?S n" using False by (auto simp: less_Suc_eq)
    moreover have "RBFill_sum w r p T acc n = Inr acc"
      using False c by (auto simp: RBFill_sum_def)
    ultimately show ?thesis using step acc by auto
  qed
qed

lemma RBFill_row_spec:
  assumes r: "wf_row w v r" and T: "table_ok m v T" and m: "row_start r + w \<le> m" and w: "w \<le> 256"
    and p: "p \<in> cols r"
  shows "\<exists>T'. RBFill_row w (r, p) T = Inr T' \<and> table_ok m v T' \<and> holds T' r \<and>
           (\<forall>c. c \<noteq> p \<longrightarrow> T' ! c = T ! c)"
proof -
  have S: "{c \<in> cols r. c < row_start r + w \<and> c \<noteq> p} = cols r - {p}" using cols_lt [OF r] by auto
  obtain acc where acc: "foldE (RBFill_sum w r p T) (row_rhs r) [0..<w] = Inr acc"
    "length acc = v" "\<forall>k < v. acc ! k = row_rhs r ! k XOR xorF.F (\<lambda>c. T ! c ! k) (cols r - {p})"
    using RBFill_sum_fold [OF r T m order_refl w, of p] unfolding S by blast
  have pm: "p < length T" using cols_lt [OF r p] m T by (simp add: table_ok_def)
  have "holds (T[p := acc]) r"
    unfolding holds_def
  proof (intro allI impI)
    fix k assume "k < length (row_rhs r)"
    then have k: "k < v" using r by (simp add: wf_row_def)
    have "xorF.F (\<lambda>c. T[p := acc] ! c ! k) (cols r) =
        acc ! k XOR xorF.F (\<lambda>c. T[p := acc] ! c ! k) (cols r - {p})"
      using xorF_remove [OF finite_cols p] pm by simp
    also have "xorF.F (\<lambda>c. T[p := acc] ! c ! k) (cols r - {p}) = xorF.F (\<lambda>c. T ! c ! k) (cols r - {p})"
      by (rule xorF.cong) auto
    finally show "xorF.F (\<lambda>c. T[p := acc] ! c ! k) (cols r) = row_rhs r ! k"
      using acc(3) k by (simp add: xor.assoc)
  qed
  moreover have "table_ok m v (T[p := acc])"
    using T acc(2) by (auto simp: table_ok_def dest: set_update_subset_insert [THEN subsetD])
  ultimately show ?thesis using acc(1) by (simp add: RBFill_row_def)
qed

lemma RBFill_spec:
  assumes "triangular rps" and "\<forall>rp \<in> set rps. wf_row w v (fst rp) \<and> row_start (fst rp) + w \<le> m"
    and "w \<le> 256" and "table_ok m v T"
  shows "\<exists>T'. RBFill w rps T = Inr T' \<and> table_ok m v T' \<and> (\<forall>rp \<in> set rps. holds T' (fst rp))"
  using assms
proof (induction rps)
  case (Cons rp rps)
  obtain r p where rp: "rp = (r, p)" by (cases rp)
  obtain T1 where T1: "RBFill w rps T = Inr T1" "table_ok m v T1" "\<forall>rp \<in> set rps. holds T1 (fst rp)"
    using Cons rp by auto
  obtain T2 where T2: "RBFill_row w (r, p) T1 = Inr T2" "table_ok m v T2" "holds T2 r"
      "\<forall>c. c \<noteq> p \<longrightarrow> T2 ! c = T1 ! c"
    using RBFill_row_spec [OF _ T1(2) _ Cons.prems(3), of r p] Cons.prems(1,2) rp by auto
  have "holds T2 (fst rq)" if "rq \<in> set rps" for rq
  proof -
    have "p \<notin> cols (fst rq)" using Cons.prems(1) rp that by auto
    then have "xorF.F (\<lambda>c. T2 ! c ! k) (cols (fst rq)) = xorF.F (\<lambda>c. T1 ! c ! k) (cols (fst rq))" for k
      using T2(4) by (intro xorF.cong) auto
    then show ?thesis using T1(3) that by (simp add: holds_def)
  qed
  then show ?case using T1 T2 rp by auto
qed auto

section \<open>The decoder evaluates the row equation\<close>

lemma RBDecode_sum_spec:
  assumes "s + w \<le> m" and "w \<le> 256" and "length acc = v" and "a \<le> w"
  shows "length (RBDecode_sum T m s bits v [a..<w] acc) = v \<and>
    (\<forall>k < v. RBDecode_sum T m s bits v [a..<w] acc ! k =
       acc ! k XOR xorF.F (\<lambda>j. T ! (s + j) ! k) {j \<in> band bits. a \<le> j \<and> j < w})"
  using assms(3,4)
proof (induction "w - a" arbitrary: a acc)
  case 0
  then have "w = a" by simp
  then have "{j \<in> band bits. a \<le> j \<and> j < w} = {}" by auto
  then show ?case using 0 \<open>w = a\<close> by (simp only:) simp
next
  case (Suc d)
  then have a: "a < w" by simp
  let ?S = "\<lambda>a. {j \<in> band bits. a \<le> j \<and> j < w}"
  have b: "RBBit bits a \<longleftrightarrow> a \<in> band bits" using a assms(2) by (simp add: RBBit_band)
  have d: "d = w - Suc a" using Suc.hyps(2) by simp
  show ?case
  proof (cases "a \<in> band bits")
    case False
    then have "?S a = ?S (Suc a)" by (auto simp: Suc_le_eq order_le_less)
    then show ?thesis
      using Suc.hyps(1) [OF d Suc.prems(1)] a b False by (simp add: upt_conv_Cons)
  next
    case True
    define acc' where "acc' = map (\<lambda>k. acc ! k XOR T ! (s + a) ! k) [0..<v]"
    have S: "?S a = insert a (?S (Suc a))" using True a by auto
    have F: "xorF.F (\<lambda>j. T ! (s + j) ! k) (?S a) =
        T ! (s + a) ! k XOR xorF.F (\<lambda>j. T ! (s + j) ! k) (?S (Suc a))" for k
      unfolding S by (rule xorF.insert) auto
    have "RBDecode_sum T m s bits v [a..<w] acc = RBDecode_sum T m s bits v [Suc a..<w] acc'"
      using a b True assms(1) by (simp add: upt_conv_Cons acc'_def)
    moreover have "length acc' = v" "\<And>k. k < v \<Longrightarrow> acc' ! k = acc ! k XOR T ! (s + a) ! k"
      by (simp_all add: acc'_def)
    ultimately show ?thesis using Suc.hyps(1) [OF d, of acc'] a by (simp add: F xor.assoc)
  qed
qed

lemma xorF_cols: "xorF.F g (cols r) = xorF.F (\<lambda>j. g (row_start r + j)) (band (row_bits r))"
  unfolding cols_def by (subst xorF.reindex) (auto simp: inj_on_def comp_def)

text \<open>Decoding a key whose row equation the table satisfies returns the row's value.\<close>

lemma RBDecode_body_spec:
  assumes w: "w \<le> 256" "1 \<le> w" "w \<le> m" and T: "table_ok m v T"
  shows "\<exists>val. RBDecode_body hash T keys m v w i = Inr val \<and> length val = v \<and>
    (\<forall>r rhs. row_of hash m w (keys ! i) rhs r \<longrightarrow> length rhs = v \<longrightarrow> holds T r \<longrightarrow> val = rhs)"
proof -
  obtain bits where bits: "RBKeyBits hash w (keys ! i) = Inr bits" "wf_bits bits"
      "band bits = key_band hash w (keys ! i)"
    using RBKeyBits_spec [OF w(1)] by blast
  define s where "s = RBStart hash m w (keys ! i)"
  have s: "s + w \<le> m" using RBStart_le [OF w(3)] by (simp add: s_def)
  define val where "val = RBDecode_sum T m s bits v [0..<w] (replicate v 0)"
  have S: "{j \<in> band bits. 0 \<le> j \<and> j < w} = band bits"
    using key_band_bounds [OF w(2)] bits(3) by auto
  have val: "length val = v" "\<And>k. k < v \<Longrightarrow> val ! k = xorF.F (\<lambda>j. T ! (s + j) ! k) (band bits)"
    using RBDecode_sum_spec [OF s w(1), of "replicate v 0" v 0 T bits] unfolding S val_def by auto
  have "val = rhs" if r: "row_of hash m w (keys ! i) rhs r" "length rhs = v" "holds T r" for r rhs
  proof (rule nth_equalityI)
    show "length val = length rhs" using val(1) r(2) by simp
    fix k assume k: "k < length val"
    have "xorF.F (\<lambda>c. T ! c ! k) (cols r) = rhs ! k"
      using r k val(1) by (auto simp: holds_def row_of_def)
    then show "val ! k = rhs ! k"
      using r(1) val(2) [of k] k val(1) bits(3) by (simp add: xorF_cols row_of_def s_def)
  qed
  moreover have "RBDecode_body hash T keys m v w i = Inr val"
    using bits(1) by (simp add: RBDecode_body_def val_def s_def)
  ultimately show ?thesis using val(1) by blast
qed

section \<open>The encoder's table\<close>

lemma row_of_wf: "row_of hash m w key val r \<Longrightarrow> 1 \<le> w \<Longrightarrow> wf_row w (length val) r"
  using key_band_bounds [of w] by (auto simp: row_of_def wf_row_def)

text \<open>The prepared rows are fit for elimination, and the eliminated rows for back substitution.\<close>

lemma RBRows_rows_ok:
  assumes "RBRows env aes keys vals m w params = Inr rows"
    and w: "1 \<le> w" "w \<le> 256" "w \<le> m" and ne: "keys \<noteq> []"
  shows "rows_ok w (length (vals ! 0)) rows" and "r \<in> set rows \<Longrightarrow> row_start r + w \<le> m"
proof -
  note R = RBRows_Inr [OF assms(1) w(2) ne]
  obtain rs where rs: "rows = sort_key row_start rs" "length rs = length keys"
      "\<And>i. i < length keys \<Longrightarrow> row_of (RBMakeHashCtx aes params) m w (keys ! i) (vals ! i) (rs ! i)"
    using R(5) by blast
  have wf: "wf_row w (length (vals ! 0)) r \<and> row_start r + w \<le> m" if r: "r \<in> set rows" for r
  proof -
    obtain i where i: "i < length keys" "r = rs ! i" using r rs(1,2) by (auto simp: in_set_conv_nth)
    have "length (vals ! i) = length (vals ! 0)" using R(1,3) i(1) by simp
    then have "wf_row w (length (vals ! 0)) r" using row_of_wf [OF rs(3) [OF i(1)] w(1)] i(2) by simp
    moreover have "row_start r = RBStart (RBMakeHashCtx aes params) m w (keys ! i)"
      using rs(3) [OF i(1)] i(2) by (simp add: row_of_def)
    ultimately show ?thesis using RBStart_le [OF w(3)] by simp
  qed
  then show "rows_ok w (length (vals ! 0)) rows" by (auto simp: rows_ok_def rs(1))
  show "row_start r + w \<le> m" if "r \<in> set rows" using wf that by simp
qed

lemma RBEliminate_fillable:
  assumes elim: "RBEliminate w rows = Inr (Some rps)" and ok: "rows_ok w v rows"
    and bnd: "\<And>r. r \<in> set rows \<Longrightarrow> row_start r + w \<le> m" and w: "w \<le> 256"
  shows "triangular rps" and "\<forall>rp \<in> set rps. wf_row w v (fst rp) \<and> row_start (fst rp) + w \<le> m"
proof -
  have E: "triangular rps \<and> map (row_start \<circ> fst) rps = map row_start rows \<and>
       (\<forall>rp \<in> set rps. wf_row w v (fst rp))"
    using RBEliminate_spec [OF ok w] elim by auto
  then show "triangular rps" by blast
  have "row_start (fst rp) + w \<le> m" if "rp \<in> set rps" for rp
  proof -
    have "row_start (fst rp) \<in> set (map row_start rows)"
      using E that by (metis comp_apply image_eqI set_map)
    then show ?thesis using bnd by auto
  qed
  with E show "\<forall>rp \<in> set rps. wf_row w v (fst rp) \<and> row_start (fst rp) + w \<le> m" by blast
qed

text \<open>What a successful encoding guarantees, whichever way the values were stored.\<close>

definition encodes :: "RBHashCtx \<Rightarrow> nat \<Rightarrow> nat \<Rightarrow> block list \<Rightarrow> block list list \<Rightarrow> block list list \<Rightarrow> bool" where
  "encodes hash m w keys vals T \<longleftrightarrow>
     table_ok m (length (vals ! 0)) T \<and>
     (\<forall>i < length keys. \<exists>r. row_of hash m w (keys ! i) (vals ! i) r \<and> holds T r)"

lemma RBEncode_cases:
  assumes enc: "RBEncode env aes keys vals T0 params = Inr (ok, T)" and "keys \<noteq> []"
  shows "\<exists>cfg. RBInfoOf env (length keys) params = Inr cfg \<and> length vals = length keys \<and>
     0 < length (vals ! 0) \<and> (\<forall>v \<in> set vals. length v = length (vals ! 0)) \<and>
     (if ok then encodes (RBMakeHashCtx aes params) (inf_columns cfg) (inf_bandWidth cfg) keys vals T
      else T = T0)"
proof -
  let ?hash = "RBMakeHashCtx aes params"
  obtain cfg rows where cfg: "RBInfoOf env (length keys) params = Inr cfg"
    and rows: "RBRows env aes keys vals (inf_columns cfg) (inf_bandWidth cfg) params = Inr rows"
    using enc assms(2) by (auto simp: RBEncode_def Let_def bindE_Inr_iff)
  define m w v where "m = inf_columns cfg" and "w = inf_bandWidth cfg" and "v = length (vals ! 0)"
  note w = RBInfoOf_bounds(1,2,3) [OF cfg, folded w_def m_def]
  note R = RBRows_Inr [OF rows [folded w_def m_def] w(2) assms(2), folded v_def]
  obtain rs where rs: "rows = sort_key row_start rs" "length rs = length keys"
      "\<And>i. i < length keys \<Longrightarrow> row_of ?hash m w (keys ! i) (vals ! i) (rs ! i)"
    using R(5) by blast
  note ok = RBRows_rows_ok(1) [OF rows [folded w_def m_def] w assms(2), folded v_def]
  note bnd = RBRows_rows_ok(2) [OF rows [folded w_def m_def] w assms(2)]
  obtain res where res: "RBEliminate w rows = Inr res" and E: "\<And>rps. res = Some rps \<Longrightarrow>
       triangular rps \<and> map (row_start \<circ> fst) rps = map row_start rows \<and>
       (\<forall>rp \<in> set rps. wf_row w v (fst rp)) \<and>
       (\<forall>T. (\<forall>rp \<in> set rps. holds T (fst rp)) \<longrightarrow> (\<forall>r \<in> set rows. holds T r))"
    using RBEliminate_spec [OF ok w(2)] by blast
  have fin: "(case res of None \<Rightarrow> Inr (False, T0)
      | Some rps \<Rightarrow> bindE (RBFill w rps (replicate m (replicate v 0))) (\<lambda>table. Inr (True, table)))
      = Inr (ok, T)"
    using enc assms(2) cfg rows res unfolding m_def w_def v_def by (simp add: RBEncode_def Let_def)
  have goal: "if ok then encodes ?hash m w keys vals T else T = T0"
  proof (cases res)
    case None
    then show ?thesis using fin by simp
  next
    case (Some rps)
    note E' = E [OF Some]
    note fill = RBEliminate_fillable [OF res [unfolded Some] ok bnd w(2)]
    obtain T' where T': "RBFill w rps (replicate m (replicate v 0)) = Inr T'" "table_ok m v T'"
        "\<forall>rp \<in> set rps. holds T' (fst rp)"
      using RBFill_spec [OF fill w(2), of "replicate m (replicate v 0)"] by (auto simp: table_ok_def)
    have TT: "ok" "T = T'" using fin Some T'(1) by auto
    have "\<forall>r \<in> set rows. holds T r" using E' T'(3) TT(2) by blast
    then have "\<forall>i < length keys. holds T (rs ! i)" using rs(1,2) by simp
    then show ?thesis using T'(2) TT rs(3) by (auto simp: encodes_def v_def)
  qed
  then show ?thesis using cfg R(1,3,4) by (auto simp: m_def w_def v_def)
qed

text \<open>
  The decoder, run with the encoder's parameters on as many keys as were encoded, returns for
  every one of those keys its value.
\<close>

lemma RBDecode_of_encodes:
  assumes cfg: "RBInfoOf env n params = Inr cfg" and n: "length keys' = n" "0 < n"
    and cols: "prm_columns params = 0 \<or> n \<le> prm_columns params"
    and enc: "encodes (RBMakeHashCtx aes params) (inf_columns cfg) (inf_bandWidth cfg) keys vals T"
    and wd: "\<forall>v \<in> set vals. length v = length (vals ! 0)" "length vals = length keys"
  shows "\<exists>vs. RBDecode env aes T keys' params = Inr vs \<and> length vs = n \<and>
     (\<forall>v \<in> set vs. length v = length (vals ! 0)) \<and>
     (\<forall>i < length keys. \<forall>j < n. keys' ! j = keys ! i \<longrightarrow> vs ! j = vals ! i)"
proof -
  define m w v where "m = inf_columns cfg" and "w = inf_bandWidth cfg" and "v = length (vals ! 0)"
  note B = RBInfoOf_bounds [OF cfg, folded w_def m_def]
  let ?hash = "RBMakeHashCtx aes params"
  have T: "table_ok m v T" using enc by (simp add: encodes_def m_def v_def)
  have m: "0 < m" using B(1,3) by simp
  then have Tne: "T \<noteq> []" "length T = m" "length (T ! 0) = v" using T by (auto simp: table_ok_def)
  have colm: "\<not> (prm_columns params \<noteq> 0 \<and> prm_columns params \<noteq> m)"
    using B(5) cols n by (auto simp: RBTableSize_def Let_def max_def)
  have "max n 1 = n" using n by simp
  then have tw: "RBTableW env n m params = Inr w" using B(6) by simp
  define body where "body = RBDecode_body ?hash T keys' m v w"
  note body = RBDecode_body_spec [OF B(2,1,3) T, of ?hash keys', folded body_def]
  have "\<forall>j. \<exists>val. body j = Inr val" using body by blast
  then obtain f where f: "\<And>j. body j = Inr (f j)" by metis
  have dec: "RBDecode env aes T keys' params = Inr (map f [0..<n])"
    using Tne tw B(2,3) colm n mapE_all_Inr [of "[0..<n]" body f] f
    by (auto simp: RBDecode_def Let_def RBFor_sequential body_def guardE_def)
  have "f j = vals ! i" if i: "i < length keys" and eq: "keys' ! j = keys ! i" for i j
  proof -
    obtain r where "row_of ?hash m w (keys ! i) (vals ! i) r" "holds T r"
      using enc i unfolding encodes_def m_def w_def by blast
    moreover have "length (vals ! i) = v" using wd i by (simp add: v_def)
    ultimately show ?thesis using body [of j] f eq by auto
  qed
  moreover have "length (f j) = v" for j using body [of j] f by auto
  ultimately show ?thesis using dec by (auto simp: v_def)
qed

text \<open>
  An encoding that reports success is correct: decoding as many keys, with the same
  parameters, succeeds and returns the encoded value for every encoded key.
\<close>

lemma RBEncode_RBDecode:
  assumes "RBEncode env aes keys vals T0 params = Inr (True, T)" and "keys \<noteq> []"
    and "prm_columns params = 0 \<or> length keys \<le> prm_columns params"
    and "length keys' = length keys"
  shows "\<exists>vs. RBDecode env aes T keys' params = Inr vs \<and> length vs = length keys \<and>
     (\<forall>v \<in> set vs. length v = length (vals ! 0)) \<and>
     (\<forall>i < length keys. \<forall>j < length keys. keys' ! j = keys ! i \<longrightarrow> vs ! j = vals ! i)"
proof -
  obtain cfg where cfg: "RBInfoOf env (length keys) params = Inr cfg" and len: "length vals = length keys"
    and wd: "\<forall>v \<in> set vals. length v = length (vals ! 0)"
    and enc: "encodes (RBMakeHashCtx aes params) (inf_columns cfg) (inf_bandWidth cfg) keys vals T"
    using RBEncode_cases [OF assms(1,2)] by auto
  show ?thesis
    using RBDecode_of_encodes [OF cfg assms(4) _ assms(3) enc wd len] assms(2) by simp
qed

end
