(* ===== verification/RB_Flat.thy ===== *)
theory RB_Flat
  imports RB_Correct
begin

text \<open>
  The flat-buffer variants of the codec (\<open>RBRowsFlat\<close> in \<open>rows.h\<close>, the \<open>std::vector<block>\<close>
  overloads of \<open>RBEncode\<close> and \<open>RBDecode\<close> in \<open>codec.h\<close>), which the protocol uses, and the
  one-block wrappers. They are related to the row-table variants by a simulation: a flat row
  is an offset into one value buffer, and the buffer's slices are the rows' values.
\<close>

record RBFlatRow =
  flat_start :: nat
  flat_bits :: RBBits
  flat_rhs :: nat

definition RBFlatPtr :: "block list \<Rightarrow> nat \<Rightarrow> RBFlatRow \<Rightarrow> block list" where
  "RBFlatPtr values rowSize row = slice (flat_rhs row) rowSize values"

definition RBRowPtr :: "block list \<Rightarrow> nat \<Rightarrow> nat \<Rightarrow> block list" where
  "RBRowPtr table rowSize row = slice (row * rowSize) rowSize table"

text \<open>\<open>RBXor(std::vector<block>&, const block*, size_t)\<close>.\<close>

definition RBXorPtr :: "block list \<Rightarrow> block list \<Rightarrow> nat \<Rightarrow> block list result" where
  "RBXorPtr a b n = guardE (length a \<noteq> n) (InvalidArgument ''RBXor ptr size mismatch'')
     (Inr (xor_list a b))"

section \<open>Row preparation and elimination on a flat buffer\<close>

definition RBRowsFlat_body ::
  "RBHashCtx \<Rightarrow> block list \<Rightarrow> nat \<Rightarrow> nat \<Rightarrow> nat \<Rightarrow> nat \<Rightarrow> RBFlatRow result" where
  "RBRowsFlat_body hash setKeys rowSize columns bandWidth i =
     bindE (RBKeyBits hash bandWidth (setKeys ! i)) (\<lambda>bits.
       Inr \<lparr> flat_start = RBStart hash columns bandWidth (setKeys ! i),
             flat_bits = bits, flat_rhs = i * rowSize \<rparr>)"

definition RBRowsFlat ::
  "rb_env \<Rightarrow> cipher \<Rightarrow> block list \<Rightarrow> block list \<Rightarrow> nat \<Rightarrow> nat \<Rightarrow> nat \<Rightarrow> RBParams \<Rightarrow>
   (RBFlatRow list \<times> block list) result" where
  "RBRowsFlat env aes setKeys setValues rowSize columns bandWidth params =
     guardE (rowSize = 0) (InvalidArgument ''RBRowsFlat empty row'')
     (guardE (length setValues \<noteq> length setKeys * rowSize)
        (InvalidArgument ''RBRowsFlat key/value mismatch'')
     (if setKeys = [] then Inr ([], [])
      else guardE (columns < bandWidth) (InvalidArgument ''RBRowsFlat columns < bandWidth'')
        (bindE (RBFor (env_hc env) (length setKeys) (prm_multiThread params)
                  (prm_workerThreads params)
                  (RBRowsFlat_body (RBMakeHashCtx aes params) setKeys rowSize columns bandWidth))
           (\<lambda>rows. Inr (sort_key flat_start rows, setValues)))))"

fun RBFlatElim_inner ::
  "nat \<Rightarrow> nat \<Rightarrow> RBFlatRow \<Rightarrow> nat \<Rightarrow> nat \<Rightarrow> RBFlatRow list \<Rightarrow> block list \<Rightarrow>
   (RBFlatRow list \<times> block list) result" where
  "RBFlatElim_inner bandWidth rowSize ri lead p [] rhs = Inr ([], rhs)"
| "RBFlatElim_inner bandWidth rowSize ri lead p (rj # rows) rhs =
     (if flat_start rj > p then Inr (rj # rows, rhs)
      else
        let off = p - flat_start rj
        in if off \<ge> bandWidth \<or> \<not> RBBit (flat_bits rj) off
           then bindE (RBFlatElim_inner bandWidth rowSize ri lead p rows rhs)
                  (\<lambda>(rows', rhs'). Inr (rj # rows', rhs'))
           else
             bindE (RBXorShifted (flat_bits rj) off (flat_bits ri) lead bandWidth) (\<lambda>bits.
             let rhs1 = patch_at (flat_rhs rj)
                          (xor_list (RBFlatPtr rhs rowSize rj) (RBFlatPtr rhs rowSize ri)) rhs
             in bindE (RBFlatElim_inner bandWidth rowSize ri lead p rows rhs1)
                  (\<lambda>(rows', rhs'). Inr (rj\<lparr>flat_bits := bits\<rparr> # rows', rhs'))))"

lemma RBFlatElim_inner_length:
  "RBFlatElim_inner w n ri lead p rows rhs = Inr (rows', rhs') \<Longrightarrow> length rows' = length rows"
  by (induction rows arbitrary: rows' rhs) (auto simp: Let_def result_simps split: if_splits)

function RBFlatEliminate ::
  "nat \<Rightarrow> nat \<Rightarrow> RBFlatRow list \<Rightarrow> block list \<Rightarrow> ((RBFlatRow \<times> nat) list \<times> block list) option result" where
  "RBFlatEliminate bandWidth rowSize [] rhs = Inr (Some ([], rhs))"
| "RBFlatEliminate bandWidth rowSize (ri # rows) rhs =
     (let lead = RBLead (flat_bits ri) bandWidth
      in if lead = bandWidth then Inr None
         else
           let p = flat_start ri + lead
           in bindE (RBFlatElim_inner bandWidth rowSize ri lead p rows rhs) (\<lambda>st.
              bindE (RBFlatEliminate bandWidth rowSize (fst st) (snd st)) (\<lambda>res.
                Inr (map_option (\<lambda>(out, rhs'). ((ri, p) # out, rhs')) res))))"
  by pat_completeness auto
termination
  by (relation "measure (\<lambda>(w, n, rows, rhs). length rows)")
    (auto dest: RBFlatElim_inner_length)

section \<open>Back substitution into a flat table\<close>

definition RBFlatFill_sum ::
  "nat \<Rightarrow> nat \<Rightarrow> nat \<Rightarrow> RBBits \<Rightarrow> nat \<Rightarrow> block list \<Rightarrow> block list \<Rightarrow> nat \<Rightarrow> block list result" where
  "RBFlatFill_sum bandWidth rowSize s bits p table acc j =
     (if \<not> RBBit bits j then Inr acc
      else let col = s + j
           in if col = p then Inr acc else RBXorPtr acc (RBRowPtr table rowSize col) rowSize)"

definition RBFlatFill_row ::
  "nat \<Rightarrow> nat \<Rightarrow> RBRow \<times> nat \<Rightarrow> block list \<Rightarrow> block list result" where
  "RBFlatFill_row bandWidth rowSize rp table =
     (case rp of (r, p) \<Rightarrow>
        bindE (foldE (RBFlatFill_sum bandWidth rowSize (row_start r) (row_bits r) p table)
                 (row_rhs r) [0..<bandWidth]) (\<lambda>acc.
          Inr (patch_at (p * rowSize) acc table)))"

fun RBFlatFill :: "nat \<Rightarrow> nat \<Rightarrow> (RBRow \<times> nat) list \<Rightarrow> block list \<Rightarrow> block list result" where
  "RBFlatFill bandWidth rowSize [] table = Inr table"
| "RBFlatFill bandWidth rowSize (rp # rps) table =
     bindE (RBFlatFill bandWidth rowSize rps table) (RBFlatFill_row bandWidth rowSize rp)"

text \<open>The row a flat row denotes, given the value buffer.\<close>

definition flat_view :: "nat \<Rightarrow> block list \<Rightarrow> RBFlatRow \<Rightarrow> RBRow" where
  "flat_view rowSize rhs r =
     \<lparr> row_start = flat_start r, row_bits = flat_bits r, row_rhs = RBFlatPtr rhs rowSize r \<rparr>"

section \<open>Encoders and decoders\<close>

text \<open>Flat values, flat table.\<close>

definition RBEncodeFlat ::
  "rb_env \<Rightarrow> cipher \<Rightarrow> block list \<Rightarrow> block list \<Rightarrow> nat \<Rightarrow> block list \<Rightarrow> RBParams \<Rightarrow>
   (bool \<times> block list) result" where
  "RBEncodeFlat env aes setKeys setValues rowSize okvsTable params =
     (if setKeys = [] then Inr (True, [])
      else
        guardE (rowSize = 0 \<or> length setValues \<noteq> length setKeys * rowSize)
          (InvalidArgument ''RBEncode flat values mismatch'')
        (bindE (RBInfoOf env (length setKeys) params) (\<lambda>cfg.
         let columns = inf_columns cfg; bandWidth = inf_bandWidth cfg
         in bindE (RBRowsFlat env aes setKeys setValues rowSize columns bandWidth params) (\<lambda>st.
            bindE (RBFlatEliminate bandWidth rowSize (fst st) (snd st)) (\<lambda>res.
              case res of
                None \<Rightarrow> Inr (False, okvsTable)
              | Some (rps, rhs) \<Rightarrow>
                  bindE (RBFlatFill bandWidth rowSize
                           (map (\<lambda>(r, p). (flat_view rowSize rhs r, p)) rps)
                           (replicate (columns * rowSize) 0))
                    (\<lambda>table. Inr (True, table)))))))"

text \<open>Row values, flat table.\<close>

definition RBEncodeRowsFlat ::
  "rb_env \<Rightarrow> cipher \<Rightarrow> block list \<Rightarrow> block list list \<Rightarrow> nat \<Rightarrow> block list \<Rightarrow> RBParams \<Rightarrow>
   (bool \<times> block list) result" where
  "RBEncodeRowsFlat env aes setKeys setValues rowSize okvsTable params =
     (if setKeys = [] then Inr (True, [])
      else
        guardE (setValues = [] \<or> length (setValues ! 0) \<noteq> rowSize)
          (InvalidArgument ''RBEncode flat row width mismatch'')
        (bindE (RBInfoOf env (length setKeys) params) (\<lambda>cfg.
         let columns = inf_columns cfg; bandWidth = inf_bandWidth cfg
         in bindE (RBRows env aes setKeys setValues columns bandWidth params) (\<lambda>rows.
            bindE (RBEliminate bandWidth rows) (\<lambda>res.
              case res of
                None \<Rightarrow> Inr (False, okvsTable)
              | Some rps \<Rightarrow>
                  bindE (RBFlatFill bandWidth rowSize rps (replicate (columns * rowSize) 0))
                    (\<lambda>table. Inr (True, table)))))))"

fun RBFlatDecode_sum ::
  "block list \<Rightarrow> nat \<Rightarrow> nat \<Rightarrow> nat \<Rightarrow> RBBits \<Rightarrow> nat list \<Rightarrow> block list \<Rightarrow> block list" where
  "RBFlatDecode_sum table rowSize columns start bits [] acc = acc"
| "RBFlatDecode_sum table rowSize columns start bits (j # js) acc =
     (if \<not> RBBit bits j then RBFlatDecode_sum table rowSize columns start bits js acc
      else
        let col = start + j
        in if col \<ge> columns then acc
           else RBFlatDecode_sum table rowSize columns start bits js
                  (xor_list acc (RBRowPtr table rowSize col)))"

definition RBFlatDecode_body ::
  "RBHashCtx \<Rightarrow> block list \<Rightarrow> nat \<Rightarrow> block list \<Rightarrow> nat \<Rightarrow> nat \<Rightarrow> nat \<Rightarrow> block list result" where
  "RBFlatDecode_body hash okvsTable rowSize setKeys columns bandWidth i =
     bindE (RBKeyBits hash bandWidth (setKeys ! i)) (\<lambda>bits.
       Inr (RBFlatDecode_sum okvsTable rowSize columns
              (RBStart hash columns bandWidth (setKeys ! i)) bits [0..<bandWidth]
              (replicate rowSize 0)))"

text \<open>Flat table, row values.\<close>

definition RBDecodeFlatRows ::
  "rb_env \<Rightarrow> cipher \<Rightarrow> block list \<Rightarrow> nat \<Rightarrow> block list \<Rightarrow> RBParams \<Rightarrow> block list list result" where
  "RBDecodeFlatRows env aes okvsTable rowSize setKeys params =
     (if okvsTable = [] then Inr []
      else
        guardE (rowSize = 0 \<or> length okvsTable mod rowSize \<noteq> 0)
          (InvalidArgument ''RBDecode flat table size mismatch'')
        (let columns = length okvsTable div rowSize
         in guardE (prm_columns params \<noteq> 0 \<and> prm_columns params \<noteq> columns)
              (InvalidArgument ''RBDecode columns mismatch'')
            (bindE (RBTableW env (length setKeys) columns params) (\<lambda>bandWidth.
             guardE (bandWidth > 256) (InvalidArgument ''RBDecode width > 256'')
             (guardE (bandWidth > columns) (InvalidArgument ''RBDecode width > columns'')
              (RBFor (env_hc env) (length setKeys) (prm_multiThread params)
                 (prm_workerThreads params)
                 (RBFlatDecode_body (RBMakeHashCtx aes params) okvsTable rowSize setKeys columns
                    bandWidth)))))))"

text \<open>Flat table, flat values: slot \<open>i\<close> of the output buffer starts at \<open>i * rowSize\<close>.\<close>

definition RBDecodeFlat ::
  "rb_env \<Rightarrow> cipher \<Rightarrow> block list \<Rightarrow> nat \<Rightarrow> block list \<Rightarrow> RBParams \<Rightarrow> block list result" where
  "RBDecodeFlat env aes okvsTable rowSize setKeys params =
     bindE (RBDecodeFlatRows env aes okvsTable rowSize setKeys params) (\<lambda>rows. Inr (concat rows))"

text \<open>One block per key: the wrappers over the row-table variants.\<close>

definition RBEncode1 ::
  "rb_env \<Rightarrow> cipher \<Rightarrow> block list \<Rightarrow> block list \<Rightarrow> block list \<Rightarrow> RBParams \<Rightarrow> (bool \<times> block list) result" where
  "RBEncode1 env aes setKeys setValues okvsTable params =
     guardE (length setKeys \<noteq> length setValues) (InvalidArgument ''RBEncode 1D mismatch'')
     (bindE (RBEncode env aes setKeys (map (\<lambda>v. [v]) setValues) [] params) (\<lambda>(ok, out2d).
        if \<not> ok then Inr (False, okvsTable) else Inr (True, map (\<lambda>r. r ! 0) out2d)))"

definition RBDecode1 ::
  "rb_env \<Rightarrow> cipher \<Rightarrow> block list \<Rightarrow> block list \<Rightarrow> RBParams \<Rightarrow> block list result" where
  "RBDecode1 env aes okvsTable setKeys params =
     bindE (RBDecode env aes (map (\<lambda>v. [v]) okvsTable) setKeys params) (\<lambda>out2d.
       Inr (map (\<lambda>r. r ! 0) out2d))"


section \<open>Simulation: the flat elimination runs the row elimination\<close>

text \<open>The buffer slices of two rows do not overlap; every row's slice is inside the buffer.\<close>

definition apart :: "nat \<Rightarrow> nat \<Rightarrow> nat \<Rightarrow> bool" where
  "apart n a b \<longleftrightarrow> a + n \<le> b \<or> b + n \<le> (a::nat)"

definition flat_ok :: "nat \<Rightarrow> nat \<Rightarrow> RBFlatRow list \<Rightarrow> bool" where
  "flat_ok n len rows \<longleftrightarrow> (\<forall>r \<in> set rows. flat_rhs r + n \<le> len) \<and>
     sorted_wrt (apart n) (map flat_rhs rows)"

lemma apart_sym: "apart n a b \<Longrightarrow> apart n b a"
  by (auto simp: apart_def)

lemma flat_view_simps [simp]:
  "row_start (flat_view n rhs r) = flat_start r" "row_bits (flat_view n rhs r) = flat_bits r"
  "row_rhs (flat_view n rhs r) = slice (flat_rhs r) n rhs"
  by (simp_all add: flat_view_def RBFlatPtr_def)

lemma flat_view_cong: "slice (flat_rhs r) n rhs' = slice (flat_rhs r) n rhs \<Longrightarrow>
  flat_view n rhs' r = flat_view n rhs r"
  by (simp add: flat_view_def RBFlatPtr_def)

lemma flat_ok_Cons: "flat_ok n len (r # rows) \<longleftrightarrow> flat_rhs r + n \<le> len \<and> flat_ok n len rows \<and>
    (\<forall>r' \<in> set rows. apart n (flat_rhs r) (flat_rhs r'))"
  by (auto simp: flat_ok_def)

text \<open>One row exclusive-or changes the slice it targets and no slice apart from it.\<close>

lemma flat_xor_step:
  assumes "flat_rhs rj + n \<le> length rhs" "flat_rhs ri + n \<le> length rhs"
  defines "rhs1 \<equiv> patch_at (flat_rhs rj) (xor_list (RBFlatPtr rhs n rj) (RBFlatPtr rhs n ri)) rhs"
  shows "length rhs1 = length rhs"
    and "slice (flat_rhs rj) n rhs1 = xor_list (RBFlatPtr rhs n rj) (RBFlatPtr rhs n ri)"
    and "off + n \<le> length rhs \<Longrightarrow> apart n off (flat_rhs rj) \<Longrightarrow> slice off n rhs1 = slice off n rhs"
  using assms by (auto simp: RBFlatPtr_def apart_def slice_patch_at_other)

lemma RBFlatElim_inner_frame:
  assumes "RBFlatElim_inner w n ri lead p rows rhs = Inr (rows', rhs')"
    and "\<forall>r \<in> set rows. flat_rhs r + n \<le> length rhs" and "flat_rhs ri + n \<le> length rhs"
  shows "map flat_rhs rows' = map flat_rhs rows \<and> length rhs' = length rhs \<and>
    (\<forall>off. off + n \<le> length rhs \<longrightarrow> (\<forall>r \<in> set rows. apart n off (flat_rhs r)) \<longrightarrow>
       slice off n rhs' = slice off n rhs)"
  using assms
proof (induction rows arbitrary: rows' rhs)
  case (Cons rj rows)
  let ?off = "p - flat_start rj"
  let ?rhs1 = "patch_at (flat_rhs rj) (xor_list (RBFlatPtr rhs n rj) (RBFlatPtr rhs n ri)) rhs"
  have rj: "flat_rhs rj + n \<le> length rhs" using Cons.prems(2) by simp
  note st = flat_xor_step [OF rj Cons.prems(3)]
  consider (stop) "flat_start rj > p"
    | (skip) "\<not> flat_start rj > p" "?off \<ge> w \<or> \<not> RBBit (flat_bits rj) ?off"
    | (hit) "\<not> flat_start rj > p" "\<not> (?off \<ge> w \<or> \<not> RBBit (flat_bits rj) ?off)" by blast
  then show ?case
  proof cases
    case stop
    then show ?thesis using Cons.prems(1) by simp
  next
    case skip
    then obtain rs where "RBFlatElim_inner w n ri lead p rows rhs = Inr (rs, rhs')" "rows' = rj # rs"
      using Cons.prems(1) by (auto simp: Let_def result_simps)
    then show ?thesis using Cons.IH [of rhs rs] Cons.prems by simp
  next
    case hit
    then obtain bits rs where rs: "RBFlatElim_inner w n ri lead p rows ?rhs1 = Inr (rs, rhs')"
        "rows' = rj\<lparr>flat_bits := bits\<rparr> # rs"
      using Cons.prems(1) by (auto simp: Let_def result_simps)
    have "map flat_rhs rs = map flat_rhs rows \<and> length rhs' = length ?rhs1 \<and>
      (\<forall>off. off + n \<le> length ?rhs1 \<longrightarrow> (\<forall>r \<in> set rows. apart n off (flat_rhs r)) \<longrightarrow>
         slice off n rhs' = slice off n ?rhs1)"
      using Cons.IH [OF rs(1)] Cons.prems(2,3) st(1) by simp
    then show ?thesis using rs(2) st by auto
  qed
qed simp

lemma RBFlatElim_inner_sim:
  assumes "flat_ok n (length rhs) (ri # rows)"
  shows "RBElim_inner w (flat_view n rhs ri) lead p (map (flat_view n rhs) rows) =
    bindE (RBFlatElim_inner w n ri lead p rows rhs) (\<lambda>(rows', rhs'). Inr (map (flat_view n rhs') rows'))"
  using assms
proof (induction rows arbitrary: rhs)
  case (Cons rj rows)
  let ?off = "p - flat_start rj"
  let ?rhs1 = "patch_at (flat_rhs rj) (xor_list (RBFlatPtr rhs n rj) (RBFlatPtr rhs n ri)) rhs"
  have ok: "flat_rhs ri + n \<le> length rhs" "flat_rhs rj + n \<le> length rhs"
    "apart n (flat_rhs ri) (flat_rhs rj)" "flat_ok n (length rhs) (ri # rows)"
    "\<forall>r \<in> set rows. apart n (flat_rhs rj) (flat_rhs r)" "\<forall>r \<in> set rows. flat_rhs r + n \<le> length rhs"
    using Cons.prems by (auto simp: flat_ok_Cons flat_ok_def)
  note st = flat_xor_step [OF ok(2,1)]
  consider (stop) "flat_start rj > p"
    | (skip) "\<not> flat_start rj > p" "?off \<ge> w \<or> \<not> RBBit (flat_bits rj) ?off"
    | (hit) "\<not> flat_start rj > p" "\<not> (?off \<ge> w \<or> \<not> RBBit (flat_bits rj) ?off)" by blast
  then show ?case
  proof cases
    case stop
    then show ?thesis by simp
  next
    case skip
    show ?thesis
    proof (cases "RBFlatElim_inner w n ri lead p rows rhs")
      case (Inr st')
      obtain rs rhs' where st': "st' = (rs, rhs')" by (cases st')
      have "flat_view n rhs' rj = flat_view n rhs rj"
        using RBFlatElim_inner_frame [OF Inr [unfolded st'] ok(6,1)] ok(2,5) by (intro flat_view_cong) simp
      then show ?thesis using skip Cons.IH [OF ok(4)] Inr st' by (simp add: Let_def)
    qed (use skip Cons.IH [OF ok(4)] in \<open>simp add: Let_def\<close>)
  next
    case hit
    have ok1: "flat_ok n (length ?rhs1) (ri # rows)" using ok(4) st(1) by simp
    have ri1: "flat_view n ?rhs1 ri = flat_view n rhs ri"
      using st(3) [OF ok(1,3)] by (rule flat_view_cong)
    have rows1: "map (flat_view n ?rhs1) rows = map (flat_view n rhs) rows"
      using st(3) ok(5,6) by (auto intro!: flat_view_cong dest: apart_sym)
    note IH = Cons.IH [OF ok1, unfolded ri1 rows1]
    have x: "RBXor (slice (flat_rhs rj) n rhs) (slice (flat_rhs ri) n rhs) =
        Inr (xor_list (RBFlatPtr rhs n rj) (RBFlatPtr rhs n ri))"
      using ok by (simp add: RBXor_def RBFlatPtr_def)
    show ?thesis
    proof (cases "RBXorShifted (flat_bits rj) ?off (flat_bits ri) lead w")
      case bits: (Inr bits)
      show ?thesis
      proof (cases "RBFlatElim_inner w n ri lead p rows ?rhs1")
        case (Inr st')
        obtain rs rhs' where st': "st' = (rs, rhs')" by (cases st')
        have "slice (flat_rhs rj) n rhs' = slice (flat_rhs rj) n ?rhs1"
          using RBFlatElim_inner_frame [OF Inr [unfolded st']] ok(1,2,5,6) st(1) by simp
        then have v: "flat_view n rhs' (rj\<lparr>flat_bits := bits\<rparr>) = (flat_view n rhs rj)
            \<lparr>row_bits := bits, row_rhs := xor_list (RBFlatPtr rhs n rj) (RBFlatPtr rhs n ri)\<rparr>"
          using st(2) by (simp add: flat_view_def RBFlatPtr_def)
        show ?thesis using hit bits Inr st' IH x v by (simp add: Let_def)
      qed (use hit IH x bits in \<open>simp add: Let_def\<close>)
    qed (use hit in \<open>simp add: Let_def\<close>)
  qed
qed simp

lemma flat_ok_cong: "map flat_rhs rows' = map flat_rhs rows \<Longrightarrow> flat_ok n len rows' = flat_ok n len rows"
proof -
  assume eq: "map flat_rhs rows' = map flat_rhs rows"
  have "(\<forall>r \<in> set rows. flat_rhs r + n \<le> len) \<longleftrightarrow> (\<forall>x \<in> set (map flat_rhs rows). x + n \<le> len)" for rows
    by simp
  with eq show ?thesis unfolding flat_ok_def by metis
qed

lemma apart_cong: "map flat_rhs rows' = map flat_rhs rows \<Longrightarrow>
  (\<forall>r \<in> set rows'. apart n off (flat_rhs r)) \<longleftrightarrow> (\<forall>r \<in> set rows. apart n off (flat_rhs r))"
  by (metis (mono_tags, lifting) image_iff list.set_map)

lemma RBFlatEliminate_frame:
  assumes "RBFlatEliminate w n rows rhs = Inr (Some (rps, rhs'))"
    and "\<forall>r \<in> set rows. flat_rhs r + n \<le> length rhs"
  shows "length rhs' = length rhs \<and> map (flat_rhs \<circ> fst) rps = map flat_rhs rows \<and>
    (\<forall>off. off + n \<le> length rhs \<longrightarrow> (\<forall>r \<in> set rows. apart n off (flat_rhs r)) \<longrightarrow>
       slice off n rhs' = slice off n rhs)"
  using assms
proof (induction w n rows rhs arbitrary: rps rule: RBFlatEliminate.induct)
  case (2 w n ri rows rhs)
  let ?lead = "RBLead (flat_bits ri) w"
  have ne: "?lead \<noteq> w" using "2.prems"(1) by (auto simp: Let_def)
  obtain rows1 rhs1 out where
    inner: "RBFlatElim_inner w n ri ?lead (flat_start ri + ?lead) rows rhs = Inr (rows1, rhs1)"
    and outer: "RBFlatEliminate w n rows1 rhs1 = Inr (Some (out, rhs'))"
    and rps: "rps = (ri, flat_start ri + ?lead) # out"
    using "2.prems"(1) ne by (auto simp: Let_def result_simps)
  have ok: "\<forall>r \<in> set rows. flat_rhs r + n \<le> length rhs" "flat_rhs ri + n \<le> length rhs"
    using "2.prems"(2) by auto
  note fr = RBFlatElim_inner_frame [OF inner ok]
  have ok1: "\<forall>r \<in> set rows1. flat_rhs r + n \<le> length rhs1"
    using ok(1) fr by (metis (no_types, lifting) image_iff list.set_map)
  have IH: "length rhs' = length rhs1 \<and> map (flat_rhs \<circ> fst) out = map flat_rhs rows1 \<and>
    (\<forall>off. off + n \<le> length rhs1 \<longrightarrow> (\<forall>r \<in> set rows1. apart n off (flat_rhs r)) \<longrightarrow>
       slice off n rhs' = slice off n rhs1)"
    using "2.IH" [OF refl ne refl inner, of out] outer ok1 by (simp add: comp_def)
  show ?case using IH fr rps apart_cong [of rows1 rows n] by (simp add: comp_def)
qed simp

lemma RBFlatEliminate_sim:
  assumes "flat_ok n (length rhs) rows"
  shows "RBEliminate w (map (flat_view n rhs) rows) =
    bindE (RBFlatEliminate w n rows rhs)
      (\<lambda>res. Inr (map_option (\<lambda>(rps, rhs'). map (\<lambda>(r, p). (flat_view n rhs' r, p)) rps) res))"
  using assms
proof (induction w n rows rhs rule: RBFlatEliminate.induct)
  case (2 w n ri rows rhs)
  let ?lead = "RBLead (flat_bits ri) w" and ?p = "flat_start ri + RBLead (flat_bits ri) w"
  have ok: "flat_rhs ri + n \<le> length rhs" "\<forall>r \<in> set rows. flat_rhs r + n \<le> length rhs"
    "flat_ok n (length rhs) rows" "\<forall>r \<in> set rows. apart n (flat_rhs ri) (flat_rhs r)"
    using "2.prems" by (auto simp: flat_ok_Cons flat_ok_def)
  note sim = RBFlatElim_inner_sim [OF "2.prems", of w ?lead ?p]
  show ?case
  proof (cases "?lead = w")
    case ne: False
    show ?thesis
    proof (cases "RBFlatElim_inner w n ri ?lead ?p rows rhs")
      case (Inl e)
      with ne sim show ?thesis by (simp add: Let_def)
    next
      case (Inr st)
      obtain rows1 rhs1 where st: "st = (rows1, rhs1)" by (cases st)
      note fr = RBFlatElim_inner_frame [OF Inr [unfolded st] ok(2,1)]
      have ok1: "flat_ok n (length rhs1) rows1"
        using ok(3) fr flat_ok_cong [of rows1 rows] by simp
      note IH = "2.IH" [OF refl ne refl Inr, unfolded st fst_conv snd_conv, OF ok1]
      have keep: "flat_view n rhs' ri = flat_view n rhs ri"
        if out: "RBFlatEliminate w n rows1 rhs1 = Inr (Some (out, rhs'))" for out rhs'
      proof (rule flat_view_cong)
        have "\<forall>r \<in> set rows1. flat_rhs r + n \<le> length rhs1" using ok1 by (simp add: flat_ok_def)
        then have "slice (flat_rhs ri) n rhs' = slice (flat_rhs ri) n rhs1"
          using RBFlatEliminate_frame [OF out] ok(1,4) fr apart_cong [of rows1 rows n] by simp
        then show "slice (flat_rhs ri) n rhs' = slice (flat_rhs ri) n rhs" using fr ok(1,4) by simp
      qed
      show ?thesis
      proof (cases "RBFlatEliminate w n rows1 rhs1")
        case inner: (Inr res)
        then show ?thesis
          using ne sim Inr st IH keep by (cases res) (auto simp: Let_def)
      qed (use ne sim Inr st IH in \<open>simp add: Let_def\<close>)
    qed
  qed simp
qed simp

end
