(* ===== verification/RB_FlatCorrect.thy ===== *)
theory RB_FlatCorrect
  imports RB_Flat "HOL-Library.Multiset"
begin

text \<open>
  The flat-buffer encoder and decoder refine the row-table ones: on the concatenation of the
  rows they compute the concatenation of the result. The round trip of the row tables carries
  over, to the flat variants and to the one-block wrappers.
\<close>

section \<open>Back substitution\<close>

lemma RBFlatFill_sum_sim:
  assumes "table_ok m v T" and "row_start r + w \<le> m" and "length acc = v" and "j < w"
  shows "RBFlatFill_sum w v (row_start r) (row_bits r) p (concat T) acc j = RBFill_sum w r p T acc j"
proof -
  have "row_start r + j < length T" using assms by (simp add: table_ok_def)
  moreover have "\<And>y. y \<in> set T \<Longrightarrow> length y = v" using assms(1) by (simp add: table_ok_def)
  ultimately have "RBRowPtr (concat T) v (row_start r + j) = T ! (row_start r + j)"
    "length (T ! (row_start r + j)) = v"
    by (simp_all add: RBRowPtr_def slice_concat)
  then show ?thesis using assms(3) by (simp add: RBFlatFill_sum_def RBFill_sum_def RBXorPtr_def RBXor_def Let_def)
qed

lemma RBFill_sum_length:
  assumes "RBFill_sum w r p T acc j = Inr acc'" and "length acc = v"
  shows "length acc' = v"
  using assms by (auto simp: RBFill_sum_def RBXor_def Let_def result_simps split: if_splits)

lemma RBFlatFill_fold_sim:
  assumes "table_ok m v T" and "row_start r + w \<le> m" and "length acc = v" and "\<forall>j \<in> set js. j < w"
  shows "foldE (RBFlatFill_sum w v (row_start r) (row_bits r) p (concat T)) acc js =
         foldE (RBFill_sum w r p T) acc js"
  using assms(3,4)
proof (induction js arbitrary: acc)
  case (Cons j js)
  then show ?case
    using RBFlatFill_sum_sim [OF assms(1,2) Cons.prems(1)] RBFill_sum_length [of w r p T acc j _ v]
    by (cases "RBFill_sum w r p T acc j") auto
qed simp

lemma RBFlatFill_row_sim:
  assumes "table_ok m v T" and "wf_row w v r" and "row_start r + w \<le> m" and "p < m"
    and "RBFill_row w (r, p) T = Inr T'" and "table_ok m v T'"
  shows "RBFlatFill_row w v (r, p) (concat T) = Inr (concat T')"
proof -
  obtain acc where acc: "foldE (RBFill_sum w r p T) (row_rhs r) [0..<w] = Inr acc" "T' = T[p := acc]"
    using assms(5) by (auto simp: RBFill_row_def result_simps)
  have "acc \<in> set T'" using assms(1,4) acc(2) by (simp add: table_ok_def set_update_memI)
  then have "length acc = v" using assms(6) by (simp add: table_ok_def)
  then have "patch_at (p * v) acc (concat T) = concat T'"
    using assms(1,4) acc(2) by (subst patch_at_concat) (auto simp: table_ok_def)
  moreover have "foldE (RBFlatFill_sum w v (row_start r) (row_bits r) p (concat T)) (row_rhs r) [0..<w] = Inr acc"
    using RBFlatFill_fold_sim [OF assms(1,3), of "row_rhs r" "[0..<w]" p] acc(1) assms(2)
    by (simp add: wf_row_def)
  ultimately show ?thesis by (simp add: RBFlatFill_row_def)
qed

lemma RBFlatFill_sim:
  assumes "triangular rps" and "\<forall>rp \<in> set rps. wf_row w v (fst rp) \<and> row_start (fst rp) + w \<le> m"
    and "w \<le> 256" and "table_ok m v T"
  shows "\<exists>T'. RBFill w rps T = Inr T' \<and> table_ok m v T' \<and> RBFlatFill w v rps (concat T) = Inr (concat T')"
  using assms
proof (induction rps)
  case (Cons rp rps)
  obtain r p where rp: "rp = (r, p)" by (cases rp)
  obtain T1 where T1: "RBFill w rps T = Inr T1" "table_ok m v T1"
      "RBFlatFill w v rps (concat T) = Inr (concat T1)"
    using Cons rp by auto
  have r: "wf_row w v r" "row_start r + w \<le> m" "p \<in> cols r" using Cons.prems rp by auto
  obtain T2 where T2: "RBFill_row w (r, p) T1 = Inr T2" "table_ok m v T2"
    using RBFill_row_spec [OF r(1) T1(2) r(2) Cons.prems(3) r(3)] by blast
  have "p < m" using cols_lt [OF r(1,3)] r(2) by simp
  then show ?case
    using RBFlatFill_row_sim [OF T1(2) r(1,2) _ T2] T1 T2 rp by simp
qed auto

section \<open>Decoding\<close>

lemma RBFlatDecode_sum_sim:
  assumes "table_ok m v T" and "length acc = v"
  shows "RBFlatDecode_sum (concat T) v m s bits js acc = RBDecode_sum T m s bits v js acc"
  using assms(2)
proof (induction js arbitrary: acc)
  case (Cons j js)
  show ?case
  proof (cases "s + j < m")
    case True
    then have j: "s + j < length T" "\<And>y. y \<in> set T \<Longrightarrow> length y = v"
      using assms(1) by (simp_all add: table_ok_def)
    then have "xor_list acc (RBRowPtr (concat T) v (s + j)) =
        map (\<lambda>k. acc ! k XOR T ! (s + j) ! k) [0..<v]"
      using Cons.prems by (intro nth_equalityI) (auto simp: RBRowPtr_def slice_concat)
    then show ?thesis using Cons True by simp
  qed (use Cons in simp)
qed simp

lemma RBDecodeFlatRows_sim:
  assumes "table_ok m v T" and "0 < m" and "0 < v"
  shows "RBDecodeFlatRows env aes (concat T) v keys params = RBDecode env aes T keys params"
proof -
  have T: "length T = m" "length (T ! 0) = v" "T \<noteq> []" "length (concat T) = m * v"
    using assms(1,2) length_concat_uniform [of T v] by (auto simp: table_ok_def)
  have ne: "concat T \<noteq> []" using T(4) assms(2,3) by (metis list.size(3) mult_is_0 not_less_zero)
  have body: "RBFlatDecode_body h (concat T) v keys m w i = RBDecode_body h T keys m v w i" for h w i
    using RBFlatDecode_sum_sim [OF assms(1)] by (simp add: RBFlatDecode_body_def RBDecode_body_def)
  have "RBFlatDecode_body h (concat T) v keys m w = RBDecode_body h T keys m v w" for h w
    using body by blast
  then show ?thesis
    unfolding RBDecodeFlatRows_def RBDecode_def if_not_P [OF ne] if_not_P [OF T(3)]
    using T(1,2,4) assms(3) by (simp add: Let_def)
qed

section \<open>Row preparation\<close>

lemma sort_key_map: "sort_key f (map g xs) = map g (sort_key (\<lambda>x. f (g x)) xs)"
proof (induction xs)
  case (Cons x xs)
  have "insort_key f (g x) (map g ys) = map g (insort_key (\<lambda>x. f (g x)) x ys)" for ys
    by (induction ys) auto
  with Cons show ?case by simp
qed simp

lemma RBRowsFlat_body_sim:
  assumes "length vals = length keys" and "\<forall>x \<in> set vals. length x = v" and "i < length keys"
  shows "RBRows_body hash keys vals v m w i =
    bindE (RBRowsFlat_body hash keys v m w i) (\<lambda>r. Inr (flat_view v (concat vals) r))"
proof -
  have "slice (i * v) v (concat vals) = vals ! i"
    using assms by (intro slice_concat) auto
  then show ?thesis
    using assms by (cases "RBKeyBits hash w (keys ! i)")
      (simp_all add: RBRows_body_def RBRowsFlat_body_def flat_view_def RBFlatPtr_def)
qed

lemma RBRowsFlat_body_rhs: "RBRowsFlat_body hash keys v m w i = Inr r \<Longrightarrow> flat_rhs r = i * v"
  by (auto simp: RBRowsFlat_body_def result_simps)

lemma mapE_bind_map:
  assumes "\<And>x. x \<in> set xs \<Longrightarrow> g x = bindE (f x) (\<lambda>r. Inr (h r))"
  shows "mapE g xs = bindE (mapE f xs) (\<lambda>rs. Inr (map h rs))"
  using assms by (induction xs) (auto simp: bindE_def split: sum.splits)

lemma apart_distinct:
  assumes "distinct xs"
  shows "sorted_wrt (apart n) (map (\<lambda>i. i * n) xs)"
  using assms
proof (induction xs)
  case (Cons x xs)
  have "apart n (x * n) (y * n)" if "y \<in> set xs" for y
  proof -
    have "x \<noteq> y" using that Cons.prems by auto
    then have "Suc x \<le> y \<or> Suc y \<le> x" by linarith
    then have "Suc x * n \<le> y * n \<or> Suc y * n \<le> x * n" by (meson mult_le_mono1)
    then show ?thesis by (simp add: apart_def add.commute)
  qed
  with Cons show ?case by simp
qed simp

lemma RBRowsFlat_sim:
  assumes len: "length vals = length keys" and wd: "\<forall>x \<in> set vals. length x = v" and v: "0 < v"
    and ne: "keys \<noteq> []" and w: "w \<le> m"
  shows "RBRows env aes keys vals m w params =
      bindE (RBRowsFlat env aes keys (concat vals) v m w params)
        (\<lambda>(rows, rhs). Inr (map (flat_view v rhs) rows))"
    and "RBRowsFlat env aes keys (concat vals) v m w params = Inr (rows, rhs) \<Longrightarrow>
      rhs = concat vals \<and> flat_ok v (length (concat vals)) rows"
proof -
  let ?hash = "RBMakeHashCtx aes params"
  have v0: "length (vals ! 0) = v" and vne: "vals \<noteq> []" using ne len wd by (cases vals; auto)+
  have lc: "length (concat vals) = length keys * v"
    using length_concat_uniform [of vals v] wd len by simp
  have "mapE (RBRows_body ?hash keys vals v m w) [0..<length keys] =
      bindE (mapE (RBRowsFlat_body ?hash keys v m w) [0..<length keys])
        (\<lambda>rs. Inr (map (flat_view v (concat vals)) rs))"
    by (rule mapE_bind_map) (use RBRowsFlat_body_sim [OF len wd] in simp)
  then show "RBRows env aes keys vals m w params =
      bindE (RBRowsFlat env aes keys (concat vals) v m w params)
        (\<lambda>(rows, rhs). Inr (map (flat_view v rhs) rows))"
    using ne v v0 lc len w
    by (cases "mapE (RBRowsFlat_body ?hash keys v m w) [0..<length keys]")
      (auto simp: RBRows_def RBRowsFlat_def Let_def RBFor_sequential sort_key_map guardE_def)
  assume "RBRowsFlat env aes keys (concat vals) v m w params = Inr (rows, rhs)"
  then obtain rs where rs: "mapE (RBRowsFlat_body ?hash keys v m w) [0..<length keys] = Inr rs"
      "rows = sort_key flat_start rs" "rhs = concat vals"
    using ne unfolding RBRowsFlat_def RBFor_sequential guardE_Inr_iff by (auto simp: result_simps)
  have off: "map flat_rhs rs = map (\<lambda>i. i * v) [0..<length keys]"
    using mapE_Inr_nth [OF rs(1)] mapE_Inr_length [OF rs(1)]
    by (intro nth_equalityI) (auto dest: RBRowsFlat_body_rhs)
  define xs where "xs = map (\<lambda>r. flat_rhs r div v) rows"
  have mult: "flat_rhs r div v * v = flat_rhs r" if "r \<in> set rows" for r
  proof -
    have "flat_rhs r \<in> set (map (\<lambda>i. i * v) [0..<length keys])"
      using that rs(2) off by (metis image_eqI set_map set_sort)
    then show ?thesis by auto
  qed
  then have x1: "map flat_rhs rows = map (\<lambda>i. i * v) xs" by (simp add: xs_def)
  have "mset xs = mset (map (\<lambda>x. x div v) (map flat_rhs rs))"
    by (simp add: xs_def rs(2) multiset.map_comp comp_def)
  also have "map (\<lambda>x. x div v) (map flat_rhs rs) = [0..<length keys]"
    unfolding off using v by (simp add: comp_def)
  finally have xs: "map flat_rhs rows = map (\<lambda>i. i * v) xs" "mset xs = mset [0..<length keys]"
    using x1 by simp_all
  have "distinct xs" "set xs = {0..<length keys}"
    using xs(2) by (metis distinct_upt mset_eq_imp_distinct_iff, metis mset_eq_setD set_upt)
  then have "sorted_wrt (apart v) (map flat_rhs rows)"
    using apart_distinct [of xs v] xs(1) by simp
  moreover have "flat_rhs r + v \<le> length keys * v" if "r \<in> set rows" for r
  proof -
    have "flat_rhs r \<in> set (map (\<lambda>i. i * v) [0..<length keys])"
      using that rs(2) off by (metis image_eqI set_map set_sort)
    then obtain i where "i < length keys" "flat_rhs r = i * v" by auto
    then show ?thesis using mult_le_mono1 [of "Suc i" "length keys" v] by simp
  qed
  ultimately show "rhs = concat vals \<and> flat_ok v (length (concat vals)) rows"
    using rs(3) lc by (simp add: flat_ok_def)
qed

section \<open>The flat encoder\<close>

text \<open>
  On well-shaped input the flat encoder answers what the row encoder answers, its table being
  the concatenation of the row encoder's table; they also throw the same exceptions.
\<close>

lemma RBEncodeFlat_sim:
  assumes len: "length vals = length keys" and wd: "\<forall>x \<in> set vals. length x = v" and v: "0 < v"
  shows "RBEncodeFlat env aes keys (concat vals) v (concat T0) params =
     bindE (RBEncode env aes keys vals T0 params) (\<lambda>(ok, T). Inr (ok, concat T))"
proof (cases "keys = []")
  case True
  then show ?thesis by (simp add: RBEncodeFlat_def RBEncode_def)
next
  case ne: False
  have v0: "length (vals ! 0) = v" using ne len wd by (cases vals) auto
  have lc: "length (concat vals) = length keys * v"
    using length_concat_uniform [of vals v] wd len by simp
  show ?thesis
  proof (cases "RBInfoOf env (length keys) params")
    case (Inl e)
    then show ?thesis using ne lc v by (simp add: RBEncodeFlat_def RBEncode_def)
  next
    case (Inr cfg)
    define m w where "m = inf_columns cfg" and "w = inf_bandWidth cfg"
    note B = RBInfoOf_bounds(1,2,3) [OF Inr, folded w_def m_def]
    note rsim = RBRowsFlat_sim [OF len wd v ne B(3), of env aes params]
    let ?enc = "RBEncode env aes keys vals T0 params"
    let ?fenc = "RBEncodeFlat env aes keys (concat vals) v (concat T0) params"
    show ?thesis
    proof (cases "RBRowsFlat env aes keys (concat vals) v m w params")
      case (Inl e)
      then show ?thesis using rsim(1) Inr ne lc v unfolding m_def w_def
        by (simp add: RBEncodeFlat_def RBEncode_def Let_def)
    next
      case rows: (Inr st)
      obtain fr rhs where st: "st = (fr, rhs)" by (cases st)
      note fo = rsim(2) [OF rows [unfolded st]]
      have nrows: "RBRows env aes keys vals m w params = Inr (map (flat_view v rhs) fr)"
        using rsim(1) rows st by simp
      have esim: "RBEliminate w (map (flat_view v rhs) fr) = bindE (RBFlatEliminate w v fr rhs)
          (\<lambda>res. Inr (map_option (\<lambda>(rps, rhs'). map (\<lambda>(r, p). (flat_view v rhs' r, p)) rps) res))"
        using RBFlatEliminate_sim fo by simp
      have enc: "?enc = bindE (RBEliminate w (map (flat_view v rhs) fr)) (\<lambda>res. case res of
            None \<Rightarrow> Inr (False, T0)
          | Some rps \<Rightarrow> bindE (RBFill w rps (replicate m (replicate v 0))) (\<lambda>table. Inr (True, table)))"
        using Inr ne nrows v0 unfolding m_def w_def by (simp add: RBEncode_def Let_def)
      have fenc: "?fenc = bindE (RBFlatEliminate w v fr rhs) (\<lambda>res. case res of
            None \<Rightarrow> Inr (False, concat T0)
          | Some (rps, rhs') \<Rightarrow> bindE (RBFlatFill w v (map (\<lambda>(r, p). (flat_view v rhs' r, p)) rps)
               (replicate (m * v) 0)) (\<lambda>table. Inr (True, table)))"
        using Inr ne rows st lc v unfolding m_def w_def by (simp add: RBEncodeFlat_def Let_def)
      have rok: "rows_ok w v (map (flat_view v rhs) fr)" and
        bnd: "\<And>r. r \<in> set (map (flat_view v rhs) fr) \<Longrightarrow> row_start r + w \<le> m"
        using RBRows_rows_ok [OF nrows B ne] v0 by auto
      show ?thesis
      proof (cases "RBFlatEliminate w v fr rhs")
        case (Inl e)
        then show ?thesis using enc fenc esim by simp
      next
        case res: (Inr r)
        show ?thesis
        proof (cases r)
          case None
          then show ?thesis using enc fenc esim res by simp
        next
          case (Some q)
          obtain frps rhs' where q: "q = (frps, rhs')" by (cases q)
          define rps where "rps = map (\<lambda>(r, p). (flat_view v rhs' r, p)) frps"
          have elim: "RBEliminate w (map (flat_view v rhs) fr) = Inr (Some rps)"
            using esim res Some q by (simp add: rps_def)
          obtain T' where "RBFill w rps (replicate m (replicate v 0)) = Inr T'"
            "RBFlatFill w v rps (concat (replicate m (replicate v 0))) = Inr (concat T')"
            using RBFlatFill_sim [OF RBEliminate_fillable [OF elim rok bnd B(2)] B(2), of "replicate m (replicate v 0)"]
            by (auto simp: table_ok_def)
          moreover have "concat (replicate m (replicate v (0::block))) = replicate (m * v) 0"
            by (induction m) (simp_all add: replicate_add)
          ultimately show ?thesis using enc fenc elim res Some q by (simp add: rps_def)
        qed
      qed
    qed
  qed
qed

end
