(* ===== verification/RB_Okvs.thy ===== *)
theory RB_Okvs
  imports RB_FlatCorrect
begin

text \<open>
  The contract of an oblivious key-value store, as the protocol relies on it, and its
  interpretation on the three encoder/decoder pairs of \<open>codec.h\<close>: row tables, flat tables and
  single blocks.
\<close>

section \<open>Round trips of the flat and one-block variants\<close>

text \<open>The key counts for which the decoder accepts the encoder's table.\<close>

definition cols_ok :: "RBParams \<Rightarrow> nat \<Rightarrow> bool" where
  "cols_ok params n \<longleftrightarrow> prm_columns params = 0 \<or> n \<le> prm_columns params"

lemma RBEncodeFlat_RBDecodeFlatRows:
  assumes enc: "RBEncodeFlat env aes keys (concat vals) v T0 params = Inr (True, ft)" and ne: "keys \<noteq> []"
    and cols: "cols_ok params (length keys)" and len: "length keys' = length keys"
    and vals: "length vals = length keys" "\<forall>x \<in> set vals. length x = v" and v: "0 < v"
  shows "\<exists>vs. RBDecodeFlatRows env aes ft v keys' params = Inr vs \<and> length vs = length keys \<and>
     (\<forall>x \<in> set vs. length x = v) \<and>
     (\<forall>i < length keys. \<forall>j < length keys. keys' ! j = keys ! i \<longrightarrow> vs ! j = vals ! i)"
proof -
  have "RBEncodeFlat env aes keys (concat vals) v (concat []) params = Inr (True, ft)"
    using enc ne by (auto simp: RBEncodeFlat_def Let_def result_simps split: option.splits)
  then obtain T where T: "RBEncode env aes keys vals [] params = Inr (True, T)" "ft = concat T"
    unfolding RBEncodeFlat_sim [OF vals v] by (auto simp: result_simps)
  have v0: "length (vals ! 0) = v" using vals ne by (cases vals) auto
  obtain cfg where cfg: "RBInfoOf env (length keys) params = Inr cfg"
    and e: "encodes (RBMakeHashCtx aes params) (inf_columns cfg) (inf_bandWidth cfg) keys vals T"
    using RBEncode_cases [OF T(1) ne] by auto
  have "table_ok (inf_columns cfg) v T" "0 < inf_columns cfg"
    using e v0 RBInfoOf_bounds(1,3) [OF cfg] by (auto simp: encodes_def)
  then have "RBDecodeFlatRows env aes ft v keys' params = RBDecode env aes T keys' params"
    using RBDecodeFlatRows_sim T(2) v by simp
  then show ?thesis
    using RBEncode_RBDecode [OF T(1) ne _ len] cols v0 by (simp add: cols_ok_def)
qed

lemma RBEncode1_RBDecode1:
  assumes enc: "RBEncode1 env aes keys vals T0 params = Inr (True, t)" and ne: "keys \<noteq> []"
    and cols: "cols_ok params (length keys)" and len: "length keys' = length keys"
  shows "\<exists>vs. RBDecode1 env aes t keys' params = Inr vs \<and> length vs = length keys \<and>
     (\<forall>i < length keys. \<forall>j < length keys. keys' ! j = keys ! i \<longrightarrow> vs ! j = vals ! i)"
proof -
  let ?vals = "map (\<lambda>v. [v]) vals"
  obtain T where T: "RBEncode env aes keys ?vals [] params = Inr (True, T)" "t = map (\<lambda>r. r ! 0) T"
    and lv: "length vals = length keys"
    using enc by (auto simp: RBEncode1_def result_simps split: if_splits)
  have v0: "length (?vals ! 0) = 1" using lv ne by (cases vals) auto
  obtain cfg :: RBInfo where e: "encodes (RBMakeHashCtx aes params) (inf_columns cfg) (inf_bandWidth cfg) keys ?vals T"
    using RBEncode_cases [OF T(1) ne] unfolding if_True by blast
  then have one: "length row = 1" if "row \<in> set T" for row
    using that v0 by (simp add: encodes_def table_ok_def)
  have "[row ! 0] = row" if "row \<in> set T" for row
    using one [OF that] by (cases row) auto
  then have tT: "map (\<lambda>v. [v]) t = T" by (simp add: T(2) map_idI)
  obtain vs where vs: "RBDecode env aes T keys' params = Inr vs" "length vs = length keys"
      "\<And>i j. i < length keys \<Longrightarrow> j < length keys \<Longrightarrow> keys' ! j = keys ! i \<Longrightarrow> vs ! j = ?vals ! i"
    using RBEncode_RBDecode [OF T(1) ne _ len] cols by (auto simp: cols_ok_def)
  have "RBDecode1 env aes t keys' params = Inr (map (\<lambda>r. r ! 0) vs)"
    using vs(1) by (simp add: RBDecode1_def tT)
  then show ?thesis using vs(2,3) lv by auto
qed

section \<open>The contract\<close>

text \<open>
  \<open>p\<close> carries the parameters both sides agree on, \<open>fits p n\<close> the key counts they admit and
  \<open>val_ok p v\<close> the values of the right width. The one law is the round trip of a successful
  encoding; everything the protocol needs follows from it.
\<close>

locale okvs =
  fixes encode :: "'p \<Rightarrow> 'k list \<Rightarrow> 'v list \<Rightarrow> 't \<Rightarrow> (bool \<times> 't) result"
    and decode :: "'p \<Rightarrow> 't \<Rightarrow> 'k list \<Rightarrow> 'v list result"
    and fits :: "'p \<Rightarrow> nat \<Rightarrow> bool"
    and val_ok :: "'p \<Rightarrow> 'v \<Rightarrow> bool"
  assumes encode_decode:
    "\<lbrakk> encode p keys vals T0 = Inr (True, T); keys \<noteq> []; fits p (length keys);
       length vals = length keys; \<forall>v \<in> set vals. val_ok p v; length keys' = length keys \<rbrakk> \<Longrightarrow>
     \<exists>vs. decode p T keys' = Inr vs \<and> length vs = length keys \<and>
       (\<forall>i < length keys. \<forall>j < length keys. keys' ! j = keys ! i \<longrightarrow> vs ! j = vals ! i)"
begin

text \<open>Decoding the encoded keys themselves gives back the values.\<close>

lemma decode_encoded:
  assumes "encode p keys vals T0 = Inr (True, T)" and "keys \<noteq> []" and "fits p (length keys)"
    and "length vals = length keys" and "\<forall>v \<in> set vals. val_ok p v"
  shows "decode p T keys = Inr vals"
proof -
  obtain vs where vs: "decode p T keys = Inr vs" "length vs = length keys"
      "\<forall>i < length keys. \<forall>j < length keys. keys ! j = keys ! i \<longrightarrow> vs ! j = vals ! i"
    using encode_decode [OF assms refl] by blast
  have "vs = vals" using vs(2,3) assms(4) by (intro nth_equalityI) auto
  with vs(1) show ?thesis by simp
qed

text \<open>Keys that were given two different values cannot be encoded.\<close>

lemma encode_functional:
  assumes "encode p keys vals T0 = Inr (True, T)" and "keys \<noteq> []" and "fits p (length keys)"
    and "length vals = length keys" and "\<forall>v \<in> set vals. val_ok p v"
    and "i < length keys" "j < length keys" "keys ! i = keys ! j"
  shows "vals ! i = vals ! j"
  using encode_decode [OF assms(1-5) refl] assms(6-8) by (metis decode_encoded assms(1-5) sum.inject(2))

text \<open>Another party's query list: every query that is an encoded key is answered with its value.\<close>

lemma decode_member:
  assumes "encode p keys vals T0 = Inr (True, T)" and "keys \<noteq> []" and "fits p (length keys)"
    and "length vals = length keys" and "\<forall>v \<in> set vals. val_ok p v" and "length keys' = length keys"
    and "decode p T keys' = Inr vs" and "i < length keys" "j < length keys'" "keys' ! j = keys ! i"
  shows "vs ! j = vals ! i"
  using encode_decode [OF assms(1-6)] assms(6-10) by auto

end

section \<open>The random-band codec meets the contract\<close>

record rb_cfg =
  cfg_env :: rb_env
  cfg_aes :: cipher
  cfg_rowSize :: nat
  cfg_params :: RBParams

definition rows_encode ::
  "rb_cfg \<Rightarrow> block list \<Rightarrow> block list list \<Rightarrow> block list list \<Rightarrow> (bool \<times> block list list) result" where
  "rows_encode c keys vals T0 = RBEncode (cfg_env c) (cfg_aes c) keys vals T0 (cfg_params c)"

definition rows_decode ::
  "rb_cfg \<Rightarrow> block list list \<Rightarrow> block list \<Rightarrow> block list list result" where
  "rows_decode c T keys = RBDecode (cfg_env c) (cfg_aes c) T keys (cfg_params c)"

definition flat_encode ::
  "rb_cfg \<Rightarrow> block list \<Rightarrow> block list list \<Rightarrow> block list \<Rightarrow> (bool \<times> block list) result" where
  "flat_encode c keys vals T0 =
     RBEncodeFlat (cfg_env c) (cfg_aes c) keys (concat vals) (cfg_rowSize c) T0 (cfg_params c)"

definition flat_decode ::
  "rb_cfg \<Rightarrow> block list \<Rightarrow> block list \<Rightarrow> block list list result" where
  "flat_decode c T keys = RBDecodeFlatRows (cfg_env c) (cfg_aes c) T (cfg_rowSize c) keys (cfg_params c)"

definition one_encode ::
  "rb_cfg \<Rightarrow> block list \<Rightarrow> block list \<Rightarrow> block list \<Rightarrow> (bool \<times> block list) result" where
  "one_encode c keys vals T0 = RBEncode1 (cfg_env c) (cfg_aes c) keys vals T0 (cfg_params c)"

definition one_decode ::
  "rb_cfg \<Rightarrow> block list \<Rightarrow> block list \<Rightarrow> block list result" where
  "one_decode c T keys = RBDecode1 (cfg_env c) (cfg_aes c) T keys (cfg_params c)"

definition cfg_fits :: "rb_cfg \<Rightarrow> nat \<Rightarrow> bool" where
  "cfg_fits c n \<longleftrightarrow> cols_ok (cfg_params c) n"

definition row_width_ok :: "rb_cfg \<Rightarrow> block list \<Rightarrow> bool" where
  "row_width_ok c v \<longleftrightarrow> v \<noteq> [] \<and> length v = cfg_rowSize c"

interpretation rbRows: okvs rows_encode rows_decode cfg_fits row_width_ok
proof
  fix c :: rb_cfg and keys keys' :: "block list" and vals T0 T
  assume enc: "rows_encode c keys vals T0 = Inr (True, T)" and ne: "keys \<noteq> []"
    and "cfg_fits c (length keys)" and len: "length keys' = length keys"
  then show "\<exists>vs. rows_decode c T keys' = Inr vs \<and> length vs = length keys \<and>
       (\<forall>i < length keys. \<forall>j < length keys. keys' ! j = keys ! i \<longrightarrow> vs ! j = vals ! i)"
    using RBEncode_RBDecode [OF enc [unfolded rows_encode_def] ne _ len]
    by (auto simp: rows_decode_def cfg_fits_def cols_ok_def)
qed

interpretation rbFlat: okvs flat_encode flat_decode cfg_fits row_width_ok
proof
  fix c :: rb_cfg and keys keys' :: "block list" and vals T0 T
  assume enc: "flat_encode c keys vals T0 = Inr (True, T)" and ne: "keys \<noteq> []"
    and fits: "cfg_fits c (length keys)" and len: "length keys' = length keys"
    and vals: "length vals = length keys" and w: "\<forall>v \<in> set vals. row_width_ok c v"
  have "vals \<noteq> []" using ne vals by auto
  then have "row_width_ok c (hd vals)" using w by simp
  then have pos: "0 < cfg_rowSize c" by (cases "hd vals") (simp_all add: row_width_ok_def)
  have "\<forall>x \<in> set vals. length x = cfg_rowSize c" using w by (simp add: row_width_ok_def)
  from RBEncodeFlat_RBDecodeFlatRows [OF enc [unfolded flat_encode_def] ne _ len vals this pos] fits
  show "\<exists>vs. flat_decode c T keys' = Inr vs \<and> length vs = length keys \<and>
       (\<forall>i < length keys. \<forall>j < length keys. keys' ! j = keys ! i \<longrightarrow> vs ! j = vals ! i)"
    by (auto simp: flat_decode_def cfg_fits_def)
qed

interpretation rbOne: okvs one_encode one_decode cfg_fits "\<lambda>_ _. True"
proof
  fix c :: rb_cfg and keys keys' :: "block list" and vals T0 T
  assume enc: "one_encode c keys vals T0 = Inr (True, T)" and ne: "keys \<noteq> []"
    and "cfg_fits c (length keys)" and len: "length keys' = length keys"
  then show "\<exists>vs. one_decode c T keys' = Inr vs \<and> length vs = length keys \<and>
       (\<forall>i < length keys. \<forall>j < length keys. keys' ! j = keys ! i \<longrightarrow> vs ! j = vals ! i)"
    using RBEncode1_RBDecode1 [OF enc [unfolded one_encode_def] ne _ len]
    by (auto simp: one_decode_def cfg_fits_def)
qed

end
