(* ===== verification/RB_Rank.thy ===== *)
theory RB_Rank
  imports RB_Okvs
begin

text \<open>
  When the encoder fails: exactly when the band rows of the keys are linearly dependent over
  GF(2), that is when the column sets of some of the keys cancel. On every other well-shaped
  input it succeeds.
\<close>

section \<open>Linear combinations of column sets\<close>

text \<open>Parity of the selected sets at a column.\<close>

fun comb :: "bool list \<Rightarrow> nat set list \<Rightarrow> nat \<Rightarrow> bool" where
  "comb (b # bs) (A # As) c \<longleftrightarrow> (b \<and> c \<in> A) \<noteq> comb bs As c"
| "comb _ _ c \<longleftrightarrow> False"

definition dependent :: "nat set list \<Rightarrow> bool" where
  "dependent As \<longleftrightarrow> (\<exists>bs. length bs = length As \<and> True \<in> set bs \<and> (\<forall>c. \<not> comb bs As c))"

text \<open>The same notion on the multiset of sets, where the order of the rows plays no part.\<close>

definition cancels :: "nat set multiset \<Rightarrow> bool" where
  "cancels N \<longleftrightarrow> (\<exists>M. M \<subseteq># N \<and> M \<noteq> {#} \<and> (\<forall>c. even (size (filter_mset (\<lambda>A. c \<in> A) M))))"

definition selected :: "bool list \<Rightarrow> nat set list \<Rightarrow> nat set multiset" where
  "selected bs As = mset (map snd (filter fst (zip bs As)))"

lemma selected_Cons [simp]:
  "selected (b # bs) (A # As) = (if b then add_mset A (selected bs As) else selected bs As)"
  "selected [] As = {#}" "selected bs [] = {#}"
  by (simp_all add: selected_def)

lemma comb_selected:
  "length bs = length As \<Longrightarrow> comb bs As c \<longleftrightarrow> odd (size (filter_mset (\<lambda>A. c \<in> A) (selected bs As)))"
  by (induction bs As rule: list_induct2) auto

lemma selected_subset: "length bs = length As \<Longrightarrow> selected bs As \<subseteq># mset As"
  by (induction bs As rule: list_induct2) (auto simp: subset_mset.le_add_same_cancel2 intro: subset_mset.order_trans)

lemma selected_empty: "length bs = length As \<Longrightarrow> selected bs As = {#} \<longleftrightarrow> True \<notin> set bs"
  by (induction bs As rule: list_induct2) auto

lemma selected_surj: "M \<subseteq># mset As \<Longrightarrow> \<exists>bs. length bs = length As \<and> selected bs As = M"
proof (induction As arbitrary: M)
  case (Cons A As)
  show ?case
  proof (cases "A \<in># M")
    case True
    then have "M - {#A#} \<subseteq># mset As" using Cons.prems by (simp add: subset_eq_diff_conv)
    then obtain bs where "length bs = length As" "selected bs As = M - {#A#}" using Cons.IH by blast
    then show ?thesis using True by (intro exI [of _ "True # bs"]) simp
  next
    case False
    then have "M \<subseteq># mset As" using Cons.prems
      by (metis add_mset_remove_trivial mset.simps(2) diff_single_trivial mset_subset_eq_add_mset_cancel
          subset_eq_diff_conv add_mset_add_single)
    then obtain bs where "length bs = length As" "selected bs As = M" using Cons.IH by blast
    then show ?thesis by (intro exI [of _ "False # bs"]) simp
  qed
qed simp

lemma dependent_cancels: "dependent As \<longleftrightarrow> cancels (mset As)"
proof
  assume "dependent As"
  then obtain bs where bs: "length bs = length As" "True \<in> set bs" "\<forall>c. \<not> comb bs As c"
    by (auto simp: dependent_def)
  then show "cancels (mset As)"
    unfolding cancels_def using selected_subset [OF bs(1)] selected_empty [OF bs(1)] comb_selected [OF bs(1)]
    by (intro exI [of _ "selected bs As"]) auto
next
  assume "cancels (mset As)"
  then obtain M where M: "M \<subseteq># mset As" "M \<noteq> {#}" "\<forall>c. even (size (filter_mset (\<lambda>A. c \<in> A) M))"
    by (auto simp: cancels_def)
  obtain bs where bs: "length bs = length As" "selected bs As = M" using selected_surj [OF M(1)] by blast
  then show "dependent As"
    unfolding dependent_def using M(2,3) selected_empty [OF bs(1)] comb_selected [OF bs(1)]
    by (intro exI [of _ bs]) auto
qed

section \<open>Elimination keeps dependence\<close>

lemma comb_elim:
  assumes "list_all2 (elim_rel w v ri p) rows rows'" and "length bs = length rows"
  shows "\<exists>t. \<forall>c. comb bs (map cols rows') c \<longleftrightarrow> (comb bs (map cols rows) c \<noteq> (t \<and> c \<in> cols ri))"
  using assms
proof (induction rows rows' arbitrary: bs rule: list_all2_induct)
  case Nil
  then show ?case by auto
next
  case (Cons r rs r' rs')
  obtain b bs' where bs: "bs = b # bs'" "length bs' = length rs" using Cons.prems by (cases bs) auto
  obtain t where t: "\<forall>c. comb bs' (map cols rs') c \<longleftrightarrow> (comb bs' (map cols rs) c \<noteq> (t \<and> c \<in> cols ri))"
    using Cons.IH [OF bs(2)] by blast
  have "cols r' = cols r \<or> cols r' = {c. (c \<in> cols r) \<noteq> (c \<in> cols ri)}"
    using Cons.hyps(1) by (auto simp: elim_rel_def)
  then show ?case
  proof
    assume "cols r' = cols r"
    then show ?thesis using t by (intro exI [of _ t]) (auto simp add: bs(1))
  next
    assume c: "cols r' = {c. (c \<in> cols r) \<noteq> (c \<in> cols ri)}"
    have "c \<in> cols r' \<longleftrightarrow> (c \<in> cols r) \<noteq> (c \<in> cols ri)" for c unfolding c by simp
    then show ?thesis using t by (intro exI [of _ "t \<noteq> b"]) (auto simp add: bs(1))
  qed
qed

lemma dependent_elim:
  assumes rel: "list_all2 (elim_rel w v ri p) rows rows'" and p: "p \<in> cols ri"
  shows "dependent (map cols (ri # rows)) \<longleftrightarrow> dependent (map cols rows')"
proof -
  have len: "length rows' = length rows" using list_all2_lengthD [OF rel] by simp
  have "\<forall>r \<in> set rows'. p \<notin> cols r"
    using rel by (auto simp: list_all2_conv_all_nth in_set_conv_nth elim_rel_def)
  then have np: "\<not> comb bs (map cols rows') p" for bs
  proof (induction rows' arbitrary: bs)
    case (Cons r rs)
    then show ?case by (cases bs) auto
  qed auto
  show ?thesis
  proof
    assume "dependent (map cols (ri # rows))"
    then obtain a bs where bs: "length bs = length rows" "a \<or> True \<in> set bs"
        "\<And>c. (a \<and> c \<in> cols ri) = comb bs (map cols rows) c"
      unfolding dependent_def by (force simp: length_Suc_conv)
    obtain t where t: "\<And>c. comb bs (map cols rows') c \<longleftrightarrow> (comb bs (map cols rows) c \<noteq> (t \<and> c \<in> cols ri))"
      using comb_elim [OF rel bs(1)] by blast
    have at: "t = a" using t [of p] bs(3) [of p] np [of bs] p by auto
    have zero: "\<not> comb bs (map cols rows') c" for c using t [of c] bs(3) [of c] at by auto
    have "True \<in> set bs"
    proof (rule ccontr)
      assume none: "True \<notin> set bs"
      have "\<not> comb bs As c" if "True \<notin> set bs" for As c and bs :: "bool list"
        using that by (induction bs As c rule: comb.induct) auto
      then show False using none bs(2) bs(3) [of p] p by blast
    qed
    then show "dependent (map cols rows')"
      unfolding dependent_def using bs(1) zero len by (intro exI [of _ bs]) auto
  next
    assume "dependent (map cols rows')"
    then obtain bs where bs: "length bs = length rows" "True \<in> set bs" "\<And>c. \<not> comb bs (map cols rows') c"
      unfolding dependent_def using len by auto
    obtain t where t: "\<And>c. comb bs (map cols rows') c \<longleftrightarrow> (comb bs (map cols rows) c \<noteq> (t \<and> c \<in> cols ri))"
      using comb_elim [OF rel bs(1)] by blast
    have "\<not> comb (t # bs) (map cols (ri # rows)) c" for c using t [of c] bs(3) [of c] by auto
    then show "dependent (map cols (ri # rows))"
      unfolding dependent_def using bs(1,2) by (intro exI [of _ "t # bs"]) auto
  qed
qed

lemma dependent_empty: "dependent ({} # As)"
proof -
  have "\<not> comb (replicate (length As) False) As c" for c
    by (induction As) auto
  then show ?thesis
    unfolding dependent_def by (intro exI [of _ "True # replicate (length As) False"]) auto
qed

text \<open>The elimination gives up exactly on a dependent system.\<close>

lemma RBEliminate_None_iff:
  assumes "rows_ok w v rows" and "w \<le> 256"
  shows "RBEliminate w rows = Inr None \<longleftrightarrow> dependent (map cols rows)"
  using assms
proof (induction w rows rule: RBEliminate.induct)
  case (1 w)
  then show ?case by (simp add: dependent_def)
next
  case (2 w ri rows)
  let ?lead = "RBLead (row_bits ri) w"
  have ri: "wf_row w v ri" and ok: "rows_ok w v rows"
    and le: "\<forall>r \<in> set rows. wf_row w v r \<and> row_start ri \<le> row_start r"
    using "2.prems"(1) by (auto simp: rows_ok_def)
  show ?case
  proof (cases "?lead = w")
    case True
    then have "band (row_bits ri) = {}"
      using RBLead_spec [of "row_bits ri" w] ri by (fastforce simp: wf_row_def)
    then have "cols ri = {}" by (simp add: cols_def)
    then show ?thesis using True dependent_empty by simp
  next
    case False
    then have lead: "?lead \<in> band (row_bits ri)" "\<forall>i \<in> band (row_bits ri). ?lead \<le> i"
      using RBLead_spec [of "row_bits ri" w] ri by (auto simp: wf_row_def)
    define p where "p = row_start ri + ?lead"
    obtain rows' where inner: "RBElim_inner w ri ?lead p rows = Inr rows'"
      and rel: "list_all2 (elim_rel w v ri p) rows rows'"
      using RBElim_inner_spec [OF ri "2.prems"(2) lead p_def le] ok by (auto simp: rows_ok_def)
    have ok': "rows_ok w v rows'" by (rule elim_rel_list(1) [OF rel ok])
    have "p \<in> cols ri" using lead(1) by (simp add: mem_cols p_def)
    then have "dependent (map cols (ri # rows)) \<longleftrightarrow> dependent (map cols rows')"
      by (rule dependent_elim [OF rel])
    moreover have "RBEliminate w (ri # rows) = Inr None \<longleftrightarrow> RBEliminate w rows' = Inr None"
      using False inner RBEliminate_spec [OF ok' "2.prems"(2)] by (auto simp: Let_def p_def)
    ultimately show ?thesis
      using "2.IH" [OF refl False refl inner [unfolded p_def] ok' "2.prems"(2)] by simp
  qed
qed

section \<open>The encoder decides dependence of the keys' columns\<close>

definition key_cols :: "RBHashCtx \<Rightarrow> nat \<Rightarrow> nat \<Rightarrow> block \<Rightarrow> nat set" where
  "key_cols hash m w key = (\<lambda>i. RBStart hash m w key + i) ` key_band hash w key"

lemma row_of_cols: "row_of hash m w key val r \<Longrightarrow> cols r = key_cols hash m w key"
  by (simp add: row_of_def cols_def key_cols_def)

lemma RBRows_total:
  assumes "length vals = length keys" and "\<forall>x \<in> set vals. length x = v" and "0 < v" and "keys \<noteq> []"
    and w: "w \<le> m" "w \<le> 256"
  shows "\<exists>rows. RBRows env aes keys vals m w params = Inr rows"
proof -
  have v0: "length (vals ! 0) = v" using assms by (cases vals) auto
  have "\<exists>r. RBRows_body hash keys vals v m w i = Inr r" if "i < length keys" for hash i
    using that assms RBKeyBits_spec [OF w(2), of hash "keys ! i"] by (auto simp: RBRows_body_def)
  then have "\<forall>i. \<exists>r. i < length keys \<longrightarrow>
      RBRows_body (RBMakeHashCtx aes params) keys vals v m w i = Inr r" by blast
  from choice [OF this] obtain f where "\<And>i. i < length keys \<Longrightarrow>
      RBRows_body (RBMakeHashCtx aes params) keys vals v m w i = Inr (f i)" by blast
  then have "mapE (RBRows_body (RBMakeHashCtx aes params) keys vals v m w) [0..<length keys] =
      Inr (map f [0..<length keys])"
    by (intro mapE_all_Inr) auto
  then show ?thesis using assms v0 by (simp add: RBRows_def Let_def RBFor_sequential)
qed

lemma RBEncode_decides:
  assumes cfg: "RBInfoOf env (length keys) params = Inr cfg"
    and len: "length vals = length keys" and wd: "\<forall>x \<in> set vals. length x = v" and v: "0 < v"
    and ne: "keys \<noteq> []"
  shows "\<exists>T. RBEncode env aes keys vals T0 params =
     Inr (\<not> cancels (mset (map (key_cols (RBMakeHashCtx aes params) (inf_columns cfg) (inf_bandWidth cfg)) keys)), T)"
proof -
  define m w where "m = inf_columns cfg" and "w = inf_bandWidth cfg"
  let ?hash = "RBMakeHashCtx aes params"
  note B = RBInfoOf_bounds(1,2,3) [OF cfg, folded w_def m_def]
  have v0: "length (vals ! 0) = v" using ne len wd by (cases vals) auto
  obtain rows where rows: "RBRows env aes keys vals m w params = Inr rows"
    using RBRows_total [OF len wd v ne B(3,2)] by blast
  note rok = RBRows_rows_ok [OF rows B ne, unfolded v0]
  obtain rs where rs: "rows = sort_key row_start rs" "length rs = length keys"
      "\<And>i. i < length keys \<Longrightarrow> row_of ?hash m w (keys ! i) (vals ! i) (rs ! i)"
    using RBRows_Inr(5) [OF rows B(2) ne] by blast
  have "map cols rs = map (key_cols ?hash m w) keys"
    using rs(2) row_of_cols [OF rs(3)] by (intro nth_equalityI) simp_all
  then have "mset (map cols rows) = mset (map (key_cols ?hash m w) keys)"
    by (metis mset_map mset_sort rs(1))
  then have dep: "RBEliminate w rows = Inr None \<longleftrightarrow> cancels (mset (map (key_cols ?hash m w) keys))"
    using RBEliminate_None_iff [OF rok(1) B(2)] by (simp add: dependent_cancels)
  have enc: "RBEncode env aes keys vals T0 params = bindE (RBEliminate w rows) (\<lambda>res. case res of
            None \<Rightarrow> Inr (False, T0)
          | Some rps \<Rightarrow> bindE (RBFill w rps (replicate m (replicate v 0))) (\<lambda>table. Inr (True, table)))"
    using cfg rows ne v0 unfolding m_def w_def by (simp add: RBEncode_def Let_def)
  obtain res where res: "RBEliminate w rows = Inr res" using RBEliminate_spec [OF rok(1) B(2)] by blast
  show ?thesis
  proof (cases res)
    case None
    then show ?thesis using dep enc res by (simp flip: m_def w_def)
  next
    case (Some rps)
    have "\<exists>T. RBFill w rps (replicate m (replicate v 0)) = Inr T"
      using RBFill_spec [OF RBEliminate_fillable [OF res [unfolded Some] rok(1) rok(2) B(2)] B(2),
          of "replicate m (replicate v 0)"]
      by (auto simp: table_ok_def)
    then show ?thesis using dep enc res Some by (auto simp flip: m_def w_def)
  qed
qed

end
