(* ===== verification/RB_Properties.thy ===== *)
theory RB_Properties
  imports RB_Rank
begin

text \<open>
  The properties of the random-band OKVS, each with an application to a small concrete
  instance that is evaluated in full: three keys, four columns, bands of width three, a cipher
  that ignores its key.
\<close>

unbundle bit_operations_syntax

section \<open>The instance\<close>

definition w_env :: rb_env where
  "w_env = \<lparr> env_log2 = (\<lambda>_. 10), env_hc = 2 \<rparr>"

definition w_aes :: cipher where
  "w_aes k x = x"

definition w_params :: RBParams where
  "w_params = RBParams_default\<lparr> prm_columns := 4, prm_bandWidth := 3, prm_check := False \<rparr>"

definition w_keys :: "block list" where
  "w_keys = [5, 1, 4]"

definition w_vals :: "block list list" where
  "w_vals = [[50, 51], [10, 11], [40, 41]]"

definition w_table :: "block list" where
  "w_table = [0, 0, 10, 11, 40, 41, 56, 56]"

lemma w_info: "n \<le> 4 \<Longrightarrow> \<exists>info. RBInfoOf w_env n w_params = Inr info \<and> inf_columns info = 4 \<and> inf_bandWidth info = 3"
  by (rule RBInfoOf_explicit) (simp_all add: w_params_def RBParams_default_def)

lemmas w_hash = RBMakeHashCtx_def w_aes_def RBHash64_def RBMask256_def block_lo_def block_hi_def Let_def

lemma w_bits:
  "RBKeyBits (RBMakeHashCtx w_aes w_params) 3 1 = Inr [1, 0, 0, 0]"
  "RBKeyBits (RBMakeHashCtx w_aes w_params) 3 4 = Inr [4, 0, 0, 0]"
  "RBKeyBits (RBMakeHashCtx w_aes w_params) 3 5 = Inr [5, 0, 0, 0]"
  by (simp_all add: RBKeyBits_def RBMaskBits_def RBTrimBits_def RBEnsureBits_def RBHasBits_def
      w_hash upt_rec)

lemma w_start:
  "RBStart (RBMakeHashCtx w_aes w_params) 4 3 1 = 1"
  "RBStart (RBMakeHashCtx w_aes w_params) 4 3 4 = 0"
  "RBStart (RBMakeHashCtx w_aes w_params) 4 3 5 = 1"
  by (simp_all add: RBStart_def w_hash numeral_2_eq_2 [symmetric])

lemma w_rows: "RBRowsFlat w_env w_aes w_keys (concat w_vals) 2 4 3 w_params =
  Inr ([\<lparr>flat_start = 0, flat_bits = [4, 0, 0, 0], flat_rhs = 4\<rparr>,
        \<lparr>flat_start = 1, flat_bits = [5, 0, 0, 0], flat_rhs = 0\<rparr>,
        \<lparr>flat_start = 1, flat_bits = [1, 0, 0, 0], flat_rhs = 2\<rparr>], [50, 51, 10, 11, 40, 41])"
  by (simp add: RBRowsFlat_def RBFor_sequential w_keys_def w_vals_def RBRowsFlat_body_def w_bits
      w_start upt_rec)

lemma w_lead:
  "RBLead [4, 0, 0, 0] 3 = 2" "RBLead [5, 0, 0, 0] 3 = 0" "RBLead [1, 0, 0, 0] 3 = 0"
  "RBLead [4, 0, 0, 0] 3 = 2"
  by (simp_all add: RBLead_def ctz64_def upt_rec bit_numeral_rec)

lemma w_xor: "RBXorShifted [1, 0, 0, 0] 0 [5, 0, 0, 0] 0 3 = Inr [4, 0, 0, 0]"
  by (simp add: RBXorShifted_def RBZeroBelow_def RBShiftLeft_def RBShiftLeft_step_def RBTrimBits_def
      Let_def upt_rec)

lemma w_bit:
  "\<not> RBBit [5, 0, 0, 0] (Suc 0)" "\<not> RBBit [1, 0, 0, 0] (Suc 0)" "RBBit [1, 0, 0, 0] 0"
  "\<not> RBBit [4, 0, 0, 0] 0" "\<not> RBBit [4, 0, 0, 0] (Suc 0)" "RBBit [4, 0, 0, 0] 2"
  "RBBit [5, 0, 0, 0] 0" "RBBit [5, 0, 0, 0] 2"
  by (simp_all add: RBBit_iff bit_numeral_rec)

lemma w_elim:
  "RBFlatEliminate 3 2 [\<lparr>flat_start = 0, flat_bits = [4, 0, 0, 0], flat_rhs = 4\<rparr>,
        \<lparr>flat_start = 1, flat_bits = [5, 0, 0, 0], flat_rhs = 0\<rparr>,
        \<lparr>flat_start = 1, flat_bits = [1, 0, 0, 0], flat_rhs = 2\<rparr>] [50, 51, 10, 11, 40, 41] =
   Inr (Some ([(\<lparr>flat_start = 0, flat_bits = [4, 0, 0, 0], flat_rhs = 4\<rparr>, 2),
        (\<lparr>flat_start = 1, flat_bits = [5, 0, 0, 0], flat_rhs = 0\<rparr>, 1),
        (\<lparr>flat_start = 1, flat_bits = [4, 0, 0, 0], flat_rhs = 2\<rparr>, 3)], [50, 51, 56, 56, 40, 41]))"
  by (simp add: w_lead w_bit w_xor Let_def RBFlatPtr_def slice_def patch_at_def)

lemma w_zeros: "replicate 8 (0 :: block) = [0, 0, 0, 0, 0, 0, 0, 0]"
  by (simp add: eval_nat_numeral)

lemma w_fill:
  "RBFlatFill 3 2 (map (\<lambda>(r, p). (flat_view 2 [50, 51, 56, 56, 40, 41] r, p))
      [(\<lparr>flat_start = 0, flat_bits = [4, 0, 0, 0], flat_rhs = 4\<rparr>, 2),
        (\<lparr>flat_start = 1, flat_bits = [5, 0, 0, 0], flat_rhs = 0\<rparr>, 1),
        (\<lparr>flat_start = 1, flat_bits = [4, 0, 0, 0], flat_rhs = 2\<rparr>, 3)]) (replicate 8 0) =
   Inr w_table"
  by (simp add: RBFlatFill_row_def RBFlatFill_sum_def flat_view_def RBFlatPtr_def w_bit Let_def RBXorPtr_def RBRowPtr_def slice_def
      patch_at_def upt_rec w_table_def numeral_2_eq_2 [symmetric] w_zeros)

lemma w_encode: "RBEncodeFlat w_env w_aes w_keys (concat w_vals) 2 T0 w_params = Inr (True, w_table)"
proof -
  obtain info where info: "RBInfoOf w_env (length w_keys) w_params = Inr info"
      "inf_columns info = 4" "inf_bandWidth info = 3"
    using w_info [of "length w_keys"] by (auto simp: w_keys_def)
  have "w_keys \<noteq> []" "length (concat w_vals) = length w_keys * 2"
    by (simp_all add: w_keys_def w_vals_def)
  then show ?thesis using info w_rows w_elim w_fill by (simp add: RBEncodeFlat_def Let_def)
qed

lemma w_shape: "w_keys \<noteq> []" "cols_ok w_params (length w_keys)" "length w_vals = length w_keys"
  "\<forall>x \<in> set w_vals. length x = 2"
  by (simp_all add: w_keys_def cols_ok_def w_params_def w_vals_def)

section \<open>Properties\<close>

text \<open>C3: the round trip of the flat codec the protocol uses. If the encoder reports success, a
  decoder with the same parameters that queries as many keys succeeds, and the slot of every
  query that is one of the encoded keys holds that key's value.\<close>

theorem okvs_flat_roundtrip:
  assumes "RBEncodeFlat env aes keys (concat vals) v T0 params = Inr (True, table)"
    and "keys \<noteq> []" and "cols_ok params (length keys)" and "length keys' = length keys"
    and "length vals = length keys" and "\<forall>x \<in> set vals. length x = v" and "0 < v"
  shows "\<exists>out. RBDecodeFlat env aes table v keys' params = Inr out \<and> length out = length keys * v \<and>
     (\<forall>i < length keys. \<forall>j < length keys. keys' ! j = keys ! i \<longrightarrow> slice (j * v) v out = vals ! i)"
proof -
  obtain vs where vs: "RBDecodeFlatRows env aes table v keys' params = Inr vs" "length vs = length keys"
      "\<forall>x \<in> set vs. length x = v"
      "\<forall>i < length keys. \<forall>j < length keys. keys' ! j = keys ! i \<longrightarrow> vs ! j = vals ! i"
    using RBEncodeFlat_RBDecodeFlatRows [OF assms] by blast
  then have "slice (j * v) v (concat vs) = vs ! j" if "j < length keys" for j
    using that by (intro slice_concat) auto
  then show ?thesis
    using vs length_concat_uniform [of vs v] by (auto simp: RBDecodeFlat_def)
qed

theorem okvs_flat_roundtrip_witness:
  "\<exists>out. RBDecodeFlat w_env w_aes w_table 2 [4, 77, 5] w_params = Inr out \<and> length out = 6 \<and>
     slice 0 2 out = [40, 41] \<and> slice 4 2 out = [50, 51]"
proof -
  obtain out where out: "RBDecodeFlat w_env w_aes w_table 2 [4, 77, 5] w_params = Inr out"
      "length out = length w_keys * 2"
      "\<forall>i < length w_keys. \<forall>j < length w_keys. [4, 77, 5] ! j = w_keys ! i \<longrightarrow> slice (j * 2) 2 out = w_vals ! i"
    using okvs_flat_roundtrip [OF w_encode [of "[]"] w_shape(1,2) _ w_shape(3,4), of "[4, 77, 5]"]
    by (auto simp: w_keys_def)
  have "slice (0 * 2) 2 out = w_vals ! 2" using out(3) [rule_format, of 2 0] by (simp add: w_keys_def)
  moreover have "slice (2 * 2) 2 out = w_vals ! 0" using out(3) [rule_format, of 0 2] by (simp add: w_keys_def)
  ultimately show ?thesis using out(1,2) by (simp add: w_vals_def w_keys_def)
qed

text \<open>C6: the encoder decides linear dependence. On resolved parameters and values of one
  width it never throws; it reports failure exactly when the column sets of some of the keys
  cancel, that is when the linear system of the keys is rank deficient.\<close>

theorem okvs_encode_decides:
  assumes "RBInfoOf env (length keys) params = Inr cfg"
    and "length vals = length keys" and "\<forall>x \<in> set vals. length x = v" and "0 < v" and "keys \<noteq> []"
  shows "\<exists>T. RBEncodeFlat env aes keys (concat vals) v (concat T0) params =
     Inr (\<not> cancels (mset (map (key_cols (RBMakeHashCtx aes params) (inf_columns cfg) (inf_bandWidth cfg)) keys)), T)"
proof -
  from RBEncode_decides [OF assms] obtain T where
    "RBEncode env aes keys vals T0 params = Inr (\<not> cancels (mset (map (key_cols (RBMakeHashCtx aes params)
        (inf_columns cfg) (inf_bandWidth cfg)) keys)), T)" by blast
  then show ?thesis using RBEncodeFlat_sim [OF assms(2-4), of env aes T0 params] by simp
qed

theorem okvs_encode_decides_witness:
  "\<exists>cfg. RBInfoOf w_env 3 w_params = Inr cfg \<and>
     \<not> cancels (mset (map (key_cols (RBMakeHashCtx w_aes w_params) (inf_columns cfg) (inf_bandWidth cfg)) w_keys))"
proof -
  obtain cfg where cfg: "RBInfoOf w_env 3 w_params = Inr cfg" using w_info [of 3] by auto
  have "length w_keys = 3" by (simp add: w_keys_def)
  then show ?thesis
    using okvs_encode_decides [OF _ w_shape(3,4) _ w_shape(1), of w_env w_params cfg w_aes "[]"] cfg w_encode
    by auto
qed

text \<open>C20: the flat encoder refines the row encoder: on the concatenation of the rows it gives
  the concatenation of the row encoder's table, with the same verdict and the same exceptions.\<close>

theorem okvs_flat_refines_rows:
  assumes "length vals = length keys" and "\<forall>x \<in> set vals. length x = v" and "0 < v"
  shows "RBEncodeFlat env aes keys (concat vals) v (concat T0) params =
     bindE (RBEncode env aes keys vals T0 params) (\<lambda>(ok, T). Inr (ok, concat T))"
  using assms by (rule RBEncodeFlat_sim)

theorem okvs_flat_refines_rows_witness:
  "\<exists>T. RBEncode w_env w_aes w_keys w_vals [] w_params = Inr (True, T) \<and> concat T = w_table"
proof -
  have "RBEncodeFlat w_env w_aes w_keys (concat w_vals) 2 (concat []) w_params =
      bindE (RBEncode w_env w_aes w_keys w_vals [] w_params) (\<lambda>(ok, T). Inr (ok, concat T))"
    by (rule okvs_flat_refines_rows [OF w_shape(3,4)]) simp
  then show ?thesis
    using w_encode [of "concat []"] by (auto simp: bindE_def split: sum.splits)
qed

text \<open>The round trip of the row tables, through the contract of an OKVS.\<close>

theorem okvs_rows_roundtrip:
  assumes "RBEncode env aes keys vals T0 params = Inr (True, T)" and "keys \<noteq> []"
    and "prm_columns params = 0 \<or> length keys \<le> prm_columns params"
  shows "RBDecode env aes T keys params = Inr vals"
proof -
  obtain vs where vs: "RBDecode env aes T keys params = Inr vs" "length vs = length keys"
    "\<forall>i < length keys. \<forall>j < length keys. keys ! j = keys ! i \<longrightarrow> vs ! j = vals ! i"
    using RBEncode_RBDecode [OF assms refl] by blast
  have "length vals = length keys" using RBEncode_cases [OF assms(1,2)] by blast
  then have "vs = vals" using vs(2,3) by (intro nth_equalityI) auto
  with vs(1) show ?thesis by simp
qed

theorem okvs_rows_roundtrip_witness:
  "\<exists>T. RBEncode w_env w_aes w_keys w_vals [] w_params = Inr (True, T) \<and>
     RBDecode w_env w_aes T w_keys w_params = Inr w_vals"
proof -
  obtain T where T: "RBEncode w_env w_aes w_keys w_vals [] w_params = Inr (True, T)"
    using w_encode [of "concat []"] RBEncodeFlat_sim [OF w_shape(3,4), of w_env w_aes "[]" w_params]
    by (auto simp: bindE_def split: sum.splits)
  then show ?thesis
    using okvs_rows_roundtrip [OF T w_shape(1)] by (simp add: w_params_def w_keys_def)
qed

text \<open>The one-block wrappers: decoding the keys of a successful encoding gives the values.\<close>

theorem okvs_one_roundtrip:
  assumes "RBEncode1 env aes keys vals T0 params = Inr (True, T)" and "keys \<noteq> []"
    and "cols_ok params (length keys)" and "length vals = length keys"
  shows "RBDecode1 env aes T keys params = Inr vals"
  using rbOne.decode_encoded [of "\<lparr>cfg_env = env, cfg_aes = aes, cfg_rowSize = 1, cfg_params = params\<rparr>" keys vals T0 T]
    assms by (simp add: one_encode_def one_decode_def cfg_fits_def)

theorem okvs_one_roundtrip_witness:
  "\<exists>T. RBEncode1 w_env w_aes w_keys [50, 10, 40] [] w_params = Inr (True, T) \<and>
     RBDecode1 w_env w_aes T w_keys w_params = Inr [50, 10, 40]"
proof -
  have nc: "\<not> cancels (mset (map (key_cols (RBMakeHashCtx w_aes w_params) (inf_columns cfg) (inf_bandWidth cfg)) w_keys))"
    if "RBInfoOf w_env (length w_keys) w_params = Inr cfg" for cfg
    using RBEncode_decides [OF that w_shape(3,4) _ w_shape(1), of w_aes "[]"]
      RBEncodeFlat_sim [OF w_shape(3,4), of w_env w_aes "[]" w_params] w_encode [of "concat []"]
    by auto
  obtain cfg where cfg: "RBInfoOf w_env (length w_keys) w_params = Inr cfg"
    using w_info [of "length w_keys"] by (auto simp: w_keys_def)
  have "length (map (\<lambda>v. [v]) [50, 10, 40 :: block]) = length w_keys" by (simp add: w_keys_def)
  then obtain T where "RBEncode w_env w_aes w_keys (map (\<lambda>v. [v]) [50, 10, 40]) [] w_params = Inr (True, T)"
    using RBEncode_decides [OF cfg _ _ _ w_shape(1), of "map (\<lambda>v. [v]) [50, 10, 40]" 1 w_aes "[]"] nc [OF cfg]
    by auto
  then have enc: "RBEncode1 w_env w_aes w_keys [50, 10, 40] [] w_params = Inr (True, map (\<lambda>r. r ! 0) T)"
    by (simp add: RBEncode1_def w_keys_def)
  show ?thesis
    using okvs_one_roundtrip [OF enc w_shape(1,2)] enc by (simp add: w_keys_def)
qed

text \<open>The parallel loop computes what the sequential loop computes, for every thread
  count: each index is processed once and in its own slot.\<close>

theorem rbfor_is_sequential: "RBFor hc n multiThread workerThreads fn = mapE fn [0..<n]"
  by (rule RBFor_sequential)

text \<open>C21: resolved parameters are usable: a band of 1 to 256 columns that fits the table, a
  table with a column per key, and, unless the check is switched off, a band at least as wide
  as the security target asks for.\<close>

theorem rb_resolved_parameters:
  assumes "RBInfoOf env n params = Inr info"
  shows "1 \<le> inf_bandWidth info \<and> inf_bandWidth info \<le> 256 \<and>
     inf_bandWidth info \<le> inf_columns info \<and> n \<le> inf_columns info \<and>
     (prm_check params \<longrightarrow> (\<exists>needW. RBNeedW env (inf_n info) (prm_lambda params) (inf_eps info) = Inr needW
        \<and> needW \<le> inf_bandWidth info))"
  using RBInfoOf_bounds [OF assms] by blast

theorem rb_resolved_parameters_witness:
  "\<exists>info. RBInfoOf w_env 3 w_params = Inr info \<and> inf_bandWidth info \<le> inf_columns info \<and> 3 \<le> inf_columns info"
proof -
  obtain info where info: "RBInfoOf w_env 3 w_params = Inr info" using w_info [of 3] by auto
  show ?thesis using rb_resolved_parameters [OF info] info by blast
qed

text \<open>The word-level shift-and-xor of two band masks. Bit \<open>i\<close> of the result is bit \<open>i\<close> of
  the destination, flipped when \<open>i\<close> is inside the width, at or above the destination offset,
  and the correspondingly displaced bit of the source is set.\<close>

theorem rb_xor_shifted:
  assumes "wf_bits dst" and "wf_bits src" and "w \<le> 256"
  shows "\<exists>bits. RBXorShifted dst dstOff src srcOff w = Inr bits \<and> wf_bits bits \<and>
     (\<forall>i. i \<in> band bits \<longleftrightarrow> (i \<in> band dst) \<noteq>
        (i < w \<and> dstOff \<le> i \<and> i - dstOff + srcOff \<in> band src))"
  using RBXorShifted_spec [OF assms] by blast

theorem rb_xor_shifted_witness:
  "\<exists>bits. RBXorShifted [1, 0, 0, 0] 0 [5, 0, 0, 0] 0 3 = Inr bits \<and> 2 \<in> band bits \<and> 0 \<notin> band bits"
proof -
  have wf: "wf_bits [1, 0, 0, 0]" "wf_bits [5, 0, 0, 0]" by (simp_all add: wf_bits_def)
  have b: "2 \<in> band [5, 0, 0, 0]" "0 \<in> band [5, 0, 0, 0]" "0 \<in> band [1, 0, 0, 0]" "2 \<notin> band [1, 0, 0, 0]"
    by (simp_all add: band_def bit_numeral_rec bit_1_iff)
  show ?thesis using rb_xor_shifted [OF wf, of 3 0 0] b by auto
qed

end
