(* ===== verification/Kem_MlKem.thy ===== *)
theory Kem_MlKem
  imports PSI_Prelude
begin

text \<open>
  The ML-KEM wrapper \<open>frontend/kem/obf-mlkem/backend/MlKem.cpp\<close>: size checks and dispatch to
  the native implementation, which is the parameter \<open>mlkem_native\<close>. A native call that
  returns a nonzero code is \<open>None\<close>. The \<open>default\<close> branches of the switches are unreachable
  for the three values of the mode type.
\<close>

datatype Mode = MlKem512 | MlKem768 | MlKem1024

record Sizes =
  publicKeyBytes :: nat
  secretKeyBytes :: nat
  cipherTextBytes :: nat

record mlkem_native =
  keypair_derand :: "Mode \<Rightarrow> u8 list \<Rightarrow> (u8 list \<times> u8 list) option"
  enc_derand :: "Mode \<Rightarrow> u8 list \<Rightarrow> u8 list \<Rightarrow> (u8 list \<times> u8 list) option"
  dec :: "Mode \<Rightarrow> u8 list \<Rightarrow> u8 list \<Rightarrow> u8 list option"

record MlKem =
  mMode :: Mode
  mSizes :: Sizes

definition SharedSecretSize :: nat where "SharedSecretSize = 32"
definition EncapSeedSize :: nat where "EncapSeedSize = 32"
definition KeyGenSeedSize :: nat where "KeyGenSeedSize = 64"

text \<open>The constants of \<open>thirdparty/mlkem-native/mlkem/mlkem_native.h\<close>.\<close>

fun getSizes :: "Mode \<Rightarrow> Sizes" where
  "getSizes MlKem512 = \<lparr> publicKeyBytes = 800, secretKeyBytes = 1632, cipherTextBytes = 768 \<rparr>"
| "getSizes MlKem768 = \<lparr> publicKeyBytes = 1184, secretKeyBytes = 2400, cipherTextBytes = 1088 \<rparr>"
| "getSizes MlKem1024 = \<lparr> publicKeyBytes = 1568, secretKeyBytes = 3168, cipherTextBytes = 1568 \<rparr>"

definition MlKem_new :: "Mode \<Rightarrow> MlKem" where
  "MlKem_new mode = \<lparr> mMode = mode, mSizes = getSizes mode \<rparr>"

definition MlKem_setMode :: "Mode \<Rightarrow> MlKem \<Rightarrow> MlKem" where
  "MlKem_setMode mode kem = kem\<lparr> mMode := mode, mSizes := getSizes mode \<rparr>"

definition requireSize :: "u8 list \<Rightarrow> nat \<Rightarrow> string \<Rightarrow> 'a result \<Rightarrow> 'a result" where
  "requireSize inp expectedSize label k =
     guardE (length inp \<noteq> expectedSize) (InvalidArgument (label @ '' has unexpected size'')) k"

definition requireSuccess :: "'a option \<Rightarrow> string \<Rightarrow> 'a result" where
  "requireSuccess rc label =
     (case rc of None \<Rightarrow> Inl (RuntimeError (label @ '' failed'')) | Some x \<Rightarrow> Inr x)"

fun mode_name :: "Mode \<Rightarrow> string" where
  "mode_name MlKem512 = ''MlKem512''"
| "mode_name MlKem768 = ''MlKem768''"
| "mode_name MlKem1024 = ''MlKem1024''"

text \<open>
  \<open>keyGen(seed, publicKey, secretKey)\<close>: \<open>pkLen\<close> and \<open>skLen\<close> are the sizes of the output spans.
\<close>

definition MlKem_keyGen_into ::
  "mlkem_native \<Rightarrow> MlKem \<Rightarrow> u8 list \<Rightarrow> nat \<Rightarrow> nat \<Rightarrow> (u8 list \<times> u8 list) result" where
  "MlKem_keyGen_into ops kem seed pkLen skLen =
     requireSize seed KeyGenSeedSize ''MlKem::keyGen seed''
     (guardE (pkLen \<noteq> publicKeyBytes (mSizes kem))
        (InvalidArgument ''MlKem public key output has unexpected size'')
     (guardE (skLen \<noteq> secretKeyBytes (mSizes kem))
        (InvalidArgument ''MlKem secret key output has unexpected size'')
     (requireSuccess (keypair_derand ops (mMode kem) seed)
        (mode_name (mMode kem) @ '' keypair_derand''))))"

definition MlKem_keyGen :: "mlkem_native \<Rightarrow> MlKem \<Rightarrow> u8 list \<Rightarrow> (u8 list \<times> u8 list) result" where
  "MlKem_keyGen ops kem seed =
     requireSize seed KeyGenSeedSize ''MlKem::keyGen seed''
       (MlKem_keyGen_into ops kem seed (publicKeyBytes (mSizes kem)) (secretKeyBytes (mSizes kem)))"

definition MlKem_encaps_into ::
  "mlkem_native \<Rightarrow> MlKem \<Rightarrow> u8 list \<Rightarrow> u8 list \<Rightarrow> nat \<Rightarrow> nat \<Rightarrow> (u8 list \<times> u8 list) result" where
  "MlKem_encaps_into ops kem publicKey seed ctLen ssLen =
     requireSize publicKey (publicKeyBytes (mSizes kem)) ''MlKem public key''
     (requireSize seed EncapSeedSize ''MlKem::encaps seed''
     (guardE (ctLen \<noteq> cipherTextBytes (mSizes kem))
        (InvalidArgument ''MlKem ciphertext output has unexpected size'')
     (guardE (ssLen \<noteq> SharedSecretSize)
        (InvalidArgument ''MlKem shared secret output has unexpected size'')
     (requireSuccess (enc_derand ops (mMode kem) publicKey seed)
        (mode_name (mMode kem) @ '' enc_derand'')))))"

definition MlKem_encaps :: "mlkem_native \<Rightarrow> MlKem \<Rightarrow> u8 list \<Rightarrow> u8 list \<Rightarrow> (u8 list \<times> u8 list) result" where
  "MlKem_encaps ops kem publicKey seed =
     MlKem_encaps_into ops kem publicKey seed (cipherTextBytes (mSizes kem)) SharedSecretSize"

definition MlKem_decaps :: "mlkem_native \<Rightarrow> MlKem \<Rightarrow> u8 list \<Rightarrow> u8 list \<Rightarrow> u8 list result" where
  "MlKem_decaps ops kem cipherText secretKey =
     requireSize cipherText (cipherTextBytes (mSizes kem)) ''MlKem ciphertext''
     (requireSize secretKey (secretKeyBytes (mSizes kem)) ''MlKem secret key''
     (requireSuccess (dec ops (mMode kem) cipherText secretKey) (mode_name (mMode kem) @ '' dec'')))"

section \<open>What the wrapper guarantees\<close>

text \<open>
  The documented interface of the native implementation: outputs have the sizes of the mode,
  the calls succeed on inputs of the right sizes, and decapsulation of an honest ciphertext
  with the honest secret key gives the encapsulated secret (the cryptographic decryption
  failure, of probability below \<open>2 ^ -138\<close>, is not an input of the seeds considered).
\<close>

definition native_sizes :: "mlkem_native \<Rightarrow> Mode \<Rightarrow> bool" where
  "native_sizes ops mode \<longleftrightarrow>
     (\<forall>seed pk sk. keypair_derand ops mode seed = Some (pk, sk) \<longrightarrow>
        length pk = publicKeyBytes (getSizes mode) \<and> length sk = secretKeyBytes (getSizes mode)) \<and>
     (\<forall>pk seed ct ss. enc_derand ops mode pk seed = Some (ct, ss) \<longrightarrow>
        length ct = cipherTextBytes (getSizes mode) \<and> length ss = SharedSecretSize) \<and>
     (\<forall>ct sk ss. dec ops mode ct sk = Some ss \<longrightarrow> length ss = SharedSecretSize)"

definition native_correct :: "mlkem_native \<Rightarrow> Mode \<Rightarrow> u8 list \<Rightarrow> u8 list \<Rightarrow> bool" where
  "native_correct ops mode kseed eseed \<longleftrightarrow>
     (\<forall>pk sk ct ss. keypair_derand ops mode kseed = Some (pk, sk) \<longrightarrow>
        enc_derand ops mode pk eseed = Some (ct, ss) \<longrightarrow> dec ops mode ct sk = Some ss)"

definition mlkem_wf :: "MlKem \<Rightarrow> bool" where
  "mlkem_wf kem \<longleftrightarrow> mSizes kem = getSizes (mMode kem)"

lemma mlkem_wf_new: "mlkem_wf (MlKem_new mode)"
  by (simp add: mlkem_wf_def MlKem_new_def)

lemma mlkem_wf_setMode: "mlkem_wf (MlKem_setMode mode kem)"
  by (simp add: mlkem_wf_def MlKem_setMode_def)

lemma requireSuccess_Inr [simp]: "requireSuccess rc label = Inr x \<longleftrightarrow> rc = Some x"
  by (simp add: requireSuccess_def split: option.splits)

lemma requireSize_Inr [simp]: "requireSize inp n label k = Inr x \<longleftrightarrow> length inp = n \<and> k = Inr x"
  by (simp add: requireSize_def guardE_Inr_iff)

lemma MlKem_keyGen_Inr:
  assumes "MlKem_keyGen ops kem seed = Inr (pk, sk)"
  shows "keypair_derand ops (mMode kem) seed = Some (pk, sk)" and "length seed = 64"
  using assms by (simp_all add: MlKem_keyGen_def MlKem_keyGen_into_def guardE_Inr_iff KeyGenSeedSize_def)

text \<open>Honest encapsulation is undone by decapsulation.\<close>

lemma MlKem_decaps_encaps:
  assumes "mlkem_wf kem" and "native_sizes ops (mMode kem)" and "native_correct ops (mMode kem) kseed eseed"
    and "MlKem_keyGen ops kem kseed = Inr (pk, sk)" and "MlKem_encaps ops kem pk eseed = Inr (ct, ss)"
  shows "MlKem_decaps ops kem ct sk = Inr ss"
proof -
  have k: "keypair_derand ops (mMode kem) kseed = Some (pk, sk)" by (rule MlKem_keyGen_Inr [OF assms(4)])
  have e: "enc_derand ops (mMode kem) pk eseed = Some (ct, ss)"
    using assms(5) by (simp add: MlKem_encaps_def MlKem_encaps_into_def guardE_Inr_iff)
  have "dec ops (mMode kem) ct sk = Some ss" using assms(3) k e by (auto simp: native_correct_def)
  moreover have "length ct = cipherTextBytes (mSizes kem)" "length sk = secretKeyBytes (mSizes kem)"
    using assms(1,2) k e by (auto simp: native_sizes_def mlkem_wf_def)
  ultimately show ?thesis by (simp add: MlKem_decaps_def)
qed

end
