(* ===== verification/Kem_Bits.thy ===== *)
theory Kem_Bits
  imports PSI_Prelude
begin

text \<open>
  The byte and bit packing of \<open>frontend/kem/obf-mlkem/codec/Kemeleon.cpp\<close>: twelve-bit
  coefficients of the public key and \<open>d\<close>-bit compressed ciphertext coefficients.
\<close>

unbundle bit_operations_syntax

section \<open>Twelve-bit coefficients\<close>

text \<open>One pass of each loop: three bytes and two coefficients.\<close>

definition unpack3 :: "u8 \<Rightarrow> u8 \<Rightarrow> u8 \<Rightarrow> u16 list" where
  "unpack3 c0 c1 c2 =
     (let b0 = ucast c0; b1 = ucast c1; b2 = ucast c2
      in [b0 OR push_bit 8 (b1 AND 0x0F), drop_bit 4 b1 OR push_bit 4 b2])"

definition pack2 :: "u16 \<Rightarrow> u16 \<Rightarrow> u8 list" where
  "pack2 a0 a1 =
     [ucast (a0 AND 0xFF), ucast (drop_bit 8 a0 OR push_bit 4 (a1 AND 0x0F)), ucast (drop_bit 4 a1)]"

definition unpackPolyBytes :: "u8 list \<Rightarrow> u16 list result" where
  "unpackPolyBytes src =
     guardE (length src mod 3 \<noteq> 0) (InvalidArgument ''Kemeleon poly bytes have unexpected size'')
       (Inr (concat (map (\<lambda>i. unpack3 (src ! (3 * i)) (src ! (3 * i + 1)) (src ! (3 * i + 2)))
          [0..<length src div 3])))"

definition packPolyBytes :: "u16 list \<Rightarrow> u8 list result" where
  "packPolyBytes src =
     guardE (length src mod 2 \<noteq> 0) (InvalidArgument ''Kemeleon coeff count has unexpected size'')
       (Inr (concat (map (\<lambda>i. pack2 (src ! (2 * i)) (src ! (2 * i + 1))) [0..<length src div 2])))"

section \<open>Packed bit fields\<close>

text \<open>Bit \<open>pos\<close> of a byte string, \<open>(src[pos / 8] >> (pos % 8)) & 1\<close>.\<close>

definition get_bit :: "u8 list \<Rightarrow> nat \<Rightarrow> u8" where
  "get_bit src pos = drop_bit (pos mod 8) (src ! (pos div 8)) AND 1"

definition unpack_value :: "u8 list \<Rightarrow> nat \<Rightarrow> nat \<Rightarrow> u16" where
  "unpack_value src bitPos bitsPerValue =
     foldl (\<lambda>x j. x OR push_bit j (ucast (get_bit src (bitPos + j)))) 0 [0..<bitsPerValue]"

definition unpackBits :: "u8 list \<Rightarrow> nat \<Rightarrow> nat \<Rightarrow> u16 list" where
  "unpackBits src bitsPerValue count =
     map (\<lambda>i. unpack_value src (i * bitsPerValue) bitsPerValue) [0..<count]"

text \<open>The inner loop of \<open>packBits\<close> for one value \<open>x\<close> at bit position \<open>bitPos\<close>.\<close>

definition pack_value :: "nat \<Rightarrow> u16 \<Rightarrow> nat \<Rightarrow> u8 list \<Rightarrow> u8 list" where
  "pack_value bitsPerValue x bitPos out =
     foldl (\<lambda>out j.
        if drop_bit j x AND 1 \<noteq> 0
        then let pos = bitPos + j
             in out[pos div 8 := out ! (pos div 8) OR push_bit (pos mod 8) 1]
        else out) out [0..<bitsPerValue]"

definition packBits :: "u16 list \<Rightarrow> nat \<Rightarrow> u8 list" where
  "packBits src bitsPerValue =
     foldl (\<lambda>out i. pack_value bitsPerValue (src ! i) (i * bitsPerValue) out)
       (replicate ((length src * bitsPerValue + 7) div 8) 0) [0..<length src]"

section \<open>Round trip of the coefficients\<close>

lemma byte_eqI: "(\<And>i. i < 8 \<Longrightarrow> bit (x::u8) i = bit y i) \<Longrightarrow> x = y"
  by (rule bit_word_eqI) simp

lemma less8_cases: "i < 8 \<Longrightarrow> i = 0 \<or> i = 1 \<or> i = 2 \<or> i = 3 \<or> i = 4 \<or> i = 5 \<or> i = 6 \<or> i = (7::nat)"
  by linarith

lemma and_0F: "x AND 0x0F = take_bit 4 (x :: 'a::len word)"
  by (simp add: take_bit_eq_mask mask_eq_exp_minus_1)

lemma and_FF: "x AND 0xFF = take_bit 8 (x :: 'a::len word)"
  by (simp add: take_bit_eq_mask mask_eq_exp_minus_1)

lemmas bits12 = bit_simps and_0F and_FF

lemma small_bits: "unat (a :: 'a::len word) < 2 ^ n \<Longrightarrow> n \<le> i \<Longrightarrow> \<not> bit a i"
proof -
  assume a: "unat a < 2 ^ n" "n \<le> i"
  then have "take_bit n (unat a) = unat a" by (simp add: take_bit_nat_eq_self)
  then have "\<not> bit (unat a) i" using a(2) by (metis bit_take_bit_iff not_less)
  then show ?thesis by (simp add: bit_unsigned_iff)
qed

lemma pack2_unpack3: "pack2 (unpack3 c0 c1 c2 ! 0) (unpack3 c0 c1 c2 ! 1) = [c0, c1, c2]"
proof -
  let ?a0 = "ucast c0 OR push_bit 8 (ucast c1 AND 0x0F) :: u16"
  let ?a1 = "drop_bit 4 (ucast c1) OR push_bit 4 (ucast c2) :: u16"
  have "ucast (?a0 AND 0xFF) = c0" by (rule byte_eqI) (auto simp: bits12)
  moreover have "ucast (drop_bit 8 ?a0 OR push_bit 4 (?a1 AND 0x0F)) = c1"
    by (rule byte_eqI) (auto simp: bits12 dest: bit_imp_le_length)
  moreover have "ucast (drop_bit 4 ?a1) = c2"
    by (rule byte_eqI) (auto simp: bits12 dest: bit_imp_le_length)
  ultimately show ?thesis by (simp add: pack2_def unpack3_def Let_def)
qed

lemma unpack3_pack2:
  assumes "unat a0 < 2 ^ 12" "unat a1 < 2 ^ 12"
  shows "unpack3 (pack2 a0 a1 ! 0) (pack2 a0 a1 ! 1) (pack2 a0 a1 ! 2) = [a0, a1]"
proof -
  have hi: "i < 12" if "unat a < 2 ^ 12" "bit a i" for a :: u16 and i
    using small_bits [OF that(1)] that(2) not_less by blast
  have "unpack3 (pack2 a0 a1 ! 0) (pack2 a0 a1 ! 1) (pack2 a0 a1 ! 2) ! 0 = a0"
    using hi [OF assms(1)] by (intro bit_word_eqI) (fastforce simp: unpack3_def pack2_def Let_def bits12)
  moreover have "unpack3 (pack2 a0 a1 ! 0) (pack2 a0 a1 ! 1) (pack2 a0 a1 ! 2) ! 1 = a1"
    using hi [OF assms(1)] hi [OF assms(2)] by (intro bit_word_eqI) (fastforce simp: unpack3_def pack2_def Let_def bits12)
  ultimately show ?thesis by (simp add: unpack3_def Let_def)
qed

text \<open>A list read in groups of \<open>k\<close>.\<close>

lemma concat_groups:
  assumes "length xs = k * n"
  shows "concat (map (\<lambda>i. map (\<lambda>j. xs ! (k * i + j)) [0..<k]) [0..<n]) = xs"
  using assms
proof (induction n arbitrary: xs)
  case (Suc n)
  have "concat (map (\<lambda>i. map (\<lambda>j. take (k * n) xs ! (k * i + j)) [0..<k]) [0..<n]) = take (k * n) xs"
    by (rule Suc.IH) (use Suc.prems in simp)
  moreover have "map (\<lambda>i. map (\<lambda>j. take (k * n) xs ! (k * i + j)) [0..<k]) [0..<n] =
      map (\<lambda>i. map (\<lambda>j. xs ! (k * i + j)) [0..<k]) [0..<n]"
  proof -
    have "k * i + j < k * n" if "i < n" "j < k" for i j
    proof -
      have "k * i + j < k * Suc i" using that by simp
      also have "\<dots> \<le> k * n" using that by (intro mult_le_mono2) simp
      finally show ?thesis .
    qed
    then show ?thesis by (auto intro!: map_cong)
  qed
  moreover have "map (\<lambda>j. xs ! (k * n + j)) [0..<k] = drop (k * n) xs"
    using Suc.prems by (intro nth_equalityI) (auto simp: nth_drop)
  ultimately show ?case by simp
qed simp

lemma length_concat_groups:
  "(\<And>i. i < n \<Longrightarrow> length (f i) = k) \<Longrightarrow> length (concat (map f [0..<n])) = n * k"
  by (rule length_concat_uniform [of "map f [0..<n]" k, simplified]) auto

lemma nth_concat_groups:
  assumes "\<And>i. i < n \<Longrightarrow> length (f i) = k" and "i < n" and "j < k"
  shows "concat (map f [0..<n]) ! (k * i + j) = f i ! j"
proof -
  have "slice (i * k) k (concat (map f [0..<n])) = map f [0..<n] ! i"
    using assms by (intro slice_concat) auto
  then have "slice (i * k) k (concat (map f [0..<n])) ! j = f i ! j" using assms(2) by simp
  moreover have "length (concat (map f [0..<n])) = n * k"
    using assms(1) by (rule length_concat_groups)
  moreover have "i * k + k \<le> n * k" using assms(2) mult_le_mono1 [of "Suc i" n k] by simp
  ultimately show ?thesis using assms(3) by (simp add: mult.commute)
qed

lemma unpackPolyBytes_Inr:
  "unpackPolyBytes src = Inr t \<longleftrightarrow> length src mod 3 = 0 \<and>
     t = concat (map (\<lambda>i. unpack3 (src ! (3 * i)) (src ! (3 * i + 1)) (src ! (3 * i + 2))) [0..<length src div 3])"
  unfolding unpackPolyBytes_def guardE_Inr_iff by auto

lemma packPolyBytes_Inr:
  "packPolyBytes t = Inr src \<longleftrightarrow> length t mod 2 = 0 \<and>
     src = concat (map (\<lambda>i. pack2 (t ! (2 * i)) (t ! (2 * i + 1))) [0..<length t div 2])"
  unfolding packPolyBytes_def guardE_Inr_iff by auto

lemma length_unpack3 [simp]: "length (unpack3 a b c) = 2"
  by (simp add: unpack3_def Let_def)

lemma length_pack2 [simp]: "length (pack2 a b) = 3"
  by (simp add: pack2_def)

lemma length_unpackPolyBytes: "unpackPolyBytes src = Inr t \<Longrightarrow> length t = length src div 3 * 2"
  unfolding unpackPolyBytes_Inr by (auto intro: length_concat_groups)

lemma length_packPolyBytes: "packPolyBytes t = Inr src \<Longrightarrow> length src = length t div 2 * 3"
  unfolding packPolyBytes_Inr by (auto intro: length_concat_groups)

lemma unpackPolyBytes_lt: "unpackPolyBytes src = Inr t \<Longrightarrow> x \<in> set t \<Longrightarrow> unat x < 2 ^ 12"
proof -
  have "unat y < 2 ^ 12" if y: "y \<in> set (unpack3 a b c)" for y a b c
  proof -
    have "take_bit 12 y = y"
      using y unfolding unpack3_def Let_def and_0F
      by (intro bit_word_eqI) (fastforce simp: bit_simps dest: bit_imp_le_length)
    then show ?thesis by (metis take_bit_nat_less_exp unsigned_take_bit_eq)
  qed
  then show "unpackPolyBytes src = Inr t \<Longrightarrow> x \<in> set t \<Longrightarrow> unat x < 2 ^ 12"
    unfolding unpackPolyBytes_Inr by auto
qed

text \<open>Packing undoes unpacking on every byte string, unpacking undoes packing on twelve-bit values.\<close>

lemma packPolyBytes_unpackPolyBytes:
  assumes "unpackPolyBytes src = Inr t"
  shows "packPolyBytes t = Inr src"
proof -
  define n where "n = length src div 3"
  define f where "f = (\<lambda>i. unpack3 (src ! (3 * i)) (src ! (3 * i + 1)) (src ! (3 * i + 2)))"
  have t: "t = concat (map f [0..<n])" and len: "length src = 3 * n"
    using assms unfolding unpackPolyBytes_Inr n_def f_def by auto
  have lf: "length (f i) = 2" for i by (simp add: f_def)
  have lt: "length t = 2 * n" using length_concat_groups [of n f 2] lf t by simp
  have "pack2 (t ! (2 * i)) (t ! (2 * i + 1)) = map (\<lambda>j. src ! (3 * i + j)) [0..<3]" if "i < n" for i
  proof -
    have "t ! (2 * i + 0) = f i ! 0" "t ! (2 * i + 1) = f i ! 1"
      unfolding t by (rule nth_concat_groups; use lf that in simp)+
    then show ?thesis by (simp add: f_def pack2_unpack3 [unfolded One_nat_def] upt_rec)
  qed
  then have "concat (map (\<lambda>i. pack2 (t ! (2 * i)) (t ! (2 * i + 1))) [0..<n]) = src"
    using concat_groups [OF len] by (metis (no_types, lifting) atLeastLessThan_iff map_cong set_upt)
  then show ?thesis using lt by (simp add: packPolyBytes_def)
qed

lemma unpackPolyBytes_packPolyBytes:
  assumes "packPolyBytes t = Inr src" and "\<forall>x \<in> set t. unat x < 2 ^ 12"
  shows "unpackPolyBytes src = Inr t"
proof -
  define n where "n = length t div 2"
  define f where "f = (\<lambda>i. pack2 (t ! (2 * i)) (t ! (2 * i + 1)))"
  have src: "src = concat (map f [0..<n])" and len: "length t = 2 * n"
    using assms(1) unfolding packPolyBytes_Inr n_def f_def by auto
  have lf: "length (f i) = 3" for i by (simp add: f_def)
  have ls: "length src = 3 * n" using length_concat_groups [of n f 3] lf src by simp
  have "unpack3 (src ! (3 * i)) (src ! (3 * i + 1)) (src ! (3 * i + 2)) = map (\<lambda>j. t ! (2 * i + j)) [0..<2]"
    if "i < n" for i
  proof -
    have "src ! (3 * i + 0) = f i ! 0" "src ! (3 * i + 1) = f i ! 1" "src ! (3 * i + 2) = f i ! 2"
      unfolding src by (rule nth_concat_groups; use lf that in simp)+
    then show ?thesis
      using unpack3_pack2 [of "t ! (2 * i)" "t ! (2 * i + 1)"] assms(2) len that by (simp add: f_def upt_rec)
  qed
  then have "concat (map (\<lambda>i. unpack3 (src ! (3 * i)) (src ! (3 * i + 1)) (src ! (3 * i + 2))) [0..<n]) = t"
    using concat_groups [OF len] by (metis (no_types, lifting) atLeastLessThan_iff map_cong set_upt)
  then show ?thesis using ls by (simp add: unpackPolyBytes_def)
qed

section \<open>Round trip of the bit fields\<close>

definition sbit :: "u8 list \<Rightarrow> nat \<Rightarrow> bool" where
  "sbit src pos \<longleftrightarrow> bit (src ! (pos div 8)) (pos mod 8)"

lemma get_bit_eq: "get_bit src pos = of_bool (sbit src pos)"
  by (simp add: get_bit_def sbit_def and_one_eq bit_iff_odd_drop_bit odd_iff_mod_2_eq_one of_bool_odd_eq_mod_2)

lemma bit_unpack_value:
  assumes "b \<le> 16"
  shows "bit (unpack_value src pos b) i \<longleftrightarrow> i < b \<and> sbit src (pos + i)"
  using assms
proof (induction b arbitrary: i)
  case (Suc b)
  have "unpack_value src pos (Suc b) =
      unpack_value src pos b OR push_bit b (ucast (get_bit src (pos + b)))"
    by (simp add: unpack_value_def)
  moreover have "bit (push_bit b (ucast (get_bit src (pos + b))) :: u16) i \<longleftrightarrow> i = b \<and> sbit src (pos + b)"
    using Suc.prems by (cases "sbit src (pos + b)") (auto simp: get_bit_eq bit_exp_iff)
  moreover have "bit (unpack_value src pos b) i \<longleftrightarrow> i < b \<and> sbit src (pos + i)"
    using Suc by simp
  ultimately show ?case by (cases "i = b") (simp_all add: bit_or_iff less_Suc_eq)
qed (simp add: unpack_value_def)

lemma byte_list_eqI:
  assumes "length xs = length ys" and "\<And>p. p < 8 * length xs \<Longrightarrow> sbit xs p = sbit ys p"
  shows "xs = ys"
proof (rule nth_equalityI [OF assms(1)])
  fix i assume i: "i < length xs"
  show "xs ! i = ys ! i"
  proof (rule byte_eqI)
    fix j :: nat assume "j < 8"
    then show "bit (xs ! i) j = bit (ys ! i) j"
      using assms(2) [of "8 * i + j"] i by (simp add: sbit_def)
  qed
qed

text \<open>Writing one value sets the bits of its field and leaves the others.\<close>

lemma sbit_set:
  assumes "p div 8 < length out"
  shows "sbit (out[p div 8 := out ! (p div 8) OR push_bit (p mod 8) 1]) p' \<longleftrightarrow> sbit out p' \<or> p' = p"
proof -
  let ?out = "out[p div 8 := out ! (p div 8) OR push_bit (p mod 8) 1]"
  have b: "bit (push_bit (p mod 8) 1 :: u8) i \<longleftrightarrow> i = p mod 8" if "i < 8" for i
    using that by (auto simp: bit_exp_iff)
  show ?thesis
  proof (cases "p' div 8 = p div 8")
    case True
    then have e: "p' = p \<longleftrightarrow> p' mod 8 = p mod 8" by (metis div_mult_mod_eq)
    have "sbit ?out p' \<longleftrightarrow> bit (out ! (p' div 8)) (p' mod 8) \<or> p' mod 8 = p mod 8"
      using assms True b by (simp add: sbit_def bit_or_iff)
    then show ?thesis unfolding e by (simp add: sbit_def)
  next
    case False
    then have "sbit ?out p' = sbit out p'" "p' \<noteq> p" using assms by (auto simp: sbit_def)
    then show ?thesis by simp
  qed
qed

lemma pack_value_spec:
  assumes "b \<le> 16" and "pos + b \<le> 8 * length out"
  shows "length (pack_value b x pos out) = length out \<and>
     (\<forall>p. sbit (pack_value b x pos out) p \<longleftrightarrow> sbit out p \<or> (pos \<le> p \<and> p < pos + b \<and> bit x (p - pos)))"
  using assms
proof (induction b)
  case (Suc b)
  define out1 where "out1 = pack_value b x pos out"
  have IH: "length out1 = length out"
    "\<And>p. sbit out1 p \<longleftrightarrow> sbit out p \<or> (pos \<le> p \<and> p < pos + b \<and> bit x (p - pos))"
    using Suc by (auto simp: out1_def)
  have odd: "drop_bit b x AND 1 \<noteq> 0 \<longleftrightarrow> bit x b"
    by (simp add: and_one_eq bit_iff_odd_drop_bit odd_iff_mod_2_eq_one)
  have step: "pack_value (Suc b) x pos out = (if bit x b
      then out1[(pos + b) div 8 := out1 ! ((pos + b) div 8) OR push_bit ((pos + b) mod 8) 1] else out1)"
    using odd by (simp add: pack_value_def out1_def Let_def)
  have lt: "(pos + b) div 8 < length out1" using Suc.prems IH(1) by linarith
  have pb: "p = pos + b \<longleftrightarrow> pos \<le> p \<and> p - pos = b" for p by auto
  have "sbit (pack_value (Suc b) x pos out) p \<longleftrightarrow> sbit out1 p \<or> (bit x b \<and> p = pos + b)" for p
    using step sbit_set [OF lt] by simp
  moreover have "(pos \<le> p \<and> p < pos + Suc b \<and> bit x (p - pos)) \<longleftrightarrow>
      (pos \<le> p \<and> p < pos + b \<and> bit x (p - pos)) \<or> (bit x b \<and> p = pos + b)" for p
    by (cases "p = pos + b") (simp_all add: less_Suc_eq)
  ultimately show ?case using IH step by simp
qed (auto simp: pack_value_def)

lemma pack_fold_spec:
  assumes "b \<le> 16" and "k \<le> length src" and "length src * b \<le> 8 * m"
  defines "r \<equiv> foldl (\<lambda>out i. pack_value b (src ! i) (i * b) out) (replicate m 0) [0..<k]"
  shows "length r = m \<and> (\<forall>p < 8 * m. sbit r p \<longleftrightarrow> p < k * b \<and> bit (src ! (p div b)) (p mod b))"
  using assms(2) unfolding r_def
proof (induction k)
  case 0
  show ?case by (auto simp: sbit_def)
next
  case (Suc k)
  define r1 where "r1 = foldl (\<lambda>out i. pack_value b (src ! i) (i * b) out) (replicate m 0) [0..<k]"
  have IH: "length r1 = m" "\<And>p. p < 8 * m \<Longrightarrow> sbit r1 p \<longleftrightarrow> p < k * b \<and> bit (src ! (p div b)) (p mod b)"
    using Suc by (auto simp: r1_def)
  have "Suc k * b \<le> length src * b" using Suc.prems by (rule mult_le_mono1)
  then have fit: "k * b + b \<le> 8 * length r1" using assms(3) IH(1) by simp
  note ps = pack_value_spec [OF assms(1) fit, of "src ! k"]
  have split: "(k * b \<le> p \<and> p < k * b + b \<and> bit (src ! k) (p - k * b)) \<or> (p < k * b \<and> bit (src ! (p div b)) (p mod b))
      \<longleftrightarrow> p < Suc k * b \<and> bit (src ! (p div b)) (p mod b)" for p
  proof (cases "k * b \<le> p \<and> p < k * b + b")
    case True
    then have "p div b = k" "p mod b = p - k * b"
      by (metis add.commute div_nat_eqI mult.commute mult_Suc, 
          metis True add.commute div_nat_eqI minus_div_mult_eq_mod mult.commute mult_Suc)
    then show ?thesis using True by auto
  next
    case False
    then show ?thesis by auto
  qed
  show ?case using IH ps split by (auto simp: r1_def [symmetric])
qed

lemma packBits_spec:
  assumes "b \<le> 16"
  shows "length (packBits src b) = (length src * b + 7) div 8"
    and "p < 8 * length (packBits src b) \<Longrightarrow>
      sbit (packBits src b) p \<longleftrightarrow> p < length src * b \<and> bit (src ! (p div b)) (p mod b)"
proof -
  have "length src * b \<le> 8 * ((length src * b + 7) div 8)" by linarith
  from pack_fold_spec [OF assms order_refl this]
  show "length (packBits src b) = (length src * b + 7) div 8"
    "p < 8 * length (packBits src b) \<Longrightarrow>
      sbit (packBits src b) p \<longleftrightarrow> p < length src * b \<and> bit (src ! (p div b)) (p mod b)"
    by (simp_all add: packBits_def)
qed

text \<open>A byte string of whole fields is recovered from its fields.\<close>

lemma packBits_unpackBits:
  assumes "0 < b" and "b \<le> 16" and "8 * length src = count * b"
  shows "packBits (unpackBits src b count) b = src"
proof (rule byte_list_eqI)
  have lu: "length (unpackBits src b count) = count" by (simp add: unpackBits_def)
  show len: "length (packBits (unpackBits src b count) b) = length src"
    using packBits_spec(1) [OF assms(2), of "unpackBits src b count"] lu assms(3) by simp
  fix p assume "p < 8 * length (packBits (unpackBits src b count) b)"
  then have p: "p < 8 * length (packBits (unpackBits src b count) b)" "p < count * b"
    using len assms(3) by simp_all
  then have "p div b < count" by (simp add: less_mult_imp_div_less)
  then have "bit (unpackBits src b count ! (p div b)) (p mod b) \<longleftrightarrow> sbit src p"
    using assms(1,2) by (simp add: unpackBits_def bit_unpack_value)
  then show "sbit (packBits (unpackBits src b count) b) p = sbit src p"
    using packBits_spec(2) [OF assms(2) p(1)] lu p(2) by simp
qed

text \<open>Values that fit the field width are recovered from the packed string.\<close>

lemma unpackBits_packBits:
  assumes "0 < b" and "b \<le> 16" and "\<forall>x \<in> set xs. unat x < 2 ^ b"
  shows "unpackBits (packBits xs b) b (length xs) = xs"
proof (rule nth_equalityI)
  show "length (unpackBits (packBits xs b) b (length xs)) = length xs" by (simp add: unpackBits_def)
  fix i assume "i < length (unpackBits (packBits xs b) b (length xs))"
  then have i: "i < length xs" by (simp add: unpackBits_def)
  show "unpackBits (packBits xs b) b (length xs) ! i = xs ! i"
  proof (rule bit_word_eqI)
    fix n assume "n < LENGTH(16)"
    show "bit (unpackBits (packBits xs b) b (length xs) ! i) n \<longleftrightarrow> bit (xs ! i) n"
    proof (cases "n < b")
      case True
      have "Suc i * b \<le> length xs * b" using i by (intro mult_le_mono1) simp
      then have lt: "i * b + n < length xs * b" using True by simp
      then have "i * b + n < 8 * length (packBits xs b)"
        using packBits_spec(1) [OF assms(2), of xs] by linarith
      then show ?thesis
        using packBits_spec(2) [OF assms(2), of "i * b + n" xs] lt True i assms(1,2)
        by (simp add: unpackBits_def bit_unpack_value)
    next
      case False
      then show ?thesis using small_bits [of "xs ! i" b n] assms i
        by (simp add: unpackBits_def bit_unpack_value)
    qed
  qed
qed

end
