(* ===== verification/Kem_Vec.thy ===== *)
theory Kem_Vec
  imports Kem_MlKem Kem_Bits
begin

text \<open>
  The vector codec of \<open>Kemeleon.cpp\<close>: a coefficient vector as the base-\<open>q\<close> integer it spells,
  exported to bytes. The big-integer library GMP is the parameter \<open>gmp\<close>; an \<open>mpz_t\<close> is the
  natural number it holds. \<open>gmp_ok\<close> is what the GMP manual documents of the functions called.
\<close>

section \<open>The big-integer interface\<close>

record gmp =
  mpz_mul_ui :: "nat \<Rightarrow> nat \<Rightarrow> nat"
  mpz_add_ui :: "nat \<Rightarrow> nat \<Rightarrow> nat"
  mpz_ui_pow_ui :: "nat \<Rightarrow> nat \<Rightarrow> nat"
  mpz_tdiv_q_ui :: "nat \<Rightarrow> nat \<Rightarrow> nat \<times> nat"
  mpz_sizeinbase :: "nat \<Rightarrow> nat \<Rightarrow> nat"
  mpz_tstbit :: "nat \<Rightarrow> nat \<Rightarrow> bool"
  mpz_export :: "nat \<Rightarrow> u8 list"
  mpz_import :: "u8 list \<Rightarrow> nat"

text \<open>The integer a little-endian byte string spells.\<close>

definition le_val :: "u8 list \<Rightarrow> nat" where
  "le_val bs = horner_sum unat 256 bs"

text \<open>
  \<open>mpz_tdiv_q_ui\<close> yields the quotient and returns the remainder; \<open>mpz_sizeinbase\<close> is exact for
  a power-of-two base and a nonzero argument; \<open>mpz_export\<close> with order \<open>-1\<close> and word size 1
  writes the little-endian bytes without a leading zero.
\<close>

definition gmp_ok :: "gmp \<Rightarrow> bool" where
  "gmp_ok g \<longleftrightarrow>
     (\<forall>x y. mpz_mul_ui g x y = x * y) \<and> (\<forall>x y. mpz_add_ui g x y = x + y) \<and>
     (\<forall>x y. mpz_ui_pow_ui g x y = x ^ y) \<and>
     (\<forall>x d. 0 < d \<longrightarrow> mpz_tdiv_q_ui g x d = (x div d, x mod d)) \<and>
     (\<forall>x. 0 < x \<longrightarrow> 0 < mpz_sizeinbase g x 2 \<and> 2 ^ (mpz_sizeinbase g x 2 - 1) \<le> x \<and>
        x < 2 ^ mpz_sizeinbase g x 2) \<and>
     (\<forall>x i. mpz_tstbit g x i \<longleftrightarrow> odd (x div 2 ^ i)) \<and>
     (\<forall>x. le_val (mpz_export g x) = x \<and> (mpz_export g x \<noteq> [] \<longrightarrow> last (mpz_export g x) \<noteq> 0)) \<and>
     (\<forall>bs. mpz_import g bs = le_val bs)"

section \<open>Bit length\<close>

text \<open>The \<open>while\<close> loop of \<open>bitLen\<close>, counting \<open>n\<close> down.\<close>

fun bitLen_trim :: "gmp \<Rightarrow> nat \<Rightarrow> nat \<Rightarrow> nat" where
  "bitLen_trim g x 0 = 0"
| "bitLen_trim g x (Suc n) = (if mpz_tstbit g x n then Suc n else bitLen_trim g x n)"

definition bitLen :: "gmp \<Rightarrow> nat \<Rightarrow> nat" where
  "bitLen g x = (if x = 0 then 0 else bitLen_trim g x (mpz_sizeinbase g x 2))"

section \<open>Encoding and decoding\<close>

definition kq :: nat where "kq = 3329"

text \<open>The tail the three encoders share: range check, export, and the mask of the last byte.\<close>

definition export_bits :: "gmp \<Rightarrow> nat \<Rightarrow> nat \<Rightarrow> bool \<times> u8 list" where
  "export_bits g x bits =
     (if bitLen g x > bits then (False, [])
      else
        let out = patch_at 0 (mpz_export g x) (replicate ((bits + 7) div 8) 0)
        in (True, if bits mod 8 \<noteq> 0
                  then butlast out @ [last out AND (push_bit (bits mod 8) 1 - 1)] else out))"

definition encodeVec :: "gmp \<Rightarrow> u16 list \<Rightarrow> nat \<Rightarrow> bool \<times> u8 list" where
  "encodeVec g inp bits =
     export_bits g
       (foldr (\<lambda>v x. mpz_add_ui g (mpz_mul_ui g x kq) (unat v)) inp 0) bits"

text \<open>The digit loop, with the integer that is left after it.\<close>

fun decode_digits :: "gmp \<Rightarrow> nat \<Rightarrow> nat \<Rightarrow> u16 list \<times> nat" where
  "decode_digits g 0 x = ([], x)"
| "decode_digits g (Suc count) x =
     (case mpz_tdiv_q_ui g x kq of (qx, r) \<Rightarrow>
        case decode_digits g count qx of (out, rest) \<Rightarrow> (word_of_nat r # out, rest))"

text \<open>
  The two rejections clear the output; when the integer is too large the digits stay in it
  and only the verdict is false.
\<close>

definition decodeVec :: "gmp \<Rightarrow> u8 list \<Rightarrow> nat \<Rightarrow> nat \<Rightarrow> bool \<times> u16 list" where
  "decodeVec g inp bits count =
     (if length inp \<noteq> (bits + 7) div 8 then (False, [])
      else if bits mod 8 \<noteq> 0 \<and> last inp AND NOT (push_bit (bits mod 8) 1 - 1) \<noteq> 0 then (False, [])
      else case decode_digits g count (mpz_import g inp) of (out, rest) \<Rightarrow> (rest = 0, out))"

section \<open>Digits\<close>

fun digits :: "nat \<Rightarrow> nat \<Rightarrow> nat \<Rightarrow> nat list" where
  "digits b 0 x = []"
| "digits b (Suc n) x = x mod b # digits b n (x div b)"

lemma length_digits [simp]: "length (digits b n x) = n"
  by (induction n arbitrary: x) auto

lemma digits_lt: "0 < b \<Longrightarrow> d \<in> set (digits b n x) \<Longrightarrow> d < b"
  by (induction n arbitrary: x) auto

lemma horner_digits: "horner_sum (\<lambda>d. d) b (digits b n x) = x mod b ^ n"
proof (induction n arbitrary: x)
  case (Suc n)
  have "x mod b ^ Suc n = x mod b + b * (x div b mod b ^ n)"
    using mod_mult2_eq [of x b "b ^ n"] by simp
  with Suc show ?case by simp
qed simp

lemma digits_horner: "\<forall>d \<in> set ds. d < (b::nat) \<Longrightarrow> digits b (length ds) (horner_sum (\<lambda>d. d) b ds) = ds"
  by (induction ds) auto

lemma horner_lt: "\<forall>d \<in> set ds. d < (b::nat) \<Longrightarrow> horner_sum (\<lambda>d. d) b ds < b ^ length ds"
proof (induction ds)
  case (Cons d ds)
  let ?h = "horner_sum (\<lambda>d. d) b ds"
  have "d < b" "?h + 1 \<le> b ^ length ds" using Cons by (simp_all add: Suc_le_eq)
  then have "d + b * ?h < b * (?h + 1)" "b * (?h + 1) \<le> b * b ^ length ds"
    by (simp, intro mult_le_mono2)
  then show ?case by simp
qed simp

lemma horner_unat: "horner_sum unat b xs = horner_sum (\<lambda>d. d) b (map unat xs)"
  by (induction xs) auto

lemma unat_lt: "unat (w :: 'a::len word) < 2 ^ LENGTH('a)"
  by (rule unsigned_less)

lemma byte_lt: "d \<in> set (map unat (bs :: u8 list)) \<Longrightarrow> d < 256"
proof -
  assume "d \<in> set (map unat bs)"
  then obtain w :: u8 where "d = unat w" by auto
  then show "d < 256" using unat_lt [of w] by simp
qed

lemma le_val_lt: "le_val bs < 256 ^ length bs"
  using horner_lt [of "map unat bs" 256] byte_lt [of _ bs] unfolding le_val_def horner_unat length_map
  by blast

lemma le_val_inj: "length xs = length ys \<Longrightarrow> le_val xs = le_val ys \<Longrightarrow> xs = ys"
proof -
  assume len: "length xs = length ys" and eq: "le_val xs = le_val ys"
  have d: "\<forall>d \<in> set (map unat zs). d < 256" for zs :: "u8 list"
    using byte_lt by blast
  have "digits 256 (length zs) (le_val zs) = map unat zs" for zs
    using digits_horner [OF d, of zs] unfolding le_val_def horner_unat length_map .
  then have "map unat xs = map unat ys" using len eq by metis
  then show ?thesis by (rule map_injective) (simp add: inj_def word_unat_eq_iff)
qed

lemma le_val_append: "le_val (xs @ ys) = le_val xs + 256 ^ length xs * le_val ys"
  by (induction xs) (simp_all add: le_val_def algebra_simps)

lemma le_val_zeros [simp]: "le_val (replicate n 0) = 0"
  by (induction n) (simp_all add: le_val_def)

section \<open>The codec on integers\<close>

lemma bitLen_le_iff:
  assumes "gmp_ok g"
  shows "bitLen g x \<le> b \<longleftrightarrow> x < 2 ^ b"
proof (cases "x = 0")
  case False
  define s where "s = mpz_sizeinbase g x 2"
  have s: "0 < s" "2 ^ (s - 1) \<le> x" "x < 2 ^ s" using assms False by (auto simp: gmp_ok_def s_def)
  have two: "2 ^ s = 2 * (2::nat) ^ (s - 1)" using s(1) by (cases s) auto
  have "x div 2 ^ (s - 1) = 1"
    using s two by (intro div_nat_eqI) auto
  then have "mpz_tstbit g x (s - 1)" using assms by (simp add: gmp_ok_def)
  then have "bitLen g x = s"
    using False s(1) unfolding bitLen_def s_def [symmetric] by (cases s) auto
  moreover have "s \<le> b \<longleftrightarrow> x < 2 ^ b"
  proof
    assume "s \<le> b"
    then show "x < 2 ^ b" using s(3) by (meson less_le_trans one_le_numeral power_increasing)
  next
    assume "x < 2 ^ b"
    then have "(2::nat) ^ (s - 1) < 2 ^ b" using s(2) by linarith
    then have "s - 1 < b" by simp
    then show "s \<le> b" using s(1) by linarith
  qed
  ultimately show ?thesis by simp
qed (simp add: bitLen_def)

lemma bitLen_exact: "gmp_ok g \<Longrightarrow> 0 < x \<Longrightarrow> 0 < bitLen g x \<and> 2 ^ (bitLen g x - 1) \<le> x \<and> x < 2 ^ bitLen g x"
proof -
  assume g: "gmp_ok g" and x: "0 < x"
  have "\<not> bitLen g x \<le> 0" using bitLen_le_iff [OF g, of x 0] x by simp
  moreover have "\<not> bitLen g x \<le> bitLen g x - 1" using calculation by linarith
  ultimately show ?thesis using bitLen_le_iff [OF g, of x] by (metis bot_nat_0.not_eq_extremum not_less order_refl)
qed

lemma pow256: "(256::nat) ^ n = 2 ^ (8 * n)"
  by (simp add: power_mult)

lemma bits_bytes: "bits \<le> 8 * ((bits + 7) div (8::nat))" "0 < bits \<Longrightarrow> 8 * ((bits + 7) div 8 - 1) < bits"
  by linarith+

lemma export_length:
  assumes g: "gmp_ok g" and x: "x < 2 ^ bits"
  shows "length (mpz_export g x) \<le> (bits + 7) div 8"
proof (cases "mpz_export g x")
  case (Cons c cs)
  define es e where "es = butlast (mpz_export g x)" and "e = last (mpz_export g x)"
  have xe: "mpz_export g x = es @ [e]" "e \<noteq> 0" "le_val (mpz_export g x) = x"
    using g Cons unfolding gmp_ok_def es_def e_def by (metis append_butlast_last_id list.discI)+
  then have "256 ^ length es * unat e \<le> x"
    using le_val_append [of es "[e]"] by (simp add: le_val_def)
  moreover have "0 < unat e" using xe(2) by (simp add: unat_gt_0)
  ultimately have "256 ^ length es \<le> x" by (metis Suc_leI le_trans mult_le_mono2 nat_mult_1_right One_nat_def)
  then have "(2::nat) ^ (8 * length es) < 2 ^ bits" using x unfolding pow256 by linarith
  then have "8 * length es < bits" by simp
  then have "length es + 1 \<le> (bits + 7) div 8" by linarith
  then show ?thesis using xe(1) by simp
qed simp

text \<open>The mask of the top byte leaves an integer of at most \<open>bits\<close> bits alone.\<close>

lemma top_byte_lt:
  assumes "length bs = (bits + 7) div 8" and "bits mod 8 \<noteq> 0"
  shows "le_val bs < 2 ^ bits \<longleftrightarrow> unat (last bs) < 2 ^ (bits mod 8)"
proof -
  define n where "n = bits div 8"
  have b: "bits = 8 * n + bits mod 8" by (simp add: n_def)
  have "(k + 7) div 8 = Suc n" if "k = 8 * n + r" "0 < r" "r < 8" for k r
    using that by (intro div_nat_eqI) simp_all
  then have "(bits + 7) div 8 = Suc n" using b assms(2) by simp
  then have len: "length bs = Suc n" using assms(1) by simp
  define es e where "es = butlast bs" and "e = last bs"
  have "bs \<noteq> []" using len by auto
  then have bs: "bs = es @ [e]" "length es = n" using len by (simp_all add: es_def e_def)
  have v: "le_val bs = le_val es + 256 ^ n * unat e"
    using le_val_append [of es "[e]"] bs by (simp add: le_val_def)
  have es: "le_val es < 256 ^ n" using le_val_lt [of es] bs(2) by simp
  have p: "(2::nat) ^ bits = 256 ^ n * 2 ^ (bits mod 8)"
    by (subst b) (simp only: power_add pow256)
  show ?thesis
  proof
    assume "le_val bs < 2 ^ bits"
    then have "256 ^ n * unat e < 256 ^ n * 2 ^ (bits mod 8)" using v p by linarith
    then show "unat (last bs) < 2 ^ (bits mod 8)" by (simp add: e_def)
  next
    assume "unat (last bs) < 2 ^ (bits mod 8)"
    then have "256 ^ n * (unat e + 1) \<le> 256 ^ n * 2 ^ (bits mod 8)"
      by (intro mult_le_mono2) (simp add: e_def)
    then show "le_val bs < 2 ^ bits" using v p es by (simp add: algebra_simps)
  qed
qed

lemma and_low_mask:
  fixes w :: "'a::len word"
  shows "w AND (push_bit r 1 - 1) = take_bit r w" "w AND (2 ^ r - 1) = take_bit r w"
  by (simp_all add: take_bit_eq_mask mask_eq_exp_minus_1 push_bit_of_1)

lemma take_bit_small: "unat (w :: 'a::len word) < 2 ^ r \<Longrightarrow> take_bit r w = w"
  by (metis take_bit_nat_eq_self unsigned_take_bit_eq word_unat_eq_iff)

lemma export_bits_True:
  assumes g: "gmp_ok g" and x: "x < 2 ^ bits"
  shows "\<exists>out. export_bits g x bits = (True, out) \<and> length out = (bits + 7) div 8 \<and> le_val out = x"
proof -
  define n where "n = (bits + 7) div 8"
  define out where "out = patch_at 0 (mpz_export g x) (replicate n 0)"
  have len: "length out = n" "le_val out = x"
    using export_length [OF g x] g by (simp_all add: out_def n_def patch_at_def le_val_append gmp_ok_def)
  have "butlast out @ [last out AND (push_bit (bits mod 8) 1 - 1)] = out" if "bits mod 8 \<noteq> 0"
  proof -
    have "unat (last out) < 2 ^ (bits mod 8)"
      using top_byte_lt [OF _ that, of out] len x by (simp add: n_def)
    moreover have "out \<noteq> []" using len(1) that by (auto simp: n_def)
    ultimately show ?thesis by (simp add: and_low_mask take_bit_small)
  qed
  moreover have "\<not> bitLen g x > bits" using bitLen_le_iff [OF g, of x bits] x by simp
  ultimately show ?thesis using len by (auto simp: export_bits_def Let_def out_def n_def)
qed

lemma export_bits_False:
  assumes "gmp_ok g" and "\<not> x < 2 ^ bits"
  shows "export_bits g x bits = (False, [])"
  using bitLen_le_iff [OF assms(1), of x bits] assms(2) by (simp add: export_bits_def)

definition vec_val :: "u16 list \<Rightarrow> nat" where
  "vec_val xs = horner_sum unat kq xs"

lemma encodeVec_eq:
  assumes "gmp_ok g"
  shows "encodeVec g xs bits = export_bits g (vec_val xs) bits"
proof -
  have "foldr (\<lambda>v x. mpz_add_ui g (mpz_mul_ui g x kq) (unat v)) xs 0 = vec_val xs"
    using assms by (induction xs) (simp_all add: vec_val_def gmp_ok_def mult.commute)
  then show ?thesis by (simp add: encodeVec_def)
qed

lemma decode_digits_eq:
  assumes "gmp_ok g"
  shows "decode_digits g n x = (map word_of_nat (digits kq n x), x div kq ^ n)"
  using assms by (induction n arbitrary: x) (simp_all add: gmp_ok_def kq_def div_mult2_eq)

lemma unat_digit: "d \<in> set (digits kq n x) \<Longrightarrow> unat (word_of_nat d :: u16) = d"
proof -
  assume "d \<in> set (digits kq n x)"
  then have "d < kq" by (rule digits_lt [rotated]) (simp add: kq_def)
  then show ?thesis by (simp add: kq_def unsigned_of_nat take_bit_nat_eq_self)
qed

text \<open>Decoding an in-range byte string, in both directions of the round trip.\<close>

lemma decodeVec_eq:
  assumes g: "gmp_ok g" and len: "length inp = (bits + 7) div 8" and v: "le_val inp < 2 ^ bits"
  shows "decodeVec g inp bits count = (le_val inp < kq ^ count, map word_of_nat (digits kq count (le_val inp)))"
proof -
  have "last inp AND NOT (push_bit (bits mod 8) 1 - 1) = 0" if r: "bits mod 8 \<noteq> 0"
  proof -
    have "take_bit (bits mod 8) (last inp) = last inp"
      using top_byte_lt [OF len r] v by (intro take_bit_small) simp
    then have "last inp AND (push_bit (bits mod 8) 1 - 1) = last inp" by (simp add: and_low_mask)
    then show ?thesis by (metis and.assoc and.right_neutral bit.conj_cancel_right bit.conj_zero_right)
  qed
  moreover have "le_val inp div kq ^ count = 0 \<longleftrightarrow> le_val inp < kq ^ count"
    by (simp add: div_eq_0_iff kq_def)
  moreover have "mpz_import g inp = le_val inp" using g by (simp add: gmp_ok_def)
  ultimately show ?thesis
    using len by (auto simp: decodeVec_def decode_digits_eq [OF g])
qed

lemma vec_val_digits: "vec_val (map word_of_nat (digits kq n x)) = x mod kq ^ n"
proof -
  have "map unat (map word_of_nat (digits kq n x) :: u16 list) = digits kq n x"
    using unat_digit by (simp add: map_idI)
  then show ?thesis by (simp add: vec_val_def horner_unat horner_digits)
qed

lemma digits_vec_val: "\<forall>x \<in> set xs. unat x < kq \<Longrightarrow> map word_of_nat (digits kq (length xs) (vec_val xs)) = xs"
  using digits_horner [of "map unat xs" kq] by (simp add: vec_val_def horner_unat map_idI)

lemma vec_val_lt: "\<forall>x \<in> set xs. unat x < kq \<Longrightarrow> vec_val xs < kq ^ length xs"
  using horner_lt [of "map unat xs" kq] by (simp add: vec_val_def horner_unat)

lemma encodeVec_decodeVec:
  assumes g: "gmp_ok g" and enc: "encodeVec g xs bits = (True, out)" and xs: "\<forall>x \<in> set xs. unat x < kq"
  shows "decodeVec g out bits (length xs) = (True, xs)" and "length out = (bits + 7) div 8"
    and "le_val out < 2 ^ bits"
proof -
  have lt: "vec_val xs < 2 ^ bits"
    using enc export_bits_False [OF g] encodeVec_eq [OF g] by (metis Pair_inject)
  obtain out' where "export_bits g (vec_val xs) bits = (True, out')" "length out' = (bits + 7) div 8"
      "le_val out' = vec_val xs"
    using export_bits_True [OF g lt] by blast
  then have out: "length out = (bits + 7) div 8" "le_val out = vec_val xs"
    using enc encodeVec_eq [OF g, of xs bits] by auto
  then show "length out = (bits + 7) div 8" "le_val out < 2 ^ bits" using lt by simp_all
  show "decodeVec g out bits (length xs) = (True, xs)"
    using decodeVec_eq [OF g out(1)] out(2) lt digits_vec_val [OF xs] vec_val_lt [OF xs] by simp
qed

end
