(* ===== verification/Kemeleon.thy ===== *)
theory Kemeleon
  imports Kem_Vec
begin

text \<open>
  The Kemeleon codec \<open>frontend/kem/obf-mlkem/codec/Kemeleon.cpp\<close>: ML-KEM public keys and
  ciphertexts as byte strings that look uniform, and back.
\<close>

section \<open>Parameters\<close>

definition kn :: nat where "kn = 256"
definition rhoBytes :: nat where "rhoBytes = 32"

record KInfo =
  ki_k :: nat
  ki_du :: nat
  ki_dv :: nat
  polyBytes :: nat
  c1Bytes :: nat
  c2Bytes :: nat
  vecSize :: nat
  vecBits :: nat
  vecBytes :: nat

fun mode_kdd :: "Mode \<Rightarrow> nat \<times> nat \<times> nat" where
  "mode_kdd MlKem512 = (2, 10, 4)"
| "mode_kdd MlKem768 = (3, 10, 4)"
| "mode_kdd MlKem1024 = (4, 11, 5)"

definition makeInfo :: "gmp \<Rightarrow> Mode \<Rightarrow> KInfo" where
  "makeInfo g mode =
     (case mode_kdd mode of (k, du, dv) \<Rightarrow>
        let size = k * kn;
            top = mpz_add_ui g (mpz_ui_pow_ui g kq size) 1;
            bits = bitLen g top - 1
        in \<lparr> ki_k = k, ki_du = du, ki_dv = dv, polyBytes = 384 * k,
             c1Bytes = k * du * kn div 8, c2Bytes = dv * kn div 8, vecSize = size,
             vecBits = bits, vecBytes = (bits + 7) div 8 \<rparr>)"

section \<open>Compression and its preimages\<close>

definition compressValue :: "u16 \<Rightarrow> nat \<Rightarrow> u16" where
  "compressValue x bitsPerValue =
     word_of_nat (((unat x * 2 ^ bitsPerValue mod 2 ^ 32 + kq div 2) div kq) mod 2 ^ 16
       mod 2 ^ bitsPerValue)"

definition decompressValue :: "u16 \<Rightarrow> nat \<Rightarrow> u16" where
  "decompressValue x bitsPerValue =
     word_of_nat ((unat x * kq + 2 ^ (bitsPerValue - 1)) div 2 ^ bitsPerValue)"

record PreimageTable =
  pt_vals :: "u16 list"
  pt_offsets :: "nat list"
  pt_counts :: "nat list"

text \<open>The three loops of \<open>makePreimageTable\<close>; entries are 16-bit and wrap at \<open>2 ^ 16\<close>.\<close>

definition cidx :: "nat \<Rightarrow> nat \<Rightarrow> nat" where
  "cidx bitsPerValue x = unat (compressValue (word_of_nat x) bitsPerValue)"

definition count_loop :: "(nat \<Rightarrow> nat) \<Rightarrow> nat \<Rightarrow> nat \<Rightarrow> nat list" where
  "count_loop f scale n =
     foldl (\<lambda>cs x. cs[f x := (cs ! f x + 1) mod 2 ^ 16]) (replicate scale 0) [0..<n]"

definition offset_loop :: "nat list \<Rightarrow> nat \<Rightarrow> nat list \<times> nat" where
  "offset_loop counts scale =
     foldl (\<lambda>(offs, off) i. (offs @ [off], (off + counts ! i) mod 2 ^ 16)) ([], 0) [0..<scale]"

definition fill_loop :: "(nat \<Rightarrow> nat) \<Rightarrow> nat \<Rightarrow> nat list \<Rightarrow> nat \<Rightarrow> nat \<Rightarrow> nat list \<times> u16 list" where
  "fill_loop f scale offsets tot n =
     foldl (\<lambda>(used, vals) x.
        let idx = f x; pos = (offsets ! idx + used ! idx) mod 2 ^ 16
        in (used[idx := (used ! idx + 1) mod 2 ^ 16], vals[pos := word_of_nat x]))
       (replicate scale 0, replicate tot 0) [0..<n]"

definition makePreimageTable :: "nat \<Rightarrow> PreimageTable" where
  "makePreimageTable bitsPerValue =
     (let scale = 2 ^ bitsPerValue;
          f = cidx bitsPerValue;
          counts = count_loop f scale kq
      in case offset_loop counts scale of (offsets, tot) \<Rightarrow>
           \<lparr> pt_vals = snd (fill_loop f scale offsets tot kq),
             pt_offsets = offsets, pt_counts = counts \<rparr>)"

section \<open>The object\<close>

record Kemeleon =
  km_kem :: MlKem
  km_info :: KInfo
  km_pre :: PreimageTable

definition Kemeleon_new :: "gmp \<Rightarrow> Mode \<Rightarrow> Kemeleon" where
  "Kemeleon_new g mode =
     (let info = makeInfo g mode
      in \<lparr> km_kem = MlKem_new mode, km_info = info, km_pre = makePreimageTable (ki_du info) \<rparr>)"

definition Kemeleon_setMode :: "gmp \<Rightarrow> Mode \<Rightarrow> Kemeleon \<Rightarrow> Kemeleon" where
  "Kemeleon_setMode g mode km =
     (let info = makeInfo g mode
      in km\<lparr> km_kem := MlKem_setMode mode (km_kem km), km_info := info,
             km_pre := makePreimageTable (ki_du info) \<rparr>)"

definition rawKeyBytes :: "Kemeleon \<Rightarrow> nat" where
  "rawKeyBytes km = publicKeyBytes (mSizes (km_kem km))"

definition rawCipherBytes :: "Kemeleon \<Rightarrow> nat" where
  "rawCipherBytes km = cipherTextBytes (mSizes (km_kem km))"

definition codeKeyBytes :: "Kemeleon \<Rightarrow> nat" where
  "codeKeyBytes km = rhoBytes + vecBytes (km_info km)"

definition codeCipherBytes :: "Kemeleon \<Rightarrow> nat" where
  "codeCipherBytes km = vecBytes (km_info km) + c2Bytes (km_info km)"

section \<open>Keys\<close>

definition keyHighMask :: "Kemeleon \<Rightarrow> u8" where
  "keyHighMask km =
     (let rem = vecBits (km_info km) mod 8
      in if rem = 0 then 0 else NOT (push_bit rem 1 - 1))"

text \<open>\<open>hashByte\<close> is one byte of \<open>crypto_generichash\<close>, a parameter.\<close>

definition fillKeyHighBits :: "(u8 list \<Rightarrow> u8) \<Rightarrow> Kemeleon \<Rightarrow> u8 list \<Rightarrow> u8 list \<Rightarrow> u8 list" where
  "fillKeyHighBits hashByte km key out =
     (let mask = keyHighMask km; i = rhoBytes + vecBytes (km_info km) - 1
      in if mask = 0 then out else out[i := out ! i OR (hashByte key AND mask)])"

definition clearKeyHighBits :: "Kemeleon \<Rightarrow> u8 list \<Rightarrow> u8 list" where
  "clearKeyHighBits km inp =
     (let mask = keyHighMask km
      in if mask = 0 \<or> inp = [] then inp else butlast inp @ [last inp AND NOT mask])"

definition encodeKey ::
  "gmp \<Rightarrow> (u8 list \<Rightarrow> u8) \<Rightarrow> Kemeleon \<Rightarrow> u8 list \<Rightarrow> (bool \<times> u8 list) result" where
  "encodeKey g hashByte km key =
     guardE (length key \<noteq> rawKeyBytes km) (InvalidArgument ''Kemeleon key has unexpected size'')
     (bindE (subspan key 0 (polyBytes (km_info km))) (\<lambda>sub.
      bindE (unpackPolyBytes sub) (\<lambda>t.
        case encodeVec g t (vecBits (km_info km)) of
          (False, _) \<Rightarrow> Inr (False, [])
        | (True, r) \<Rightarrow>
            let out = replicate (codeKeyBytes km) 0;
                out = patch_at 0 (drop (polyBytes (km_info km)) key) out;
                out = patch_at rhoBytes r out
            in Inr (True, fillKeyHighBits hashByte km key out))))"

text \<open>
  \<open>decodeKey\<close> into a span of \<open>keyLen\<close> bytes: \<open>None\<close> is the result false, with the span as it was.
\<close>

definition decodeKey_into :: "gmp \<Rightarrow> Kemeleon \<Rightarrow> u8 list \<Rightarrow> nat \<Rightarrow> u8 list option result" where
  "decodeKey_into g km data keyLen =
     (if length data \<noteq> codeKeyBytes km \<or> keyLen \<noteq> rawKeyBytes km then Inr None
      else
        let r = clearKeyHighBits km (slice rhoBytes (vecBytes (km_info km)) data)
        in case decodeVec g r (vecBits (km_info km)) (vecSize (km_info km)) of
             (False, _) \<Rightarrow> Inr None
           | (True, t) \<Rightarrow>
               bindE (packPolyBytes t) (\<lambda>packedT.
                 Inr (Some (patch_at (polyBytes (km_info km)) (take rhoBytes data)
                              (patch_at 0 packedT (replicate keyLen 0))))))"

definition decodeKey :: "gmp \<Rightarrow> Kemeleon \<Rightarrow> u8 list \<Rightarrow> (bool \<times> u8 list) result" where
  "decodeKey g km data =
     bindE (decodeKey_into g km data (rawKeyBytes km)) (\<lambda>res.
       case res of None \<Rightarrow> Inr (False, []) | Some key \<Rightarrow> Inr (True, key))"

section \<open>Random preimages\<close>

text \<open>
  The libsodium generator with its state: \<open>k\<close> words from \<open>randombytes_buf\<close> and one number
  below a bound from \<open>randombytes_uniform\<close>.
\<close>

record 's rng_ops =
  rnd_words :: "nat \<Rightarrow> 's \<Rightarrow> u32 list \<times> 's"
  rnd_uniform :: "u32 \<Rightarrow> 's \<Rightarrow> u32 \<times> 's"

record WordSampler =
  ws_buf :: "u32 list"
  ws_pos :: nat

definition WordSampler_new :: WordSampler where
  "WordSampler_new = \<lparr> ws_buf = replicate 1024 0, ws_pos = 1024 \<rparr>"

definition nextWord :: "'s rng_ops \<Rightarrow> WordSampler \<Rightarrow> 's \<Rightarrow> u32 \<times> WordSampler \<times> 's" where
  "nextWord R ws s =
     (let (ws, s) = (if ws_pos ws = length (ws_buf ws)
                     then case rnd_words R 1024 s of (buf, s') \<Rightarrow> (\<lparr> ws_buf = buf, ws_pos = 0 \<rparr>, s')
                     else (ws, s))
      in (ws_buf ws ! ws_pos ws, ws\<lparr> ws_pos := ws_pos ws + 1 \<rparr>, s))"

text \<open>One pass of the rejection loop, and the loop; not returning is \<open>None\<close>.\<close>

definition sampler_step :: "u32 \<Rightarrow> u32 \<Rightarrow> u32 \<Rightarrow> u32 option" where
  "sampler_step bound lim x = (if x \<ge> lim then Some (x mod bound) else None)"

partial_function (option) sampler_loop ::
  "'s rng_ops \<Rightarrow> u32 \<Rightarrow> u32 \<Rightarrow> WordSampler \<Rightarrow> 's \<Rightarrow> (u32 \<times> WordSampler \<times> 's) option" where
  "sampler_loop R bound lim ws s =
     (case nextWord R ws s of (x, ws', s') \<Rightarrow>
        case sampler_step bound lim x of
          Some r \<Rightarrow> Some (r, ws', s')
        | None \<Rightarrow> sampler_loop R bound lim ws' s')"

definition sampler_next ::
  "'s rng_ops \<Rightarrow> u32 \<Rightarrow> WordSampler \<Rightarrow> 's \<Rightarrow> (u32 \<times> WordSampler \<times> 's) comp" where
  "sampler_next R bound ws s =
     (if bound = 0 then throwC (RuntimeError ''Kemeleon sampler got zero bound'')
      else map_option Inr (sampler_loop R bound (- bound mod bound) ws s))"

definition pickPreimage :: "'s rng_ops \<Rightarrow> Kemeleon \<Rightarrow> u16 \<Rightarrow> 's \<Rightarrow> (u16 \<times> 's) result" where
  "pickPreimage R km want s =
     guardE (unat want \<ge> length (pt_counts (km_pre km))) (RuntimeError ''Kemeleon preimage set is empty'')
     (let count = pt_counts (km_pre km) ! unat want
      in guardE (count = 0) (RuntimeError ''Kemeleon preimage set is empty'')
         (case rnd_uniform R (word_of_nat count) s of (pick, s') \<Rightarrow>
            Inr (pt_vals (km_pre km) ! (pt_offsets (km_pre km) ! unat want + unat pick), s')))"

text \<open>The loop of \<open>encodePickedVec\<close>, over the values from the last to the first.\<close>

fun picked_loop ::
  "gmp \<Rightarrow> 's rng_ops \<Rightarrow> PreimageTable \<Rightarrow> u16 list \<Rightarrow> nat \<Rightarrow> WordSampler \<Rightarrow> 's \<Rightarrow> (nat \<times> 's) comp" where
  "picked_loop g R pt [] x ws s = retC (x, s)"
| "picked_loop g R pt (want # wants) x ws s =
     (if unat want \<ge> length (pt_counts pt) then throwC (RuntimeError ''Kemeleon preimage set is empty'')
      else
        let count = pt_counts pt ! unat want
        in if count = 0 then throwC (RuntimeError ''Kemeleon preimage set is empty'')
           else bindC (sampler_next R (word_of_nat count) ws s) (\<lambda>(r, ws', s').
             let val = pt_vals pt ! (pt_offsets pt ! unat want + unat r)
             in picked_loop g R pt wants (mpz_add_ui g (mpz_mul_ui g x kq) (unat val)) ws' s'))"

definition encodePickedVec ::
  "gmp \<Rightarrow> 's rng_ops \<Rightarrow> Kemeleon \<Rightarrow> u16 list \<Rightarrow> nat \<Rightarrow> 's \<Rightarrow> ((bool \<times> u8 list) \<times> 's) comp" where
  "encodePickedVec g R km inp bits s =
     bindC (picked_loop g R (km_pre km) (rev inp) 0 WordSampler_new s) (\<lambda>(x, s').
       retC (export_bits g x bits, s'))"

section \<open>Ciphertexts\<close>

definition shouldRejectZero :: "'s rng_ops \<Rightarrow> nat \<Rightarrow> 's \<Rightarrow> bool \<times> 's" where
  "shouldRejectZero R bitsPerValue s =
     (let p = (kq + 2 ^ bitsPerValue - 1) div 2 ^ bitsPerValue
      in case rnd_uniform R (word_of_nat p) s of (x, s') \<Rightarrow> (x = 0, s'))"

fun reject_loop :: "'s rng_ops \<Rightarrow> u8 list \<Rightarrow> nat \<Rightarrow> nat list \<Rightarrow> 's \<Rightarrow> bool \<times> 's" where
  "reject_loop R src bitsPerValue [] s = (False, s)"
| "reject_loop R src bitsPerValue (i # is) s =
     (if unpack_value src (i * bitsPerValue) bitsPerValue = 0
      then case shouldRejectZero R bitsPerValue s of (rej, s') \<Rightarrow>
             if rej then (True, s') else reject_loop R src bitsPerValue is s'
      else reject_loop R src bitsPerValue is s)"

definition rejectZeroEntries :: "'s rng_ops \<Rightarrow> u8 list \<Rightarrow> nat \<Rightarrow> nat \<Rightarrow> 's \<Rightarrow> bool \<times> 's" where
  "rejectZeroEntries R src bitsPerValue count s = reject_loop R src bitsPerValue [0..<count] s"

text \<open>\<open>encodeCipherImpl\<close> without the timing statistics.\<close>

definition encodeCipher ::
  "gmp \<Rightarrow> 's rng_ops \<Rightarrow> Kemeleon \<Rightarrow> u8 list \<Rightarrow> 's \<Rightarrow> ((bool \<times> u8 list) \<times> 's) comp" where
  "encodeCipher g R km cipher s =
     (let info = km_info km
      in if length cipher \<noteq> rawCipherBytes km
         then throwC (InvalidArgument ''Kemeleon cipher has unexpected size'')
         else
           bindC (liftC (subspan cipher 0 (c1Bytes info))) (\<lambda>c1.
           let uComp = unpackBits c1 (ki_du info) (vecSize info)
           in bindC (encodePickedVec g R km uComp (vecBits info) s) (\<lambda>((ok, r), s).
              if \<not> ok then retC ((False, []), s)
              else
                bindC (liftC (subspan cipher (c1Bytes info) (c2Bytes info))) (\<lambda>c2.
                case rejectZeroEntries R c2 (ki_dv info) kn s of (rej, s) \<Rightarrow>
                  if rej then retC ((False, []), s)
                  else
                    let out = replicate (codeCipherBytes km) 0;
                        out = patch_at 0 r out;
                        out = patch_at (vecBytes info) (drop (c1Bytes info) cipher) out
                    in retC ((True, out), s)))))"

definition decodeCipher :: "gmp \<Rightarrow> Kemeleon \<Rightarrow> u8 list \<Rightarrow> (bool \<times> u8 list) result" where
  "decodeCipher g km data =
     (let info = km_info km
      in if length data \<noteq> codeCipherBytes km then Inr (False, [])
         else
           bindE (subspan data 0 (vecBytes info)) (\<lambda>sub.
             case decodeVec g sub (vecBits info) (vecSize info) of
               (False, _) \<Rightarrow> Inr (False, [])
             | (True, u) \<Rightarrow>
                 let uComp = map (\<lambda>i. compressValue (u ! i) (ki_du info)) [0..<vecSize info];
                     c1 = packBits uComp (ki_du info);
                     cipher = replicate (rawCipherBytes km) 0;
                     cipher = patch_at 0 c1 cipher;
                     cipher = patch_at (c1Bytes info) (drop (vecBytes info) data) cipher
                 in Inr (True, cipher)))"

end
