(* ===== verification/Kemeleon_Key.thy ===== *)
theory Kemeleon_Key
  imports Kemeleon
begin

text \<open>
  The key codec is a bijection up to the spare bits: encoding is undone by decoding, every
  byte string of the right length decodes, and re-encoding what was decoded gives the string
  back except for the spare bits of its last byte.
\<close>

section \<open>The well-formed object\<close>

definition km_wf :: "gmp \<Rightarrow> Kemeleon \<Rightarrow> bool" where
  "km_wf g km \<longleftrightarrow> mlkem_wf (km_kem km) \<and> km_info km = makeInfo g (mMode (km_kem km)) \<and>
     km_pre km = makePreimageTable (ki_du (km_info km))"

lemma km_wf_new: "km_wf g (Kemeleon_new g mode)"
  using mlkem_wf_new [of mode] by (simp add: km_wf_def Kemeleon_new_def Let_def MlKem_new_def)

lemma km_wf_setMode: "km_wf g (Kemeleon_setMode g mode km)"
  using mlkem_wf_setMode [of mode "km_kem km"]
  by (simp add: km_wf_def Kemeleon_setMode_def Let_def MlKem_setMode_def)

text \<open>\<open>q ^ n + 1\<close> is twice an odd number, so the largest power of two below it is at most \<open>q ^ n\<close>.\<close>

lemma kq_pow_mod: "kq ^ n mod 4 = 1"
  by (induction n) (simp_all add: kq_def mod_mult_left_eq [of 3329 4, symmetric])

lemma pow2_le_kq_pow:
  assumes "2 ^ b \<le> kq ^ n + 1" and "0 < n"
  shows "2 ^ b \<le> kq ^ n"
proof (rule ccontr)
  assume "\<not> 2 ^ b \<le> kq ^ n"
  then have eq: "2 ^ b = kq ^ n + 1" using assms(1) by simp
  have "kq ^ 1 \<le> kq ^ n" using assms(2) by (intro power_increasing) (simp_all add: kq_def)
  then have big: "4 \<le> kq ^ n + 1" by (simp add: kq_def)
  have "2 \<le> b"
  proof (rule ccontr)
    assume "\<not> 2 \<le> b"
    then have "b = 0 \<or> b = 1" by auto
    then have "(2::nat) ^ b \<le> 2" by auto
    then show False using eq big by linarith
  qed
  then obtain c where "b = c + 2" by (metis add.commute le_iff_add)
  then have "2 ^ b mod 4 = (0::nat)" by (simp add: power_add)
  moreover have "(kq ^ n + 1) mod 4 = 2" using kq_pow_mod [of n] by (simp add: mod_Suc)
  ultimately show False using eq by simp
qed

lemma makeInfo_facts:
  assumes "gmp_ok g" and "km_wf g km"
  defines "i \<equiv> km_info km"
  shows "rawKeyBytes km = polyBytes i + rhoBytes" "polyBytes i * 2 = vecSize i * 3"
    "rawCipherBytes km = c1Bytes i + c2Bytes i" "8 * c1Bytes i = vecSize i * ki_du i"
    "8 * c2Bytes i = kn * ki_dv i" "0 < ki_du i" "ki_du i \<le> 11" "even (vecSize i)" "0 < vecSize i"
    "vecBytes i = (vecBits i + 7) div 8" "2 ^ vecBits i \<le> kq ^ vecSize i" "0 < vecBits i"
proof -
  obtain mode where mode: "mMode (km_kem km) = mode" by blast
  have info: "i = makeInfo g mode" and sz: "mSizes (km_kem km) = getSizes mode"
    using assms mode by (auto simp: km_wf_def mlkem_wf_def)
  show "rawKeyBytes km = polyBytes i + rhoBytes" "polyBytes i * 2 = vecSize i * 3"
    "rawCipherBytes km = c1Bytes i + c2Bytes i" "8 * c1Bytes i = vecSize i * ki_du i"
    "8 * c2Bytes i = kn * ki_dv i" "0 < ki_du i" "ki_du i \<le> 11" "even (vecSize i)" and pos: "0 < vecSize i"
    and "vecBytes i = (vecBits i + 7) div 8"
    unfolding info rawKeyBytes_def rawCipherBytes_def sz makeInfo_def rhoBytes_def kn_def Let_def
    by (cases mode; simp)+
  define top where "top = kq ^ vecSize i + 1"
  have bits: "vecBits i = bitLen g top - 1"
    using assms(1) unfolding info top_def makeInfo_def Let_def
    by (cases mode) (simp_all add: gmp_ok_def)
  have top: "0 < bitLen g top" "2 ^ (bitLen g top - 1) \<le> top"
    using bitLen_exact [OF assms(1), of top] by (simp_all add: top_def)
  then show "2 ^ vecBits i \<le> kq ^ vecSize i"
    using pow2_le_kq_pow [OF _ pos] unfolding bits top_def by simp
  have "kq ^ 1 \<le> kq ^ vecSize i" using pos by (intro power_increasing) (simp_all add: kq_def)
  then have "\<not> top < 2 ^ 1" by (simp add: top_def kq_def)
  then have "\<not> bitLen g top \<le> 1" using bitLen_le_iff [OF assms(1), of top 1] by simp
  then show "0 < vecBits i" unfolding bits by simp
qed

section \<open>The spare bits of the last byte\<close>

lemma keyHighMask_pos: "vecBits (km_info km) mod 8 \<noteq> 0 \<Longrightarrow>
    keyHighMask km = NOT (push_bit (vecBits (km_info km) mod 8) 1 - 1) \<and> keyHighMask km \<noteq> 0"
proof -
  assume r: "vecBits (km_info km) mod 8 \<noteq> 0"
  define rem where "rem = vecBits (km_info km) mod 8"
  have m: "keyHighMask km = NOT (push_bit rem 1 - 1)" using r by (simp add: keyHighMask_def rem_def Let_def)
  have "rem < 8" by (simp add: rem_def)
  then have "bit (NOT (push_bit rem 1 - 1) :: u8) 7"
    using r by (auto simp: bit_not_iff rem_def push_bit_of_1 bit_mask_iff simp flip: mask_eq_exp_minus_1)
  then have "keyHighMask km \<noteq> 0" unfolding m by (metis bit_0_eq bot_apply bot_bool_def)
  with m show ?thesis by (simp add: rem_def)
qed

lemma low_or_high:
  fixes w h :: "'a::len word"
  shows "(w OR (h AND NOT (push_bit r 1 - 1))) AND NOT (NOT (push_bit r 1 - 1)) = take_bit r w"
    and "w AND NOT (NOT (push_bit r 1 - 1)) = take_bit r w"
proof -
  have m: "push_bit r 1 - 1 = (mask r :: 'a word)" by (simp add: mask_eq_exp_minus_1 push_bit_of_1)
  show "(w OR (h AND NOT (push_bit r 1 - 1))) AND NOT (NOT (push_bit r 1 - 1)) = take_bit r w"
    "w AND NOT (NOT (push_bit r 1 - 1)) = take_bit r w"
    unfolding m by (rule bit_word_eqI; auto simp: bit_simps)+
qed

text \<open>Clearing makes any string an in-range integer and undoes a fill of the spare bits.\<close>

lemma clearKeyHighBits_range:
  assumes "length r = vecBytes (km_info km)" and "vecBytes (km_info km) = (vecBits (km_info km) + 7) div 8"
  shows "length (clearKeyHighBits km r) = length r" and "le_val (clearKeyHighBits km r) < 2 ^ vecBits (km_info km)"
proof -
  let ?bits = "vecBits (km_info km)"
  show len: "length (clearKeyHighBits km r) = length r"
    by (cases "r = []") (simp_all add: clearKeyHighBits_def Let_def)
  show "le_val (clearKeyHighBits km r) < 2 ^ ?bits"
  proof (cases "?bits mod 8 = 0")
    case True
    then have b: "8 * length r = ?bits" using assms by auto
    then show ?thesis using le_val_lt [of "clearKeyHighBits km r"] len unfolding pow256 by (simp only: b)
  next
    case False
    then have ne: "r \<noteq> []" using assms by auto
    have c: "clearKeyHighBits km r = butlast r @ [take_bit (?bits mod 8) (last r)]"
      using keyHighMask_pos [OF False] ne low_or_high(2) [of "last r"]
      unfolding clearKeyHighBits_def Let_def by metis
    have "unat (take_bit (?bits mod 8) (last r)) < 2 ^ (?bits mod 8)"
      by (simp add: unsigned_take_bit_eq)
    then show ?thesis
      using top_byte_lt [of "clearKeyHighBits km r" ?bits] False len assms by (simp add: c)
  qed
qed

lemma clear_fill:
  assumes "length r = vecBytes (km_info km)" and "vecBytes (km_info km) = (vecBits (km_info km) + 7) div 8"
    and "le_val r < 2 ^ vecBits (km_info km)" and "r \<noteq> []"
  shows "clearKeyHighBits km (butlast r @ [last r OR (h AND keyHighMask km)]) = r"
proof (cases "vecBits (km_info km) mod 8 = 0")
  case True
  then have "keyHighMask km = 0" by (simp add: keyHighMask_def)
  then show ?thesis using assms(4) by (simp add: clearKeyHighBits_def Let_def)
next
  case False
  have "unat (last r) < 2 ^ (vecBits (km_info km) mod 8)"
    using top_byte_lt [of r] False assms by simp
  then have "take_bit (vecBits (km_info km) mod 8) (last r) = last r" by (rule take_bit_small)
  then show ?thesis
    using keyHighMask_pos [OF False] low_or_high(1) [of "last r" h] assms(4)
    unfolding clearKeyHighBits_def Let_def
    by (metis append_butlast_last_id butlast_snoc last_snoc snoc_eq_iff_butlast)
qed

section \<open>Shape of an encoded key\<close>

lemma fill_append:
  assumes "length rho = rhoBytes" and "length r = vecBytes (km_info km)" and "r \<noteq> []"
  shows "fillKeyHighBits hashByte km key (rho @ r) =
     rho @ butlast r @ [last r OR (hashByte key AND keyHighMask km)]"
proof -
  have i: "rhoBytes + vecBytes (km_info km) - 1 = length rho + (length r - 1)"
    using assms by (cases r) simp_all
  have l: "(rho @ r) ! (length rho + (length r - 1)) = last r"
    using assms(3) by (simp add: nth_append last_conv_nth)
  obtain xs y where r: "r = xs @ [y]" using assms(3) by (cases r rule: rev_cases) auto
  have u: "(rho @ r)[length rho + (length r - 1) := v] = rho @ butlast r @ [v]" for v
    by (simp add: r list_update_append)
  show ?thesis
  proof (cases "keyHighMask km = 0")
    case True
    then show ?thesis using assms(3) by (simp add: fillKeyHighBits_def)
  next
    case False
    then show ?thesis unfolding fillKeyHighBits_def Let_def i l u by simp
  qed
qed

lemma patch_two: "length a = m \<Longrightarrow> length b = n \<Longrightarrow>
  patch_at m b (patch_at 0 a (replicate (m + n) x)) = a @ b"
  by (simp add: patch_at_def)

lemma encodeKey_True_iff:
  assumes g: "gmp_ok g" and wf: "km_wf g km"
  shows "encodeKey g hashByte km key = Inr (True, out) \<longleftrightarrow>
    length key = rawKeyBytes km \<and>
    (\<exists>t r. unpackPolyBytes (take (polyBytes (km_info km)) key) = Inr t \<and>
       encodeVec g t (vecBits (km_info km)) = (True, r) \<and>
       out = drop (polyBytes (km_info km)) key @ butlast r @ [last r OR (hashByte key AND keyHighMask km)])"
proof -
  let ?i = "km_info km"
  note F = makeInfo_facts [OF g wf]
  have r_len: "length r = vecBytes ?i \<and> r \<noteq> []" if "encodeVec g t (vecBits ?i) = (True, r)" for t r
  proof -
    have "vec_val t < 2 ^ vecBits ?i"
      using that export_bits_False [OF g] encodeVec_eq [OF g] by (metis Pair_inject)
    then obtain r' where "encodeVec g t (vecBits ?i) = (True, r')" "length r' = (vecBits ?i + 7) div 8"
      using export_bits_True [OF g] encodeVec_eq [OF g] by metis
    then show ?thesis using that F(10,12) by auto
  qed
  have sub: "subspan key 0 (polyBytes ?i) = Inr (take (polyBytes ?i) key)" if "length key = rawKeyBytes km"
    using that F(1) by (simp add: subspan_def slice_def)
  have "encodeKey g hashByte km key = Inr (True, out) \<longleftrightarrow> length key = rawKeyBytes km \<and>
     (\<exists>t r. unpackPolyBytes (take (polyBytes ?i) key) = Inr t \<and> encodeVec g t (vecBits ?i) = (True, r) \<and>
        out = fillKeyHighBits hashByte km key
          (patch_at rhoBytes r (patch_at 0 (drop (polyBytes ?i) key) (replicate (codeKeyBytes km) 0))))"
  proof (cases "length key = rawKeyBytes km")
    case True
    show ?thesis
    proof (cases "unpackPolyBytes (take (polyBytes ?i) key)")
      case (Inr t)
      show ?thesis
      proof (cases "encodeVec g t (vecBits ?i)")
        case (Pair ok r)
        then show ?thesis using True Inr sub [OF True] by (cases ok) (auto simp: encodeKey_def Let_def)
      qed
    qed (use True sub [OF True] in \<open>simp add: encodeKey_def\<close>)
  qed (simp add: encodeKey_def)
  moreover have "fillKeyHighBits hashByte km key
      (patch_at rhoBytes r (patch_at 0 (drop (polyBytes ?i) key) (replicate (codeKeyBytes km) 0))) =
      drop (polyBytes ?i) key @ butlast r @ [last r OR (hashByte key AND keyHighMask km)]"
    if "length key = rawKeyBytes km" "encodeVec g t (vecBits ?i) = (True, r)" for t r
  proof -
    have "length (drop (polyBytes ?i) key) = rhoBytes" using that(1) F(1) by simp
    then show ?thesis using r_len [OF that(2)] fill_append [of "drop (polyBytes ?i) key" r km]
      by (simp add: codeKeyBytes_def patch_two)
  qed
  ultimately show ?thesis by metis
qed

section \<open>Round trips\<close>

lemma decodeKey_parts:
  assumes g: "gmp_ok g" and wf: "km_wf g km" and len: "length rho = rhoBytes"
    "length r = vecBytes (km_info km)"
  defines "t \<equiv> map word_of_nat (digits kq (vecSize (km_info km)) (le_val (clearKeyHighBits km r))) :: u16 list"
  shows "\<exists>packedT. packPolyBytes t = Inr packedT \<and> length packedT = polyBytes (km_info km) \<and>
     decodeKey g km (rho @ r) = Inr (True, packedT @ rho)"
proof -
  let ?i = "km_info km"
  note F = makeInfo_facts [OF g wf]
  note C = clearKeyHighBits_range [OF len(2) F(10)]
  have lt: "le_val (clearKeyHighBits km r) < kq ^ vecSize ?i" using C(2) F(11) by linarith
  have dec: "decodeVec g (clearKeyHighBits km r) (vecBits ?i) (vecSize ?i) = (True, t)"
    using decodeVec_eq [OF g _ C(2), of "vecSize ?i"] C(1) len(2) F(10) lt by (simp add: t_def)
  have "length t = vecSize ?i" by (simp add: t_def)
  then obtain packedT where p: "packPolyBytes t = Inr packedT" using F(8) by (simp add: packPolyBytes_def)
  have lp: "length packedT = polyBytes ?i"
    using length_packPolyBytes [OF p] \<open>length t = vecSize ?i\<close> F(2,8) by auto
  have "slice rhoBytes (vecBytes ?i) (rho @ r) = r" using len by (simp add: slice_def)
  moreover have "rawKeyBytes km = length packedT + length rho" using F(1) lp len(1) by simp
  ultimately have "decodeKey_into g km (rho @ r) (rawKeyBytes km) = Inr (Some (packedT @ rho))"
    using dec p lp len by (simp add: decodeKey_into_def codeKeyBytes_def Let_def patch_two)
  then show ?thesis using p lp by (simp add: decodeKey_def)
qed

lemma decodeKey_encodeKey:
  assumes g: "gmp_ok g" and wf: "km_wf g km" and enc: "encodeKey g hashByte km key = Inr (True, out)"
    and canon: "\<And>t. unpackPolyBytes (take (polyBytes (km_info km)) key) = Inr t \<Longrightarrow> \<forall>x \<in> set t. unat x < kq"
  shows "decodeKey g km out = Inr (True, key)" and "length out = codeKeyBytes km"
proof -
  let ?i = "km_info km"
  note F = makeInfo_facts [OF g wf]
  obtain t r where key: "length key = rawKeyBytes km"
    and t: "unpackPolyBytes (take (polyBytes ?i) key) = Inr t" and r: "encodeVec g t (vecBits ?i) = (True, r)"
    and out: "out = drop (polyBytes ?i) key @ butlast r @ [last r OR (hashByte key AND keyHighMask km)]"
    using enc unfolding encodeKey_True_iff [OF g wf] by blast
  note D = encodeVec_decodeVec [OF g r canon [OF t]]
  have lt: "length t = vecSize ?i"
    using length_unpackPolyBytes [OF t] key F(1,2,8) by auto
  have rne: "r \<noteq> []" "length r = vecBytes ?i" using D(2) F(10,12) by auto
  define r' where "r' = butlast r @ [last r OR (hashByte key AND keyHighMask km)]"
  have lr': "length r' = vecBytes ?i" using rne by (cases r rule: rev_cases) (simp_all add: r'_def)
  have clr: "clearKeyHighBits km r' = r"
    unfolding r'_def using rne D(3) F(10) by (intro clear_fill) simp_all
  have rho: "length (drop (polyBytes ?i) key) = rhoBytes" using key F(1) by simp
  have "map word_of_nat (digits kq (vecSize ?i) (le_val r)) = t"
    using decodeVec_eq [OF g D(2,3), of "vecSize ?i"] D(1) lt by simp
  moreover have "packPolyBytes t = Inr (take (polyBytes ?i) key)"
    by (rule packPolyBytes_unpackPolyBytes [OF t])
  ultimately have "decodeKey g km (drop (polyBytes ?i) key @ r') = Inr (True, take (polyBytes ?i) key @ drop (polyBytes ?i) key)"
    using decodeKey_parts [OF g wf rho lr'] clr by auto
  then show "decodeKey g km out = Inr (True, key)" by (simp add: out r'_def)
  show "length out = codeKeyBytes km" using out rho lr' by (simp add: codeKeyBytes_def r'_def)
qed

lemma digit_words_lt: "v \<in> set (map word_of_nat (digits kq n x) :: u16 list) \<Longrightarrow> unat v < kq"
proof -
  assume "v \<in> set (map word_of_nat (digits kq n x) :: u16 list)"
  then obtain d where d: "d \<in> set (digits kq n x)" "v = word_of_nat d" unfolding set_map by blast
  have "0 < kq" by (simp add: kq_def)
  from digits_lt [OF this d(1)] show "unat v < kq" unfolding d(2) unat_digit [OF d(1)] .
qed

text \<open>Every string of the right length is the encoding of a canonical key.\<close>

lemma decodeKey_total:
  assumes g: "gmp_ok g" and wf: "km_wf g km" and len: "length data = codeKeyBytes km"
  shows "\<exists>key t. decodeKey g km data = Inr (True, key) \<and> length key = rawKeyBytes km \<and>
     unpackPolyBytes (take (polyBytes (km_info km)) key) = Inr t \<and> (\<forall>x \<in> set t. unat x < kq) \<and>
     drop (polyBytes (km_info km)) key = take rhoBytes data \<and>
     vec_val t = le_val (clearKeyHighBits km (drop rhoBytes data))"
proof -
  let ?i = "km_info km"
  note F = makeInfo_facts [OF g wf]
  define rho r where "rho = take rhoBytes data" and "r = drop rhoBytes data"
  have l: "length rho = rhoBytes" "length r = vecBytes ?i" "data = rho @ r"
    using len by (simp_all add: rho_def r_def codeKeyBytes_def)
  define x where "x = le_val (clearKeyHighBits km r)"
  have x: "x < kq ^ vecSize ?i"
    using clearKeyHighBits_range(2) [OF l(2) F(10)] F(11) unfolding x_def by linarith
  define t :: "u16 list" where "t = map word_of_nat (digits kq (vecSize ?i) x)"
  obtain packedT where p: "packPolyBytes t = Inr packedT" "length packedT = polyBytes ?i"
    and dec: "decodeKey g km data = Inr (True, packedT @ rho)"
    using decodeKey_parts [OF g wf l(1,2)] l(3) unfolding t_def x_def by blast
  have canon: "\<forall>v \<in> set t. unat v < kq" unfolding t_def using digit_words_lt by blast
  have "kq < 2 ^ 12" by (simp add: kq_def)
  then have "\<forall>v \<in> set t. unat v < 2 ^ 12" using canon by (meson less_trans)
  then have "unpackPolyBytes packedT = Inr t" by (rule unpackPolyBytes_packPolyBytes [OF p(1)])
  moreover have "vec_val t = x" using vec_val_digits [of "vecSize ?i" x] x by (simp add: t_def)
  moreover have "length (packedT @ rho) = rawKeyBytes km" using p(2) l(1) F(1) by simp
  ultimately show ?thesis
    using dec p(2) canon unfolding x_def r_def rho_def
    by (intro exI [of _ "packedT @ take rhoBytes data"] exI [of _ t]) simp
qed

text \<open>Re-encoding a decoded string changes at most the spare bits.\<close>

lemma encodeKey_decodeKey:
  assumes g: "gmp_ok g" and wf: "km_wf g km" and len: "length data = codeKeyBytes km"
    and dec: "decodeKey g km data = Inr (True, key)"
  shows "\<exists>out. encodeKey g hashByte km key = Inr (True, out) \<and> take rhoBytes out = take rhoBytes data \<and>
     clearKeyHighBits km (drop rhoBytes out) = clearKeyHighBits km (drop rhoBytes data)"
proof -
  let ?i = "km_info km"
  note F = makeInfo_facts [OF g wf]
  obtain t where t: "length key = rawKeyBytes km"
     "unpackPolyBytes (take (polyBytes ?i) key) = Inr t"
     "drop (polyBytes ?i) key = take rhoBytes data"
     "vec_val t = le_val (clearKeyHighBits km (drop rhoBytes data))"
    using decodeKey_total [OF g wf len] dec by auto
  have lr: "length (drop rhoBytes data) = vecBytes ?i" using len by (simp add: codeKeyBytes_def)
  note C = clearKeyHighBits_range [OF lr F(10)]
  obtain r where r: "encodeVec g t (vecBits ?i) = (True, r)" "length r = (vecBits ?i + 7) div 8" "le_val r = vec_val t"
    using export_bits_True [OF g C(2)] encodeVec_eq [OF g] t(4) by metis
  have req: "r = clearKeyHighBits km (drop rhoBytes data)"
    using r(2,3) t(4) C(1) lr F(10) by (intro le_val_inj) simp_all
  have rne: "r \<noteq> []" using r(2) F(12) by auto
  define out where "out = drop (polyBytes ?i) key @ butlast r @ [last r OR (hashByte key AND keyHighMask km)]"
  have "encodeKey g hashByte km key = Inr (True, out)"
    unfolding encodeKey_True_iff [OF g wf] using t r(1) by (auto simp: out_def)
  moreover have rho: "length (drop (polyBytes ?i) key) = rhoBytes" using t(1) F(1) by simp
  then have "take rhoBytes out = take rhoBytes data" using t(3) by (simp add: out_def)
  moreover have "clearKeyHighBits km (drop rhoBytes out) = r"
    using rho clear_fill [OF _ F(10), of r "hashByte key"] r F(10) rne C(2) req by (simp add: out_def)
  ultimately show ?thesis using req by auto
qed

end
