(* ===== verification/Kemeleon_Cipher.thy ===== *)
theory Kemeleon_Cipher
  imports Kemeleon_Key
begin

text \<open>
  The ciphertext codec: the preimage table is a counting sort of the coefficients by their
  compressed value, the sampler is an unbiased rejection sampler, and an encoded ciphertext
  decodes to the ciphertext whatever preimages were drawn.
\<close>

section \<open>Compression\<close>

lemma compress_nat:
  assumes "x < kq" and "d \<le> 11"
  shows "unat (compressValue (word_of_nat x) d) = (x * 2 ^ d + 1664) div 3329 mod 2 ^ d"
proof -
  have p: "(2::nat) ^ d \<le> 2 ^ 11" using assms(2) by (intro power_increasing) simp_all
  have "x * 2 ^ d \<le> 3328 * 2 ^ 11" using assms(1) p by (intro mult_le_mono) (simp_all add: kq_def)
  then have b: "x * 2 ^ d < 2 ^ 32" "(x * 2 ^ d + 1664) div 3329 < 2 ^ 16"
    by (simp_all add: less_mult_imp_div_less)
  have ux: "unat (word_of_nat x :: u16) = x"
    using assms(1) by (simp add: unsigned_of_nat take_bit_nat_eq_self kq_def)
  have "(x * 2 ^ d + 1664) div 3329 mod 2 ^ d < 2 ^ 16"
    using b(2) by (meson le_less_trans mod_less_eq_dividend)
  then show ?thesis
    using b unfolding compressValue_def ux kq_def by (simp add: unsigned_of_nat take_bit_nat_eq_self)
qed

lemma cidx_lt: "x < kq \<Longrightarrow> d \<le> 11 \<Longrightarrow> cidx d x < 2 ^ d"
  by (simp add: cidx_def compress_nat)

text \<open>Every compressed value has a preimage: the decompressed value compresses back to it.\<close>

lemma compress_decompress:
  assumes "c < 2 ^ d" and "1 \<le> d" "d \<le> 11"
  defines "y \<equiv> (c * kq + 2 ^ (d - 1)) div 2 ^ d"
  shows "y < kq" and "cidx d y = c"
proof -
  define s where "s = (2::nat) ^ d"
  define h where "h = (2::nat) ^ (d - 1)"
  have s2: "s = 2 * h" using assms(2) by (cases d) (auto simp: s_def h_def)
  have "h \<le> 2 ^ 10" using assms(3) unfolding h_def by (intro power_increasing) simp_all
  then have h: "h \<le> 1024" by simp
  have h0: "0 < h" by (simp add: h_def)
  have y: "y = (c * 3329 + h) div s" by (simp add: y_def kq_def s_def h_def)
  have lo: "y * s \<le> c * 3329 + h" unfolding y by (rule div_times_less_eq_dividend)
  have hi: "c * 3329 + h < y * s + s"
    using div_mult_mod_eq [of "c * 3329 + h" s] mod_less_divisor [of s "c * 3329 + h"] h0 s2 unfolding y by linarith
  have c: "c + 1 \<le> s" using assms(1) by (simp add: s_def)
  then have "c * 3329 + 3329 \<le> 3329 * s" using mult_le_mono1 [OF c, of 3329] by simp
  then have "y * s < 3329 * s" using lo h by linarith
  then show yq: "y < kq" by (simp add: kq_def)
  have "(y * s + 1664) div 3329 = c"
  proof (rule div_nat_eqI)
    show "3329 * c \<le> y * s + 1664" using hi s2 h by linarith
    show "y * s + 1664 < 3329 * Suc c" using lo h by simp
  qed
  then show "cidx d y = c" using compress_nat [OF yq assms(3)] assms(1) by (simp add: cidx_def s_def)
qed

section \<open>The preimage table\<close>

text \<open>How many of the first \<open>k\<close> numbers compress to \<open>c\<close>, and where block \<open>c\<close> of the table starts.\<close>

fun cnt :: "(nat \<Rightarrow> nat) \<Rightarrow> nat \<Rightarrow> nat \<Rightarrow> nat" where
  "cnt f 0 c = 0"
| "cnt f (Suc k) c = cnt f k c + (if f k = c then 1 else 0)"

fun off :: "(nat \<Rightarrow> nat) \<Rightarrow> nat \<Rightarrow> nat \<Rightarrow> nat" where
  "off f n 0 = 0"
| "off f n (Suc c) = off f n c + cnt f n c"

lemma cnt_le: "cnt f k c \<le> k"
  by (induction k) auto

lemma cnt_mono: "j \<le> k \<Longrightarrow> cnt f j c \<le> cnt f k c"
  by (induction k) (auto simp: le_Suc_eq)

lemma cnt_strict: "x < k \<Longrightarrow> cnt f x (f x) < cnt f k (f x)"
  using cnt_mono [of "Suc x" k f "f x"] by simp

lemma off_mono: "c \<le> c' \<Longrightarrow> off f n c \<le> off f n c'"
  by (induction c') (auto simp: le_Suc_eq)

lemma off_le: "off f n c \<le> n"
proof (induction n)
  case (Suc n)
  have "off f (Suc n) c = off f n c + (if f n < c then 1 else 0)"
    by (induction c) (auto simp: less_Suc_eq)
  with Suc show ?case by simp
qed (induction c; simp)

lemma off_total: "\<forall>x < n. f x < scale \<Longrightarrow> off f n scale = n"
proof (induction n)
  case (Suc n)
  have "off f (Suc n) c = off f n c + (if f n < c then 1 else 0)" for c
    by (induction c) (auto simp: less_Suc_eq)
  with Suc show ?case by simp
qed (induction scale; simp)

definition slot :: "(nat \<Rightarrow> nat) \<Rightarrow> nat \<Rightarrow> nat \<Rightarrow> nat" where
  "slot f n x = off f n (f x) + cnt f x (f x)"

lemma slot_lt_next: "x < n \<Longrightarrow> slot f n x < off f n (Suc (f x))"
  using cnt_strict [of x n f] by (simp add: slot_def)

lemma slot_lt: "x < n \<Longrightarrow> slot f n x < n"
  using slot_lt_next [of x n f] off_le [of f n "Suc (f x)"] by linarith

lemma slot_inj: "x < n \<Longrightarrow> y < n \<Longrightarrow> slot f n x = slot f n y \<Longrightarrow> x = y"
proof (rule ccontr)
  assume xy: "x < n" "y < n" "slot f n x = slot f n y" "x \<noteq> y"
  have lt: "slot f n a < slot f n b" if "f a < f b" "a < n" for a b
    using slot_lt_next [OF that(2), of f] off_mono [of "Suc (f a)" "f b" f n] that(1) by (simp add: slot_def)
  have "f x = f y" using lt [of x y] lt [of y x] xy by (metis less_irrefl nat_neq_iff)
  then show False
    using cnt_strict [of x y f] cnt_strict [of y x f] xy by (auto simp: slot_def nat_neq_iff)
qed

text \<open>Every position of block \<open>c\<close> is the slot of a number that compresses to \<open>c\<close>.\<close>

lemma slot_surj: "j < cnt f n c \<Longrightarrow> \<exists>x < n. f x = c \<and> cnt f x c = j"
proof (induction n)
  case (Suc n)
  show ?case
  proof (cases "j < cnt f n c")
    case True
    then show ?thesis using Suc.IH less_SucI by blast
  next
    case False
    then show ?thesis using Suc.prems by (intro exI [of _ n]) (auto split: if_splits)
  qed
qed simp

lemma count_loop_spec:
  assumes "\<forall>x < n. f x < scale" and "n < 2 ^ 16" and "c < scale"
  shows "length (count_loop f scale n) = scale \<and> count_loop f scale n ! c = cnt f n c"
  using assms(1,2)
proof (induction n)
  case (Suc n)
  have IH: "length (count_loop f scale n) = scale" "count_loop f scale n ! c = cnt f n c"
    using Suc by auto
  have w: "(cnt f n c + 1) mod 2 ^ 16 = cnt f n c + 1" using cnt_le [of f n c] Suc.prems(2) by simp
  have "count_loop f scale (Suc n) = (count_loop f scale n)[f n := (count_loop f scale n ! f n + 1) mod 2 ^ 16]"
    by (simp add: count_loop_def)
  then show ?case using IH w assms(3) by (cases "f n = c") auto
qed (use assms(3) in \<open>simp add: count_loop_def\<close>)

lemma offset_loop_spec:
  assumes "\<And>c. c < k \<Longrightarrow> counts ! c = cnt f n c" and "n < 2 ^ 16"
  shows "offset_loop counts k = (map (off f n) [0..<k], off f n k)"
  using assms(1)
proof (induction k)
  case (Suc k)
  have IH: "offset_loop counts k = (map (off f n) [0..<k], off f n k)" using Suc by simp
  have "(off f n k + cnt f n k) mod 2 ^ 16 = off f n (Suc k)"
    using off_le [of f n "Suc k"] assms(2) by simp
  then show ?case using IH Suc.prems [of k] by (simp add: offset_loop_def)
qed (simp add: offset_loop_def)

lemma fill_loop_spec:
  assumes f: "\<forall>x < n. f x < scale" and n: "n < 2 ^ 16" and "k \<le> n"
  defines "offs \<equiv> map (off f n) [0..<scale]"
  shows "\<exists>used vals. fill_loop f scale offs n k = (used, vals) \<and> length used = scale \<and> length vals = n \<and>
    (\<forall>c < scale. used ! c = cnt f k c) \<and> (\<forall>x < k. vals ! slot f n x = word_of_nat x)"
  using assms(3)
proof (induction k)
  case 0
  then show ?case by (simp add: fill_loop_def)
next
  case (Suc k)
  then obtain used vals where IH: "fill_loop f scale offs n k = (used, vals)" "length used = scale"
      "length vals = n" "\<And>c. c < scale \<Longrightarrow> used ! c = cnt f k c" "\<And>x. x < k \<Longrightarrow> vals ! slot f n x = word_of_nat x"
    by auto
  have fk: "f k < scale" "k < n" using f Suc.prems by auto
  have "slot f n k < n" by (rule slot_lt [OF fk(2)])
  then have pos: "(offs ! f k + used ! f k) mod 2 ^ 16 = slot f n k"
    using fk n IH(4) by (simp add: offs_def slot_def)
  have w: "(used ! f k + 1) mod 2 ^ 16 = cnt f k (f k) + 1"
    using IH(4) [OF fk(1)] cnt_le [of f k "f k"] fk(2) n by simp
  have step: "fill_loop f scale offs n (Suc k) =
      (used[f k := cnt f k (f k) + 1], vals[slot f n k := word_of_nat k])"
    using IH(1) pos w by (simp add: fill_loop_def Let_def)
  have "vals[slot f n k := word_of_nat k] ! slot f n x = word_of_nat x" if "x < Suc k" for x
  proof (cases "x = k")
    case True
    then show ?thesis using \<open>slot f n k < n\<close> IH(3) by simp
  next
    case False
    then have "x < k" using that by simp
    then have "slot f n x \<noteq> slot f n k" using slot_inj [of x n k f] False fk(2) by auto
    then show ?thesis using IH(5) [OF \<open>x < k\<close>] by simp
  qed
  moreover have "used[f k := cnt f k (f k) + 1] ! c = cnt f (Suc k) c" if "c < scale" for c
    using that IH(2,4) by (cases "f k = c") auto
  ultimately show ?case using step IH(2,3) by simp
qed

text \<open>The finished table: the counts, and the slot of every coefficient.\<close>

lemma makePreimageTable_slots:
  assumes d: "d \<le> 11"
  defines "T \<equiv> makePreimageTable d"
  shows "length (pt_counts T) = 2 ^ d" and "c < 2 ^ d \<Longrightarrow> pt_counts T ! c = cnt (cidx d) kq c"
    and "x < kq \<Longrightarrow> pt_vals T ! (pt_offsets T ! cidx d x + cnt (cidx d) x (cidx d x)) = word_of_nat x"
proof -
  let ?f = "cidx d"
  have f: "\<forall>x < kq. ?f x < 2 ^ d" using cidx_lt d by blast
  have n: "kq < 2 ^ 16" by (simp add: kq_def)
  have cl: "length (count_loop ?f (2 ^ d) kq) = 2 ^ d"
    "\<And>c. c < 2 ^ d \<Longrightarrow> count_loop ?f (2 ^ d) kq ! c = cnt ?f kq c"
    using count_loop_spec [OF f n] by (metis zero_less_numeral zero_less_power, blast)
  have ol: "offset_loop (count_loop ?f (2 ^ d) kq) (2 ^ d) = (map (off ?f kq) [0..<2 ^ d], kq)"
    using offset_loop_spec [OF cl(2) n] off_total [OF f] by simp
  obtain used vals where fl: "fill_loop ?f (2 ^ d) (map (off ?f kq) [0..<2 ^ d]) kq kq = (used, vals)"
    "\<And>x. x < kq \<Longrightarrow> vals ! slot ?f kq x = word_of_nat x"
    using fill_loop_spec [OF f n order_refl] by blast
  have T: "pt_counts T = count_loop ?f (2 ^ d) kq" "pt_offsets T = map (off ?f kq) [0..<2 ^ d]"
    "pt_vals T = vals"
    using ol fl(1) by (simp_all add: T_def makePreimageTable_def Let_def)
  show "length (pt_counts T) = 2 ^ d" "c < 2 ^ d \<Longrightarrow> pt_counts T ! c = cnt ?f kq c"
    using T cl by simp_all
  show "pt_vals T ! (pt_offsets T ! ?f x + cnt ?f x (?f x)) = word_of_nat x" if "x < kq"
    using fl(2) [OF that] f that T by (simp add: slot_def)
qed

text \<open>
  Block \<open>c\<close> of the table is not empty, and each of its entries is a coefficient below \<open>q\<close> that
  compresses to \<open>c\<close>.
\<close>

lemma makePreimageTable_spec:
  assumes "1 \<le> d" "d \<le> 11" and c: "c < 2 ^ d"
  shows "length (pt_counts (makePreimageTable d)) = 2 ^ d"
    and "0 < pt_counts (makePreimageTable d) ! c" and "pt_counts (makePreimageTable d) ! c < 2 ^ 16"
    and "j < pt_counts (makePreimageTable d) ! c \<Longrightarrow>
      (let v = pt_vals (makePreimageTable d) ! (pt_offsets (makePreimageTable d) ! c + j)
       in unat v < kq \<and> unat (compressValue v d) = c)"
proof -
  let ?f = "cidx d" and ?T = "makePreimageTable d"
  note S = makePreimageTable_slots [OF assms(2)]
  show "length (pt_counts ?T) = 2 ^ d" by (rule S(1))
  have "cnt ?f kq c < 2 ^ 16" using cnt_le [of ?f kq c] by (simp add: kq_def)
  then show "pt_counts ?T ! c < 2 ^ 16" using S(2) [OF c] by simp
  have "(c * kq + 2 ^ (d - 1)) div 2 ^ d < kq" "?f ((c * kq + 2 ^ (d - 1)) div 2 ^ d) = c"
    using compress_decompress [OF c assms(1,2)] by simp_all
  then have "0 < cnt ?f kq c" using cnt_strict by (metis not_gr_zero not_less_zero)
  then show "0 < pt_counts ?T ! c" using S(2) [OF c] by simp
  assume "j < pt_counts ?T ! c"
  then have "j < cnt ?f kq c" using S(2) [OF c] by simp
  then obtain x where x: "x < kq" "?f x = c" "cnt ?f x c = j" using slot_surj by blast
  then have "pt_vals ?T ! (pt_offsets ?T ! c + j) = word_of_nat x" using S(3) [OF x(1)] by simp
  moreover have "unat (word_of_nat x :: u16) = x"
    using x(1) by (simp add: unsigned_of_nat take_bit_nat_eq_self kq_def)
  ultimately show "let v = pt_vals ?T ! (pt_offsets ?T ! c + j) in unat v < kq \<and> unat (compressValue v d) = c"
    using x by (simp add: cidx_def)
qed

section \<open>The sampler\<close>

text \<open>The generator as documented: the requested number of words, and a number below the bound.\<close>

definition rng_ok :: "'s rng_ops \<Rightarrow> bool" where
  "rng_ok R \<longleftrightarrow> (\<forall>k s. length (fst (rnd_words R k s)) = k) \<and>
     (\<forall>b s. 0 < b \<longrightarrow> fst (rnd_uniform R b s) < b)"

lemma sampler_loop_mod:
  assumes "sampler_loop R bound lim ws s = Some y"
  shows "\<exists>x \<ge> lim. fst y = x mod bound"
proof (rule sampler_loop.raw_induct [OF _ assms], goal_cases)
  case (1 loop R bound lim ws s y)
  obtain x ws' s' where nw: "nextWord R ws s = (x, ws', s')" by (metis prod_cases3)
  show ?case
  proof (cases "lim \<le> x")
    case True
    then show ?thesis using 1(2) nw by (auto simp: sampler_step_def)
  next
    case False
    then show ?thesis using 1(1) [of R bound lim ws' s' y] 1(2) nw by (simp add: sampler_step_def)
  qed
qed

lemma sampler_next_lt:
  assumes "sampler_next R bound ws s = retC (r, ws', s')"
  shows "r < bound"
proof -
  have b: "bound \<noteq> 0" using assms by (auto simp: sampler_next_def)
  then obtain x where "r = x mod bound"
    using assms sampler_loop_mod [of R bound "- bound mod bound" ws s "(r, ws', s')"]
    by (auto simp: sampler_next_def retC_def)
  then show ?thesis using b by (simp add: word_mod_less_divisor word_gt_0)
qed

text \<open>
  The words the sampler will draw, as a stream, and its termination: if some word at or above
  the rejection limit comes, the loop returns.
\<close>

fun draws :: "'s rng_ops \<Rightarrow> WordSampler \<Rightarrow> 's \<Rightarrow> nat \<Rightarrow> u32" where
  "draws R ws s 0 = fst (nextWord R ws s)"
| "draws R ws s (Suc k) = (case nextWord R ws s of (x, ws', s') \<Rightarrow> draws R ws' s' k)"

lemma sampler_loop_terminates:
  assumes "draws R ws s k \<ge> lim"
  shows "\<exists>r ws' s'. sampler_loop R bound lim ws s = Some (r, ws', s')"
  using assms
proof (induction k arbitrary: ws s)
  case 0
  obtain x ws' s' where nw: "nextWord R ws s = (x, ws', s')" by (metis prod_cases3)
  with 0 show ?case by (subst sampler_loop.simps) (simp add: sampler_step_def)
next
  case (Suc k)
  obtain x ws' s' where nw: "nextWord R ws s = (x, ws', s')" by (metis prod_cases3)
  show ?case
  proof (cases "x \<ge> lim")
    case True
    then show ?thesis using nw by (subst sampler_loop.simps) (simp add: sampler_step_def)
  next
    case False
    then show ?thesis using Suc nw by (subst sampler_loop.simps) (simp add: sampler_step_def)
  qed
qed

section \<open>Encoding with drawn preimages\<close>

text \<open>
  Whatever the sampler draws, the integer that is exported spells a vector of coefficients
  below \<open>q\<close> that compress to the wanted values.
\<close>

definition preimages :: "nat \<Rightarrow> u16 list \<Rightarrow> u16 list \<Rightarrow> bool" where
  "preimages d wants vs \<longleftrightarrow> list_all2 (\<lambda>w v. unat v < kq \<and> compressValue v d = w) wants vs"

lemma picked_loop_retC:
  assumes g: "gmp_ok g" and d: "1 \<le> d" "d \<le> 11"
    and "picked_loop g R (makePreimageTable d) wants x ws s = retC (y, s')"
  shows "\<exists>vs. preimages d wants vs \<and> y = foldl (\<lambda>x v. x * kq + unat v) x vs"
  using assms(4)
proof (induction wants arbitrary: x ws s)
  case Nil
  then show ?case by (auto simp: preimages_def)
next
  case (Cons w wants)
  let ?T = "makePreimageTable d"
  have w: "unat w < 2 ^ d" and ne: "pt_counts ?T ! unat w \<noteq> 0"
    using Cons.prems makePreimageTable_spec(1) [OF d, of 0] by (auto simp: Let_def split: if_splits)
  obtain r ws1 s1 where r: "sampler_next R (word_of_nat (pt_counts ?T ! unat w)) ws s = retC (r, ws1, s1)"
    and rest: "picked_loop g R ?T wants
        (x * kq + unat (pt_vals ?T ! (pt_offsets ?T ! unat w + unat r))) ws1 s1 = retC (y, s')"
    using Cons.prems g by (auto simp: Let_def result_simps gmp_ok_def split: if_splits)
  define v where "v = pt_vals ?T ! (pt_offsets ?T ! unat w + unat r)"
  have "unat (word_of_nat (pt_counts ?T ! unat w) :: u32) = pt_counts ?T ! unat w"
    using makePreimageTable_spec(3) [OF d w] by (simp add: unsigned_of_nat take_bit_nat_eq_self)
  then have "unat r < pt_counts ?T ! unat w"
    using sampler_next_lt [OF r] by (simp add: word_less_nat_alt)
  then have v: "unat v < kq" "compressValue v d = w"
    using makePreimageTable_spec(4) [OF d w, of "unat r"] by (simp_all add: v_def Let_def word_unat_eq_iff)
  obtain vs where "preimages d wants vs" "y = foldl (\<lambda>x v. x * kq + unat v) (x * kq + unat v) vs"
    using Cons.IH [OF rest] by (auto simp: v_def)
  then show ?case using v by (intro exI [of _ "v # vs"]) (simp add: preimages_def)
qed

lemma foldl_vec_val: "foldl (\<lambda>x v. x * kq + unat v) 0 vs = vec_val (rev vs)"
proof (induction vs rule: rev_induct)
  case (snoc v vs)
  then show ?case by (simp add: vec_val_def mult.commute)
qed (simp add: vec_val_def)

lemma encodePickedVec_retC:
  assumes g: "gmp_ok g" and wf: "km_wf g km"
    and enc: "encodePickedVec g R km inp bits s = retC ((True, out), s')"
  shows "\<exists>vs. preimages (ki_du (km_info km)) inp vs \<and> encodeVec g vs bits = (True, out)"
proof -
  note F = makeInfo_facts [OF g wf]
  have pre: "km_pre km = makePreimageTable (ki_du (km_info km))" using wf by (simp add: km_wf_def)
  obtain y where y: "picked_loop g R (km_pre km) (rev inp) 0 WordSampler_new s = retC (y, s')"
      "export_bits g y bits = (True, out)"
    using enc by (auto simp: encodePickedVec_def result_simps)
  obtain us where us: "preimages (ki_du (km_info km)) (rev inp) us" "y = vec_val (rev us)"
    using picked_loop_retC [OF g _ F(7), of R "rev inp" 0 WordSampler_new s y s'] F(6) y(1)
    by (auto simp: pre foldl_vec_val Suc_le_eq)
  have "preimages (ki_du (km_info km)) inp (rev us)"
    using us(1) by (simp add: preimages_def list_all2_rev1)
  then show ?thesis using y(2) us(2) encodeVec_eq [OF g] by metis
qed

section \<open>The ciphertext round trip\<close>

lemma decodeCipher_encodeCipher:
  assumes g: "gmp_ok g" and wf: "km_wf g km"
    and enc: "encodeCipher g R km cipher s = retC ((True, out), s')"
  shows "decodeCipher g km out = Inr (True, cipher)" and "length out = codeCipherBytes km"
proof -
  let ?i = "km_info km"
  note F = makeInfo_facts [OF g wf]
  have len: "length cipher = rawCipherBytes km"
    using enc by (auto simp: encodeCipher_def Let_def split: if_splits)
  define c1 where "c1 = take (c1Bytes ?i) cipher"
  define c2 where "c2 = drop (c1Bytes ?i) cipher"
  have s1: "subspan cipher 0 (c1Bytes ?i) = Inr c1" using len F(3) by (simp add: subspan_def slice_def c1_def)
  define uComp where "uComp = unpackBits c1 (ki_du ?i) (vecSize ?i)"
  obtain r s1 where r: "encodePickedVec g R km uComp (vecBits ?i) s = retC ((True, r), s1)"
    and out: "out = patch_at (vecBytes ?i) c2 (patch_at 0 r (replicate (codeCipherBytes km) 0))"
    using enc len s1 unfolding encodeCipher_def Let_def
    by (auto simp: result_simps uComp_def c2_def case_prod_unfold split: if_splits)
  obtain vs where vs: "preimages (ki_du ?i) uComp vs" "encodeVec g vs (vecBits ?i) = (True, r)"
    using encodePickedVec_retC [OF g wf r] by blast
  have canon: "\<forall>v \<in> set vs. unat v < kq" and lv: "length vs = vecSize ?i"
    using vs(1) by (auto simp: preimages_def list_all2_conv_all_nth in_set_conv_nth uComp_def unpackBits_def)
  note D = encodeVec_decodeVec [OF g vs(2) canon]
  have lr: "length r = vecBytes ?i" using D(2) F(10) by simp
  have l2: "length c2 = c2Bytes ?i" using len F(3) by (simp add: c2_def)
  have out2: "out = r @ c2" unfolding out codeCipherBytes_def by (rule patch_two [OF lr l2])
  then show lo: "length out = codeCipherBytes km" using lr l2 by (simp add: codeCipherBytes_def)
  have sub: "subspan out 0 (vecBytes ?i) = Inr r" using out2 lr by (simp add: subspan_def slice_def)
  have dec: "decodeVec g r (vecBits ?i) (vecSize ?i) = (True, vs)" using D(1) lv by simp
  have comp: "map (\<lambda>i. compressValue (vs ! i) (ki_du ?i)) [0..<vecSize ?i] = uComp"
    using vs(1) lv by (intro nth_equalityI) (auto simp: preimages_def list_all2_conv_all_nth uComp_def unpackBits_def)
  have l1: "length c1 = c1Bytes ?i" using len F(3) by (simp add: c1_def)
  have pack: "packBits uComp (ki_du ?i) = c1"
    unfolding uComp_def using F(4,6,7) l1 by (intro packBits_unpackBits) simp_all
  have "patch_at (c1Bytes ?i) c2 (patch_at 0 c1 (replicate (rawCipherBytes km) 0)) = c1 @ c2"
    unfolding F(3) by (rule patch_two [OF l1 l2])
  moreover have "c1 @ c2 = cipher" by (simp add: c1_def c2_def)
  moreover have "drop (vecBytes ?i) out = c2" using out2 lr by simp
  ultimately show "decodeCipher g km out = Inr (True, cipher)"
    using lo sub dec comp pack by (simp add: decodeCipher_def Let_def)
qed

end
