(* ===== verification/Kem_Properties.thy ===== *)
theory Kem_Properties
  imports Kemeleon_Cipher
begin

text \<open>
  Progress of the ciphertext encoder, fairness of its sampler, and the properties of the
  ML-KEM wrapper and the Kemeleon codec with their concrete applications.
\<close>

section \<open>The ciphertext encoder returns\<close>

text \<open>From every state the generator eventually delivers a word of at least \<open>2 ^ 16\<close>.\<close>

definition ws_ok :: "WordSampler \<Rightarrow> bool" where
  "ws_ok ws \<longleftrightarrow> ws_pos ws \<le> length (ws_buf ws)"

definition rng_fair :: "'s rng_ops \<Rightarrow> bool" where
  "rng_fair R \<longleftrightarrow> (\<forall>k s. length (fst (rnd_words R k s)) = k) \<and>
     (\<forall>ws s. ws_ok ws \<longrightarrow> (\<exists>k. draws R ws s k \<ge> 2 ^ 16))"

lemma nextWord_ok:
  assumes "rng_fair R" and "ws_ok ws" and "nextWord R ws s = (x, ws', s')"
  shows "ws_ok ws'"
proof (cases "ws_pos ws = length (ws_buf ws)")
  case True
  obtain buf s1 where b: "rnd_words R 1024 s = (buf, s1)" by (cases "rnd_words R 1024 s")
  then have "length buf = 1024" using assms(1) unfolding rng_fair_def by (metis fst_conv)
  then show ?thesis using assms(3) True b by (auto simp: nextWord_def ws_ok_def)
next
  case False
  then show ?thesis using assms(2,3) by (auto simp: nextWord_def ws_ok_def)
qed

lemma sampler_loop_ok:
  assumes "sampler_loop R bound lim ws s = Some y" and "rng_fair R" and "ws_ok ws"
  shows "ws_ok (fst (snd y))"
proof (rule mp [OF mp [OF sampler_loop.raw_induct [OF _ assms(1), where P = "\<lambda>R bound lim ws s y.
    rng_fair R \<longrightarrow> ws_ok ws \<longrightarrow> ws_ok (fst (snd y))"]]], goal_cases)
  case (1 loop R bound lim ws s y)
  obtain x ws' s' where nw: "nextWord R ws s = (x, ws', s')" by (metis prod_cases3)
  show ?case
  proof (intro impI)
    assume a: "rng_fair R" "ws_ok ws"
    then have "ws_ok ws'" using nw by (rule nextWord_ok)
    then show "ws_ok (fst (snd y))"
      using 1(1) [of R bound lim ws' s' y] 1(2) nw a by (cases "sampler_step bound lim x") auto
  qed
qed (use assms in simp_all)

lemma sampler_next_returns:
  assumes "rng_fair R" and "0 < n" and "n < 2 ^ 16" and ok: "ws_ok ws"
  shows "\<exists>r ws' s'. sampler_next R (word_of_nat n) ws s = retC (r, ws', s') \<and> ws_ok ws'"
proof -
  define b :: u32 where "b = word_of_nat n"
  have ub: "unat b = n" using assms(3) by (simp add: b_def unsigned_of_nat take_bit_nat_eq_self)
  then have b: "b \<noteq> 0" "b < 2 ^ 16" using assms(2,3) by (auto simp: word_less_nat_alt)
  have "- b mod b < b" using b(1) by (simp add: word_mod_less_divisor word_gt_0)
  then have lim: "- b mod b < 2 ^ 16" using b(2) by (rule less_trans)
  obtain k where "draws R ws s k \<ge> 2 ^ 16" using assms(1) ok unfolding rng_fair_def by blast
  then have "draws R ws s k \<ge> - b mod b" using lim by (meson less_imp_le order_trans)
  then obtain y where y: "sampler_loop R b (- b mod b) ws s = Some y"
    using sampler_loop_terminates [where bound = b] by (metis (no_types))
  then show ?thesis using b(1) sampler_loop_ok [OF y assms(1) ok] unfolding sampler_next_def b_def [symmetric]
    by (cases y) (simp add: retC_def)
qed

lemma picked_loop_returns:
  assumes R: "rng_fair R" and d: "1 \<le> d" "d \<le> 11" and "\<forall>w \<in> set wants. unat w < 2 ^ d" and "ws_ok ws"
  shows "\<exists>y s'. picked_loop g R (makePreimageTable d) wants x ws s = retC (y, s')"
  using assms(4,5)
proof (induction wants arbitrary: x ws s)
  case (Cons w wants)
  have w: "unat w < 2 ^ d" using Cons.prems by simp
  note T = makePreimageTable_spec [OF d w]
  obtain r ws' s' where "sampler_next R (word_of_nat (pt_counts (makePreimageTable d) ! unat w)) ws s = retC (r, ws', s')" "ws_ok ws'"
    using sampler_next_returns [OF R T(2,3) Cons.prems(2)] by blast
  then show ?case using Cons T(1,2) w by (simp add: Let_def)
qed simp

lemma unpack_value_lt: "b \<le> 16 \<Longrightarrow> unat (unpack_value src pos b) < 2 ^ b"
proof -
  assume b: "b \<le> 16"
  have "take_bit b (unpack_value src pos b) = unpack_value src pos b"
    by (rule bit_word_eqI) (auto simp: bit_take_bit_iff bit_unpack_value [OF b])
  then show ?thesis by (metis take_bit_nat_less_exp unsigned_take_bit_eq)
qed

lemma encodeCipher_returns:
  assumes g: "gmp_ok g" and wf: "km_wf g km" and R: "rng_fair R" and len: "length cipher = rawCipherBytes km"
  shows "\<exists>ok out s'. encodeCipher g R km cipher s = retC ((ok, out), s') \<and> (\<not> ok \<longrightarrow> out = [])"
proof -
  let ?i = "km_info km"
  note F = makeInfo_facts [OF g wf]
  have pre: "km_pre km = makePreimageTable (ki_du ?i)" using wf by (simp add: km_wf_def)
  define uComp where "uComp = unpackBits (take (c1Bytes ?i) cipher) (ki_du ?i) (vecSize ?i)"
  have "\<forall>w \<in> set (rev uComp). unat w < 2 ^ ki_du ?i"
    using unpack_value_lt [of "ki_du ?i"] F(7) by (auto simp: uComp_def unpackBits_def)
  then obtain y s1 where "picked_loop g R (km_pre km) (rev uComp) 0 WordSampler_new s = retC (y, s1)"
    using picked_loop_returns [OF R _ F(7), of "rev uComp" WordSampler_new g 0 s] F(6) unfolding pre
    by (auto simp: Suc_le_eq ws_ok_def WordSampler_new_def)
  then have pick: "encodePickedVec g R km uComp (vecBits ?i) s = retC (export_bits g y (vecBits ?i), s1)"
    by (simp add: encodePickedVec_def)
  obtain ok r where e: "export_bits g y (vecBits ?i) = (ok, r)" by (cases "export_bits g y (vecBits ?i)")
  obtain rej s2 where z: "rejectZeroEntries R (slice (c1Bytes ?i) (c2Bytes ?i) cipher) (ki_dv ?i) kn s1 = (rej, s2)"
    by (metis surj_pair)
  have s0: "subspan cipher 0 (c1Bytes ?i) = Inr (take (c1Bytes ?i) cipher)"
    and s1: "subspan cipher (c1Bytes ?i) (c2Bytes ?i) = Inr (slice (c1Bytes ?i) (c2Bytes ?i) cipher)"
    using len F(3) by (simp_all add: subspan_def slice_def)
  show ?thesis
    using len s0 s1 pick e z unfolding encodeCipher_def Let_def
    by (cases ok; cases rej) (auto simp flip: uComp_def)
qed

section \<open>The sampler is unbiased\<close>

text \<open>The rejection limit is the remainder of the word range by the bound.\<close>

lemma sampler_lim:
  assumes "(bound :: u32) \<noteq> 0"
  shows "unat (- bound mod bound) = 2 ^ 32 mod unat bound"
proof -
  have le: "unat bound \<le> 2 ^ 32" using unat_lt [of bound] by simp
  have pos: "0 < unat bound" using assms by (simp add: unat_gt_0)
  have "word_of_nat (2 ^ 32 - unat bound) = - bound" using le by (simp add: of_nat_diff)
  then have "unat (- bound) = unat (word_of_nat (2 ^ 32 - unat bound) :: u32)" by simp
  also have "\<dots> = 2 ^ 32 - unat bound"
  proof -
    have "n < 2 ^ 32 \<Longrightarrow> unat (word_of_nat n :: u32) = n" for n
      by (simp add: unsigned_of_nat take_bit_nat_eq_self)
    then show ?thesis using pos le by (metis diff_less zero_less_numeral zero_less_power)
  qed
  finally show ?thesis using le by (simp add: unat_mod_distrib le_mod_geq)
qed

lemma residue_card:
  fixes b :: nat
  assumes r: "r < b" and M: "M = b * K + L" "L < b"
  shows "card {n. L \<le> n \<and> n < M \<and> n mod b = r} = K"
proof -
  define base where "base = (if L \<le> r then r else r + b)"
  have base: "base mod b = r" "L \<le> base" "base < L + b" using r M(2) by (auto simp: base_def)
  have "{n. L \<le> n \<and> n < M \<and> n mod b = r} = (\<lambda>k. base + b * k) ` {..<K}"
  proof (intro set_eqI iffI)
    fix n assume n: "n \<in> {n. L \<le> n \<and> n < M \<and> n mod b = r}"
    then have "n mod b = base mod b" using base by simp
    have "base \<le> n"
    proof (rule ccontr)
      assume "\<not> base \<le> n"
      then have lt: "n < base" "L \<le> n" using n by auto
      have "b dvd base - n" using \<open>n mod b = base mod b\<close> lt(1) by (metis less_imp_le mod_eq_dvd_iff_nat)
      then have "b \<le> base - n" using lt(1) by (intro dvd_imp_le) auto
      then show False using base(3) lt by linarith
    qed
    then obtain k where k: "n = base + b * k" using \<open>n mod b = base mod b\<close> by (metis dvdE le_add_diff_inverse mod_eq_dvd_iff_nat)
    have "base + b * k < b * K + L" using n k M(1) by simp
    then have "b * k < b * K" using base(2) by linarith
    then have "k < K" by simp
    then show "n \<in> (\<lambda>k. base + b * k) ` {..<K}" using k by blast
  next
    fix n assume "n \<in> (\<lambda>k. base + b * k) ` {..<K}"
    then obtain k where k: "k < K" "n = base + b * k" by auto
    have "b * k + b \<le> b * K" using k(1) mult_le_mono2 [of "Suc k" K b] by simp
    then show "n \<in> {n. L \<le> n \<and> n < M \<and> n mod b = r}" using k(2) base M(1) by simp
  qed
  moreover have "inj_on (\<lambda>k. base + b * k) {..<K}" using r by (auto simp: inj_on_def)
  ultimately show ?thesis by (simp add: card_image)
qed

lemma accepted_card:
  assumes "(bound :: u32) \<noteq> 0" and "r < bound"
  shows "card {x. sampler_step bound (- bound mod bound) x = Some r} = 2 ^ 32 div unat bound"
proof -
  define b L where "b = unat bound" and "L = unat (- bound mod bound)"
  have L: "L = 2 ^ 32 mod b" using sampler_lim [OF assms(1)] by (simp add: L_def b_def)
  have b: "0 < b" "unat r < b" using assms by (simp_all add: b_def unat_gt_0 word_less_nat_alt)
  let ?N = "{n. L \<le> n \<and> n < 2 ^ 32 \<and> n mod b = unat r}"
  have "{x. sampler_step bound (- bound mod bound) x = Some r} = (word_of_nat :: nat \<Rightarrow> u32) ` ?N"
  proof (intro set_eqI iffI)
    fix x assume "x \<in> {x. sampler_step bound (- bound mod bound) x = Some r}"
    then have "- bound mod bound \<le> x" "x mod bound = r" by (auto simp: sampler_step_def split: if_splits)
    then have "unat x \<in> ?N"
      using unat_lt [of x] by (auto simp: L_def b_def word_le_nat_alt unat_mod_distrib)
    then show "x \<in> word_of_nat ` ?N" by (intro image_eqI [of _ _ "unat x"]) simp_all
  next
    fix x :: u32 assume "x \<in> word_of_nat ` ?N"
    then obtain n where n: "n \<in> ?N" "x = word_of_nat n" by blast
    have "unat x = n" using n by (simp add: unsigned_of_nat take_bit_nat_eq_self)
    then show "x \<in> {x. sampler_step bound (- bound mod bound) x = Some r}"
      using n(1) by (simp add: sampler_step_def word_le_nat_alt L_def b_def word_unat_eq_iff unat_mod_distrib)
  qed
  moreover have "inj_on (word_of_nat :: nat \<Rightarrow> u32) ?N"
  proof (rule inj_on_inverseI)
    show "unat (word_of_nat n :: u32) = n" if "n \<in> ?N" for n
      using that by (simp add: unsigned_of_nat take_bit_nat_eq_self)
  qed
  moreover have "card ?N = 2 ^ 32 div b"
    by (rule residue_card [OF b(2)]) (simp_all add: L b(1))
  ultimately show ?thesis by (simp add: card_image b_def)
qed

section \<open>A reference big-integer library\<close>

fun le_bytes :: "nat \<Rightarrow> u8 list" where
  "le_bytes x = (if x = 0 then [] else word_of_nat (x mod 256) # le_bytes (x div 256))"

declare le_bytes.simps [simp del]

fun nbits :: "nat \<Rightarrow> nat" where
  "nbits x = (if x = 0 then 0 else Suc (nbits (x div 2)))"

declare nbits.simps [simp del]

definition gmp_ref :: gmp where
  "gmp_ref = \<lparr> mpz_mul_ui = (*), mpz_add_ui = (+), mpz_ui_pow_ui = (^),
     mpz_tdiv_q_ui = (\<lambda>x d. (x div d, x mod d)), mpz_sizeinbase = (\<lambda>x b. nbits x),
     mpz_tstbit = (\<lambda>x i. odd (x div 2 ^ i)), mpz_export = le_bytes, mpz_import = le_val \<rparr>"

lemma nbits_bounds: "0 < x \<Longrightarrow> 0 < nbits x \<and> 2 ^ (nbits x - 1) \<le> x \<and> x < 2 ^ nbits x"
proof (induction x rule: nbits.induct)
  case (1 x)
  show ?case
  proof (cases "x = 1")
    case False
    then have "0 < x div 2" using "1.prems" by simp
    then have IH: "0 < nbits (x div 2)" "2 ^ (nbits (x div 2) - 1) \<le> x div 2" "x div 2 < 2 ^ nbits (x div 2)"
      using "1.IH" "1.prems" by auto
    have n: "nbits x = Suc (nbits (x div 2))" using "1.prems" by (simp add: nbits.simps [of x])
    define p :: nat where "p = 2 ^ (nbits (x div 2) - 1)"
    have p: "2 ^ nbits (x div 2) = 2 * p" using IH(1) by (cases "nbits (x div 2)") (auto simp: p_def)
    have "2 * p \<le> x \<and> x < 4 * p" using IH(2,3) unfolding p p_def [symmetric] by linarith
    then show ?thesis using n p by simp
  qed (simp add: nbits.simps)
qed

lemma le_bytes_spec: "le_val (le_bytes x) = x \<and> (le_bytes x \<noteq> [] \<longrightarrow> last (le_bytes x) \<noteq> 0)"
proof (induction x rule: le_bytes.induct)
  case (1 x)
  show ?case
  proof (cases "x = 0")
    case True
    then show ?thesis by (simp add: le_bytes.simps le_val_def)
  next
    case False
    have u: "unat (word_of_nat (x mod 256) :: u8) = x mod 256"
      by (simp add: unsigned_of_nat take_bit_nat_eq_self)
    have e: "le_bytes x = word_of_nat (x mod 256) # le_bytes (x div 256)"
      using False by (simp add: le_bytes.simps [of x])
    have "le_val (le_bytes x) = x" using "1.IH" [OF False] u by (simp add: e le_val_def)
    moreover have "word_of_nat (x mod 256) \<noteq> (0::u8)" if "le_bytes (x div 256) = []"
    proof -
      have "x div 256 = 0" using "1.IH" [OF False] that by (simp add: le_val_def)
      then have "x mod 256 \<noteq> 0" using False by (metis div_mult_mod_eq add.right_neutral mult_0)
      then show ?thesis using u by (metis unsigned_0)
    qed
    ultimately show ?thesis using "1.IH" [OF False] by (auto simp: e)
  qed
qed

lemma gmp_ref_ok: "gmp_ok gmp_ref"
  using nbits_bounds le_bytes_spec by (simp add: gmp_ok_def gmp_ref_def)

abbreviation "km512 \<equiv> Kemeleon_new gmp_ref MlKem512"

lemma km512_sizes: "rawKeyBytes km512 = 800" "rawCipherBytes km512 = 768" "polyBytes (km_info km512) = 768"
  by (simp_all add: Kemeleon_new_def Let_def rawKeyBytes_def rawCipherBytes_def MlKem_new_def makeInfo_def)

text \<open>The all-zero key, whose coefficient vector is zero.\<close>

lemma unpack_zeros: "unpackPolyBytes (replicate (3 * n) 0) = Inr (replicate (2 * n) 0)"
proof -
  have "unpack3 0 0 0 = [0, 0]" by (simp add: unpack3_def Let_def)
  then have "concat (map (\<lambda>i. unpack3 (replicate (3 * n) 0 ! (3 * i)) (replicate (3 * n) 0 ! (3 * i + 1))
      (replicate (3 * n) 0 ! (3 * i + 2))) [0..<n]) = concat (map (\<lambda>i. [0, 0]) [0..<n])"
    by (intro arg_cong [of _ _ concat] map_cong) simp_all
  also have "\<dots> = replicate (2 * n) 0" by (induction n) (simp_all add: replicate_append_same replicate_app_Cons_same)
  finally show ?thesis unfolding unpackPolyBytes_Inr by simp
qed

lemma vec_val_zeros [simp]: "vec_val (replicate n 0) = 0"
  by (induction n) (simp_all add: vec_val_def)

lemma zero_key:
  "unpackPolyBytes (take (polyBytes (km_info km512)) (replicate 800 0)) = Inr (replicate 512 0)"
  "\<exists>out. encodeKey gmp_ref h km512 (replicate 800 0) = Inr (True, out)"
proof -
  show u: "unpackPolyBytes (take (polyBytes (km_info km512)) (replicate 800 0)) = Inr (replicate 512 0)"
    using unpack_zeros [of 256] by (simp add: km512_sizes)
  obtain r where "encodeVec gmp_ref (replicate 512 0) (vecBits (km_info km512)) = (True, r)"
    using export_bits_True [OF gmp_ref_ok, of 0 "vecBits (km_info km512)"] encodeVec_eq [OF gmp_ref_ok]
    by (metis vec_val_zeros zero_less_numeral zero_less_power)
  then show "\<exists>out. encodeKey gmp_ref h km512 (replicate 800 0) = Inr (True, out)"
    unfolding encodeKey_True_iff [OF gmp_ref_ok km_wf_new] using u km512_sizes(1) by auto
qed

section \<open>A concrete generator\<close>

text \<open>A generator of one constant word, a multiple of the size of the block of value 0.\<close>

definition w_word :: u32 where
  "w_word = word_of_nat (pt_counts (makePreimageTable 10) ! 0 * 2 ^ 20)"

definition w_rng :: "unit rng_ops" where
  "w_rng = \<lparr> rnd_words = (\<lambda>k s. (replicate k w_word, s)), rnd_uniform = (\<lambda>b s. (1, s)) \<rparr>"

lemma w_count: "0 < pt_counts (makePreimageTable 10) ! 0" "pt_counts (makePreimageTable 10) ! 0 \<le> kq"
  using makePreimageTable_spec(2) [of 10 0] makePreimageTable_slots(2) [of 10 0] cnt_le [of "cidx 10" kq 0]
  by simp_all

lemma w_word_unat: "unat w_word = pt_counts (makePreimageTable 10) ! 0 * 2 ^ 20"
proof -
  have "pt_counts (makePreimageTable 10) ! 0 * 2 ^ 20 \<le> kq * 2 ^ 20" using w_count(2) by (rule mult_le_mono1)
  then have "pt_counts (makePreimageTable 10) ! 0 * 2 ^ 20 < 2 ^ 32" by (simp add: kq_def)
  moreover have "unat (word_of_nat n :: u32) = n" if "n < 2 ^ 32" for n
    using that by (simp add: unsigned_of_nat take_bit_nat_eq_self)
  ultimately show ?thesis unfolding w_word_def by blast
qed

lemma w_word_big: "2 ^ 16 \<le> w_word"
proof -
  have "1 * 2 ^ 20 \<le> unat w_word" unfolding w_word_unat using w_count(1) by (intro mult_le_mono1) simp
  then show ?thesis by (simp add: word_le_nat_alt)
qed

definition ws_const :: "WordSampler \<Rightarrow> bool" where
  "ws_const ws \<longleftrightarrow> ws_pos ws \<le> length (ws_buf ws) \<and> (\<forall>i. ws_pos ws \<le> i \<and> i < length (ws_buf ws) \<longrightarrow> ws_buf ws ! i = w_word)"

lemma w_nextWord: "ws_const ws \<Longrightarrow> \<exists>ws'. nextWord w_rng ws s = (w_word, ws', s) \<and> ws_const ws'"
  by (cases "ws_pos ws = length (ws_buf ws)") (auto simp: nextWord_def w_rng_def ws_const_def)

text \<open>After at most one buffer of foreign words the generator delivers its constant word.\<close>

lemma nextWord_advance:
  assumes "ws_pos ws < length (ws_buf ws)"
  shows "draws R ws s (Suc k) = draws R (ws\<lparr>ws_pos := ws_pos ws + 1\<rparr>) s k"
  using assms by (simp add: nextWord_def)

lemma w_draws: "ws_pos ws \<le> length (ws_buf ws) \<Longrightarrow> draws w_rng ws s (length (ws_buf ws) - ws_pos ws) = w_word"
proof (induction "length (ws_buf ws) - ws_pos ws" arbitrary: ws)
  case 0
  then show ?case by (simp add: nextWord_def w_rng_def)
next
  case (Suc k)
  then have lt: "ws_pos ws < length (ws_buf ws)" by simp
  have "k = length (ws_buf ws) - Suc (ws_pos ws)" using Suc.hyps(2) by simp
  then have "draws w_rng (ws\<lparr>ws_pos := Suc (ws_pos ws)\<rparr>) s k = w_word"
    using Suc.hyps(1) [of "ws\<lparr>ws_pos := Suc (ws_pos ws)\<rparr>"] lt by simp
  then show ?case using nextWord_advance [OF lt, of w_rng s k] Suc.hyps(2) by simp
qed

lemma w_rng_fair: "rng_fair w_rng"
proof -
  have "\<exists>k. draws w_rng ws s k \<ge> 2 ^ 16" if "ws_ok ws" for ws s
    using w_draws [of ws s] that w_word_big unfolding ws_ok_def by metis
  then show ?thesis by (simp add: rng_fair_def w_rng_def)
qed

text \<open>On this generator every drawn preimage of 0 is 0.\<close>

lemma w_next:
  assumes "ws_const ws"
  shows "\<exists>ws'. sampler_next w_rng (word_of_nat (pt_counts (makePreimageTable 10) ! 0)) ws s = retC (0, ws', s) \<and> ws_const ws'"
proof -
  define c where "c = pt_counts (makePreimageTable 10) ! 0"
  have c: "0 < c" "c \<le> kq" using w_count by (simp_all add: c_def)
  then have c16: "c < 2 ^ 16" by (simp add: kq_def)
  define b :: u32 where "b = word_of_nat c"
  have ub: "unat b = c" using c16 by (simp add: b_def unsigned_of_nat take_bit_nat_eq_self)
  then have b: "b \<noteq> 0" "b < 2 ^ 16" using c(1) c16 by (auto simp: word_less_nat_alt)
  have "- b mod b < b" using b(1) by (simp add: word_mod_less_divisor word_gt_0)
  then have "- b mod b \<le> w_word" using b(2) w_word_big by (meson less_imp_le less_le_trans order_trans)
  moreover have "w_word mod b = 0"
    using w_word_unat ub by (simp add: word_unat_eq_iff unat_mod_distrib c_def)
  ultimately have step: "sampler_step b (- b mod b) w_word = Some 0" by (simp add: sampler_step_def)
  obtain ws' where nw: "nextWord w_rng ws s = (w_word, ws', s)" "ws_const ws'" using w_nextWord [OF assms] by blast
  have "sampler_loop w_rng b (- b mod b) ws s = Some (0, ws', s)"
    using nw step by (subst sampler_loop.simps) simp
  then show ?thesis using b(1) nw(2) unfolding sampler_next_def c_def [symmetric] b_def [symmetric]
    by (simp add: retC_def)
qed

lemma w_first: "pt_vals (makePreimageTable 10) ! (pt_offsets (makePreimageTable 10) ! 0) = 0"
proof -
  have "cidx 10 0 = 0" using compress_nat [of 0 10] by (simp add: cidx_def kq_def)
  then show ?thesis using makePreimageTable_slots(3) [of 10 0] by (simp add: kq_def)
qed

lemma w_picked: "ws_const ws \<Longrightarrow>
  picked_loop gmp_ref w_rng (makePreimageTable 10) (replicate n 0) 0 ws s = retC (0, s)"
proof (induction n arbitrary: ws)
  case (Suc n)
  obtain ws' where w: "sampler_next w_rng (word_of_nat (pt_counts (makePreimageTable 10) ! 0)) ws s = retC (0, ws', s)"
      "ws_const ws'"
    using w_next [OF Suc.prems] by blast
  have "length (pt_counts (makePreimageTable 10)) = 2 ^ 10" by (rule makePreimageTable_slots(1)) simp
  then show ?case using Suc.IH [OF w(2)] w(1) w_count(1) w_first by (simp add: Let_def gmp_ref_def)
qed simp

lemma w_unpack: "unpackBits (replicate m 0) b n = replicate n 0" if "n * b \<le> 8 * m" "b \<le> 16"
proof (rule nth_equalityI)
  fix i assume "i < length (unpackBits (replicate m 0) b n)"
  then have i: "i < n" by (simp add: unpackBits_def)
  have "Suc i * b \<le> n * b" using i by (intro mult_le_mono1) simp
  then have lt: "(i * b + j) div 8 < m" if "j < b" for j using that \<open>n * b \<le> 8 * m\<close> by simp
  show "unpackBits (replicate m 0) b n ! i = replicate n 0 ! i"
    using i lt by (intro bit_word_eqI) (auto simp: unpackBits_def bit_unpack_value [OF that(2)] sbit_def)
qed (simp add: unpackBits_def)

lemma w_reject: "reject_loop w_rng src b is s = (False, s)"
  by (induction "is") (simp_all add: shouldRejectZero_def w_rng_def Let_def)

lemma km512_pre: "km_pre km512 = makePreimageTable 10" "ki_du (km_info km512) = 10"
  "c1Bytes (km_info km512) = 640" "c2Bytes (km_info km512) = 128" "vecSize (km_info km512) = 512"
  by (simp_all add: Kemeleon_new_def makeInfo_def Let_def kn_def)

lemma zero_cipher: "\<exists>out. encodeCipher gmp_ref w_rng km512 (replicate 768 0) () = retC ((True, out), ())"
proof -
  let ?i = "km_info km512"
  have u: "unpackBits (replicate 640 0) 10 512 = replicate 512 0" by (rule w_unpack) simp_all
  have "ws_const WordSampler_new" by (auto simp: ws_const_def WordSampler_new_def)
  then have p: "encodePickedVec gmp_ref w_rng km512 (replicate 512 0) (vecBits ?i) () =
      retC (export_bits gmp_ref 0 (vecBits ?i), ())"
    using w_picked [of WordSampler_new 512] by (simp add: encodePickedVec_def km512_pre)
  obtain r where r: "export_bits gmp_ref 0 (vecBits ?i) = (True, r)"
    using export_bits_True [OF gmp_ref_ok, of 0 "vecBits ?i"] by auto
  have s0: "subspan (replicate 768 0 :: u8 list) 0 640 = Inr (replicate 640 0)"
    and s1: "\<exists>c2. subspan (replicate 768 0 :: u8 list) 640 128 = Inr c2"
    by (simp_all add: subspan_def slice_def)
  obtain c2 where c2: "subspan (replicate 768 0 :: u8 list) 640 128 = Inr c2" using s1 by blast
  show ?thesis
    using s0 c2 p r u w_reject unfolding encodeCipher_def Let_def rejectZeroEntries_def
    by (simp add: km512_pre km512_sizes)
qed

section \<open>Properties\<close>

text \<open>C8: the key codec round-trips. An encoded canonical key (all coefficients below \<open>q\<close>)
  decodes to itself, whatever the spare bits were filled with.\<close>

theorem kemeleon_key_roundtrip:
  assumes "gmp_ok g" and "km_wf g km" and "encodeKey g hashByte km key = Inr (True, out)"
    and "unpackPolyBytes (take (polyBytes (km_info km)) key) = Inr t" and "\<forall>x \<in> set t. unat x < kq"
  shows "decodeKey g km out = Inr (True, key) \<and> length out = codeKeyBytes km"
  using decodeKey_encodeKey [OF assms(1-3)] assms(4,5) by simp

theorem kemeleon_key_roundtrip_witness:
  "\<exists>out. encodeKey gmp_ref (\<lambda>_. 255) km512 (replicate 800 0) = Inr (True, out) \<and>
     decodeKey gmp_ref km512 out = Inr (True, replicate 800 0)"
proof -
  obtain out where e: "encodeKey gmp_ref (\<lambda>_. 255) km512 (replicate 800 0) = Inr (True, out)"
    using zero_key(2) by blast
  have "\<forall>x \<in> set (replicate 512 (0::u16)). unat x < kq" by (simp add: kq_def)
  from kemeleon_key_roundtrip [OF gmp_ref_ok km_wf_new e zero_key(1) this] e show ?thesis by blast
qed

text \<open>C9: decoding is total. Every byte string of the encoded length, random or adversarial,
  decodes to a key whose coefficients are all below \<open>q\<close>: decoding a table slot of a key that
  was never encoded cannot fail and so cannot reveal that it was not.\<close>

theorem kemeleon_decode_total:
  assumes "gmp_ok g" and "km_wf g km" and "length data = codeKeyBytes km"
  shows "\<exists>key t. decodeKey g km data = Inr (True, key) \<and> length key = rawKeyBytes km \<and>
     unpackPolyBytes (take (polyBytes (km_info km)) key) = Inr t \<and> (\<forall>x \<in> set t. unat x < kq)"
  using decodeKey_total [OF assms] by blast

theorem kemeleon_decode_total_witness:
  "\<exists>key. decodeKey gmp_ref km512 (replicate (codeKeyBytes km512) 255) = Inr (True, key) \<and> length key = 800"
  using kemeleon_decode_total [OF gmp_ref_ok km_wf_new, of "replicate (codeKeyBytes km512) 255" MlKem512]
  by (auto simp: km512_sizes)

text \<open>C25: re-encoding what was decoded succeeds and gives the string back, up to the spare bits
  of the last byte: encoding is onto the strings of the encoded length.\<close>

theorem kemeleon_reencode:
  assumes "gmp_ok g" and "km_wf g km" and "length data = codeKeyBytes km"
    and "decodeKey g km data = Inr (True, key)"
  shows "\<exists>out. encodeKey g hashByte km key = Inr (True, out) \<and> take rhoBytes out = take rhoBytes data \<and>
     clearKeyHighBits km (drop rhoBytes out) = clearKeyHighBits km (drop rhoBytes data)"
  by (rule encodeKey_decodeKey [OF assms])

theorem kemeleon_reencode_witness:
  "\<exists>key out. decodeKey gmp_ref km512 (replicate (codeKeyBytes km512) 255) = Inr (True, key) \<and>
     encodeKey gmp_ref (\<lambda>_. 0) km512 key = Inr (True, out)"
proof -
  obtain key where k: "decodeKey gmp_ref km512 (replicate (codeKeyBytes km512) 255) = Inr (True, key)"
    using decodeKey_total [OF gmp_ref_ok km_wf_new, of "replicate (codeKeyBytes km512) 255" MlKem512] by auto
  then show ?thesis using kemeleon_reencode [OF gmp_ref_ok km_wf_new _ k, of "\<lambda>_. 0"] by auto
qed

text \<open>C22: the ciphertext codec round-trips whatever preimages are drawn: an encoding that
  succeeds decodes to the ciphertext.\<close>

theorem kemeleon_cipher_roundtrip:
  assumes "gmp_ok g" and "km_wf g km" and "encodeCipher g R km cipher s = retC ((True, out), s')"
  shows "decodeCipher g km out = Inr (True, cipher) \<and> length out = codeCipherBytes km"
  using decodeCipher_encodeCipher [OF assms] by blast

theorem kemeleon_cipher_roundtrip_witness:
  "\<exists>out. encodeCipher gmp_ref w_rng km512 (replicate 768 0) () = retC ((True, out), ()) \<and>
     decodeCipher gmp_ref km512 out = Inr (True, replicate 768 0)"
proof -
  obtain out where e: "encodeCipher gmp_ref w_rng km512 (replicate 768 0) () = retC ((True, out), ())"
    using zero_cipher by blast
  then show ?thesis using kemeleon_cipher_roundtrip [OF gmp_ref_ok km_wf_new e] by blast
qed

text \<open>C23: the ciphertext encoder makes progress. With a generator that keeps producing words
  of at least \<open>2 ^ 16\<close>, encoding a ciphertext of the right size returns: no preimage set is
  empty, nothing is thrown, and every rejection loop ends.\<close>

theorem kemeleon_cipher_returns:
  assumes "gmp_ok g" and "km_wf g km" and "rng_fair R" and "length cipher = rawCipherBytes km"
  shows "\<exists>ok out s'. encodeCipher g R km cipher s = retC ((ok, out), s') \<and> (\<not> ok \<longrightarrow> out = [])"
  by (rule encodeCipher_returns [OF assms])

theorem kemeleon_cipher_returns_witness:
  "\<exists>ok out s'. encodeCipher gmp_ref w_rng km512 (replicate 768 255) () = retC ((ok, out), s')"
  using kemeleon_cipher_returns [OF gmp_ref_ok km_wf_new w_rng_fair, of "replicate 768 255" MlKem512 "()"]
  by (auto simp: km512_sizes)

text \<open>C24: the preimage sampler is unbiased. A call looks at the next word of the generator, refilling
  its buffer when it must; the words it accepts give their remainder at once, after any other word it
  goes on as if it had been called with what is left; and among the \<open>2 ^ 32\<close> words every result below
  the bound has the same number of accepted ones.\<close>

theorem sampler_unbiased:
  assumes "(bound :: u32) \<noteq> 0"
  shows "\<exists>accepted. (\<forall>R ws s x ws' s'. nextWord (R :: 's rng_ops) ws s = (x, ws', s') \<longrightarrow>
       sampler_next R bound ws s = (if x \<in> accepted then retC (x mod bound, ws', s') else sampler_next R bound ws' s')) \<and>
    (\<forall>r < bound. card {x \<in> accepted. x mod bound = r} = 2 ^ 32 div unat bound)"
proof (intro exI [of _ "{x. - bound mod bound \<le> x}"] conjI allI impI)
  show "sampler_next R bound ws s = (if x \<in> {x. - bound mod bound \<le> x} then retC (x mod bound, ws', s') else sampler_next R bound ws' s')"
    if "nextWord (R :: 's rng_ops) ws s = (x, ws', s')" for R ws s x ws' s'
    using sampler_loop.simps [of R bound "- bound mod bound" ws s] that assms
    by (simp add: sampler_next_def sampler_step_def retC_def)
  have "{x \<in> {x. - bound mod bound \<le> x}. x mod bound = r} = {x. sampler_step bound (- bound mod bound) x = Some r}" for r
    by (auto simp: sampler_step_def)
  then show "card {x \<in> {x. - bound mod bound \<le> x}. x mod bound = r} = 2 ^ 32 div unat bound" if "r < bound" for r
    using accepted_card [OF assms that] by simp
qed

theorem sampler_unbiased_witness:
  "\<exists>accepted. card {x \<in> accepted. x mod 3 = 2} = 1431655765 \<and> card {x \<in> accepted. x mod 3 = 0} = 1431655765 \<and>
     (\<forall>ws s x ws' s'. nextWord w_rng ws s = (x, ws', s') \<longrightarrow> x \<in> accepted \<longrightarrow> sampler_next w_rng 3 ws s = retC (x mod 3, ws', s'))"
proof -
  obtain accepted where a: "\<forall>R ws s x ws' s'. nextWord (R :: unit rng_ops) ws s = (x, ws', s') \<longrightarrow>
       sampler_next R 3 ws s = (if x \<in> accepted then retC (x mod 3, ws', s') else sampler_next R 3 ws' s')"
      "\<forall>r < 3. card {x \<in> accepted. x mod 3 = r} = 2 ^ 32 div unat (3 :: u32)"
    using sampler_unbiased [of 3, where ?'s = unit] by auto
  have "card {x \<in> accepted. x mod 3 = 2} = 1431655765" "card {x \<in> accepted. x mod 3 = 0} = 1431655765"
    using a(2) by simp_all
  moreover have "sampler_next w_rng 3 ws s = retC (x mod 3, ws', s')"
    if "nextWord w_rng ws s = (x, ws', s')" "x \<in> accepted" for ws s x ws' s'
    using a(1) [rule_format, OF that(1)] that(2) by simp
  ultimately show ?thesis by blast
qed

end
