(* ===== verification/Kemeleon_Stats.thy ===== *)
theory Kemeleon_Stats
  imports Kemeleon
begin

text \<open>
  The ciphertext encoder with statistics, \<open>encodeCipherProfiled\<close> of \<open>Kemeleon.cpp\<close>. The clock is the
  argument \<open>dur\<close>: the length in nanoseconds of the sections that are measured, in the order in which
  they are run. The statistics do not change what is encoded, and they count every attempt.
\<close>

record EncodeCipherStats =
  unpackNs :: u64
  pickNs :: u64
  mpzNs :: u64
  outputNs :: u64
  rejectNs :: u64
  tries :: u64
  overflowFails :: u64
  zeroFails :: u64

text \<open>The statistics with the number of sections measured so far.\<close>

type_synonym profile = "EncodeCipherStats \<times> nat"

fun picked_loop_prof ::
  "gmp \<Rightarrow> 's rng_ops \<Rightarrow> PreimageTable \<Rightarrow> (nat \<Rightarrow> u64) \<Rightarrow> u16 list \<Rightarrow> nat \<Rightarrow> WordSampler \<Rightarrow> 's \<Rightarrow> profile \<Rightarrow> ((nat \<times> 's) \<times> profile) comp" where
  "picked_loop_prof g R pt dur [] x ws s p = retC ((x, s), p)"
| "picked_loop_prof g R pt dur (want # wants) x ws s p =
     (if unat want \<ge> length (pt_counts pt) then throwC (RuntimeError ''Kemeleon preimage set is empty'')
      else
        let count = pt_counts pt ! unat want
        in if count = 0 then throwC (RuntimeError ''Kemeleon preimage set is empty'')
           else bindC (sampler_next R (word_of_nat count) ws s) (\<lambda>(r, ws', s').
             let val = pt_vals pt ! (pt_offsets pt ! unat want + unat r);
                 st = fst p; k = snd p;
                 st = st\<lparr> pickNs := pickNs st + dur k \<rparr>;
                 st = st\<lparr> mpzNs := mpzNs st + dur (k + 1) \<rparr>
             in picked_loop_prof g R pt dur wants (mpz_add_ui g (mpz_mul_ui g x kq) (unat val)) ws' s' (st, k + 2)))"

definition encodePickedVecProfiled ::
  "gmp \<Rightarrow> 's rng_ops \<Rightarrow> Kemeleon \<Rightarrow> (nat \<Rightarrow> u64) \<Rightarrow> u16 list \<Rightarrow> nat \<Rightarrow> 's \<Rightarrow> profile \<Rightarrow> (((bool \<times> u8 list) \<times> 's) \<times> profile) comp" where
  "encodePickedVecProfiled g R km dur inp bits s p =
     bindC (picked_loop_prof g R (km_pre km) dur (rev inp) 0 WordSampler_new s p) (\<lambda>((x, s'), st, k).
       case export_bits g x bits of (ok, out) \<Rightarrow>
         retC (((ok, out), s'), if ok then (st\<lparr> mpzNs := mpzNs st + dur k \<rparr>, k + 1) else (st, k)))"

definition encodeCipherProfiled ::
  "gmp \<Rightarrow> 's rng_ops \<Rightarrow> Kemeleon \<Rightarrow> (nat \<Rightarrow> u64) \<Rightarrow> u8 list \<Rightarrow> 's \<Rightarrow> profile \<Rightarrow> (((bool \<times> u8 list) \<times> 's) \<times> profile) comp" where
  "encodeCipherProfiled g R km dur cipher s p =
     (let info = km_info km
      in if length cipher \<noteq> rawCipherBytes km
         then throwC (InvalidArgument ''Kemeleon cipher has unexpected size'')
         else
           let st = fst p; k = snd p;
               st = st\<lparr> tries := tries st + 1 \<rparr>
           in bindC (liftC (subspan cipher 0 (c1Bytes info))) (\<lambda>c1.
           let uComp = unpackBits c1 (ki_du info) (vecSize info);
               st = st\<lparr> unpackNs := unpackNs st + dur k \<rparr>
           in bindC (encodePickedVecProfiled g R km dur uComp (vecBits info) s (st, k + 1)) (\<lambda>(((ok, r), s), st, k).
              if \<not> ok then retC (((False, []), s), st\<lparr> overflowFails := overflowFails st + 1 \<rparr>, k)
              else
                bindC (liftC (subspan cipher (c1Bytes info) (c2Bytes info))) (\<lambda>c2.
                case rejectZeroEntries R c2 (ki_dv info) kn s of (rej, s) \<Rightarrow>
                  let st = st\<lparr> rejectNs := rejectNs st + dur k \<rparr>
                  in if rej then retC (((False, []), s), st\<lparr> zeroFails := zeroFails st + 1 \<rparr>, k + 1)
                  else
                    let out = replicate (codeCipherBytes km) 0;
                        out = patch_at 0 r out;
                        out = patch_at (vecBytes info) (drop (c1Bytes info) cipher) out;
                        st = st\<lparr> outputNs := outputNs st + dur (k + 1) \<rparr>
                    in retC (((True, out), s), st, k + 2)))))"

text \<open>\<open>copyIfSize\<close>, which nothing calls.\<close>

definition copyIfSize :: "u8 list \<Rightarrow> nat \<Rightarrow> bool \<times> u8 list" where
  "copyIfSize src need = (if length src \<noteq> need then (False, []) else (True, src))"

section \<open>The statistics are only statistics\<close>

definition dropC :: "('a \<times> 'b) comp \<Rightarrow> 'a comp" where
  "dropC m = bindC m (\<lambda>(x, p). retC x)"

lemma dropC_simps [simp]: "dropC (retC (x, p)) = retC x" "dropC (throwC e) = throwC e" "dropC None = None"
  by (simp_all add: dropC_def)

lemma dropC_bind: "dropC (bindC m f) = bindC m (\<lambda>x. dropC (f x))"
  by (auto simp: dropC_def bindC_def split: option.splits sum.splits)

lemma bindC_dropC: "bindC (dropC m) f = bindC m (\<lambda>(x, p). f x)"
  by (auto simp: dropC_def bindC_def retC_def split: option.splits sum.splits)

lemma picked_loop_prof_drop: "dropC (picked_loop_prof g R pt dur wants x ws s p) = picked_loop g R pt wants x ws s"
  by (induction wants arbitrary: x ws s p) (simp_all add: dropC_bind Let_def case_prod_unfold)

lemma encodePickedVecProfiled_drop: "dropC (encodePickedVecProfiled g R km dur inp bits s p) = encodePickedVec g R km inp bits s"
  unfolding encodePickedVecProfiled_def encodePickedVec_def picked_loop_prof_drop [symmetric, where dur = dur and p = p] bindC_dropC dropC_bind
  by (simp add: case_prod_unfold)

lemma encodeCipherProfiled_drop: "dropC (encodeCipherProfiled g R km dur cipher s p) = encodeCipher g R km cipher s"
proof -
  have cong: "bindC m f = bindC m h" if "\<And>x. f x = h x" for m :: "'b comp" and f h :: "'b \<Rightarrow> 'c comp" using that by presburger
  show ?thesis
    unfolding encodeCipherProfiled_def encodeCipher_def Let_def
    by (subst encodePickedVecProfiled_drop [symmetric, where dur = dur and p = "((fst p)\<lparr> tries := tries (fst p) + 1, unpackNs := unpackNs ((fst p)\<lparr> tries := tries (fst p) + 1 \<rparr>) + dur (snd p) \<rparr>, snd p + 1)"])
      (auto simp: dropC_bind bindC_dropC case_prod_unfold if_distrib [of dropC] intro!: cong)
qed

definition same_counts :: "profile \<Rightarrow> profile \<Rightarrow> bool" where
  "same_counts p p' \<longleftrightarrow> tries (fst p') = tries (fst p) \<and> overflowFails (fst p') = overflowFails (fst p) \<and> zeroFails (fst p') = zeroFails (fst p)"

text \<open>What holds of the result if there is one.\<close>

definition okC :: "('a \<Rightarrow> bool) \<Rightarrow> 'a comp \<Rightarrow> bool" where
  "okC Q m \<longleftrightarrow> (\<forall>x. m = retC x \<longrightarrow> Q x)"

lemma okC_simps [simp]: "okC Q (retC x) \<longleftrightarrow> Q x" "okC Q (throwC e)" "okC Q None"
  by (simp_all add: okC_def)

lemma okC_bind: "okC Q (bindC m f) \<longleftrightarrow> okC (\<lambda>x. okC Q (f x)) m"
  by (auto simp: okC_def bindC_retC_iff)

lemma okC_mono: "okC P m \<Longrightarrow> (\<And>x. P x \<Longrightarrow> Q x) \<Longrightarrow> okC Q m"
  by (simp add: okC_def)

lemma okC_any: "(\<And>x. Q x) \<Longrightarrow> okC Q m"
  by (simp add: okC_def)

lemma picked_loop_prof_counts: "okC (\<lambda>r. same_counts p (snd r)) (picked_loop_prof g R pt dur wants x ws s p)"
proof (induction wants arbitrary: x ws s p)
  case (Cons want wants)
  have "okC (\<lambda>r. same_counts p (snd r)) (picked_loop_prof g R pt dur wants x' ws' s' q)" if "same_counts p q" for x' ws' s' q
    using that by (intro okC_mono [OF Cons.IH]) (simp add: same_counts_def)
  then show ?case by (simp add: Let_def okC_bind case_prod_unfold same_counts_def okC_any)
qed (simp add: same_counts_def)

lemma encodePickedVecProfiled_counts: "okC (\<lambda>r. same_counts p (snd r)) (encodePickedVecProfiled g R km dur inp bits s p)"
  unfolding encodePickedVecProfiled_def okC_bind
  by (rule okC_mono [OF picked_loop_prof_counts]) (simp add: case_prod_unfold same_counts_def)

definition counted :: "profile \<Rightarrow> ((bool \<times> u8 list) \<times> 's) \<times> profile \<Rightarrow> bool" where
  "counted p r \<longleftrightarrow> tries (fst (snd r)) = tries (fst p) + 1 \<and>
     overflowFails (fst (snd r)) + zeroFails (fst (snd r)) =
       overflowFails (fst p) + zeroFails (fst p) + (if fst (fst (fst r)) then 0 else 1)"

lemma encodeCipherProfiled_counts: "okC (counted p) (encodeCipherProfiled g R km dur cipher s p)"
proof -
  have pick: "okC Q (encodePickedVecProfiled g R km dur inp bits s q)" if "\<And>r. same_counts q (snd r) \<Longrightarrow> Q r" for Q inp bits q
    using that by (rule okC_mono [OF encodePickedVecProfiled_counts])
  show ?thesis unfolding encodeCipherProfiled_def Let_def okC_bind
    by (auto intro!: okC_any pick simp: case_prod_unfold okC_bind counted_def same_counts_def)
qed

end
