(* ===== verification/Psi_Model.thy ===== *)
theory Psi_Model
  imports PSI_Prelude Float64
begin

text \<open>
  The cost model of \<open>frontend/pqpsi/model.h\<close> and the delay that \<open>pqpsi.cpp\<close> simulates. A \<open>double\<close> is a real
  number, and every operation rounds its result to binary64.
\<close>

abbreviation dadd :: "real \<Rightarrow> real \<Rightarrow> real" where "dadd a b \<equiv> rnd64 (a + b)"

abbreviation dmul :: "real \<Rightarrow> real \<Rightarrow> real" where "dmul a b \<equiv> rnd64 (a * b)"

abbreviation ddiv :: "real \<Rightarrow> real \<Rightarrow> real" where "ddiv a b \<equiv> rnd64 (a / b)"

record PqPsiStageMs =
  totalMs :: real
  setupMs :: real
  teardownMs :: real
  prepMs :: real
  kemKeyGenMs :: real
  maskMs :: real
  permuteMs :: real
  okvsEncodeMs :: real
  okvsDecodeMs :: real
  networkSendMs :: real
  networkRecvMs :: real
  networkSendBytes :: real
  networkRecvBytes :: real
  kemCoreMs :: real
  permDecryptMs :: real

record PqPsiRunProfile =
  party0 :: PqPsiStageMs
  party1 :: PqPsiStageMs

record PqPsiPhaseMs =
  alice1 :: real
  netDA :: real
  bob2 :: real
  netDB :: real
  alice3 :: real

definition dsum :: "real list \<Rightarrow> real" where
  "dsum xs = foldl dadd (hd xs) (tl xs)"

definition phase_total :: "PqPsiPhaseMs \<Rightarrow> real" where
  "phase_total ms = dsum [alice1 ms, netDA ms, bob2 ms, netDB ms, alice3 ms]"

definition pqpsiProtocolMs :: "PqPsiStageMs \<Rightarrow> real" where
  "pqpsiProtocolMs ms = (let v = rnd64 (rnd64 (totalMs ms - setupMs ms) - teardownMs ms) in if v > 0 then v else 0)"

definition pqpsiLocalMs :: "PqPsiStageMs \<Rightarrow> real" where
  "pqpsiLocalMs ms = dsum [prepMs ms, kemKeyGenMs ms, maskMs ms, permuteMs ms, permDecryptMs ms, kemCoreMs ms, okvsEncodeMs ms, okvsDecodeMs ms]"

definition pqpsiMsgMs :: "real \<Rightarrow> real \<Rightarrow> real \<Rightarrow> real" where
  "pqpsiMsgMs bytes oneWayDelayMs bwMBps =
     (let ms = (if bytes > 0 then max 0 oneWayDelayMs else 0)
      in if bytes > 0 \<and> bwMBps > 0 then dadd ms (dmul (ddiv bytes (dmul (dmul bwMBps 1000) 1000)) 1000) else ms)"

definition pqpsiAlice1Ms :: "PqPsiStageMs \<Rightarrow> real" where
  "pqpsiAlice1Ms a = dsum [prepMs a, kemKeyGenMs a, maskMs a, permuteMs a, okvsEncodeMs a]"

definition pqpsiBob2Ms :: "PqPsiStageMs \<Rightarrow> real" where
  "pqpsiBob2Ms b = dsum [prepMs b, maskMs b, okvsDecodeMs b, permDecryptMs b, kemCoreMs b, permuteMs b, okvsEncodeMs b]"

definition pqpsiAlice3Ms :: "PqPsiStageMs \<Rightarrow> real" where
  "pqpsiAlice3Ms a = dsum [okvsDecodeMs a, permDecryptMs a, kemCoreMs a]"

definition pqpsiModel :: "PqPsiRunProfile \<Rightarrow> real \<Rightarrow> real \<Rightarrow> PqPsiPhaseMs" where
  "pqpsiModel prof oneWayDelayMs bwMBps =
     \<lparr> alice1 = pqpsiAlice1Ms (party0 prof), netDA = pqpsiMsgMs (networkSendBytes (party0 prof)) oneWayDelayMs bwMBps,
       bob2 = pqpsiBob2Ms (party1 prof), netDB = pqpsiMsgMs (networkSendBytes (party1 prof)) oneWayDelayMs bwMBps,
       alice3 = pqpsiAlice3Ms (party0 prof) \<rparr>"

text \<open>The milliseconds that \<open>simSend\<close> sleeps; zero and less is no sleep.\<close>

definition simSend :: "bool \<Rightarrow> real \<Rightarrow> real \<Rightarrow> u64 \<Rightarrow> real" where
  "simSend disableAppNetSim delayMs bwMBps bytes =
     (if disableAppNetSim then 0
      else let waitMs = max 0 delayMs;
               bytesPerSec = dmul (dmul bwMBps 1024) 1024
           in if bwMBps > 0 then dadd waitMs (dmul (ddiv (rnd64 (real (unat bytes))) bytesPerSec) 1000) else waitMs)"

section \<open>A megabyte\<close>

lemma rnd64_nat: "n < 2 ^ 53 \<Longrightarrow> rnd64 (real n) = real n"
proof (rule rnd64_exact [where m = "int n" and e = 0])
  assume n: "n < 2 ^ 53"
  then have "real n < 2 ^ 53" by (metis of_nat_less_iff of_nat_numeral of_nat_power)
  also have "(2 :: real) ^ 53 \<le> 2 powi 1024" by simp
  finally show "\<bar>real n\<bar> < 2 powi 1024" by simp
  show "\<bar>int n\<bar> < 2 ^ 53" using n by (metis abs_of_nat of_nat_less_iff of_nat_numeral of_nat_power)
qed simp_all

lemma rnd64_numeral: "numeral k < (2 :: nat) ^ 53 \<Longrightarrow> rnd64 (numeral k) = numeral k"
  using rnd64_nat [of "numeral k"] by simp

text \<open>
  The simulated network counts 1024 * 1024 bytes in a megabyte, the cost model 1000 * 1000: a message
  of one binary megabyte at one megabyte per second sleeps a second and is charged more.
\<close>

lemma megabytes_differ: "simSend False 0 1 1048576 = 1000 \<and> 1046 < pqpsiMsgMs 1048576 0 1"
proof
  have one: "rnd64 1 = 1" using rnd64_nat [of 1] by simp
  show "simSend False 0 1 1048576 = 1000" by (simp add: simSend_def Let_def rnd64_numeral one)
  have a: "rnd64 1000 = 1000" "rnd64 1000000 = 1000000" by (simp_all add: rnd64_numeral)
  define x where "x = rnd64 (1048576 / 1000000)"
  have small: "(2 :: real) powi (-1022) \<le> 1" by (simp add: power_int_minus field_simps)
  have "\<bar>x - 1048576 / 1000000\<bar> \<le> \<bar>1048576 / 1000000\<bar> / 2 ^ 53" unfolding x_def
    using small by (intro rnd64_error) (simp_all add: order_trans)
  also have "\<dots> \<le> 1 / 100000" by simp
  finally have bx: "\<bar>x - 1048576 / 1000000\<bar> \<le> 1 / 100000" .
  have x: "1048 / 1000 \<le> x" "x \<le> 1049 / 1000" using abs_le_D1 [OF bx] abs_le_D2 [OF bx] by linarith+
  define y where "y = rnd64 (x * 1000)"
  have "\<bar>y - x * 1000\<bar> \<le> \<bar>x * 1000\<bar> / 2 ^ 53" unfolding y_def
    using small x by (intro rnd64_error) (simp_all add: order_trans)
  also have "\<dots> \<le> 1 / 100" using x by simp
  finally have ey: "\<bar>y - x * 1000\<bar> \<le> 1 / 100" .
  have y: "1047 \<le> y" "y \<le> 1050" using abs_le_D1 [OF ey] abs_le_D2 [OF ey] x by linarith+
  have "\<bar>rnd64 y - y\<bar> \<le> \<bar>y\<bar> / 2 ^ 53" using small y by (intro rnd64_error) simp_all
  also have "\<dots> \<le> 1 / 100" using y by simp
  finally have ez: "\<bar>rnd64 y - y\<bar> \<le> 1 / 100" .
  have "1046 < rnd64 y" using abs_le_D2 [OF ez] y by linarith
  then show "1046 < pqpsiMsgMs 1048576 0 1" by (simp add: pqpsiMsgMs_def Let_def a x_def y_def)
qed

end
