(* ===== verification/Net_Socket.thy ===== *)
theory Net_Socket
  imports PSI_Prelude
begin

text \<open>
  A channel of \<open>cryptoTools/Network\<close>: the calls of \<open>BtChannel.cpp\<close>, the queues of \<open>BtSocket.h\<close> and the
  handlers of \<open>BtIOService.cpp\<close>. A strand runs the posted operations one at a time in the order in
  which they were posted, so posting is the update of the queue. One direction of a connection is
  the sending socket, the bytes under way and the receiving socket. The transport takes the bytes
  of a message in pieces of any size, holds no more of them than the buffers of the connection do,
  so that a sender whose peer does not read has to wait, and delivers them in order.
\<close>

section \<open>Operations and sockets\<close>

datatype IoType = RecvName | RecvData | CloseRecv | SendData | CloseSend | CloseThread

text \<open>
  The buffers that \<open>mOther\<close> can point to: a \<open>ByteStream\<close>, which takes any size, or a \<open>BitVector\<close> of so many
  bytes, whose \<open>ChannelBufferResize\<close> throws for another size. The result is the size of the buffer.
\<close>

datatype ChannelBuffer = Growing | Fixed nat

fun chl_resize :: "ChannelBuffer \<Rightarrow> nat \<Rightarrow> nat result" where
  "chl_resize Growing len = Inr len"
| "chl_resize (Fixed n) len = guardE (n \<noteq> len) (InvalidArgument ''asdsdasfaf ;) '') (Inr len)"

text \<open>
  \<open>op_buff\<close> is the second buffer: what is sent, or where to receive to. \<open>op_other\<close> is \<open>mOther\<close>: for a send
  the buffer to delete afterwards, for a receive the one to resize. \<open>op_promise\<close> names the promise.
\<close>

record BoostIOOperation =
  op_type :: IoType
  op_size :: u32
  op_buff :: "u8 list"
  op_other :: "ChannelBuffer option"
  op_promise :: "nat option"

record BtSocket =
  sk_sendQueue :: "BoostIOOperation list"
  sk_recvQueue :: "BoostIOOperation list"
  sk_stopped :: bool
  sk_outstanding :: u64
  sk_maxOutstanding :: u64
  sk_totalSent :: u64
  sk_totalRecv :: u64

definition BtSocket_new :: BtSocket where
  "BtSocket_new = \<lparr> sk_sendQueue = [], sk_recvQueue = [], sk_stopped = False, sk_outstanding = 0, sk_maxOutstanding = 0,
     sk_totalSent = 0, sk_totalRecv = 0 \<rparr>"

definition queue_recv :: "BtSocket \<Rightarrow> BoostIOOperation \<Rightarrow> BtSocket" where
  "queue_recv sk op = sk\<lparr> sk_totalRecv := sk_totalRecv sk + ucast (op_size op), sk_recvQueue := sk_recvQueue sk @ [op] \<rparr>"

definition queue_send :: "BtSocket \<Rightarrow> BoostIOOperation \<Rightarrow> BtSocket" where
  "queue_send sk op =
     (let out = sk_outstanding sk + ucast (op_size op)
      in sk\<lparr> sk_sendQueue := sk_sendQueue sk @ [op], sk_totalSent := sk_totalSent sk + ucast (op_size op),
             sk_outstanding := out, sk_maxOutstanding := max out (sk_maxOutstanding sk) \<rparr>)"

definition dispatch :: "BtSocket \<Rightarrow> BoostIOOperation \<Rightarrow> BtSocket result" where
  "dispatch sk op =
     (case op_type op of
        RecvData \<Rightarrow> guardE (op_other op = None \<and> op_size op = 0) (RuntimeError ''rt error'') (Inr (queue_recv sk op))
      | CloseRecv \<Rightarrow> Inr (queue_recv sk op)
      | SendData \<Rightarrow> guardE (op_size op = 0) (RuntimeError ''rt error'') (Inr (queue_send sk op))
      | CloseSend \<Rightarrow> Inr (queue_send sk op)
      | _ \<Rightarrow> Inl (RuntimeError ''unknown BoostIOOperation::Type''))"

section \<open>The calls of a channel\<close>

text \<open>The sizes are converted to 32 bits, which cuts a longer buffer.\<close>

definition size32 :: "u8 list \<Rightarrow> u32" where
  "size32 buff = word_of_nat (length buff)"

definition cut32 :: "u8 list \<Rightarrow> u8 list" where
  "cut32 buff = take (unat (size32 buff)) buff"

definition chl_asyncSend :: "BtSocket \<Rightarrow> u8 list \<Rightarrow> BtSocket result" where
  "chl_asyncSend sk buff =
     guardE (sk_stopped sk) (RuntimeError ''rt error'')
       (dispatch sk \<lparr> op_type = SendData, op_size = size32 buff, op_buff = cut32 buff, op_other = None, op_promise = None \<rparr>)"

definition chl_asyncSend_owned :: "BtSocket \<Rightarrow> u8 list \<Rightarrow> BtSocket result" where
  "chl_asyncSend_owned sk buff =
     guardE (sk_stopped sk) (RuntimeError ''rt error'')
       (dispatch sk \<lparr> op_type = SendData, op_size = size32 buff, op_buff = cut32 buff, op_other = Some Growing, op_promise = None \<rparr>)"

text \<open>The synchronous calls: the promise is the one the caller waits for.\<close>

definition chl_send :: "BtSocket \<Rightarrow> u8 list \<Rightarrow> nat \<Rightarrow> BtSocket result" where
  "chl_send sk buff prom =
     guardE (sk_stopped sk) (RuntimeError ''rt error'')
       (dispatch sk \<lparr> op_type = SendData, op_size = size32 buff, op_buff = cut32 buff, op_other = None, op_promise = Some prom \<rparr>)"

definition chl_asyncRecv :: "BtSocket \<Rightarrow> u8 list \<Rightarrow> nat \<Rightarrow> BtSocket result" where
  "chl_asyncRecv sk buff prom =
     guardE (sk_stopped sk) (RuntimeError ''rt error'')
       (dispatch sk \<lparr> op_type = RecvData, op_size = size32 buff, op_buff = cut32 buff, op_other = None, op_promise = Some prom \<rparr>)"

definition chl_asyncRecv_buffer :: "BtSocket \<Rightarrow> ChannelBuffer \<Rightarrow> nat \<Rightarrow> BtSocket result" where
  "chl_asyncRecv_buffer sk mH prom =
     guardE (sk_stopped sk) (RuntimeError ''rt error'')
       (dispatch sk \<lparr> op_type = RecvData, op_size = 0, op_buff = [], op_other = Some mH, op_promise = Some prom \<rparr>)"

text \<open>\<open>close\<close> up to the point where it waits for its two promises.\<close>

definition chl_close :: "BtSocket \<Rightarrow> nat \<Rightarrow> nat \<Rightarrow> BtSocket result" where
  "chl_close sk recvPromise sendPromise =
     bindE (dispatch (sk\<lparr> sk_stopped := True \<rparr>)
              \<lparr> op_type = CloseRecv, op_size = 0, op_buff = [], op_other = None, op_promise = Some recvPromise \<rparr>)
       (\<lambda>sk. dispatch sk \<lparr> op_type = CloseSend, op_size = 0, op_buff = [], op_other = None, op_promise = Some sendPromise \<rparr>)"

definition chl_resetStats :: "BtSocket \<Rightarrow> BtSocket" where
  "chl_resetStats sk = sk\<lparr> sk_totalSent := 0, sk_totalRecv := 0, sk_maxOutstanding := 0, sk_outstanding := 0 \<rparr>"

section \<open>The handlers\<close>

text \<open>The header is the size as the machine stores it, least significant byte first.\<close>

definition hdr_bytes :: "u32 \<Rightarrow> u8 list" where
  "hdr_bytes x = [ucast x, ucast (drop_bit 8 x), ucast (drop_bit 16 x), ucast (drop_bit 24 x)]"

definition hdr_val :: "u8 list \<Rightarrow> u32" where
  "hdr_val p = ucast (p ! 0) OR push_bit 8 (ucast (p ! 1)) OR push_bit 16 (ucast (p ! 2)) OR push_bit 24 (ucast (p ! 3))"

definition op_frame :: "BoostIOOperation \<Rightarrow> u8 list" where
  "op_frame op = hdr_bytes (op_size op) @ op_buff op"

text \<open>After a complete write: the operation leaves the queue.\<close>

definition sendOne_done :: "BtSocket \<Rightarrow> BtSocket" where
  "sendOne_done sk = sk\<lparr> sk_outstanding := sk_outstanding sk - ucast (op_size (hd (sk_sendQueue sk))),
     sk_sendQueue := tl (sk_sendQueue sk) \<rparr>"

definition sendOne_close :: "BtSocket \<Rightarrow> BtSocket" where
  "sendOne_close sk = sk\<lparr> sk_sendQueue := tl (sk_sendQueue sk) \<rparr>"

text \<open>
  After the header. \<open>WrongSize\<close>: the promise is given the current exception of a handler in which none
  is being handled, and the operation stays in the queue. \<open>ResizeThrows\<close>: the exception leaves the
  handler, with it \<open>io_service::run\<close> and the function of a worker thread.
\<close>

datatype header_result = HeaderOk BoostIOOperation | WrongSize | ResizeThrows error

definition receiveOne_header :: "BoostIOOperation \<Rightarrow> u8 list \<Rightarrow> header_result" where
  "receiveOne_header op hdr =
     (let op = op\<lparr> op_size := hdr_val hdr \<rparr>
      in case op_other op of
           Some mH \<Rightarrow> (case chl_resize mH (unat (op_size op)) of
               Inl e \<Rightarrow> ResizeThrows e
             | Inr n \<Rightarrow> HeaderOk (op\<lparr> op_buff := replicate n 0 \<rparr>))
         | None \<Rightarrow> if length (op_buff op) \<noteq> unat (op_size op) then WrongSize else HeaderOk op)"

definition receiveOne_pop :: "BtSocket \<Rightarrow> BtSocket" where
  "receiveOne_pop sk = sk\<lparr> sk_recvQueue := tl (sk_recvQueue sk) \<rparr>"

section \<open>One direction of a connection\<close>

text \<open>
  \<open>rx_got\<close> is what the read under way has taken so far, \<open>wire_cap\<close> how many bytes the buffers of the
  connection hold. \<open>Crashed\<close> is a receiving process that was terminated.
\<close>

datatype rx_phase = AwaitHeader | AwaitBody | Jammed | Crashed

record pipe =
  tx :: BtSocket
  tx_pos :: nat
  wire :: "u8 list"
  wire_cap :: nat
  rx :: BtSocket
  rx_phase :: rx_phase
  rx_got :: "u8 list"

definition rx_want :: "BoostIOOperation \<Rightarrow> rx_phase \<Rightarrow> nat" where
  "rx_want op ph = (case ph of AwaitHeader \<Rightarrow> 4 | AwaitBody \<Rightarrow> length (op_buff op) | _ \<Rightarrow> 0)"

datatype net_event = Sent "u8 list" | Asked nat | Delivered "nat option" "u8 list" | NullException "nat option" | Done "nat option" | Terminated | Quiet

text \<open>The calls of the two parties. A channel is closed once: \<open>close\<close> ends with its deallocation.\<close>

inductive net_call :: "pipe \<Rightarrow> net_event \<Rightarrow> pipe \<Rightarrow> bool" where
  call_send: "chl_send (tx s) buff p = Inr sk \<Longrightarrow> net_call s (Sent (cut32 buff)) (s\<lparr> tx := sk \<rparr>)"
| call_asyncSend: "chl_asyncSend (tx s) buff = Inr sk \<Longrightarrow> net_call s (Sent (cut32 buff)) (s\<lparr> tx := sk \<rparr>)"
| call_asyncSend_owned: "chl_asyncSend_owned (tx s) buff = Inr sk \<Longrightarrow> net_call s (Sent (cut32 buff)) (s\<lparr> tx := sk \<rparr>)"
| call_asyncRecv: "rx_phase s \<noteq> Crashed \<Longrightarrow> chl_asyncRecv (rx s) buff p = Inr sk \<Longrightarrow> net_call s (Asked p) (s\<lparr> rx := sk \<rparr>)"
| call_asyncRecv_buffer: "rx_phase s \<noteq> Crashed \<Longrightarrow> chl_asyncRecv_buffer (rx s) mH p = Inr sk \<Longrightarrow> net_call s (Asked p) (s\<lparr> rx := sk \<rparr>)"
| call_close_tx: "\<not> sk_stopped (tx s) \<Longrightarrow> chl_close (tx s) p q = Inr sk \<Longrightarrow> net_call s Quiet (s\<lparr> tx := sk \<rparr>)"
| call_close_rx: "rx_phase s \<noteq> Crashed \<Longrightarrow> \<not> sk_stopped (rx s) \<Longrightarrow> chl_close (rx s) p q = Inr sk \<Longrightarrow> net_call s Quiet (s\<lparr> rx := sk \<rparr>)"

text \<open>
  The work of the service threads and of the transport. \<open>async_write\<close> and \<open>async_read\<close> move bytes as the
  buffers of the connection allow until their count is reached; then their handler runs.
\<close>

inductive net_work :: "pipe \<Rightarrow> net_event \<Rightarrow> pipe \<Rightarrow> bool" where
  write_some: "sk_sendQueue (tx s) = op # ops \<Longrightarrow> op_type op = SendData \<Longrightarrow> 0 < k \<Longrightarrow> tx_pos s + k \<le> length (op_frame op) \<Longrightarrow>
    length (wire s) + k \<le> wire_cap s \<Longrightarrow>
    net_work s Quiet (s\<lparr> wire := wire s @ slice (tx_pos s) k (op_frame op), tx_pos := tx_pos s + k \<rparr>)"
| write_done: "sk_sendQueue (tx s) = op # ops \<Longrightarrow> op_type op = SendData \<Longrightarrow> tx_pos s = length (op_frame op) \<Longrightarrow>
    net_work s (Done (op_promise op)) (s\<lparr> tx := sendOne_done (tx s), tx_pos := 0 \<rparr>)"
| close_send: "sk_sendQueue (tx s) = op # ops \<Longrightarrow> op_type op = CloseSend \<Longrightarrow>
    net_work s (Done (op_promise op)) (s\<lparr> tx := sendOne_close (tx s) \<rparr>)"
| read_some: "sk_recvQueue (rx s) = op # ops \<Longrightarrow> op_type op = RecvData \<Longrightarrow> 0 < k \<Longrightarrow> k \<le> length (wire s) \<Longrightarrow>
    length (rx_got s) + k \<le> rx_want op (rx_phase s) \<Longrightarrow>
    net_work s Quiet (s\<lparr> wire := drop k (wire s), rx_got := rx_got s @ take k (wire s) \<rparr>)"
| read_header: "sk_recvQueue (rx s) = op # ops \<Longrightarrow> op_type op = RecvData \<Longrightarrow> rx_phase s = AwaitHeader \<Longrightarrow> length (rx_got s) = 4 \<Longrightarrow>
    receiveOne_header op (rx_got s) = HeaderOk op' \<Longrightarrow>
    net_work s Quiet (s\<lparr> rx := (rx s)\<lparr> sk_recvQueue := op' # ops \<rparr>, rx_phase := AwaitBody, rx_got := [] \<rparr>)"
| bad_header: "sk_recvQueue (rx s) = op # ops \<Longrightarrow> op_type op = RecvData \<Longrightarrow> rx_phase s = AwaitHeader \<Longrightarrow> length (rx_got s) = 4 \<Longrightarrow>
    receiveOne_header op (rx_got s) = WrongSize \<Longrightarrow>
    net_work s (NullException (op_promise op)) (s\<lparr> rx_phase := Jammed, rx_got := [] \<rparr>)"
| resize_throws: "sk_recvQueue (rx s) = op # ops \<Longrightarrow> op_type op = RecvData \<Longrightarrow> rx_phase s = AwaitHeader \<Longrightarrow> length (rx_got s) = 4 \<Longrightarrow>
    receiveOne_header op (rx_got s) = ResizeThrows e \<Longrightarrow>
    net_work s Terminated (s\<lparr> rx_phase := Crashed, rx_got := [] \<rparr>)"
| read_body: "sk_recvQueue (rx s) = op # ops \<Longrightarrow> rx_phase s = AwaitBody \<Longrightarrow> length (rx_got s) = length (op_buff op) \<Longrightarrow>
    net_work s (Delivered (op_promise op) (rx_got s)) (s\<lparr> rx := receiveOne_pop (rx s), rx_phase := AwaitHeader, rx_got := [] \<rparr>)"
| close_recv: "sk_recvQueue (rx s) = op # ops \<Longrightarrow> op_type op = CloseRecv \<Longrightarrow> rx_phase s = AwaitHeader \<Longrightarrow>
    net_work s (Done (op_promise op)) (s\<lparr> rx := receiveOne_pop (rx s) \<rparr>)"

definition net_step :: "pipe \<Rightarrow> net_event \<Rightarrow> pipe \<Rightarrow> bool" where
  "net_step s e s' \<longleftrightarrow> net_call s e s' \<or> net_work s e s'"

text \<open>The events of a run, in order.\<close>

inductive runs :: "('s \<Rightarrow> net_event \<Rightarrow> 's \<Rightarrow> bool) \<Rightarrow> 's \<Rightarrow> net_event list \<Rightarrow> 's \<Rightarrow> bool" for step s0 where
  runs_nil: "runs step s0 [] s0"
| runs_snoc: "runs step s0 es s \<Longrightarrow> step s e s' \<Longrightarrow> runs step s0 (es @ [e]) s'"

definition pipe_new :: "nat \<Rightarrow> pipe" where
  "pipe_new cap = \<lparr> tx = BtSocket_new, tx_pos = 0, wire = [], wire_cap = cap, rx = BtSocket_new, rx_phase = AwaitHeader, rx_got = [] \<rparr>"

end
