(* ===== verification/Net_SocketCorrect.thy ===== *)
theory Net_SocketCorrect
  imports Net_Socket
begin

text \<open>
  A socket pair implements a queue of messages: whatever the pieces in which the transport takes
  the bytes, what is delivered is a prefix of what was sent, message by message. The service stops
  when everything is delivered, when the receiver has posted no receive, or when a receive had the
  wrong size: then the channel is jammed for good, or the receiving process has ended.
\<close>

section \<open>The contract of a channel\<close>

fun chan_next :: "net_event \<Rightarrow> u8 list list \<Rightarrow> u8 list list option" where
  "chan_next (Sent m) q = Some (q @ [m])"
| "chan_next (Delivered p m) q = (if q \<noteq> [] \<and> hd q = m then Some (tl q) else None)"
| "chan_next (Asked p) q = Some q"
| "chan_next (NullException p) q = Some q"
| "chan_next (Done p) q = Some q"
| "chan_next Terminated q = Some q"
| "chan_next Quiet q = Some q"

definition sent_of :: "net_event list \<Rightarrow> u8 list list" where
  "sent_of es = concat (map (\<lambda>e. case e of Sent m \<Rightarrow> [m] | _ \<Rightarrow> []) es)"

definition delivered_of :: "net_event list \<Rightarrow> u8 list list" where
  "delivered_of es = concat (map (\<lambda>e. case e of Delivered p m \<Rightarrow> [m] | _ \<Rightarrow> []) es)"

lemma events_snoc [simp]:
  "sent_of [] = []" "sent_of (es @ [e]) = sent_of es @ (case e of Sent m \<Rightarrow> [m] | _ \<Rightarrow> [])"
  "delivered_of [] = []" "delivered_of (es @ [e]) = delivered_of es @ (case e of Delivered p m \<Rightarrow> [m] | _ \<Rightarrow> [])"
  by (simp_all add: sent_of_def delivered_of_def)

locale message_channel =
  fixes step :: "'s \<Rightarrow> net_event \<Rightarrow> 's \<Rightarrow> bool"
    and rep :: "'s \<Rightarrow> u8 list list \<Rightarrow> bool"
    and start :: 's
  assumes start_empty: "rep start []"
    and step_next: "rep s q \<Longrightarrow> step s e s' \<Longrightarrow> \<exists>q'. chan_next e q = Some q' \<and> rep s' q'"
begin

lemma run_next:
  assumes "runs step start es s"
  shows "\<exists>q. rep s q \<and> sent_of es = delivered_of es @ q"
  using assms
proof (induction rule: runs.induct)
  case (runs_snoc es s e s')
  then obtain q where q: "rep s q" "sent_of es = delivered_of es @ q" by blast
  obtain q' where q': "chan_next e q = Some q'" "rep s' q'" using step_next [OF q(1) runs_snoc.hyps(2)] by blast
  then have "sent_of (es @ [e]) = delivered_of (es @ [e]) @ q'" using q(2) by (cases e) (auto split: if_splits)
  then show ?case using q'(2) by blast
qed (use start_empty in simp)

lemma fifo: "runs step start es s \<Longrightarrow> \<exists>q. sent_of es = delivered_of es @ q"
  using run_next by blast

end

section \<open>Framing\<close>

definition msg_ok :: "u8 list \<Rightarrow> bool" where
  "msg_ok m \<longleftrightarrow> m \<noteq> [] \<and> length m < 2 ^ 32"

definition frame :: "u8 list \<Rightarrow> u8 list" where
  "frame m = hdr_bytes (size32 m) @ m"

lemma length_hdr [simp]: "length (hdr_bytes x) = 4"
  by (simp add: hdr_bytes_def)

lemma hdr_val_bytes [simp]: "hdr_val (hdr_bytes x) = x"
proof (rule bit_word_eqI)
  fix n assume "n < LENGTH(32)"
  then show "bit (hdr_val (hdr_bytes x)) n = bit x n"
    by (cases "n < 8"; cases "n < 16"; cases "n < 24") (auto simp: hdr_val_def hdr_bytes_def bit_simps)
qed

lemma unat_size32: "length m < 2 ^ 32 \<Longrightarrow> unat (size32 m) = length m"
  by (simp add: size32_def unat_of_nat)

lemma cut32_ok: "size32 m \<noteq> 0 \<Longrightarrow> msg_ok (cut32 m) \<and> size32 (cut32 m) = size32 m"
proof -
  assume n: "size32 m \<noteq> 0"
  have "unat (size32 m) \<le> length m" by (simp add: size32_def unat_of_nat)
  then have l: "length (cut32 m) = unat (size32 m)" by (simp add: cut32_def)
  moreover have "unat (size32 m) < 2 ^ 32" using unsigned_less [of "size32 m"] by simp
  moreover have "0 < unat (size32 m)" using n by (simp add: unat_gt_0)
  ultimately show ?thesis using l by (auto simp: msg_ok_def size32_def)
qed

section \<open>The messages under way\<close>

definition send_op :: "BoostIOOperation \<Rightarrow> bool" where
  "send_op op \<longleftrightarrow> op_type op = SendData"

definition unsent :: "pipe \<Rightarrow> u8 list" where
  "unsent s = drop (tx_pos s) (concat (map op_frame (filter send_op (sk_sendQueue (tx s)))))"

definition tx_wf :: "pipe \<Rightarrow> bool" where
  "tx_wf s \<longleftrightarrow>
     (\<forall>op \<in> set (sk_sendQueue (tx s)). if send_op op then msg_ok (op_buff op) \<and> op_size op = size32 (op_buff op) else op_type op = CloseSend) \<and>
     tx_pos s \<le> (if sk_sendQueue (tx s) \<noteq> [] \<and> send_op (hd (sk_sendQueue (tx s))) then length (op_frame (hd (sk_sendQueue (tx s)))) else 0)"

definition rx_wf :: "pipe \<Rightarrow> bool" where
  "rx_wf s \<longleftrightarrow> (\<forall>op \<in> set (sk_recvQueue (rx s)). op_type op = RecvData \<or> op_type op = CloseRecv)"

text \<open>
  What the read under way has taken, the bytes on the wire and those not yet written are the stream.
  It holds the messages; after a header was handled the header of the first is gone.
\<close>

definition stream :: "pipe \<Rightarrow> u8 list" where
  "stream s = rx_got s @ wire s @ unsent s"

definition pipe_rep :: "pipe \<Rightarrow> u8 list list \<Rightarrow> bool" where
  "pipe_rep s q \<longleftrightarrow> tx_wf s \<and> rx_wf s \<and> (\<forall>m \<in> set q. msg_ok m) \<and>
     (case rx_phase s of
        AwaitHeader \<Rightarrow> stream s = concat (map frame q) \<and> length (rx_got s) \<le> 4
      | AwaitBody \<Rightarrow> q \<noteq> [] \<and> stream s = hd q @ concat (map frame (tl q)) \<and> length (rx_got s) \<le> length (hd q) \<and>
          sk_recvQueue (rx s) \<noteq> [] \<and> op_type (hd (sk_recvQueue (rx s))) = RecvData \<and>
          length (op_buff (hd (sk_recvQueue (rx s)))) = length (hd q)
      | _ \<Rightarrow> q \<noteq> [] \<and> stream s = hd q @ concat (map frame (tl q)))"

section \<open>The calls\<close>

lemma tx_pos_le:
  assumes "tx_wf s"
  shows "tx_pos s \<le> length (concat (map op_frame (filter send_op (sk_sendQueue (tx s)))))"
  using assms by (cases "sk_sendQueue (tx s)") (auto simp: tx_wf_def split: if_splits)

lemma queue_send_fields [simp]:
  "sk_sendQueue (queue_send sk op) = sk_sendQueue sk @ [op]" "sk_recvQueue (queue_send sk op) = sk_recvQueue sk"
  "sk_sendQueue (queue_recv sk op) = sk_sendQueue sk" "sk_recvQueue (queue_recv sk op) = sk_recvQueue sk @ [op]"
  by (simp_all add: queue_send_def queue_recv_def Let_def)

lemma dispatch_send:
  assumes "dispatch sk op = Inr sk'" and "op_type op = SendData"
  shows "sk' = queue_send sk op" and "op_size op \<noteq> 0"
  using assms by (auto simp: dispatch_def guardE_Inr_iff)

text \<open>A queued message goes to the end of the stream.\<close>

lemma post_send:
  assumes rep: "pipe_rep s q" and d: "dispatch (tx s) op = Inr sk"
    and op: "op_type op = SendData" "op_size op = size32 buff" "op_buff op = cut32 buff"
  shows "pipe_rep (s\<lparr> tx := sk \<rparr>) (q @ [cut32 buff])"
proof -
  have sk: "sk = queue_send (tx s) op" "size32 buff \<noteq> 0" using dispatch_send [OF d op(1)] op(2) by simp_all
  note c = cut32_ok [OF sk(2)]
  have wf: "tx_wf s" using rep by (simp add: pipe_rep_def)
  have u: "stream (s\<lparr> tx := sk \<rparr>) = stream s @ frame (cut32 buff)"
    using tx_pos_le [OF wf] op c by (simp add: stream_def unsent_def sk send_op_def op_frame_def frame_def)
  have "tx_wf (s\<lparr> tx := sk \<rparr>)" using wf c op by (auto simp: tx_wf_def sk(1) send_op_def hd_append)
  then show ?thesis using rep c
    by (auto simp: pipe_rep_def u rx_wf_def split: rx_phase.splits simp flip: append_assoc)
qed

text \<open>Closing the sending socket leaves the stream as it is.\<close>

lemma post_close_send:
  assumes "pipe_rep s q" and "sk_sendQueue sk = sk_sendQueue (tx s) @ [op]" and "op_type op = CloseSend"
  shows "pipe_rep (s\<lparr> tx := sk \<rparr>) q"
proof -
  have "stream (s\<lparr> tx := sk \<rparr>) = stream s" using assms(2,3) by (simp add: stream_def unsent_def send_op_def)
  moreover have "tx_wf (s\<lparr> tx := sk \<rparr>)" using assms by (auto simp: pipe_rep_def tx_wf_def send_op_def hd_append)
  ultimately show ?thesis using assms(1) by (auto simp: pipe_rep_def rx_wf_def split: rx_phase.splits)
qed

lemma post_recv:
  assumes "pipe_rep s q" and "sk_recvQueue sk = sk_recvQueue (rx s) @ [op]" and "op_type op = RecvData \<or> op_type op = CloseRecv"
  shows "pipe_rep (s\<lparr> rx := sk \<rparr>) q"
proof -
  have "stream (s\<lparr> rx := sk \<rparr>) = stream s" "tx_wf (s\<lparr> rx := sk \<rparr>) = tx_wf s" by (simp_all add: stream_def unsent_def tx_wf_def)
  then show ?thesis using assms by (auto simp: pipe_rep_def rx_wf_def hd_append split: rx_phase.splits)
qed

lemma chl_close_queues:
  assumes "chl_close sk p q = Inr sk'"
  shows "\<exists>op op'. sk_recvQueue sk' = sk_recvQueue sk @ [op] \<and> op_type op = CloseRecv \<and>
    sk_sendQueue sk' = sk_sendQueue sk @ [op'] \<and> op_type op' = CloseSend"
  using assms by (auto simp: chl_close_def dispatch_def)

lemma net_call_next:
  assumes rep: "pipe_rep s q" and "net_call s e s'"
  shows "\<exists>q'. chan_next e q = Some q' \<and> pipe_rep s' q'"
  using assms(2)
proof cases
  case (call_send buff p sk)
  then show ?thesis using post_send [OF rep] by (auto simp: chl_send_def guardE_Inr_iff)
next
  case (call_asyncSend buff sk)
  then show ?thesis using post_send [OF rep] by (auto simp: chl_asyncSend_def guardE_Inr_iff)
next
  case (call_asyncSend_owned buff sk)
  then show ?thesis using post_send [OF rep] by (auto simp: chl_asyncSend_owned_def guardE_Inr_iff)
next
  case (call_asyncRecv buff p sk)
  then show ?thesis using post_recv [OF rep] by (auto simp: chl_asyncRecv_def dispatch_def guardE_Inr_iff)
next
  case (call_asyncRecv_buffer mH p sk)
  then show ?thesis using post_recv [OF rep] by (auto simp: chl_asyncRecv_buffer_def dispatch_def guardE_Inr_iff)
next
  case (call_close_tx p q' sk)
  then show ?thesis using post_close_send [OF rep] chl_close_queues [OF call_close_tx(4)] by auto
next
  case (call_close_rx p q' sk)
  then show ?thesis using post_recv [OF rep] chl_close_queues [OF call_close_rx(5)] by auto
qed

section \<open>The work of the service\<close>

lemma write_some_rep:
  assumes rep: "pipe_rep s q" and op: "sk_sendQueue (tx s) = op # ops" "op_type op = SendData" "tx_pos s + k \<le> length (op_frame op)"
  shows "pipe_rep (s\<lparr> wire := wire s @ slice (tx_pos s) k (op_frame op), tx_pos := tx_pos s + k \<rparr>) q"
proof -
  let ?s = "s\<lparr> wire := wire s @ slice (tx_pos s) k (op_frame op), tx_pos := tx_pos s + k \<rparr>"
  have "drop (tx_pos s) (op_frame op) = slice (tx_pos s) k (op_frame op) @ drop (tx_pos s + k) (op_frame op)"
    using append_take_drop_id [of k "drop (tx_pos s) (op_frame op)"] by (simp add: slice_def add.commute)
  then have u: "stream ?s = stream s" using op by (simp add: stream_def unsent_def send_op_def)
  have "tx_wf ?s" using rep op by (auto simp: pipe_rep_def tx_wf_def send_op_def)
  then show ?thesis using rep u by (simp add: pipe_rep_def rx_wf_def split: rx_phase.splits)
qed

lemma write_done_rep:
  assumes rep: "pipe_rep s q" and op: "sk_sendQueue (tx s) = op # ops" "op_type op = SendData" "tx_pos s = length (op_frame op)"
  shows "pipe_rep (s\<lparr> tx := sendOne_done (tx s), tx_pos := 0 \<rparr>) q"
proof -
  let ?s = "s\<lparr> tx := sendOne_done (tx s), tx_pos := 0 \<rparr>"
  have "stream ?s = stream s" using op by (simp add: stream_def unsent_def sendOne_done_def send_op_def)
  moreover have "tx_wf ?s" using rep op by (auto simp: pipe_rep_def tx_wf_def sendOne_done_def)
  ultimately show ?thesis using rep by (simp add: pipe_rep_def rx_wf_def split: rx_phase.splits)
qed

lemma close_send_rep:
  assumes rep: "pipe_rep s q" and op: "sk_sendQueue (tx s) = op # ops" "op_type op = CloseSend"
  shows "pipe_rep (s\<lparr> tx := sendOne_close (tx s) \<rparr>) q"
proof -
  let ?s = "s\<lparr> tx := sendOne_close (tx s) \<rparr>"
  have "stream ?s = stream s" using op by (simp add: stream_def unsent_def sendOne_close_def send_op_def)
  moreover have "tx_wf ?s" using rep op by (auto simp: pipe_rep_def tx_wf_def sendOne_close_def send_op_def)
  ultimately show ?thesis using rep by (simp add: pipe_rep_def rx_wf_def split: rx_phase.splits)
qed

text \<open>When a header has been read there is a first message, and it is its header.\<close>

lemma header_read:
  assumes rep: "pipe_rep s q" and "rx_phase s = AwaitHeader" and "length (rx_got s) = 4"
  shows "q \<noteq> []" and "rx_got s = hdr_bytes (size32 (hd q))"
    and "wire s @ unsent s = hd q @ concat (map frame (tl q))" and "msg_ok (hd q)"
proof -
  have w: "rx_got s @ wire s @ unsent s = concat (map frame q)" using rep assms(2) by (simp add: pipe_rep_def stream_def)
  show q: "q \<noteq> []" using w assms(3) by auto
  then have e: "rx_got s @ wire s @ unsent s = hdr_bytes (size32 (hd q)) @ hd q @ concat (map frame (tl q))"
    using w by (cases q) (simp_all add: frame_def)
  show "rx_got s = hdr_bytes (size32 (hd q))" and "wire s @ unsent s = hd q @ concat (map frame (tl q))"
    using e assms(3) by (simp_all add: append_eq_append_conv)
  show "msg_ok (hd q)" using rep q by (simp add: pipe_rep_def)
qed

lemma receiveOne_header_size:
  assumes "msg_ok m"
  shows "receiveOne_header op (hdr_bytes (size32 m)) = HeaderOk op' \<Longrightarrow> length (op_buff op') = length m \<and> op_type op' = op_type op"
    and "receiveOne_header op (hdr_bytes (size32 m)) = WrongSize \<longleftrightarrow> op_other op = None \<and> length (op_buff op) \<noteq> length m"
    and "receiveOne_header op (hdr_bytes (size32 m)) = ResizeThrows e \<Longrightarrow> \<exists>n. op_other op = Some (Fixed n) \<and> n \<noteq> length m"
proof -
  have u: "unat (size32 m) = length m" using assms by (simp add: msg_ok_def unat_size32)
  have "chl_resize mH len = Inr n \<Longrightarrow> n = len" for mH len n by (cases mH) (simp_all add: guardE_Inr_iff)
  then show "receiveOne_header op (hdr_bytes (size32 m)) = HeaderOk op' \<Longrightarrow> length (op_buff op') = length m \<and> op_type op' = op_type op"
    by (auto simp: receiveOne_header_def Let_def u split: if_splits option.splits sum.splits)
  show "receiveOne_header op (hdr_bytes (size32 m)) = WrongSize \<longleftrightarrow> op_other op = None \<and> length (op_buff op) \<noteq> length m"
    by (auto simp: receiveOne_header_def Let_def u split: option.splits sum.splits)
  have "chl_resize mH len = Inl e \<Longrightarrow> \<exists>n. mH = Fixed n \<and> n \<noteq> len" for mH len e by (cases mH) (auto simp: guardE_def split: if_splits)
  then show "receiveOne_header op (hdr_bytes (size32 m)) = ResizeThrows e \<Longrightarrow> \<exists>n. op_other op = Some (Fixed n) \<and> n \<noteq> length m"
    by (auto simp: receiveOne_header_def Let_def u split: if_splits option.splits sum.splits)
qed

lemma read_some_rep:
  assumes rep: "pipe_rep s q" and "sk_recvQueue (rx s) = op # ops" and "k \<le> length (wire s)"
    and "length (rx_got s) + k \<le> rx_want op (rx_phase s)"
  shows "pipe_rep (s\<lparr> wire := drop k (wire s), rx_got := rx_got s @ take k (wire s) \<rparr>) q"
proof -
  let ?s = "s\<lparr> wire := drop k (wire s), rx_got := rx_got s @ take k (wire s) \<rparr>"
  have "stream ?s = stream s" "tx_wf ?s = tx_wf s" "rx_wf ?s = rx_wf s" by (simp_all add: stream_def unsent_def tx_wf_def rx_wf_def)
  then show ?thesis using assms by (auto simp: pipe_rep_def rx_want_def split: rx_phase.splits)
qed

lemma net_work_next:
  assumes rep: "pipe_rep s q" and "net_work s e s'"
  shows "\<exists>q'. chan_next e q = Some q' \<and> pipe_rep s' q'"
  using assms(2)
proof cases
  case (write_some op ops k)
  then show ?thesis using write_some_rep [OF rep] by simp
next
  case (write_done op ops)
  then show ?thesis using write_done_rep [OF rep] by simp
next
  case (close_send op ops)
  then show ?thesis using close_send_rep [OF rep] by simp
next
  case (read_some op ops k)
  then show ?thesis using read_some_rep [OF rep] by simp
next
  case (read_header op ops op')
  note h = header_read [OF rep read_header(5,6)]
  have "length (op_buff op') = length (hd q) \<and> op_type op' = op_type op"
    using receiveOne_header_size(1) [OF h(4)] read_header(7) h(2) by simp
  then have "pipe_rep s' q" using rep h read_header by (auto simp: pipe_rep_def tx_wf_def rx_wf_def stream_def unsent_def)
  then show ?thesis using read_header by simp
next
  case (bad_header op ops)
  note h = header_read [OF rep bad_header(5,6)]
  have "pipe_rep s' q" using rep h bad_header by (auto simp: pipe_rep_def tx_wf_def rx_wf_def stream_def unsent_def)
  then show ?thesis using bad_header by simp
next
  case (resize_throws op ops err)
  note h = header_read [OF rep resize_throws(5,6)]
  have "pipe_rep s' q" using rep h resize_throws by (auto simp: pipe_rep_def tx_wf_def rx_wf_def stream_def unsent_def)
  then show ?thesis using resize_throws by simp
next
  case (read_body op ops)
  have q: "q \<noteq> []" "rx_got s @ wire s @ unsent s = hd q @ concat (map frame (tl q))" "length (rx_got s) = length (hd q)"
    using rep read_body by (auto simp: pipe_rep_def stream_def)
  then have "rx_got s = hd q" "wire s @ unsent s = concat (map frame (tl q))" by (simp_all add: append_eq_append_conv)
  moreover from this have "pipe_rep s' (tl q)" using rep q(1) read_body
    by (auto simp: pipe_rep_def tx_wf_def rx_wf_def stream_def unsent_def receiveOne_pop_def dest: list.set_sel(2))
  ultimately show ?thesis using q(1) read_body by simp
next
  case (close_recv op ops)
  then have "pipe_rep s' q" using rep by (auto simp: pipe_rep_def tx_wf_def rx_wf_def stream_def unsent_def receiveOne_pop_def)
  then show ?thesis using close_recv by simp
qed

lemma pipe_new_rep: "pipe_rep (pipe_new cap) []"
  by (simp add: pipe_rep_def pipe_new_def tx_wf_def rx_wf_def stream_def unsent_def BtSocket_new_def)

interpretation sockets: message_channel net_step pipe_rep "pipe_new cap" for cap
proof
  show "pipe_rep (pipe_new cap) []" by (rule pipe_new_rep)
  show "\<exists>q'. chan_next e q = Some q' \<and> pipe_rep s' q'" if "pipe_rep s q" "net_step s e s'" for s q e s'
    using that net_call_next net_work_next unfolding net_step_def by blast
qed

section \<open>The service works until there is nothing left to do\<close>

definition work_left :: "pipe \<Rightarrow> nat" where
  "work_left s = 3 * length (unsent s) + 2 * length (wire s) + length (rx_got s) +
     length (sk_sendQueue (tx s)) + length (sk_recvQueue (rx s))"

lemma net_work_decreases: "net_work s e s' \<Longrightarrow> work_left s' < work_left s"
proof (induction rule: net_work.induct)
  case (write_some s op ops k)
  have "length (slice (tx_pos s) k (op_frame op)) = k" using write_some by (simp add: slice_def)
  then show ?case using write_some by (simp add: work_left_def unsent_def send_op_def)
qed (simp_all add: work_left_def unsent_def send_op_def sendOne_done_def sendOne_close_def receiveOne_pop_def)

lemma net_step_cap: "net_step s e s' \<Longrightarrow> wire_cap s' = wire_cap s"
  by (auto simp: net_step_def net_call.simps net_work.simps)

lemma runs_cap: "runs net_step s es s' \<Longrightarrow> wire_cap s' = wire_cap s"
  by (induction rule: runs.induct) (simp_all add: net_step_cap)

text \<open>The sender waits only for room on the wire.\<close>

lemma sender_works:
  assumes rep: "pipe_rep s q" and "sk_sendQueue (tx s) \<noteq> []" and room: "length (wire s) < wire_cap s"
  shows "\<exists>e s'. net_work s e s'"
proof -
  obtain op ops where q: "sk_sendQueue (tx s) = op # ops" using assms(2) by (cases "sk_sendQueue (tx s)") auto
  have wf: "tx_wf s" using rep by (simp add: pipe_rep_def)
  show ?thesis
  proof (cases "send_op op")
    case True
    then have op: "op_type op = SendData" "tx_pos s \<le> length (op_frame op)" using wf q by (auto simp: tx_wf_def send_op_def)
    show ?thesis
    proof (cases "tx_pos s = length (op_frame op)")
      case True
      then show ?thesis using net_work.write_done [OF q op(1)] by blast
    next
      case False
      then show ?thesis using net_work.write_some [OF q op(1), of 1] op(2) room by fastforce
    qed
  next
    case False
    then have "op_type op = CloseSend" using wf q by (auto simp: tx_wf_def)
    then show ?thesis using net_work.close_send [OF q] by blast
  qed
qed

text \<open>The receiver waits only for bytes, and with bytes to come it has a step or finds the wire empty.\<close>

lemma receiver_works:
  assumes rep: "pipe_rep s q" and "sk_recvQueue (rx s) \<noteq> []" and ph: "rx_phase s \<noteq> Jammed" "rx_phase s \<noteq> Crashed"
    and more: "wire s \<noteq> [] \<or> unsent s = [] \<and> q \<noteq> []"
  shows "\<exists>e s'. net_work s e s'"
proof -
  obtain op ops where r: "sk_recvQueue (rx s) = op # ops" using assms(2) by (cases "sk_recvQueue (rx s)") auto
  have some: "\<exists>e s'. net_work s e s'" if "op_type op = RecvData" "wire s \<noteq> []" "length (rx_got s) < rx_want op (rx_phase s)"
    using net_work.read_some [OF r that(1), of 1] that(2,3) by (cases "wire s") auto
  show ?thesis
  proof (cases "rx_phase s")
    case AwaitHeader
    then have g: "length (rx_got s) \<le> 4" "stream s = concat (map frame q)" using rep by (simp_all add: pipe_rep_def)
    consider "op_type op = CloseRecv" | "op_type op = RecvData" "length (rx_got s) = 4" | "op_type op = RecvData" "length (rx_got s) < 4"
      using rep r g(1) by (fastforce simp: pipe_rep_def rx_wf_def)
    then show ?thesis
    proof cases
      case 1
      then show ?thesis using net_work.close_recv [OF r] AwaitHeader by blast
    next
      case 2
      note w = net_work.read_header [OF r 2(1) AwaitHeader 2(2)] net_work.bad_header [OF r 2(1) AwaitHeader 2(2)]
        net_work.resize_throws [OF r 2(1) AwaitHeader 2(2)]
      show ?thesis using w by (cases "receiveOne_header op (rx_got s)") blast+
    next
      case 3
      have "wire s \<noteq> []"
      proof
        assume "wire s = []"
        then have "rx_got s = concat (map frame q)" "q \<noteq> []" using more g(2) by (simp_all add: stream_def)
        then have "4 \<le> length (rx_got s)" by (cases q) (simp_all add: frame_def)
        then show False using 3(2) by simp
      qed
      then show ?thesis using some 3 AwaitHeader by (simp add: rx_want_def)
    qed
  next
    case AwaitBody
    then have b: "op_type op = RecvData" "length (op_buff op) = length (hd q)" "length (rx_got s) \<le> length (hd q)"
        "stream s = hd q @ concat (map frame (tl q))" using rep r by (auto simp: pipe_rep_def)
    show ?thesis
    proof (cases "length (rx_got s) = length (hd q)")
      case True
      then show ?thesis using net_work.read_body [OF r AwaitBody] b(2) by metis
    next
      case False
      have "wire s \<noteq> []"
      proof
        assume "wire s = []"
        then have "rx_got s = hd q @ concat (map frame (tl q))" using more b(4) by (simp add: stream_def)
        then have "length (hd q) \<le> length (rx_got s)" by simp
        then show False using b(3) False by simp
      qed
      then show ?thesis using some b False AwaitBody by (simp add: rx_want_def)
    qed
  qed (use ph in simp_all)
qed

text \<open>
  When the service has nothing to do, everything is sent and delivered, unless nobody receives: no
  receive is posted, the channel is jammed, or the receiving process has ended. Then what is left
  unsent is behind a full wire.
\<close>

lemma idle_drained:
  assumes "pipe_rep s q" and "\<nexists>e s'. net_work s e s'" and cap: "0 < wire_cap s"
  shows "(q = [] \<and> sk_sendQueue (tx s) = []) \<or>
    (sk_recvQueue (rx s) = [] \<or> rx_phase s = Jammed \<or> rx_phase s = Crashed) \<and> (sk_sendQueue (tx s) = [] \<or> wire_cap s \<le> length (wire s))"
proof -
  have full: "sk_sendQueue (tx s) = [] \<or> wire_cap s \<le> length (wire s)"
    using sender_works [OF assms(1)] assms(2) by (meson not_le)
  show ?thesis
  proof (cases "sk_recvQueue (rx s) = [] \<or> rx_phase s = Jammed \<or> rx_phase s = Crashed")
    case False
    then have e: "wire s = [] \<and> (unsent s \<noteq> [] \<or> q = [])" using receiver_works [OF assms(1)] assms(2) by blast
    then have "sk_sendQueue (tx s) = []" using full cap by simp
    then show ?thesis using e by (simp add: unsent_def)
  qed (use full in simp)
qed

text \<open>No schedule keeps the service busy for ever: it reaches such a state by working.\<close>

inductive works :: "pipe \<Rightarrow> net_event list \<Rightarrow> pipe \<Rightarrow> bool" where
  works_nil: "works s [] s"
| works_cons: "net_work s e s1 \<Longrightarrow> works s1 es s2 \<Longrightarrow> works s (e # es) s2"

lemma works_bounded:
  assumes "works s es s'" and "pipe_rep s q"
  shows "length es + work_left s' \<le> work_left s \<and> (\<exists>q'. pipe_rep s' q' \<and> q = delivered_of es @ q')"
  using assms
proof (induction arbitrary: q)
  case (works_nil s)
  then show ?case by auto
next
  case (works_cons s e s1 es s2)
  obtain q1 where q1: "chan_next e q = Some q1" "pipe_rep s1 q1" using net_work_next [OF works_cons.prems works_cons.hyps(1)] by blast
  have "\<forall>m. e \<noteq> Sent m" using works_cons.hyps(1) by (auto simp: net_work.simps)
  then have "q = delivered_of [e] @ q1" using q1(1) by (cases e; cases q) (auto simp: delivered_of_def split: if_splits)
  then show ?case using works_cons.IH [OF q1(2)] net_work_decreases [OF works_cons.hyps(1)]
    by (auto simp: delivered_of_def)
qed

lemma works_cap: "works s es s' \<Longrightarrow> wire_cap s' = wire_cap s"
proof (induction rule: works.induct)
  case (works_cons s e s1 es s2)
  then show ?case using net_step_cap [of s e s1] by (simp add: net_step_def)
qed simp

lemma works_end:
  assumes "pipe_rep s q"
  shows "\<exists>es s'. works s es s' \<and> (\<nexists>e s''. net_work s' e s'')"
  using assms
proof (induction "work_left s" arbitrary: s q rule: less_induct)
  case less
  show ?case
  proof (cases "\<exists>e s1. net_work s e s1")
    case True
    then obtain e s1 where w: "net_work s e s1" by blast
    obtain q1 where "pipe_rep s1 q1" using net_work_next [OF less.prems w] by blast
    then obtain es s' where "works s1 es s'" "\<nexists>e s''. net_work s' e s''"
      using less.hyps net_work_decreases [OF w] by blast
    then show ?thesis using works_cons [OF w] by blast
  qed (use works_nil in blast)
qed

section \<open>A jammed channel\<close>

lemma net_step_jammed:
  assumes "net_step s e s'" and "rx_phase s = Jammed"
  shows "rx_phase s' = Jammed" and "\<forall>p m. e \<noteq> Delivered p m" and "\<exists>ops. sk_recvQueue (rx s') = sk_recvQueue (rx s) @ ops"
  using assms by (auto simp: net_step_def net_call.simps net_work.simps chl_asyncRecv_def chl_asyncRecv_buffer_def
      dispatch_def guardE_Inr_iff dest: chl_close_queues)

lemma jammed_for_good:
  assumes "runs net_step s es s'" and "rx_phase s = Jammed"
  shows "rx_phase s' = Jammed \<and> delivered_of es = [] \<and> (\<exists>ops. sk_recvQueue (rx s') = sk_recvQueue (rx s) @ ops)"
  using assms(1)
proof (induction rule: runs.induct)
  case (runs_snoc es s1 e s2)
  then show ?case using net_step_jammed [of s1 e s2] by (cases e) auto
qed (use assms(2) in simp)

end
