(* ===== verification/Psi_Net.thy ===== *)
theory Psi_Net
  imports Net_SocketCorrect
begin

text \<open>
  The transport of \<open>frontend/pqpsi/protocols/net.h\<close>: a buffer is split over the channels to the
  peer, one part per channel. A channel is the queue of messages that \<open>Net_SocketCorrect\<close> shows the
  sockets to implement: the messages sent and not yet received. A receive from an empty channel
  waits (\<open>None\<close>).
\<close>

section \<open>Splitting a buffer\<close>

definition chunk_list :: "nat \<Rightarrow> nat \<Rightarrow> nat \<Rightarrow> (nat \<times> nat) list" where
  "chunk_list sz use per =
     concat (map (\<lambda>i. let begin = i * per; end = min sz (begin + per)
                      in if begin < end then [(begin, end - begin)] else []) [0..<use])"

definition chunks :: "nat \<Rightarrow> nat \<Rightarrow> (nat \<times> nat) list" where
  "chunks bytes n =
     (if bytes = 0 \<or> n = 0 then []
      else if bytes mod 16 = 0 then
        let blocks = bytes div 16; use = min n blocks; per = (blocks + use - 1) div use
        in map (\<lambda>(begin, len). (begin * 16, len * 16)) (chunk_list blocks use per)
      else
        let use = min n bytes; per = (bytes + use - 1) div use
        in chunk_list bytes use per)"

definition part :: "'a list \<Rightarrow> nat \<times> nat \<Rightarrow> 'a list" where
  "part data p = slice (fst p) (snd p) data"

lemma chunk_list_prefix:
  "length data = sz \<Longrightarrow> concat (map (part data) (chunk_list sz use per)) = take (use * per) data"
proof (induction use)
  case (Suc use)
  have "take (use * per + per) data = take (use * per) data @ take per (drop (use * per) data)"
    by (rule take_add)
  moreover have "take (min sz (use * per + per) - use * per) (drop (use * per) data) = take per (drop (use * per) data)"
    using Suc.prems by (simp add: min_def)
  ultimately show ?case
    using Suc by (auto simp: chunk_list_def part_def slice_def Let_def add.commute min_def)
qed (simp add: chunk_list_def)

lemma chunk_list_bounds:
  "p \<in> set (chunk_list sz use per) \<Longrightarrow> 0 < snd p \<and> fst p + snd p \<le> sz"
  by (auto simp: chunk_list_def Let_def split: if_splits)

lemma length_chunk_list: "length (chunk_list sz use per) \<le> use"
  by (induction use) (auto simp: chunk_list_def Let_def)

text \<open>Cutting scaled ranges is scaling the cut of the blocks.\<close>

lemma part_scale:
  "length data = 16 * n \<Longrightarrow> part data (b * 16, l * 16) = slice (b * 16) (l * 16) data"
  by (simp add: part_def)

lemma chunk_list_scale:
  "map (\<lambda>(b, l). (b * 16, l * 16)) (chunk_list sz use per) = chunk_list (sz * 16) use (per * 16)"
proof -
  have "map (\<lambda>(b, l). (b * 16, l * 16)) (if i * per < min sz (i * per + per)
          then [(i * per, min sz (i * per + per) - i * per)] else []) =
        (if i * (per * 16) < min (sz * 16) (i * (per * 16) + per * 16)
          then [(i * (per * 16), min (sz * 16) (i * (per * 16) + per * 16) - i * (per * 16))] else [])" for i
  proof -
    have "min (sz * 16) (i * (per * 16) + per * 16) = min sz (i * per + per) * 16" by (simp add: min_def)
    then show ?thesis by (simp add: diff_mult_distrib mult.assoc)
  qed
  then show ?thesis by (simp add: chunk_list_def map_concat Let_def comp_def)
qed

lemma chunks_eq:
  assumes "0 < bytes" and "0 < n"
  shows "\<exists>use per. chunks bytes n = chunk_list bytes use per \<and> use \<le> n \<and> bytes \<le> use * per \<and>
    (bytes mod 16 = 0 \<longrightarrow> 16 dvd per)"
proof (cases "bytes mod 16 = 0")
  case True
  define blocks use per where "blocks = bytes div 16" and "use = min n blocks" and "per = (blocks + use - 1) div use"
  have b: "bytes = blocks * 16" using True by (simp add: blocks_def mod_eq_0_iff_dvd dvd_div_mult_self)
  have "0 < use" using b assms by (auto simp: use_def)
  then have "blocks \<le> use * per" unfolding per_def by (rule ceil_div_mult)
  then have "bytes \<le> use * (per * 16)" unfolding b by simp
  moreover have "chunks bytes n = chunk_list bytes use (per * 16)"
    using True assms unfolding chunks_def Let_def blocks_def [symmetric] use_def [symmetric] per_def [symmetric] chunk_list_scale b [symmetric]
    by simp
  ultimately show ?thesis by (intro exI [of _ use] exI [of _ "per * 16"]) (simp add: use_def)
next
  case False
  define use where "use = min n bytes"
  have "0 < use" using assms by (simp add: use_def)
  then have "bytes \<le> use * ((bytes + use - 1) div use)" by (rule ceil_div_mult)
  moreover have "chunks bytes n = chunk_list bytes use ((bytes + use - 1) div use)"
    using False assms by (simp add: chunks_def Let_def use_def)
  ultimately show ?thesis using False
    by (intro exI [of _ use] exI [of _ "(bytes + use - 1) div use"]) (simp add: use_def)
qed

text \<open>The parts, in order, are the buffer.\<close>

lemma chunks_join:
  assumes "0 < n"
  shows "concat (map (part data) (chunks (length data) n)) = data"
proof (cases "length data = 0")
  case False
  then obtain use per where "chunks (length data) n = chunk_list (length data) use per" "length data \<le> use * per"
    using chunks_eq [OF _ assms, of "length data"] by auto
  then show ?thesis by (simp add: chunk_list_prefix)
qed (simp add: chunks_def)

lemma chunks_bounds: "p \<in> set (chunks bytes n) \<Longrightarrow> 0 < snd p \<and> fst p + snd p \<le> bytes"
proof -
  assume p: "p \<in> set (chunks bytes n)"
  then have "0 < bytes" "0 < n" by (auto simp: chunks_def split: if_splits)
  then obtain use per where "chunks bytes n = chunk_list bytes use per" using chunks_eq by blast
  then show ?thesis using p chunk_list_bounds by simp
qed

lemma length_chunks: "length (chunks bytes n) \<le> n"
proof (cases "bytes = 0 \<or> n = 0")
  case False
  then obtain use per where "chunks bytes n = chunk_list bytes use per" "use \<le> n"
    using chunks_eq [of bytes n] by auto
  then show ?thesis using length_chunk_list [of bytes use per] by simp
qed (simp add: chunks_def)

text \<open>A buffer of whole blocks is cut at block boundaries.\<close>

lemma chunks_aligned:
  assumes "bytes mod 16 = 0" and "p \<in> set (chunks bytes n)"
  shows "16 dvd fst p" and "16 dvd snd p"
proof -
  have "0 < bytes" "0 < n" using assms(2) by (auto simp: chunks_def split: if_splits)
  then obtain use per where c: "chunks bytes n = chunk_list bytes use per" and d: "16 dvd per"
    using chunks_eq [of bytes n] assms(1) by auto
  obtain i where i: "p = (i * per, min bytes (i * per + per) - i * per)"
    using assms(2) by (auto simp: c chunk_list_def Let_def split: if_splits)
  show "16 dvd fst p" using d by (simp add: i)
  have "16 dvd min bytes (i * per + per)" using d assms(1) by (auto simp: min_def)
  then show "16 dvd snd p" using d by (simp add: i dvd_diff_nat)
qed

section \<open>Channels\<close>

type_synonym link = "u8 list list list"

text \<open>
  \<open>BtChannel::send\<close> converts the size to 32 bits and throws when nothing is left. A receive of
  another size than that of the message gives the waiting thread a null exception pointer.
\<close>

definition ch_put :: "link \<Rightarrow> nat \<Rightarrow> u8 list \<Rightarrow> link" where
  "ch_put lnk c msg = lnk[c := lnk ! c @ [msg]]"

definition ch_send :: "link \<Rightarrow> nat \<Rightarrow> u8 list \<Rightarrow> link result" where
  "ch_send lnk c msg = guardE (size32 msg = 0) (RuntimeError ''rt error'') (Inr (ch_put lnk c (cut32 msg)))"

definition ch_bytes :: "nat \<Rightarrow> nat" where
  "ch_bytes sz = unat (word_of_nat sz :: u32)"

definition ch_recv :: "link \<Rightarrow> nat \<Rightarrow> nat \<Rightarrow> (u8 list \<times> link) comp" where
  "ch_recv lnk c sz =
     (if ch_bytes sz = 0 then throwC (RuntimeError ''rt error'')
      else case lnk ! c of
        [] \<Rightarrow> None
      | msg # rest \<Rightarrow>
          if length msg \<noteq> ch_bytes sz then throwC (Undefined ''set_exception of a null pointer'')
          else retC (msg, lnk[c := rest]))"

text \<open>A call on an open socket succeeds exactly when \<open>ch_send\<close> does, and queues the same message.\<close>

lemma ch_send_socket:
  assumes "\<not> sk_stopped (tx s)"
  shows "(\<exists>sk. chl_send (tx s) msg p = Inr sk \<and> net_call s (Sent (cut32 msg)) (s\<lparr> tx := sk \<rparr>)) \<longleftrightarrow> (\<exists>lnk'. ch_send lnk c msg = Inr lnk')"
    and "ch_send lnk c msg = Inr lnk' \<Longrightarrow> c < length lnk \<Longrightarrow> chan_next (Sent (cut32 msg)) (lnk ! c) = Some (lnk' ! c)"
  using assms by (auto simp: chl_send_def dispatch_def ch_send_def ch_put_def guardE_def net_call.simps split: if_splits)

text \<open>\<open>peerChls\<close> is the number of channels of each peer.\<close>

definition shouldSplit :: "bool \<Rightarrow> nat list \<Rightarrow> nat \<Rightarrow> nat \<Rightarrow> bool" where
  "shouldSplit multiThread peerChls peer bytes \<longleftrightarrow>
     multiThread \<and> peer < length peerChls \<and> peerChls ! peer > 1 \<and> bytes \<ge> 16 * 1024"

text \<open>
  \<open>eachChunk\<close> runs its callback once for every part, part 0 on the calling thread and the others
  on their own, which use different channels. Every callback runs, whatever the others throw;
  the exception of the lowest part is rethrown at the end. A callback returns the new state and
  the exception it threw, if any, or waits (\<open>None\<close>).
\<close>

fun each_run :: "(nat \<Rightarrow> 's \<Rightarrow> ('s \<times> error option) option) \<Rightarrow> nat list \<Rightarrow> 's \<Rightarrow> ('s \<times> error list) option" where
  "each_run fn [] s = Some (s, [])"
| "each_run fn (i # is) s =
     (case fn i s of
        None \<Rightarrow> None
      | Some (s', e) \<Rightarrow>
          (case each_run fn is s' of
             None \<Rightarrow> None
           | Some (s'', errs) \<Rightarrow> Some (s'', (case e of None \<Rightarrow> errs | Some x \<Rightarrow> x # errs))))"

definition eachChunk :: "nat \<Rightarrow> (nat \<Rightarrow> 's \<Rightarrow> ('s \<times> error option) option) \<Rightarrow> 's \<Rightarrow> 's comp" where
  "eachChunk n fn s =
     (case each_run fn [0..<n] s of
        None \<Rightarrow> None
      | Some (s', errs) \<Rightarrow> (case errs of [] \<Rightarrow> retC s' | e # _ \<Rightarrow> throwC e))"

definition send_part :: "u8 list \<Rightarrow> (nat \<times> nat) list \<Rightarrow> nat \<Rightarrow> link \<Rightarrow> (link \<times> error option) option" where
  "send_part data parts i lnk =
     Some (case ch_send lnk i (part data (parts ! i)) of Inl e \<Rightarrow> (lnk, Some e) | Inr lnk' \<Rightarrow> (lnk', None))"

definition net_send :: "bool \<Rightarrow> nat list \<Rightarrow> nat \<Rightarrow> u8 list \<Rightarrow> link \<Rightarrow> link comp" where
  "net_send multiThread peerChls peer data lnk =
     (let bytes = length data
      in if \<not> shouldSplit multiThread peerChls peer bytes then liftC (ch_send lnk 0 data)
         else
           let parts = chunks bytes (peerChls ! peer)
           in eachChunk (length parts) (send_part data parts) lnk)"

definition recv_part :: "(nat \<times> nat) list \<Rightarrow> nat \<Rightarrow> u8 list \<times> link \<Rightarrow> ((u8 list \<times> link) \<times> error option) option" where
  "recv_part parts i st =
     (case st of (buf, lnk) \<Rightarrow>
        case ch_recv lnk i (snd (parts ! i)) of
          None \<Rightarrow> None
        | Some (Inl e) \<Rightarrow> Some ((buf, lnk), Some e)
        | Some (Inr (msg, lnk')) \<Rightarrow> Some ((patch_at (fst (parts ! i)) msg buf, lnk'), None))"

definition net_recv :: "bool \<Rightarrow> nat list \<Rightarrow> nat \<Rightarrow> u8 list \<Rightarrow> link \<Rightarrow> (u8 list \<times> link) comp" where
  "net_recv multiThread peerChls peer buf lnk =
     (let bytes = length buf
      in if \<not> shouldSplit multiThread peerChls peer bytes then ch_recv lnk 0 bytes
         else
           let parts = chunks bytes (peerChls ! peer)
           in eachChunk (length parts) (recv_part parts) (buf, lnk))"

text \<open>\<open>asyncRecv\<close> posts one receive per part; \<open>PendingRecv::wait\<close> completes them in order.\<close>

definition net_asyncRecv :: "bool \<Rightarrow> nat list \<Rightarrow> nat \<Rightarrow> nat \<Rightarrow> (nat \<times> nat \<times> nat) list result" where
  "net_asyncRecv multiThread peerChls peer bytes =
     (let parts = (if \<not> shouldSplit multiThread peerChls peer bytes then [(0, bytes)] else chunks bytes (peerChls ! peer))
      in guardE (\<exists>p \<in> set parts. ch_bytes (snd p) = 0) (RuntimeError ''rt error'') (Inr (enumerate 0 parts)))"

fun recv_parts :: "(nat \<times> nat \<times> nat) list \<Rightarrow> u8 list \<Rightarrow> link \<Rightarrow> (u8 list \<times> link) comp" where
  "recv_parts [] buf lnk = retC (buf, lnk)"
| "recv_parts ((c, off, len) # ps) buf lnk =
     bindC (ch_recv lnk c len) (\<lambda>(msg, lnk'). recv_parts ps (patch_at off msg buf) lnk')"

definition PendingRecv_wait ::
  "(nat \<times> nat \<times> nat) list \<Rightarrow> u8 list \<Rightarrow> link \<Rightarrow> (u8 list \<times> link) comp" where
  "PendingRecv_wait jobs buf lnk = recv_parts jobs buf lnk"

text \<open>Posting a receive for a buffer and waiting for it.\<close>

definition net_await :: "bool \<Rightarrow> nat list \<Rightarrow> nat \<Rightarrow> u8 list \<Rightarrow> link \<Rightarrow> (u8 list \<times> link) comp" where
  "net_await multiThread peerChls peer buf lnk =
     bindC (liftC (net_asyncRecv multiThread peerChls peer (length buf))) (\<lambda>jobs. PendingRecv_wait jobs buf lnk)"

section \<open>A buffer sent is the buffer received\<close>

lemma ch_bytes_fits [simp]: "n < 2 ^ 32 \<Longrightarrow> ch_bytes n = n"
  by (simp add: ch_bytes_def unat_of_nat)

lemma ch_send_fits: "0 < length msg \<Longrightarrow> length msg < 2 ^ 32 \<Longrightarrow> ch_send lnk c msg = Inr (ch_put lnk c msg)"
  using unat_size32 [of msg] by (auto simp: ch_send_def cut32_def guardE_def)

lemma fold_ch_put:
  assumes "distinct is" and "set is \<subseteq> {..<length lnk}"
  shows "fold (\<lambda>i l. ch_put l i (f i)) is lnk =
    map (\<lambda>c. if c \<in> set is then lnk ! c @ [f c] else lnk ! c) [0..<length lnk]"
  using assms
proof (induction "is" arbitrary: lnk)
  case Nil
  then show ?case by (simp add: map_nth)
next
  case (Cons i "is")
  let ?l = "lnk[i := lnk ! i @ [f i]]"
  have "fold (\<lambda>i l. ch_put l i (f i)) (i # is) lnk = fold (\<lambda>i l. ch_put l i (f i)) is ?l"
    by (simp add: ch_put_def)
  also have "\<dots> = map (\<lambda>c. if c \<in> set is then ?l ! c @ [f c] else ?l ! c) [0..<length ?l]"
    using Cons by (intro Cons.IH) auto
  also have "\<dots> = map (\<lambda>c. if c \<in> set (i # is) then lnk ! c @ [f c] else lnk ! c) [0..<length lnk]"
    using Cons.prems by (intro nth_equalityI) (auto simp: nth_list_update)
  finally show ?case .
qed

text \<open>Parts that fit are all sent, and the order in which the threads of \<open>eachChunk\<close> send them does not matter.\<close>

lemma each_run_send:
  assumes "\<forall>i \<in> set is. 0 < length (part data (parts ! i)) \<and> length (part data (parts ! i)) < 2 ^ 32"
  shows "each_run (send_part data parts) is lnk = Some (fold (\<lambda>i l. ch_put l i (part data (parts ! i))) is lnk, [])"
  using assms by (induction "is" arbitrary: lnk) (simp_all add: send_part_def ch_send_fits)

lemma send_order_irrelevant:
  assumes "distinct is" and "set is = {..<length parts}" and "length parts \<le> length lnk"
    and fits: "\<forall>p \<in> set parts. 0 < length (part data p) \<and> length (part data p) < 2 ^ 32"
  shows "each_run (send_part data parts) is lnk = Some (fold (\<lambda>i l. ch_put l i (part data (parts ! i))) [0..<length parts] lnk, [])"
proof -
  have "set is \<subseteq> {..<length lnk}" using assms by auto
  then have "fold (\<lambda>i l. ch_put l i (part data (parts ! i))) is lnk =
      map (\<lambda>c. if c \<in> set is then lnk ! c @ [part data (parts ! c)] else lnk ! c) [0..<length lnk]"
    using assms(1) by (intro fold_ch_put)
  also have "\<dots> = map (\<lambda>c. if c \<in> set [0..<length parts] then lnk ! c @ [part data (parts ! c)] else lnk ! c) [0..<length lnk]"
    using assms(2) by simp
  also have "\<dots> = fold (\<lambda>i l. ch_put l i (part data (parts ! i))) [0..<length parts] lnk"
    using assms(3) by (intro fold_ch_put [symmetric]) auto
  finally show ?thesis using fits assms(2) by (subst each_run_send) auto
qed

text \<open>Receiving the parts on threads gives what waiting for them in order gives.\<close>

lemma each_run_recv_parts:
  "recv_parts (enumerate (length pre) ps) buf lnk = retC r \<Longrightarrow>
   each_run (recv_part (pre @ ps)) [length pre..<length pre + length ps] (buf, lnk) = Some (r, [])"
proof (induction ps arbitrary: pre buf lnk)
  case (Cons p ps)
  obtain off len where p: "p = (off, len)" by fastforce
  obtain msg l where m: "ch_recv lnk (length pre) len = retC (msg, l)"
      "recv_parts (enumerate (Suc (length pre)) ps) (patch_at off msg buf) l = retC r"
    using Cons.prems by (auto simp: p bindC_retC_iff)
  have "each_run (recv_part (pre @ p # ps)) [Suc (length pre)..<Suc (length pre + length ps)] (patch_at off msg buf, l) = Some (r, [])"
    using Cons.IH [of "pre @ [p]"] m(2) by simp
  moreover have "[length pre..<length pre + length (p # ps)] = length pre # [Suc (length pre)..<Suc (length pre + length ps)]"
    by (subst upt_rec) simp
  moreover have "recv_part (pre @ p # ps) (length pre) (buf, lnk) = Some ((patch_at off msg buf, l), None)"
    using m(1) by (simp add: recv_part_def p retC_def)
  ultimately show ?case by simp
qed simp

lemma net_recv_wait:
  assumes "net_await mt cs peer buf lnk = retC r" and "length buf < 2 ^ 32"
  shows "net_recv mt cs peer buf lnk = retC r"
proof (cases "shouldSplit mt cs peer (length buf)")
  case True
  then show ?thesis using assms each_run_recv_parts [of "[]"]
    by (auto simp: net_recv_def net_await_def net_asyncRecv_def PendingRecv_wait_def eachChunk_def Let_def guardE_def split: if_splits)
next
  case False
  obtain msg l where "ch_recv lnk 0 (length buf) = retC (msg, l)" "r = (patch_at 0 msg buf, l)"
    using assms(1) False by (auto simp: net_await_def net_asyncRecv_def PendingRecv_wait_def bindC_retC_iff guardE_def split: if_splits)
  moreover have "length msg = length buf" using calculation(1) assms(2)
    by (auto simp: ch_recv_def retC_def throwC_def split: list.splits if_splits)
  ultimately show ?thesis using False by (simp add: net_recv_def patch_at_def)
qed

lemma recv_parts_sent:
  assumes "\<forall>c < length ps. lnk ! (k + c) = [part data (ps ! c)]" and "k + length ps \<le> length lnk"
    and "\<forall>p \<in> set ps. 0 < snd p \<and> fst p + snd p \<le> length data" and "length data < 2 ^ 32"
  shows "recv_parts (enumerate k ps) buf lnk =
    retC (fold (\<lambda>p b. patch_at (fst p) (part data p) b) ps buf,
      map (\<lambda>c. if k \<le> c \<and> c < k + length ps then [] else lnk ! c) [0..<length lnk])"
  using assms
proof (induction ps arbitrary: k buf lnk)
  case Nil
  have "map (\<lambda>c. if k \<le> c \<and> c < k then [] else lnk ! c) [0..<length lnk] = lnk"
    by (intro nth_equalityI) auto
  then show ?case by simp
next
  case (Cons p ps)
  obtain off len where p: "p = (off, len)" by fastforce
  have "lnk ! (k + 0) = [part data ((p # ps) ! 0)]" using Cons.prems(1) by blast
  then have q: "lnk ! k = [part data p]" by simp
  have len: "length (part data p) = len" using Cons.prems(3) by (simp add: part_def p)
  have "(lnk[k := []]) ! (Suc k + c) = [part data (ps ! c)]" if "c < length ps" for c
  proof -
    have "lnk ! (k + Suc c) = [part data ((p # ps) ! Suc c)]" using Cons.prems(1) that by auto
    then show ?thesis by simp
  qed
  then have IH: "recv_parts (enumerate (Suc k) ps) (patch_at off (part data p) buf) (lnk[k := []]) =
      retC (fold (\<lambda>p b. patch_at (fst p) (part data p) b) ps (patch_at off (part data p) buf),
        map (\<lambda>c. if Suc k \<le> c \<and> c < Suc k + length ps then [] else lnk[k := []] ! c) [0..<length (lnk[k := []])])"
    using Cons.prems(2-4) by (intro Cons.IH) auto
  have m: "map (\<lambda>c. if Suc k \<le> c \<and> c < Suc k + length ps then [] else lnk[k := []] ! c) [0..<length (lnk[k := []])] =
      map (\<lambda>c. if k \<le> c \<and> c < k + length (p # ps) then [] else lnk ! c) [0..<length lnk]"
    using Cons.prems(2) by (intro nth_equalityI) (auto simp: nth_list_update)
  have "0 < len" "len < 2 ^ 32" using Cons.prems(3,4) p by auto
  then have r: "ch_recv lnk k len = retC (part data p, lnk[k := []])" using q len by (simp add: ch_recv_def)
  have "recv_parts (enumerate k (p # ps)) buf lnk =
      recv_parts (enumerate (Suc k) ps) (patch_at off (part data p) buf) (lnk[k := []])"
    using r by (simp add: p)
  then show ?case using IH unfolding m by (simp add: p)
qed

text \<open>Filling a buffer part by part from the front.\<close>

lemma fold_patch_chunk_list:
  assumes "length data = sz" and "length buf = sz"
  shows "fold (\<lambda>p b. patch_at (fst p) (part data p) b) (chunk_list sz use per) buf =
    take (use * per) data @ drop (use * per) buf"
  using assms
proof (induction use)
  case (Suc use)
  let ?step = "\<lambda>p b. patch_at (fst p) (part data p) b"
  let ?last = "let begin = use * per; end = min sz (begin + per) in if begin < end then [(begin, end - begin)] else []"
  have "chunk_list sz (Suc use) per = chunk_list sz use per @ ?last" by (simp add: chunk_list_def)
  then have "fold ?step (chunk_list sz (Suc use) per) buf = fold ?step ?last (take (use * per) data @ drop (use * per) buf)"
    using Suc by simp
  also have "\<dots> = take (Suc use * per) data @ drop (Suc use * per) buf"
  proof (cases "use * per < min sz (use * per + per)")
    case True
    define b where "b = use * per"
    have m: "take (min sz (b + per)) data = take (b + per) data" using Suc.prems by (simp add: min_def)
    have d: "drop (min sz (b + per)) buf = drop (b + per) buf" using Suc.prems by (simp add: min_def)
    have lt: "b < min sz (b + per)" using True by (simp add: b_def)
    have "patch_at b (take (min sz (b + per) - b) (drop b data)) (take b data @ drop b buf) =
        (take b data @ take (min sz (b + per) - b) (drop b data)) @ drop (min sz (b + per)) buf"
      using Suc.prems lt by (simp add: patch_at_def)
    also have "take b data @ take (min sz (b + per) - b) (drop b data) = take (min sz (b + per)) data"
      using lt take_add [of b "min sz (b + per) - b" data] by simp
    finally have "patch_at b (take (min sz (b + per) - b) (drop b data)) (take b data @ drop b buf) =
        take (b + per) data @ drop (b + per) buf"
      using m d by simp
    then show ?thesis using True by (simp add: Let_def part_def slice_def add.commute flip: b_def)
  next
    case False
    then have "sz \<le> use * per \<or> per = 0" by (auto simp: min_def split: if_splits)
    then show ?thesis using False Suc.prems by (auto simp: Let_def)
  qed
  finally show ?case .
qed (simp add: chunk_list_def)

lemma recv_parts_one:
  assumes "lnk ! 0 = [data]" and "length buf = length data" and "0 < length data" and "length data < 2 ^ 32"
  shows "recv_parts [(0, 0, length buf)] buf lnk = retC (data, lnk[0 := []])"
  using assms by (simp add: ch_recv_def patch_at_def)

text \<open>Over idle channels, the receiver gets the sender's buffer and the channels are idle again.\<close>

lemma net_recv_net_send:
  assumes idle: "lnk = replicate m []" and m: "0 < m" "peer < length chls" "chls ! peer = m"
    and len: "length buf = length data" and same: "peer' < length chls'" "chls' ! peer' = m"
    and d: "0 < length data" "length data < 2 ^ 32"
  shows "\<exists>l'. net_send mt chls peer data lnk = retC l' \<and> net_await mt chls' peer' buf l' = retC (data, lnk)"
proof (cases "shouldSplit mt chls peer (length data)")
  case False
  then have f: "\<not> shouldSplit mt chls' peer' (length buf)" using m same len by (auto simp: shouldSplit_def)
  obtain k where k: "m = Suc k" using m(1) by (cases m) auto
  have "net_send mt chls peer data lnk = retC (lnk[0 := [data]])"
    using False by (simp add: net_send_def Let_def ch_send_fits [OF d] ch_put_def idle k)
  moreover have "(lnk[0 := [data]])[0 := []] = lnk" by (simp add: idle k)
  moreover have "(lnk[0 := [data]]) ! 0 = [data]" by (simp add: idle k)
  moreover have "net_asyncRecv mt chls' peer' (length buf) = Inr [(0, 0, length buf)]"
    using f d len by (simp add: net_asyncRecv_def)
  ultimately show ?thesis
    using recv_parts_one [of "lnk[0 := [data]]" data buf] len d by (simp add: net_await_def PendingRecv_wait_def)
next
  case True
  then have t: "shouldSplit mt chls' peer' (length buf)" using m same len by (auto simp: shouldSplit_def)
  define ps where "ps = chunks (length data) m"
  have lp: "length ps \<le> m" using length_chunks by (simp add: ps_def)
  have bd: "\<forall>p \<in> set ps. 0 < snd p \<and> fst p + snd p \<le> length data" using chunks_bounds unfolding ps_def by blast
  have fits: "0 < length (part data p) \<and> length (part data p) < 2 ^ 32" if "p \<in> set ps" for p
    using bspec [OF bd that] d by (simp add: part_def)
  define l' where "l' = fold (\<lambda>i l. ch_put l i (part data (ps ! i))) [0..<length ps] lnk"
  have snd: "net_send mt chls peer data lnk = retC l'"
    using True m each_run_send [of "[0..<length ps]" data ps lnk] fits
    by (simp add: net_send_def Let_def eachChunk_def l'_def flip: ps_def)
  have "l' = map (\<lambda>c. if c \<in> set [0..<length ps] then lnk ! c @ [part data (ps ! c)] else lnk ! c) [0..<length lnk]"
    unfolding l'_def using lp idle by (intro fold_ch_put) auto
  then have l': "l' = map (\<lambda>c. if c < length ps then [part data (ps ! c)] else []) [0..<m]"
    using idle by auto
  obtain use per where ul: "ps = chunk_list (length data) use per" "length data \<le> use * per"
    using chunks_eq [OF d(1) m(1)] unfolding ps_def by blast
  have "recv_parts (enumerate 0 ps) buf l' = retC (fold (\<lambda>p b. patch_at (fst p) (part data p) b) ps buf,
      map (\<lambda>c. if 0 \<le> c \<and> c < 0 + length ps then [] else l' ! c) [0..<length l'])"
    using lp bd d(2) by (intro recv_parts_sent) (auto simp: l')
  also have "fold (\<lambda>p b. patch_at (fst p) (part data p) b) ps buf = data"
    using fold_patch_chunk_list [of data "length data" buf use per] ul len by simp
  also have "map (\<lambda>c. if 0 \<le> c \<and> c < 0 + length ps then [] else l' ! c) [0..<length l'] = lnk"
    unfolding l' idle by (intro nth_equalityI) auto
  finally have "recv_parts (enumerate 0 ps) buf l' = retC (data, lnk)" .
  moreover have "ch_bytes (snd p) \<noteq> 0" if "p \<in> set ps" for p using bspec [OF bd that] d(2) by simp
  then have "net_asyncRecv mt chls' peer' (length buf) = Inr (enumerate 0 ps)"
    using t same len by (auto simp: net_asyncRecv_def guardE_def simp flip: ps_def)
  ultimately show ?thesis using snd by (simp add: net_await_def PendingRecv_wait_def)
qed

end
