(* ===== verification/Psi_Bytes.thy ===== *)
theory Psi_Bytes
  imports RB_Params Kem_Vec
begin

text \<open>
  Rows of 128-bit blocks as byte strings: the casts, copies and bit views of
  \<open>frontend/pqpsi/protocols/tools/base.h\<close>. A block in memory is its 16 bytes, least
  significant first (the byte order of \<open>__m128i\<close> on the supported machines).
\<close>

section \<open>Blocks and bytes\<close>

definition block_bytes :: "block \<Rightarrow> u8 list" where
  "block_bytes b = map word_of_nat (digits 256 16 (unat b))"

definition bytes_block :: "u8 list \<Rightarrow> block" where
  "bytes_block bs = word_of_nat (le_val bs)"

definition bytesOf :: "block list \<Rightarrow> u8 list" where
  "bytesOf row = concat (map block_bytes row)"

text \<open>The blocks a byte string of \<open>16 * n\<close> bytes holds.\<close>

fun blocksOf :: "nat \<Rightarrow> u8 list \<Rightarrow> block list" where
  "blocksOf 0 bs = []"
| "blocksOf (Suc n) bs = bytes_block (take 16 bs) # blocksOf n (drop 16 bs)"

definition rowBytes :: "nat \<Rightarrow> nat" where
  "rowBytes rowSize = rowSize * 16"

lemma length_block_bytes [simp]: "length (block_bytes b) = 16"
  by (simp add: block_bytes_def)

lemma length_bytesOf [simp]: "length (bytesOf row) = 16 * length row"
  by (induction row) (simp_all add: bytesOf_def)

lemma length_blocksOf [simp]: "length (blocksOf n bs) = n"
  by (induction n arbitrary: bs) simp_all

lemma le_val_digits: "le_val (map word_of_nat (digits 256 n x)) = x mod 256 ^ n"
proof -
  have "map unat (map word_of_nat ds :: u8 list) = ds" if "\<forall>d \<in> set ds. d < 256" for ds
    using that by (intro map_idI [where xs = ds, THEN trans [rotated]])
      (auto simp: unsigned_of_nat take_bit_nat_eq_self intro!: map_idI)
  then have "map unat (map word_of_nat (digits 256 n x) :: u8 list) = digits 256 n x"
    using digits_lt [of 256 _ n x] by auto
  then show ?thesis unfolding le_val_def horner_unat using horner_digits by metis
qed

lemma digits_le_val: "map word_of_nat (digits 256 (length bs) (le_val bs)) = bs"
proof (rule le_val_inj)
  show "le_val (map word_of_nat (digits 256 (length bs) (le_val bs))) = le_val bs"
    using le_val_lt [of bs] unfolding le_val_digits by simp
qed simp

lemma bytes_block_block_bytes [simp]: "bytes_block (block_bytes b) = b"
proof -
  have "unat b < 256 ^ 16" using unat_lt [of b] by simp
  then show ?thesis by (simp add: bytes_block_def block_bytes_def le_val_digits)
qed

lemma block_bytes_bytes_block: "length bs = 16 \<Longrightarrow> block_bytes (bytes_block bs) = bs"
proof -
  assume len: "length bs = 16"
  have "unat (bytes_block bs) = le_val bs"
    using le_val_lt [of bs] len unfolding bytes_block_def by (simp add: unsigned_of_nat take_bit_nat_eq_self)
  then show ?thesis using digits_le_val [of bs] len by (simp add: block_bytes_def)
qed

lemma bytesOf_simps [simp]: "bytesOf [] = []" "bytesOf (b # bs) = block_bytes b @ bytesOf bs"
  by (simp_all add: bytesOf_def)

lemma blocksOf_bytesOf: "n = length row \<Longrightarrow> blocksOf n (bytesOf row) = row"
  by (induction row arbitrary: n) simp_all

lemma bytesOf_blocksOf: "length bs = 16 * n \<Longrightarrow> bytesOf (blocksOf n bs) = bs"
  by (induction n arbitrary: bs) (simp_all add: block_bytes_bytes_block)

section \<open>Rows of a flat buffer\<close>

definition rowPtr :: "block list \<Rightarrow> nat \<Rightarrow> nat \<Rightarrow> block list" where
  "rowPtr rows rowSize row = slice (row * rowSize) rowSize rows"

lemma rowPtr_concat:
  "(\<And>y. y \<in> set xss \<Longrightarrow> length y = n) \<Longrightarrow> i < length xss \<Longrightarrow> rowPtr (concat xss) n i = xss ! i"
  by (simp add: rowPtr_def slice_concat)

lemma concat_rows: "concat (map (rowPtr flat n) [0..<k]) = take (k * n) flat"
proof (induction k)
  case (Suc k)
  then show ?case using take_add [of "k * n" n flat] by (simp add: rowPtr_def slice_def add.commute)
qed simp

lemma rows_of_flat: "length flat = k * n \<Longrightarrow> concat (map (rowPtr flat n) [0..<k]) = flat"
  by (simp add: concat_rows)

section \<open>The fixed-width row of the ML-KEM protocol\<close>

definition KEM_key_block_size :: nat where "KEM_key_block_size = 50"
definition KEM_key_size_bit :: nat where "KEM_key_size_bit = KEM_key_block_size * 16 * 8"
definition kKemBytes :: nat where "kKemBytes = KEM_key_block_size * 16"
definition kMaxKeyTries :: nat where "kMaxKeyTries = 64"

lemmas row_consts = KEM_key_block_size_def KEM_key_size_bit_def kKemBytes_def kMaxKeyTries_def

definition toBytes :: "block list \<Rightarrow> u8 list" where
  "toBytes key = bytesOf key"

definition rowBytesOf :: "block list \<Rightarrow> u8 list result" where
  "rowBytesOf row =
     guardE (length row \<noteq> KEM_key_block_size) (InvalidArgument ''rowBytes: wrong block count'')
       (Inr (bytesOf row))"

definition fromBytes :: "u8 list \<Rightarrow> block list result" where
  "fromBytes src =
     guardE (length src \<noteq> kKemBytes) (InvalidArgument ''fromBytes: wrong byte count'')
       (Inr (blocksOf KEM_key_block_size src))"

definition copyRow :: "block list \<Rightarrow> block list" where
  "copyRow inp = inp"

text \<open>The bit view: eight bits of each byte, one per element.\<close>

definition byte_bits :: "u8 \<Rightarrow> u8 list" where
  "byte_bits b =
     [drop_bit 0 b AND 1, drop_bit 1 b AND 1, drop_bit 2 b AND 1, drop_bit 3 b AND 1,
      drop_bit 4 b AND 1, drop_bit 5 b AND 1, drop_bit 6 b AND 1, drop_bit 7 b AND 1]"

definition bits_byte :: "u8 list \<Rightarrow> nat \<Rightarrow> u8" where
  "bits_byte inp off =
     push_bit 0 (inp ! (off + 0) AND 1) OR push_bit 1 (inp ! (off + 1) AND 1) OR
     push_bit 2 (inp ! (off + 2) AND 1) OR push_bit 3 (inp ! (off + 3) AND 1) OR
     push_bit 4 (inp ! (off + 4) AND 1) OR push_bit 5 (inp ! (off + 5) AND 1) OR
     push_bit 6 (inp ! (off + 6) AND 1) OR push_bit 7 (inp ! (off + 7) AND 1)"

definition toBits :: "block list \<Rightarrow> u8 list" where
  "toBits inp = concat (map (\<lambda>i. byte_bits (bytesOf inp ! i)) [0..<kKemBytes])"

definition toBlocks :: "u8 list \<Rightarrow> block list result" where
  "toBlocks inp =
     guardE (length inp \<noteq> KEM_key_size_bit) (InvalidArgument ''toBlocks: wrong bit count'')
       (Inr (blocksOf KEM_key_block_size (map (\<lambda>i. bits_byte inp (i * 8)) [0..<kKemBytes])))"

lemma bits_byte_byte_bits:
  assumes "slice off 8 inp = byte_bits b" and "off + 8 \<le> length inp"
  shows "bits_byte inp off = b"
proof -
  have nth: "inp ! (off + i) = byte_bits b ! i" if "i < 8" for i
    using that assms nth_slice [of off 8 inp i] by simp
  have n0: "inp ! off = byte_bits b ! 0" "inp ! Suc off = byte_bits b ! 1"
      "inp ! Suc (Suc off) = byte_bits b ! 2"
    using nth [of 0] nth [of 1] nth [of 2] by simp_all
  have mult_two: "bit (x * 2) (Suc 0) = bit x 0" for x :: u8
    using bit_double_iff [of x "Suc 0"] by (simp add: mult.commute)
  show ?thesis
  proof (rule bit_word_eqI)
    fix k assume "k < LENGTH(8)"
    then consider "k = 0" | "k = 1" | "k = 2" | "k = 3" | "k = 4" | "k = 5" | "k = 6" | "k = 7"
      by (simp, linarith)
    then show "bit (bits_byte inp off) k = bit b k"
      by cases (simp_all add: bits_byte_def nth n0 byte_bits_def bit_simps bit_double_iff bit_drop_bit_eq mult_two)
  qed
qed

lemma toBlocks_toBits:
  assumes "length row = KEM_key_block_size"
  shows "toBlocks (toBits row) = Inr row"
proof -
  have len: "length (byte_bits b) = 8" for b by (simp add: byte_bits_def)
  let ?xss = "map (\<lambda>i. byte_bits (bytesOf row ! i)) [0..<kKemBytes]"
  have u: "length y = 8" if "y \<in> set ?xss" for y using that len by auto
  have l: "length (toBits row) = KEM_key_size_bit"
    using length_concat_uniform [of ?xss 8, OF u] by (simp add: toBits_def row_consts)
  have "bits_byte (toBits row) (i * 8) = bytesOf row ! i" if "i < kKemBytes" for i
  proof (rule bits_byte_byte_bits)
    show "slice (i * 8) 8 (toBits row) = byte_bits (bytesOf row ! i)"
      using slice_concat [of ?xss 8 i, OF u] that by (simp add: toBits_def)
    show "i * 8 + 8 \<le> length (toBits row)" using that l by (simp add: row_consts)
  qed
  then have "map (\<lambda>i. bits_byte (toBits row) (i * 8)) [0..<kKemBytes] = bytesOf row"
    using assms by (intro nth_equalityI) (simp_all add: row_consts)
  then show ?thesis using l assms by (simp add: toBlocks_def blocksOf_bytesOf)
qed

end
