(* ===== verification/Psi_Tools.thy ===== *)
theory Psi_Tools
  imports Psi_Bytes RB_Rows RB_Parallel "HOL-Library.Multiset"
begin

text \<open>
  The parallel loop, the masks and the permutation calls of
  \<open>frontend/pqpsi/protocols/tools\<close> (\<open>parallel.h\<close>, \<open>mask.h\<close>, \<open>base.h\<close>), with the proof that
  every interleaving of the worker threads leaves the buffer the sequential loop leaves.
\<close>

section \<open>Worker threads\<close>

definition workerLimit :: "nat \<Rightarrow> bool \<Rightarrow> nat \<Rightarrow> nat" where
  "workerLimit hc multiThread requested =
     (if \<not> multiThread then 1
      else let hw = max 1 hc
           in if requested = 0 then hw else max 1 (min requested hw))"

definition workerCount :: "nat \<Rightarrow> nat \<Rightarrow> nat \<Rightarrow> bool \<Rightarrow> nat \<Rightarrow> nat" where
  "workerCount hc n minWork multiThread workerThreads =
     (if n = 0 \<or> \<not> multiThread then 1
      else let maxThreads = max 1 (n div max 1 minWork)
           in max 1 (min (workerLimit hc multiThread workerThreads) maxThreads))"

function spawn_chunks :: "nat \<Rightarrow> nat \<Rightarrow> nat \<Rightarrow> nat \<Rightarrow> (nat \<times> nat) list" where
  "spawn_chunks n chunk threadCount t =
     (if t < threadCount
      then let begin = t * chunk
           in if begin \<ge> n then []
              else (begin, min n (begin + chunk)) # spawn_chunks n chunk threadCount (Suc t)
      else [])"
  by pat_completeness auto
termination
  by (relation "measure (\<lambda>(n, chunk, threadCount, t). threadCount - t)") auto

declare spawn_chunks.simps [simp del]

text \<open>Whether threads are started, and the ranges the callback is called with.\<close>

definition parallelFor_plan :: "nat \<Rightarrow> nat \<Rightarrow> nat \<Rightarrow> bool \<Rightarrow> nat \<Rightarrow> bool \<times> (nat \<times> nat) list" where
  "parallelFor_plan hc n minWork multiThread workerThreads =
     (if n = 0 then (False, [])
      else if \<not> multiThread then (False, [(0, n)])
      else
        let threadCount = workerCount hc n minWork multiThread workerThreads
        in if threadCount \<le> 1 then (False, [(0, n)])
           else (True, spawn_chunks n ((n + threadCount - 1) div threadCount) threadCount 0))"

text \<open>
  A loop body that fills slot \<open>i\<close> is a function of \<open>i\<close> and the loop is the list of its results.
  An exception that leaves the callback propagates from the calling thread but ends the
  program from a worker thread.
\<close>

definition parallelFor ::
  "nat \<Rightarrow> nat \<Rightarrow> nat \<Rightarrow> bool \<Rightarrow> nat \<Rightarrow> (nat \<Rightarrow> 'a result) \<Rightarrow> 'a list result" where
  "parallelFor hc n minWork multiThread workerThreads fn =
     (case parallelFor_plan hc n minWork multiThread workerThreads of (threads, chunks) \<Rightarrow>
        case mapE (\<lambda>(begin, end). mapE fn [begin..<end]) chunks of
          Inl e \<Rightarrow> Inl (if threads then Terminate else e)
        | Inr rs \<Rightarrow> Inr (concat rs))"

text \<open>
  The bodies of \<open>kem_rows.h\<close> that may throw catch their exception, and the caller rethrows one
  after the threads are joined (the one of the first row here).
\<close>

definition parallelTry ::
  "nat \<Rightarrow> nat \<Rightarrow> nat \<Rightarrow> bool \<Rightarrow> nat \<Rightarrow> (nat \<Rightarrow> 'a result) \<Rightarrow> 'a list result" where
  "parallelTry hc n minWork multiThread workerThreads fn =
     bindE (parallelFor hc n minWork multiThread workerThreads (\<lambda>i. Inr (fn i))) (mapE (\<lambda>r. r))"

lemma spawn_chunks_ranges:
  "0 < chunk \<Longrightarrow> concat (map (\<lambda>(b, e). [b..<e]) (spawn_chunks n chunk threadCount t)) =
    concat (map (\<lambda>t. [min n (t * chunk)..<min n (t * chunk + chunk)]) [t..<threadCount])"
proof (induction n chunk threadCount t rule: spawn_chunks.induct)
  case (1 n chunk threadCount t)
  show ?case
  proof (cases "t < threadCount \<and> t * chunk < n")
    case True
    then have "[t..<threadCount] = t # [Suc t..<threadCount]" by (simp add: upt_conv_Cons)
    moreover have "spawn_chunks n chunk threadCount t =
        (t * chunk, min n (t * chunk + chunk)) # spawn_chunks n chunk threadCount (Suc t)"
      using True by (simp add: spawn_chunks.simps [of n chunk threadCount t] Let_def)
    ultimately show ?thesis using "1.IH" "1.prems" True by simp
  next
    case False
    have "[min n (u * chunk)..<min n (u * chunk + chunk)] = []" if "u \<in> set [t..<threadCount]" for u
    proof -
      have "n \<le> t * chunk" "t \<le> u" using that False by auto
      then have "n \<le> u * chunk" by (meson mult_le_mono1 order_trans)
      then show ?thesis by simp
    qed
    then have "concat (map (\<lambda>t. [min n (t * chunk)..<min n (t * chunk + chunk)]) [t..<threadCount]) = []"
      by simp
    then show ?thesis using False by (auto simp: spawn_chunks.simps [of n chunk threadCount t])
  qed
qed

lemma parallelFor_plan_cover:
  "concat (map (\<lambda>(b, e). [b..<e]) (snd (parallelFor_plan hc n minWork multiThread workerThreads))) = [0..<n]"
proof -
  obtain k where k: "workerCount hc n minWork multiThread workerThreads = k" by simp
  show ?thesis
  proof (cases "n = 0 \<or> \<not> multiThread \<or> k \<le> 1")
    case False
    let ?c = "(n + k - 1) div k"
    have "n \<le> k * ?c" using False by (intro ceil_div_mult) simp
    moreover have "0 < ?c" using False by (intro ceil_div_pos) auto
    moreover have "parallelFor_plan hc n minWork multiThread workerThreads = (True, spawn_chunks n ?c k 0)"
      using False k by (auto simp: parallelFor_plan_def Let_def)
    ultimately show ?thesis by (simp add: spawn_chunks_ranges concat_chunk_ranges min_absorb1)
  qed (use k in \<open>auto simp: parallelFor_plan_def Let_def\<close>)
qed

lemma mapE_chunks:
  "bindE (mapE (\<lambda>(b, e). mapE fn [b..<e]) cs) (\<lambda>rs. Inr (concat rs)) =
     mapE fn (concat (map (\<lambda>(b, e). [b..<e]) cs))"
  using mapE_concat [of fn "map (\<lambda>(b, e). [b..<e]) cs"] by (simp add: mapE_map case_prod_unfold)

lemma parallelFor_Inr:
  "parallelFor hc n minWork multiThread workerThreads fn = Inr ys \<longleftrightarrow> mapE fn [0..<n] = Inr ys"
proof -
  obtain th cs where p: "parallelFor_plan hc n minWork multiThread workerThreads = (th, cs)" by fastforce
  then have "mapE fn [0..<n] = bindE (mapE (\<lambda>(b, e). mapE fn [b..<e]) cs) (\<lambda>rs. Inr (concat rs))"
    using parallelFor_plan_cover [of hc n minWork multiThread workerThreads] by (simp add: mapE_chunks)
  then show ?thesis by (simp add: parallelFor_def p split: sum.splits)
qed

lemma parallelFor_total [simp]:
  "parallelFor hc n minWork multiThread workerThreads (\<lambda>i. Inr (f i)) = Inr (map f [0..<n])"
  by (simp add: parallelFor_Inr mapE_all_Inr)

lemma parallelTry_sequential:
  "parallelTry hc n minWork multiThread workerThreads fn = mapE fn [0..<n]"
  by (simp add: parallelTry_def mapE_map)

section \<open>Interleavings of the workers\<close>

text \<open>
  \<open>interleaves ths is\<close>: the threads, each with the list of loop indices it still has to run,
  run them one at a time in the order \<open>is\<close>.
\<close>

inductive interleaves :: "nat list list \<Rightarrow> nat list \<Rightarrow> bool" where
  idle: "\<forall>th \<in> set ths. th = [] \<Longrightarrow> interleaves ths []"
| pass: "t < length ths \<Longrightarrow> ths ! t = i # rest \<Longrightarrow> interleaves (ths[t := rest]) is \<Longrightarrow>
    interleaves ths (i # is)"

inductive_cases interleaves_ConsE: "interleaves ths (i # is)"

text \<open>Pass \<open>i\<close> of a loop over the rows of a flat buffer: row \<open>i\<close> is read and overwritten.\<close>

definition row_step :: "nat \<Rightarrow> (nat \<Rightarrow> block list \<Rightarrow> block list) \<Rightarrow> nat \<Rightarrow> block list \<Rightarrow> block list" where
  "row_step rowSize f i buf = patch_at (i * rowSize) (f i (rowPtr buf rowSize i)) buf"

lemma mset_concat_update:
  "t < length ths \<Longrightarrow> ths ! t = i # rest \<Longrightarrow> mset (concat ths) = add_mset i (mset (concat (ths[t := rest])))"
proof (induction ths arbitrary: t)
  case (Cons th ths)
  then show ?case by (cases t) auto
qed simp

lemma interleaves_mset: "interleaves ths is \<Longrightarrow> mset is = mset (concat ths)"
proof (induction rule: interleaves.induct)
  case (idle ths)
  then show ?case by (auto simp: concat_eq_Nil_conv)
next
  case (pass t ths i rest "is")
  then show ?case using mset_concat_update [of t ths i rest] by simp
qed

lemma row_steps:
  assumes "distinct is" and "set is \<subseteq> {..<length xss}" and "\<And>y. y \<in> set xss \<Longrightarrow> length y = n"
    and len: "\<And>i r. length r = n \<Longrightarrow> length (f i r) = n"
  shows "fold (row_step n f) is (concat xss) =
    concat (map (\<lambda>i. if i \<in> set is then f i (xss ! i) else xss ! i) [0..<length xss])"
  using assms(1-3)
proof (induction "is" arbitrary: xss)
  case Nil
  then show ?case by (simp add: map_nth)
next
  case (Cons i "is")
  let ?yss = "xss[i := f i (xss ! i)]"
  have i: "i < length xss" "length (xss ! i) = n" using Cons.prems by auto
  have step: "row_step n f i (concat xss) = concat ?yss"
    unfolding row_step_def rowPtr_def using i Cons.prems(3) len
    by (simp add: slice_concat patch_at_concat)
  have "length y = n" if "y \<in> set ?yss" for y
    using that Cons.prems(3) i len set_update_subset_insert [of xss i "f i (xss ! i)"] by auto
  then have "fold (row_step n f) is (concat ?yss) =
      concat (map (\<lambda>j. if j \<in> set is then f j (?yss ! j) else ?yss ! j) [0..<length ?yss])"
    using Cons.IH [of ?yss] Cons.prems(1,2) by auto
  moreover have "map (\<lambda>j. if j \<in> set is then f j (?yss ! j) else ?yss ! j) [0..<length ?yss] =
      map (\<lambda>j. if j \<in> set (i # is) then f j (xss ! j) else xss ! j) [0..<length xss]"
    using Cons.prems(1) i(1) by (auto simp: nth_list_update)
  ultimately show ?case unfolding fold_simps comp_apply step by metis
qed

text \<open>Whatever the interleaving, the buffer ends up as the sequential loop leaves it.\<close>

lemma interleaving_irrelevant:
  assumes il: "interleaves (map (\<lambda>(b, e). [b..<e])
      (snd (parallelFor_plan hc k minWork multiThread workerThreads))) is"
    and buf: "length buf = k * n" and len: "\<And>i r. length r = n \<Longrightarrow> length (f i r) = n"
  shows "fold (row_step n f) is buf = concat (map (\<lambda>i. f i (rowPtr buf n i)) [0..<k])"
proof -
  have m: "mset is = mset [0..<k]"
    using interleaves_mset [OF il] by (simp add: parallelFor_plan_cover)
  then have s: "set is = {..<k}" using mset_eq_setD [OF m] by auto
  have d: "distinct is" using m by (metis distinct_upt mset_eq_imp_distinct_iff)
  let ?xss = "map (rowPtr buf n) [0..<k]"
  have w: "length y = n" if "y \<in> set ?xss" for y
  proof -
    obtain i where i: "i < k" "y = rowPtr buf n i" using \<open>y \<in> set ?xss\<close> by auto
    have "Suc i * n \<le> k * n" using i(1) by (intro mult_le_mono1) simp
    then show ?thesis using i buf by (simp add: rowPtr_def add.commute)
  qed
  have "fold (row_step n f) is (concat ?xss) =
      concat (map (\<lambda>i. if i \<in> set is then f i (?xss ! i) else ?xss ! i) [0..<length ?xss])"
    by (rule row_steps [OF d _ w len]) (simp_all add: s)
  also have "\<dots> = concat (map (\<lambda>i. f i (rowPtr buf n i)) [0..<k])"
    by (intro arg_cong [of _ _ concat]) (simp add: s)
  finally show ?thesis using buf by (simp add: concat_rows)
qed

section \<open>Masks\<close>

definition fillMask :: "cipher \<Rightarrow> block \<Rightarrow> nat \<Rightarrow> block list" where
  "fillMask aes key rowSize = map (\<lambda>i. aes key (toBlock 0 (word_of_nat i + 1))) [0..<rowSize]"

definition fillMask_kem :: "cipher \<Rightarrow> block \<Rightarrow> block list" where
  "fillMask_kem aes key = map (\<lambda>i. aes key (toBlock 0 (word_of_nat i + 1))) [0..<KEM_key_block_size]"

definition xorMask :: "block list \<Rightarrow> block list \<Rightarrow> nat \<Rightarrow> block list" where
  "xorMask msk row rowSize = map (\<lambda>i. row ! i XOR msk ! i) [0..<rowSize]"

definition xorMask_kem :: "block list \<Rightarrow> block list \<Rightarrow> block list result" where
  "xorMask_kem msk row =
     guardE (length row \<noteq> KEM_key_block_size) (InvalidArgument ''xorMask: wrong row block count'')
       (Inr (map (\<lambda>i. row ! i XOR msk ! i) [0..<KEM_key_block_size]))"

definition precomputeMasks ::
  "nat \<Rightarrow> cipher \<Rightarrow> block list \<Rightarrow> nat \<Rightarrow> bool \<Rightarrow> nat \<Rightarrow> block list result" where
  "precomputeMasks hc aes items rowSize multiThread workerThreads =
     bindE (parallelFor hc (length items) 16 multiThread workerThreads
              (\<lambda>i. Inr (fillMask aes (items ! i) rowSize)))
       (\<lambda>rows. Inr (concat rows))"

definition precomputeMasks_kem ::
  "nat \<Rightarrow> cipher \<Rightarrow> block list \<Rightarrow> bool \<Rightarrow> nat \<Rightarrow> block list list result" where
  "precomputeMasks_kem hc aes items multiThread workerThreads =
     parallelFor hc (length items) 16 multiThread workerThreads (\<lambda>i. Inr (fillMask_kem aes (items ! i)))"

definition storeTable :: "nat \<Rightarrow> block list list \<Rightarrow> block list \<Rightarrow> nat \<Rightarrow> bool \<Rightarrow> nat \<Rightarrow> block list result" where
  "storeTable hc table flat rowSize multiThread workerThreads =
     bindE (parallelFor hc (length table) 16 multiThread workerThreads
              (\<lambda>j. Inr (take rowSize (table ! j))))
       (\<lambda>rows. Inr (patch_at 0 (concat rows) flat))"

definition loadTable :: "nat \<Rightarrow> block list \<Rightarrow> block list list \<Rightarrow> nat \<Rightarrow> bool \<Rightarrow> nat \<Rightarrow> block list list result" where
  "loadTable hc flat table rowSize multiThread workerThreads =
     parallelFor hc (length table) 16 multiThread workerThreads
       (\<lambda>j. Inr (patch_at 0 (rowPtr flat rowSize j) (table ! j)))"

lemma length_fillMask [simp]: "length (fillMask aes key rowSize) = rowSize"
  by (simp add: fillMask_def)

lemma length_xorMask [simp]: "length (xorMask msk row n) = n"
  by (simp add: xorMask_def)

lemma xorMask_xorMask: "length row = n \<Longrightarrow> xorMask msk (xorMask msk row n) n = row"
  by (rule nth_equalityI) (simp_all add: xorMask_def xor.assoc)

lemma fillMask_kem_eq: "fillMask_kem aes key = fillMask aes key KEM_key_block_size"
  by (simp add: fillMask_kem_def fillMask_def)

lemma precomputeMasks_eq:
  "precomputeMasks hc aes items rowSize multiThread workerThreads =
     Inr (concat (map (\<lambda>x. fillMask aes x rowSize) items))"
proof -
  have "map (\<lambda>i. fillMask aes (items ! i) rowSize) [0..<length items] = map (\<lambda>x. fillMask aes x rowSize) items"
    by (rule nth_equalityI) simp_all
  then show ?thesis by (simp add: precomputeMasks_def)
qed

lemma loadTable_storeTable:
  assumes "length flat = length table * rowSize" and "\<forall>r \<in> set table. length r = rowSize"
    and "length T = length table" and "\<forall>r \<in> set T. length r = rowSize"
  shows "bindE (storeTable hc table flat rowSize mt wt) (\<lambda>flat'. loadTable hc flat' T rowSize mt' wt') = Inr table"
proof -
  have t: "map (\<lambda>j. take rowSize (table ! j)) [0..<length table] = table"
    using assms(2) by (intro nth_equalityI) simp_all
  have c: "length (concat table) = length table * rowSize"
    using assms(2) length_concat_uniform [of table rowSize] by simp
  have "map (\<lambda>j. patch_at 0 (rowPtr (concat table) rowSize j) (T ! j)) [0..<length T] = table"
    using assms(2,3,4) by (intro nth_equalityI) (simp_all add: rowPtr_concat patch_at_def)
  then show ?thesis using assms(1) c by (simp add: storeTable_def loadTable_def t patch_at_def)
qed

section \<open>Counting hits\<close>

text \<open>
  \<open>count_chunk\<close> is the worker's local counter over \<open>[from..<to]\<close>, \<open>count_partial\<close> the vector of
  partial counts and \<open>count_threads\<close> their sum, as the three counting loops of the protocol
  have them. The test of an element may throw.
\<close>

definition count_chunk :: "(nat \<Rightarrow> bool result) \<Rightarrow> nat \<Rightarrow> nat \<Rightarrow> u64 result" where
  "count_chunk p from to = foldE (\<lambda>hits i. bindE (p i) (\<lambda>b. Inr (hits + of_bool b))) 0 [from..<to]"

definition count_partial :: "nat \<Rightarrow> (nat \<Rightarrow> bool result) \<Rightarrow> nat \<Rightarrow> nat \<Rightarrow> u64 list result" where
  "count_partial hc p n threads =
     (let chunk = (n + threads - 1) div threads
      in parallelFor hc threads 1 True threads
           (\<lambda>t. count_chunk p (t * chunk) (min n (t * chunk + chunk))))"

definition count_threads :: "nat \<Rightarrow> (nat \<Rightarrow> bool result) \<Rightarrow> nat \<Rightarrow> bool \<Rightarrow> nat \<Rightarrow> u64 result" where
  "count_threads hc p n multiThread workerThreads =
     (if \<not> multiThread \<or> n < 64 then count_chunk p 0 n
      else bindE (count_partial hc p n (min (workerLimit hc multiThread workerThreads) n))
             (\<lambda>partial. Inr (foldl (+) 0 partial)))"

definition countHits_mask :: "nat \<Rightarrow> u8 list \<Rightarrow> bool \<Rightarrow> nat \<Rightarrow> u64 result" where
  "countHits_mask hc msk multiThread workerThreads =
     count_threads hc (\<lambda>i. Inr (msk ! i \<noteq> 0)) (length msk) multiThread workerThreads"

lemma count_chunk_eq:
  assumes "\<And>i. i < to \<Longrightarrow> p i = Inr (q i)"
  shows "count_chunk p from to = Inr (word_of_nat (length (filter q [from..<to])))"
proof -
  have "foldE (\<lambda>hits i. bindE (p i) (\<lambda>b. Inr (hits + of_bool b))) (word_of_nat h :: u64) is =
      Inr (word_of_nat (h + length (filter q is)))" if "\<forall>i \<in> set is. i < to" for h "is"
    using that
  proof (induction "is" arbitrary: h)
    case (Cons i "is")
    then show ?case using Cons.IH [of "Suc h"] Cons.IH [of h] assms
      by (cases "q i") (simp_all add: add.commute)
  qed simp
  from this [of "[from..<to]" 0] show ?thesis by (simp add: count_chunk_def)
qed

lemma foldl_plus_word: "foldl (+) (word_of_nat h) (map (\<lambda>x. word_of_nat (f x)) xs) =
    (word_of_nat (h + sum_list (map f xs)) :: u64)"
  by (induction xs arbitrary: h) (simp_all add: add.assoc flip: of_nat_add)

lemma length_filter_concat: "length (filter p (concat xss)) = sum_list (map (\<lambda>xs. length (filter p xs)) xss)"
  by (induction xss) simp_all

text \<open>The threads' count is the sequential count.\<close>

lemma count_threads_eq:
  assumes p: "\<And>i. i < n \<Longrightarrow> p i = Inr (q i)"
  shows "count_threads hc p n multiThread workerThreads = Inr (word_of_nat (length (filter q [0..<n])))"
proof (cases "\<not> multiThread \<or> n < 64")
  case True
  then show ?thesis using count_chunk_eq [of n p q 0] p by (auto simp: count_threads_def)
next
  case False
  define k where "k = min (workerLimit hc True workerThreads) n"
  define c where "c = (n + k - 1) div k"
  have k: "0 < k" using False by (auto simp: k_def workerLimit_def Let_def)
  have cover: "n \<le> k * c" unfolding c_def using k by (rule ceil_div_mult)
  have "[t * c..<min n (t * c + c)] = [min n (t * c)..<min n (t * c + c)]" for t by (cases "t * c \<le> n") simp_all
  then have "concat (map (\<lambda>t. [t * c..<min n (t * c + c)]) [0..<k]) = [0..<n]"
    using cover by (simp add: concat_chunk_ranges min_absorb1)
  then have "length (filter q [0..<n]) = sum_list (map (\<lambda>t. length (filter q [t * c..<min n (t * c + c)])) [0..<k])"
    using length_filter_concat [of q "map (\<lambda>t. [t * c..<min n (t * c + c)]) [0..<k]"] by (simp add: comp_def)
  moreover have "count_chunk p (t * c) (min n (t * c + c)) =
      Inr (word_of_nat (length (filter q [t * c..<min n (t * c + c)])))" for t
    using count_chunk_eq [of "min n (t * c + c)" p q "t * c"] p by simp
  then have "count_partial hc p n k =
      Inr (map (\<lambda>t. word_of_nat (length (filter q [t * c..<min n (t * c + c)]))) [0..<k])"
    unfolding count_partial_def Let_def c_def [symmetric] by simp
  ultimately show ?thesis
    using False foldl_plus_word [of 0 "\<lambda>t. length (filter q [t * c..<min n (t * c + c)])" "[0..<k]"]
    by (simp add: count_threads_def k_def [symmetric])
qed

end
