(* ===== verification/Perm_Api.thy ===== *)
theory Perm_Api
  imports Psi_Tools
begin

text \<open>
  The permutation interface \<open>frontend/permutation/api.h\<close> and the row calls of
  \<open>protocols/tools/base.h\<close>: a permutation object is its two byte-string operations, which may
  throw. The contract \<open>byte_perm\<close> is what the protocol relies on; each construction of
  \<open>frontend/permutation\<close> interprets it.
\<close>

record Perm =
  encryptBytes :: "u8 list \<Rightarrow> u8 list result"
  decryptBytes :: "u8 list \<Rightarrow> u8 list result"

definition permute :: "Perm \<Rightarrow> block list \<Rightarrow> nat \<Rightarrow> block list result" where
  "permute prm inp rowSize =
     bindE (encryptBytes prm (bytesOf inp)) (\<lambda>bytes. Inr (blocksOf rowSize bytes))"

definition permute_kem :: "Perm \<Rightarrow> block list \<Rightarrow> block list result" where
  "permute_kem prm inp =
     bindE (encryptBytes prm (toBytes inp)) (\<lambda>bytes. Inr (blocksOf KEM_key_block_size bytes))"

definition unpermute :: "Perm \<Rightarrow> block list \<Rightarrow> nat \<Rightarrow> block list result" where
  "unpermute prm row rowSize =
     bindE (decryptBytes prm (bytesOf row)) (\<lambda>bytes. Inr (blocksOf rowSize bytes))"

definition unpermute_kem :: "Perm \<Rightarrow> block list \<Rightarrow> block list result" where
  "unpermute_kem prm row =
     guardE (length row \<noteq> KEM_key_block_size) (InvalidArgument ''unpermute: wrong block count'')
       (bindE (decryptBytes prm (bytesOf row)) (\<lambda>bytes. Inr (blocksOf KEM_key_block_size bytes)))"

text \<open>\<open>perm_ok prm n\<close>: on strings of \<open>n\<close> bytes the two operations are total and mutually inverse.\<close>

definition perm_ok :: "Perm \<Rightarrow> nat \<Rightarrow> bool" where
  "perm_ok prm n \<longleftrightarrow>
     (\<forall>x. length x = n \<longrightarrow> (\<exists>y. encryptBytes prm x = Inr y \<and> length y = n \<and> decryptBytes prm y = Inr x)) \<and>
     (\<forall>y. length y = n \<longrightarrow> (\<exists>x. decryptBytes prm y = Inr x \<and> length x = n \<and> encryptBytes prm x = Inr y))"

section \<open>The contract\<close>

locale byte_perm =
  fixes enc dec :: "'p \<Rightarrow> u8 list \<Rightarrow> u8 list result"
    and width :: "'p \<Rightarrow> nat"
    and usable :: "'p \<Rightarrow> bool"
  assumes enc_ok: "usable p \<Longrightarrow> length x = width p \<Longrightarrow>
      \<exists>y. enc p x = Inr y \<and> length y = width p \<and> dec p y = Inr x"
    and dec_ok: "usable p \<Longrightarrow> length y = width p \<Longrightarrow>
      \<exists>x. dec p y = Inr x \<and> length x = width p \<and> enc p x = Inr y"
begin

lemma enc_inj:
  "usable p \<Longrightarrow> length x = width p \<Longrightarrow> length x' = width p \<Longrightarrow> enc p x = enc p x' \<Longrightarrow> x = x'"
  using enc_ok [of p x] enc_ok [of p x'] by auto

lemma enc_dec_iff:
  "usable p \<Longrightarrow> length x = width p \<Longrightarrow> length y = width p \<Longrightarrow> enc p x = Inr y \<longleftrightarrow> dec p y = Inr x"
  using enc_ok [of p x] dec_ok [of p y] by auto

text \<open>Encryption is a bijection of the strings of the permutation's width.\<close>

lemma enc_bij:
  assumes "usable p"
  shows "bij_betw (\<lambda>x. projr (enc p x)) {x. length x = width p} {y. length y = width p}"
proof (rule bij_betw_byWitness [where f' = "\<lambda>y. projr (dec p y)"])
  show "\<forall>x \<in> {x. length x = width p}. projr (dec p (projr (enc p x))) = x"
    using enc_ok [OF assms] by force
  show "\<forall>y \<in> {y. length y = width p}. projr (enc p (projr (dec p y))) = y"
    using dec_ok [OF assms] by force
  show "(\<lambda>x. projr (enc p x)) ` {x. length x = width p} \<subseteq> {y. length y = width p}"
    using enc_ok [OF assms] by force
  show "(\<lambda>y. projr (dec p y)) ` {y. length y = width p} \<subseteq> {x. length x = width p}"
    using dec_ok [OF assms] by force
qed

lemma perm_okI: "usable p \<Longrightarrow> perm_ok \<lparr> encryptBytes = enc p, decryptBytes = dec p \<rparr> (width p)"
  using enc_ok dec_ok by (simp add: perm_ok_def)

end

section \<open>Rows\<close>

lemma unpermute_permute:
  assumes "perm_ok prm (16 * n)" and "length row = n"
  shows "\<exists>out. permute prm row n = Inr out \<and> length out = n \<and> unpermute prm out n = Inr row"
proof -
  obtain y where y: "encryptBytes prm (bytesOf row) = Inr y" "length y = 16 * n" "decryptBytes prm y = Inr (bytesOf row)"
    using assms unfolding perm_ok_def by (metis length_bytesOf)
  then show ?thesis
    using assms(2) by (simp add: permute_def unpermute_def bytesOf_blocksOf blocksOf_bytesOf)
qed

lemma unpermute_total:
  assumes "perm_ok prm (16 * n)" and "length row = n"
  shows "\<exists>out. unpermute prm row n = Inr out \<and> length out = n"
proof -
  obtain x where "decryptBytes prm (bytesOf row) = Inr x"
    using assms unfolding perm_ok_def by (metis length_bytesOf)
  then show ?thesis by (simp add: unpermute_def)
qed

lemma permute_kem_eq:
  assumes "length row = KEM_key_block_size"
  shows "permute_kem prm row = permute prm row KEM_key_block_size"
    and "unpermute_kem prm row = unpermute prm row KEM_key_block_size"
  using assms by (simp_all add: permute_kem_def permute_def toBytes_def unpermute_kem_def unpermute_def)

end
