(* ===== verification/Kem_Ec.thy ===== *)
theory Kem_Ec
  imports PSI_Prelude
begin

text \<open>
  The Elligator-encoded Diffie-Hellman KEM of \<open>frontend/kem/eckem\<close>. The curve operations and the
  hash of Monocypher are the parameter \<open>ec_native\<close>; \<open>sodium_ok\<close> is whether \<open>sodium_init\<close>
  succeeded. The bytes that \<open>randombytes_buf\<close> delivers are an argument of the functions that
  draw them.
\<close>

record ec_native =
  elligator_map :: "u8 list \<Rightarrow> u8 list"
  elligator_key_pair :: "u8 list \<Rightarrow> u8 list \<times> u8 list"
  x25519 :: "u8 list \<Rightarrow> u8 list \<Rightarrow> u8 list"
  blake2b :: "nat \<Rightarrow> u8 list \<Rightarrow> u8 list"
  sodium_ok :: bool

definition PointBytes :: nat where "PointBytes = 32"
definition SecretBytes :: nat where "SecretBytes = 32"
definition TagBytes :: nat where "TagBytes = 16"
definition PkBytes :: nat where "PkBytes = PointBytes"
definition SkBytes :: nat where "SkBytes = SecretBytes"
definition CtBytes :: nat where "CtBytes = PointBytes + TagBytes"
definition KeySeedBytes :: nat where "KeySeedBytes = 32"
definition EncSeedBytes :: nat where "EncSeedBytes = 32"

lemmas ec_consts = PointBytes_def SecretBytes_def TagBytes_def PkBytes_def SkBytes_def CtBytes_def
  KeySeedBytes_def EncSeedBytes_def

section \<open>Raw operations\<close>

definition ec_init :: "ec_native \<Rightarrow> unit result" where
  "ec_init ec = guardE (\<not> sodium_ok ec) (RuntimeError ''eckem: libsodium init failed'') (Inr ())"

definition ec_random :: "ec_native \<Rightarrow> u8 list \<Rightarrow> u8 list result" where
  "ec_random ec drawn = bindE (ec_init ec) (\<lambda>_. Inr drawn)"

definition ec_map :: "ec_native \<Rightarrow> u8 list \<Rightarrow> u8 list" where
  "ec_map ec rep = elligator_map ec rep"

text \<open>The label \<open>eckem/tag\<close> and the shared point, hashed to 16 bytes.\<close>

definition kLabel :: "u8 list" where
  "kLabel = [0x65, 0x63, 0x6B, 0x65, 0x6D, 0x2F, 0x74, 0x61, 0x67]"

definition ec_kdf :: "ec_native \<Rightarrow> u8 list \<Rightarrow> u8 list" where
  "ec_kdf ec shared = blake2b ec TagBytes (kLabel @ take SecretBytes shared)"

definition ec_keyGen_seed :: "ec_native \<Rightarrow> u8 list \<Rightarrow> u8 list \<times> u8 list" where
  "ec_keyGen_seed ec seed = elligator_key_pair ec seed"

definition ec_keyGen :: "ec_native \<Rightarrow> u8 list \<Rightarrow> (u8 list \<times> u8 list) result" where
  "ec_keyGen ec drawn = bindE (ec_random ec drawn) (\<lambda>seed. Inr (elligator_key_pair ec seed))"

text \<open>Ciphertext and tag.\<close>

definition ec_encap_seed :: "ec_native \<Rightarrow> u8 list \<Rightarrow> u8 list \<Rightarrow> u8 list \<times> u8 list" where
  "ec_encap_seed ec pk seed =
     (let pkCurve = ec_map ec pk;
          (repR, skR) = elligator_key_pair ec seed;
          shared = x25519 ec skR pkCurve;
          tag = ec_kdf ec shared
      in (repR @ tag, tag))"

definition ec_encap :: "ec_native \<Rightarrow> u8 list \<Rightarrow> u8 list \<Rightarrow> (u8 list \<times> u8 list) result" where
  "ec_encap ec pk drawn =
     bindE (ec_random ec drawn) (\<lambda>seed.
       let pkCurve = ec_map ec pk;
           (repR, skR) = elligator_key_pair ec seed;
           shared = x25519 ec skR pkCurve;
           tag = ec_kdf ec shared
       in Inr (repR @ tag, tag))"

text \<open>Acceptance and tag; \<open>crypto_verify16\<close> compares the 16 bytes.\<close>

definition ec_decap :: "ec_native \<Rightarrow> u8 list \<Rightarrow> u8 list \<Rightarrow> bool \<times> u8 list" where
  "ec_decap ec sk ct =
     (let rCurve = ec_map ec (take PointBytes ct);
          shared = x25519 ec sk rCurve;
          tag = ec_kdf ec shared
      in (take TagBytes tag = slice PointBytes TagBytes ct, tag))"

section \<open>The class\<close>

definition EcKem_keyGen :: "ec_native \<Rightarrow> u8 list \<Rightarrow> (u8 list \<times> u8 list) result" where
  "EcKem_keyGen ec drawn = bindE (ec_random ec drawn) (\<lambda>seed. Inr (ec_keyGen_seed ec seed))"

definition EcKem_encap :: "ec_native \<Rightarrow> u8 list \<Rightarrow> u8 list \<Rightarrow> (u8 list \<times> u8 list) result" where
  "EcKem_encap ec pk drawn = bindE (ec_random ec drawn) (\<lambda>seed. Inr (ec_encap_seed ec pk seed))"

definition EcKem_decap :: "ec_native \<Rightarrow> u8 list \<Rightarrow> u8 list \<Rightarrow> bool \<times> u8 list" where
  "EcKem_decap ec sk ct = ec_decap ec sk ct"

section \<open>Correctness\<close>

text \<open>
  What Monocypher documents: sizes, and that both parties of a Diffie-Hellman exchange over
  Elligator representatives compute the same point.
\<close>

definition ec_sizes :: "ec_native \<Rightarrow> bool" where
  "ec_sizes ec \<longleftrightarrow>
     (\<forall>seed. length (fst (elligator_key_pair ec seed)) = 32 \<and> length (snd (elligator_key_pair ec seed)) = 32) \<and>
     (\<forall>n m. length (blake2b ec n m) = n)"

definition ec_dh :: "ec_native \<Rightarrow> u8 list \<Rightarrow> u8 list \<Rightarrow> bool" where
  "ec_dh ec a b \<longleftrightarrow>
     x25519 ec (snd (elligator_key_pair ec b)) (elligator_map ec (fst (elligator_key_pair ec a))) =
     x25519 ec (snd (elligator_key_pair ec a)) (elligator_map ec (fst (elligator_key_pair ec b)))"

lemma ec_encap_shape:
  assumes "ec_sizes ec"
  shows "ec_encap_seed ec pk seed = (ct, tag) \<Longrightarrow> length ct = CtBytes \<and> length tag = TagBytes"
  using assms by (auto simp: ec_encap_seed_def Let_def case_prod_unfold ec_kdf_def ec_sizes_def ec_consts)

lemma ec_decap_encap:
  assumes sz: "ec_sizes ec" and dh: "ec_dh ec a b" and kp: "ec_keyGen_seed ec a = (pk, sk)"
    and enc: "ec_encap_seed ec pk b = (ct, tag)"
  shows "ec_decap ec sk ct = (True, tag)"
proof -
  obtain repR skR where r: "elligator_key_pair ec b = (repR, skR)" by fastforce
  have ct: "ct = repR @ tag" and tag: "tag = ec_kdf ec (x25519 ec skR (elligator_map ec pk))"
    using enc r by (auto simp: ec_encap_seed_def Let_def ec_map_def)
  have len: "length repR = 32" using sz r unfolding ec_sizes_def by (metis fst_conv)
  have lt: "length tag = 16" using sz by (simp add: tag ec_kdf_def ec_sizes_def TagBytes_def)
  have "tag = ec_kdf ec (x25519 ec sk (elligator_map ec repR))"
    using dh kp r by (simp add: tag ec_dh_def ec_keyGen_seed_def)
  then show ?thesis using len lt
    by (simp add: ec_decap_def Let_def ct ec_map_def slice_def PointBytes_def TagBytes_def)
qed

lemma ec_keyGen_eq: "ec_keyGen ec drawn = EcKem_keyGen ec drawn"
  by (simp add: ec_keyGen_def EcKem_keyGen_def ec_keyGen_seed_def)

lemma ec_encap_eq: "ec_encap ec pk drawn = EcKem_encap ec pk drawn"
  by (simp add: ec_encap_def EcKem_encap_def ec_encap_seed_def Let_def case_prod_unfold)

lemma ec_random_Inr [simp]: "ec_random ec drawn = Inr seed \<longleftrightarrow> sodium_ok ec \<and> seed = drawn"
  by (auto simp: ec_random_def ec_init_def result_simps)

end
