(* ===== verification/Kem_Rows.thy ===== *)
theory Kem_Rows
  imports Psi_Tools Kem_Ec Kemeleon_Key
begin

text \<open>
  KEM keys and ciphertexts as rows of blocks: \<open>protocols/tools/kem_rows.h\<close> and the KEM part of
  \<open>frontend/pqpsi/pqpsi.h\<close>. The random bytes of row \<open>i\<close> (and attempt \<open>t\<close>) are functions of
  the row, in the environment record.
\<close>

section \<open>Configuration\<close>

datatype PsiKemKind = ObfMlKem | EcKem

fun kem_name :: "PsiKemKind \<Rightarrow> string" where
  "kem_name ObfMlKem = ''obf-mlkem''"
| "kem_name EcKem = ''eckem''"

definition setKem :: "string \<Rightarrow> PsiKemKind result" where
  "setKem text =
     (if text = ''obf-mlkem'' \<or> text = ''mlkem'' \<or> text = ''kemeleon'' then Inr ObfMlKem
      else if text = ''eckem'' \<or> text = ''ec-kem'' then Inr EcKem
      else Inl (InvalidArgument (''unknown PQ-PSI KEM: '' @ text)))"

fun kemRowBytes :: "PsiKemKind \<Rightarrow> nat" where
  "kemRowBytes ObfMlKem = KEM_key_size_bit div 8"
| "kemRowBytes EcKem = 48"

definition kemRowBlocks :: "PsiKemKind \<Rightarrow> nat result" where
  "kemRowBlocks kind =
     (let bytes = kemRowBytes kind
      in guardE (bytes mod 16 \<noteq> 0) (InvalidArgument ''PQ-PSI KEM row must be block aligned'')
           (Inr (bytes div 16)))"

lemma kemRowBlocks_eq: "kemRowBlocks kind = Inr (case kind of ObfMlKem \<Rightarrow> 50 | EcKem \<Rightarrow> 3)"
  by (cases kind) (simp_all add: kemRowBlocks_def row_consts)

record kem_env =
  ke_native :: mlkem_native
  ke_gmp :: gmp
  ke_hash :: "u8 list \<Rightarrow> u8"
  ke_keySeed :: "nat \<Rightarrow> nat \<Rightarrow> u8 list"
  ke_encSeed :: "nat \<Rightarrow> u8 list"
  ke_ec :: ec_native
  ke_deterministic :: "string option"
  ke_hc :: nat

section \<open>Key rows\<close>

text \<open>The environment variable \<open>PQPSI_DETERMINISTIC_KEM\<close>, if set.\<close>

definition deterministicKemSeeds :: "string option \<Rightarrow> bool" where
  "deterministicKemSeeds v =
     (case v of None \<Rightarrow> False
      | Some t \<Rightarrow> t \<noteq> [] \<and> t \<noteq> ''0'' \<and> t \<noteq> ''false'' \<and> t \<noteq> ''off'')"

definition fillMlKemKeySeed :: "kem_env \<Rightarrow> nat \<Rightarrow> nat \<Rightarrow> bool \<Rightarrow> u8 list" where
  "fillMlKemKeySeed env row attempt deterministic =
     (if \<not> deterministic then ke_keySeed env row attempt
      else map (\<lambda>j. word_of_nat (((row + 1) * 131 + (j + 3) * 17 + attempt * 29) mod 256)) [0..<KeyGenSeedSize])"

text \<open>The retry loop: the secret key and the encoded public key of the first key that encodes.\<close>

fun key_tries :: "kem_env \<Rightarrow> nat \<Rightarrow> bool \<Rightarrow> nat list \<Rightarrow> (u8 list \<times> u8 list) option result" where
  "key_tries env row deterministic [] = Inr None"
| "key_tries env row deterministic (t # ts) =
     (let kem = MlKem_new MlKem512; codec = Kemeleon_new (ke_gmp env) MlKem512;
          seed = fillMlKemKeySeed env row t deterministic
      in bindE (MlKem_keyGen_into (ke_native env) kem seed
                  (publicKeyBytes (mSizes kem)) (secretKeyBytes (mSizes kem))) (\<lambda>(rawPk, sk).
         bindE (encodeKey (ke_gmp env) (ke_hash env) codec rawPk) (\<lambda>(ok, code).
           if ok then Inr (Some (sk, code)) else key_tries env row deterministic ts)))"

definition genKey_row :: "string \<Rightarrow> kem_env \<Rightarrow> nat \<Rightarrow> nat \<Rightarrow> (u8 list \<times> block list) result" where
  "genKey_row fname env rowSize i =
     bindE (key_tries env i (deterministicKemSeeds (ke_deterministic env)) [0..<kMaxKeyTries]) (\<lambda>res.
       case res of
         None \<Rightarrow> Inl (RuntimeError (fname @ '': encodeKey failed''))
       | Some (sk, code) \<Rightarrow>
           guardE (length code > rowBytes rowSize) (RuntimeError (fname @ '': encoded pk too large''))
             (Inr (sk, blocksOf rowSize (patch_at 0 code (replicate (rowBytes rowSize) 0)))))"

definition genKeys ::
  "kem_env \<Rightarrow> nat \<Rightarrow> bool \<Rightarrow> nat \<Rightarrow> (u8 list list \<times> block list list) result" where
  "genKeys env pkCount multiThread workerThreads =
     bindE (parallelTry (ke_hc env) pkCount 8 multiThread workerThreads
              (genKey_row ''genKeys'' env KEM_key_block_size))
       (\<lambda>rows. Inr (map fst rows, map snd rows))"

definition genMlKemKeys ::
  "kem_env \<Rightarrow> nat \<Rightarrow> nat \<Rightarrow> bool \<Rightarrow> nat \<Rightarrow> (u8 list list \<times> block list) result" where
  "genMlKemKeys env pkSize rowSize multiThread workerThreads =
     guardE (rowSize \<noteq> KEM_key_block_size \<or> pkSize mod rowSize \<noteq> 0)
       (InvalidArgument ''genMlKemKeys: wrong row size'')
     (bindE (parallelTry (ke_hc env) (pkSize div rowSize) 8 multiThread workerThreads
               (genKey_row ''genMlKemKeys'' env rowSize))
        (\<lambda>rows. Inr (map fst rows, concat (map snd rows))))"

definition storeMlKemRows ::
  "kem_env \<Rightarrow> block list list \<Rightarrow> nat \<Rightarrow> bool \<Rightarrow> nat \<Rightarrow> block list result" where
  "storeMlKemRows env keyed rowSize multiThread workerThreads =
     bindE (parallelFor (ke_hc env) (length keyed) 16 multiThread workerThreads
              (\<lambda>i. Inr (patch_at 0 (keyed ! i) (replicate rowSize 0))))
       (\<lambda>rows. Inr (concat rows))"

definition genEc_row :: "kem_env \<Rightarrow> nat \<Rightarrow> nat \<Rightarrow> (u8 list \<times> block list) result" where
  "genEc_row env rowSize i =
     bindE (ec_keyGen (ke_ec env) (ke_keySeed env i 0)) (\<lambda>(pk, sk).
       Inr (sk, blocksOf rowSize (patch_at 0 pk (replicate (rowBytes rowSize) 0))))"

definition genEcKeys ::
  "kem_env \<Rightarrow> nat \<Rightarrow> nat \<Rightarrow> bool \<Rightarrow> nat \<Rightarrow> (u8 list list \<times> block list) result" where
  "genEcKeys env pkSize rowSize multiThread workerThreads =
     bindE (kemRowBlocks EcKem) (\<lambda>want.
       guardE (rowSize \<noteq> want \<or> pkSize mod rowSize \<noteq> 0) (InvalidArgument ''genEcKeys: wrong row size'')
       (bindE (parallelFor (ke_hc env) (pkSize div rowSize) 8 multiThread workerThreads (genEc_row env rowSize))
          (\<lambda>rows. Inr (map fst rows, concat (map snd rows)))))"

fun genRows ::
  "PsiKemKind \<Rightarrow> kem_env \<Rightarrow> nat \<Rightarrow> nat \<Rightarrow> bool \<Rightarrow> nat \<Rightarrow> (u8 list list \<times> block list) result" where
  "genRows ObfMlKem env pkSize rowSize multiThread workerThreads =
     genMlKemKeys env pkSize rowSize multiThread workerThreads"
| "genRows EcKem env pkSize rowSize multiThread workerThreads =
     genEcKeys env pkSize rowSize multiThread workerThreads"

section \<open>Encapsulation rows\<close>

fun show_nat :: "nat \<Rightarrow> string" where
  "show_nat n = (if n < 10 then [char_of (48 + n)] else show_nat (n div 10) @ [char_of (48 + n mod 10)])"

text \<open>One pass of the encapsulation loops; \<open>fname\<close> is the function named in the messages.\<close>

definition encap_row :: "string \<Rightarrow> kem_env \<Rightarrow> nat \<Rightarrow> nat \<Rightarrow> block list \<Rightarrow> block list result" where
  "encap_row fname env rowSize i row =
     (let kem = MlKem_new MlKem512; codec = Kemeleon_new (ke_gmp env) MlKem512
      in bindE (decodeKey_into (ke_gmp env) codec (take (codeKeyBytes codec) (bytesOf row))
                  (publicKeyBytes (mSizes kem))) (\<lambda>res.
         case res of
           None \<Rightarrow> Inl (RuntimeError (fname @ '': decodeKey failed at row '' @ show_nat i))
         | Some rawPk \<Rightarrow>
             bindE (MlKem_encaps_into (ke_native env) kem rawPk (ke_encSeed env i)
                      (cipherTextBytes (mSizes kem)) SharedSecretSize) (\<lambda>(cipher, shared).
             guardE (cipherTextBytes (mSizes kem) + SharedSecretSize > rowBytes rowSize)
               (RuntimeError (fname @ '': output row too small''))
             (Inr (blocksOf rowSize
                (patch_at (cipherTextBytes (mSizes kem)) shared
                   (patch_at 0 cipher (replicate (rowBytes rowSize) 0))))))))"

definition encap_rows ::
  "kem_env \<Rightarrow> block list list \<Rightarrow> bool \<Rightarrow> nat \<Rightarrow> block list list result" where
  "encap_rows env rows multiThread workerThreads =
     parallelTry (ke_hc env) (length rows) 8 multiThread workerThreads
       (\<lambda>i. guardE (length (rows ! i) \<noteq> KEM_key_block_size) (InvalidArgument ''encap: wrong row size'')
              (encap_row ''encap'' env KEM_key_block_size i (rows ! i)))"

definition encap_flat ::
  "kem_env \<Rightarrow> block list \<Rightarrow> nat \<Rightarrow> bool \<Rightarrow> nat \<Rightarrow> block list list result" where
  "encap_flat env rows rowSize multiThread workerThreads =
     guardE (rowSize \<noteq> KEM_key_block_size \<or> length rows mod rowSize \<noteq> 0)
       (InvalidArgument ''encap: flat row size mismatch'')
     (parallelTry (ke_hc env) (length rows div rowSize) 8 multiThread workerThreads
        (\<lambda>i. encap_row ''encap'' env KEM_key_block_size i (rowPtr rows rowSize i)))"

definition encapMlKem ::
  "kem_env \<Rightarrow> block list \<Rightarrow> nat \<Rightarrow> bool \<Rightarrow> nat \<Rightarrow> block list result" where
  "encapMlKem env rows rowSize multiThread workerThreads =
     guardE (rowSize \<noteq> KEM_key_block_size \<or> length rows mod rowSize \<noteq> 0)
       (InvalidArgument ''encapMlKem: flat row size mismatch'')
     (bindE (parallelTry (ke_hc env) (length rows div rowSize) 8 multiThread workerThreads
               (\<lambda>i. encap_row ''encapMlKem'' env rowSize i (rowPtr rows rowSize i)))
        (\<lambda>out. Inr (concat out)))"

definition encapEc_row :: "kem_env \<Rightarrow> nat \<Rightarrow> nat \<Rightarrow> block list \<Rightarrow> block list result" where
  "encapEc_row env rowSize i row =
     bindE (ec_encap (ke_ec env) (take PkBytes (bytesOf row)) (ke_encSeed env i)) (\<lambda>(ct, tag).
       Inr (blocksOf rowSize ct))"

definition encapEc ::
  "kem_env \<Rightarrow> block list \<Rightarrow> nat \<Rightarrow> bool \<Rightarrow> nat \<Rightarrow> block list result" where
  "encapEc env rows rowSize multiThread workerThreads =
     bindE (kemRowBlocks EcKem) (\<lambda>want.
       guardE (rowSize \<noteq> want \<or> length rows mod rowSize \<noteq> 0) (InvalidArgument ''encapEc: wrong row size'')
       (bindE (parallelFor (ke_hc env) (length rows div rowSize) 8 multiThread workerThreads
                 (\<lambda>i. encapEc_row env rowSize i (rowPtr rows rowSize i)))
          (\<lambda>out. Inr (concat out))))"

fun encapRows ::
  "PsiKemKind \<Rightarrow> kem_env \<Rightarrow> block list \<Rightarrow> nat \<Rightarrow> bool \<Rightarrow> nat \<Rightarrow> block list result" where
  "encapRows ObfMlKem env rows rowSize multiThread workerThreads =
     encapMlKem env rows rowSize multiThread workerThreads"
| "encapRows EcKem env rows rowSize multiThread workerThreads =
     encapEc env rows rowSize multiThread workerThreads"

section \<open>Decapsulation and counting\<close>

definition decapBytes :: "mlkem_native \<Rightarrow> MlKem \<Rightarrow> u8 list \<Rightarrow> u8 list \<Rightarrow> nat \<Rightarrow> bool result" where
  "decapBytes ops kem sk rowData rowSize =
     (let sizes = mSizes kem
      in if rowSize \<noteq> KEM_key_block_size \<or> length sk \<noteq> secretKeyBytes sizes then Inr False
         else if cipherTextBytes sizes + SharedSecretSize > kKemBytes then Inr False
         else bindE (MlKem_decaps ops kem (take (cipherTextBytes sizes) rowData) sk) (\<lambda>got.
                Inr (got = slice (cipherTextBytes sizes) (length got) rowData)))"

definition decapWith :: "mlkem_native \<Rightarrow> MlKem \<Rightarrow> u8 list \<Rightarrow> block list \<Rightarrow> bool result" where
  "decapWith ops kem sk row = decapBytes ops kem sk (bytesOf row) (length row)"

definition decap_row :: "mlkem_native \<Rightarrow> u8 list \<Rightarrow> block list \<Rightarrow> bool result" where
  "decap_row ops sk row = decapBytes ops (MlKem_new MlKem512) sk (bytesOf row) (length row)"

definition countDecapHits_rows ::
  "kem_env \<Rightarrow> u8 list list \<Rightarrow> block list list \<Rightarrow> bool \<Rightarrow> nat \<Rightarrow> u64 result" where
  "countDecapHits_rows env sk rows multiThread workerThreads =
     guardE (length sk \<noteq> length rows) (InvalidArgument ''countDecapHits: size mismatch'')
       (count_threads (ke_hc env) (\<lambda>i. decapWith (ke_native env) (MlKem_new MlKem512) (sk ! i) (rows ! i))
          (length rows) multiThread workerThreads)"

definition countDecapHits ::
  "kem_env \<Rightarrow> u8 list list \<Rightarrow> block list \<Rightarrow> nat \<Rightarrow> bool \<Rightarrow> nat \<Rightarrow> u64 result" where
  "countDecapHits env sk rows rowSize multiThread workerThreads =
     guardE (rowSize \<noteq> KEM_key_block_size \<or> length rows \<noteq> length sk * rowSize)
       (InvalidArgument ''countDecapHits: flat size mismatch'')
       (count_threads (ke_hc env)
          (\<lambda>i. decapWith (ke_native env) (MlKem_new MlKem512) (sk ! i) (rowPtr rows rowSize i))
          (length sk) multiThread workerThreads)"

definition ecHit :: "kem_env \<Rightarrow> u8 list \<Rightarrow> block list \<Rightarrow> bool" where
  "ecHit env sk row = (if length sk \<noteq> SkBytes then False else fst (ec_decap (ke_ec env) sk (bytesOf row)))"

definition countEcHits ::
  "kem_env \<Rightarrow> u8 list list \<Rightarrow> block list \<Rightarrow> nat \<Rightarrow> bool \<Rightarrow> nat \<Rightarrow> u64 result" where
  "countEcHits env sk rows rowSize multiThread workerThreads =
     bindE (kemRowBlocks EcKem) (\<lambda>want.
       guardE (rowSize \<noteq> want \<or> length rows \<noteq> length sk * rowSize)
         (InvalidArgument ''countEcHits: flat size mismatch'')
         (count_threads (ke_hc env) (\<lambda>i. Inr (ecHit env (sk ! i) (rowPtr rows rowSize i)))
            (length sk) multiThread workerThreads))"

fun countHits ::
  "PsiKemKind \<Rightarrow> kem_env \<Rightarrow> u8 list list \<Rightarrow> block list \<Rightarrow> nat \<Rightarrow> bool \<Rightarrow> nat \<Rightarrow> u64 result" where
  "countHits ObfMlKem env sk rows rowSize multiThread workerThreads =
     countDecapHits env sk rows rowSize multiThread workerThreads"
| "countHits EcKem env sk rows rowSize multiThread workerThreads =
     countEcHits env sk rows rowSize multiThread workerThreads"

end
