(* ===== verification/Kem_RowsCorrect.thy ===== *)
theory Kem_RowsCorrect
  imports Kem_Rows
begin

text \<open>
  The contract of a KEM whose keys and ciphertexts are rows, as the protocol relies on it, and
  its interpretation on the two KEMs of \<open>kem_rows.h\<close>: obfuscated ML-KEM and the curve KEM.
\<close>

section \<open>The contract\<close>

text \<open>
  \<open>sound e\<close> is what the KEM needs of its libraries, \<open>honest e i j\<close> that it is correct for the
  key of row \<open>i\<close> and the encapsulation of row \<open>j\<close>. Encapsulation works on every row, because
  the sender also encapsulates to rows that no receiver made.
\<close>

locale row_kem =
  fixes gen :: "'e \<Rightarrow> nat \<Rightarrow> (u8 list \<times> block list) result"
    and enc :: "'e \<Rightarrow> nat \<Rightarrow> block list \<Rightarrow> block list result"
    and hit :: "'e \<Rightarrow> u8 list \<Rightarrow> block list \<Rightarrow> bool result"
    and width :: nat
    and sound :: "'e \<Rightarrow> bool"
    and honest :: "'e \<Rightarrow> nat \<Rightarrow> nat \<Rightarrow> bool"
  assumes gen_width: "sound e \<Longrightarrow> gen e i = Inr (sk, pk) \<Longrightarrow> length pk = width"
    and enc_total: "sound e \<Longrightarrow> length row = width \<Longrightarrow> \<exists>ct. enc e j row = Inr ct \<and> length ct = width"
    and hit_total: "sound e \<Longrightarrow> gen e i = Inr (sk, pk) \<Longrightarrow> length row = width \<Longrightarrow> \<exists>b. hit e sk row = Inr b"
    and hit_honest: "sound e \<Longrightarrow> honest e i j \<Longrightarrow> gen e i = Inr (sk, pk) \<Longrightarrow> enc e j pk = Inr ct \<Longrightarrow>
      hit e sk ct = Inr True"
begin

lemma gens_width:
  assumes "sound e" and "mapE (gen e) is = Inr ks"
  shows "\<forall>k \<in> set ks. length (snd k) = width"
proof
  fix k assume "k \<in> set ks"
  then obtain n where n: "n < length ks" "k = ks ! n" by (auto simp: in_set_conv_nth)
  then have "gen e (is ! n) = Inr (fst k, snd k)"
    using mapE_Inr_nth [OF assms(2), of n] mapE_Inr_length [OF assms(2)] by simp
  then show "length (snd k) = width" by (rule gen_width [OF assms(1)])
qed

lemma encs_total:
  assumes "sound e" and "\<forall>j < n. length (row j) = width"
  shows "\<exists>cts. mapE (\<lambda>j. enc e j (row j)) [0..<n] = Inr cts \<and> length cts = n \<and>
    (\<forall>ct \<in> set cts. length ct = width) \<and> (\<forall>j < n. enc e j (row j) = Inr (cts ! j))"
proof -
  have "\<exists>ct. enc e j (row j) = Inr ct \<and> length ct = width" if "j < n" for j
    using enc_total assms that by blast
  then obtain f where f: "\<And>j. j < n \<Longrightarrow> enc e j (row j) = Inr (f j) \<and> length (f j) = width" by metis
  then have "mapE (\<lambda>j. enc e j (row j)) [0..<n] = Inr (map f [0..<n])" by (intro mapE_all_Inr) simp
  then show ?thesis using f by auto
qed

end

section \<open>Obfuscated ML-KEM\<close>

text \<open>
  What \<open>mlkem-native\<close> documents beyond sizes and correctness: public keys have reduced
  coefficients, encapsulation to a key with reduced coefficients succeeds (the modulus check of
  FIPS 203), and decapsulation under a generated secret key succeeds on every ciphertext.
\<close>

definition native_keys :: "mlkem_native \<Rightarrow> bool" where
  "native_keys ops \<longleftrightarrow> (\<forall>seed pk sk t. keypair_derand ops MlKem512 seed = Some (pk, sk) \<longrightarrow>
     unpackPolyBytes (take 768 pk) = Inr t \<longrightarrow> (\<forall>x \<in> set t. unat x < kq))"

definition native_enc_total :: "mlkem_native \<Rightarrow> bool" where
  "native_enc_total ops \<longleftrightarrow> (\<forall>pk seed t. length pk = 800 \<longrightarrow> length seed = 32 \<longrightarrow>
     unpackPolyBytes (take 768 pk) = Inr t \<longrightarrow> (\<forall>x \<in> set t. unat x < kq) \<longrightarrow>
     enc_derand ops MlKem512 pk seed \<noteq> None)"

definition native_dec_total :: "mlkem_native \<Rightarrow> bool" where
  "native_dec_total ops \<longleftrightarrow> (\<forall>seed pk sk ct. keypair_derand ops MlKem512 seed = Some (pk, sk) \<longrightarrow>
     length ct = 768 \<longrightarrow> dec ops MlKem512 ct sk \<noteq> None)"

definition ml_sound :: "kem_env \<Rightarrow> bool" where
  "ml_sound env \<longleftrightarrow> gmp_ok (ke_gmp env) \<and> native_sizes (ke_native env) MlKem512 \<and> native_keys (ke_native env) \<and>
     native_enc_total (ke_native env) \<and> native_dec_total (ke_native env) \<and>
     (\<forall>i. length (ke_encSeed env i) = EncapSeedSize)"

definition ml_honest :: "kem_env \<Rightarrow> nat \<Rightarrow> nat \<Rightarrow> bool" where
  "ml_honest env i j \<longleftrightarrow> (\<forall>t < kMaxKeyTries. native_correct (ke_native env) MlKem512
     (fillMlKemKeySeed env i t (deterministicKemSeeds (ke_deterministic env))) (ke_encSeed env j))"

definition ml_gen :: "kem_env \<Rightarrow> nat \<Rightarrow> (u8 list \<times> block list) result" where
  "ml_gen env i = genKey_row ''genMlKemKeys'' env KEM_key_block_size i"

definition ml_enc :: "kem_env \<Rightarrow> nat \<Rightarrow> block list \<Rightarrow> block list result" where
  "ml_enc env j row = encap_row ''encapMlKem'' env KEM_key_block_size j row"

definition ml_hit :: "kem_env \<Rightarrow> u8 list \<Rightarrow> block list \<Rightarrow> bool result" where
  "ml_hit env sk row = decapWith (ke_native env) (MlKem_new MlKem512) sk row"

abbreviation km where "km env \<equiv> Kemeleon_new (ke_gmp env) MlKem512"

lemma km512_facts:
  "polyBytes (km_info (Kemeleon_new g MlKem512)) = 768" "rawKeyBytes (Kemeleon_new g MlKem512) = 800"
  "vecSize (km_info (Kemeleon_new g MlKem512)) = 512"
  "mSizes (MlKem_new MlKem512) = getSizes MlKem512" "mMode (MlKem_new MlKem512) = MlKem512"
  by (simp_all add: Kemeleon_new_def Let_def rawKeyBytes_def MlKem_new_def makeInfo_def kn_def)

text \<open>An encoded ML-KEM-512 key fits in the 800-byte row.\<close>

lemma codeKeyBytes_row:
  assumes "gmp_ok g"
  shows "codeKeyBytes (Kemeleon_new g MlKem512) \<le> kKemBytes"
proof -
  let ?i = "km_info (Kemeleon_new g MlKem512)"
  note F = makeInfo_facts [OF assms km_wf_new [of g MlKem512]]
  have "kq ^ n < (2 ^ 12) ^ n" if "0 < n" for n :: nat
    using that by (intro power_strict_mono) (simp_all add: kq_def)
  from this [of "vecSize ?i"] have "(2::nat) ^ vecBits ?i < 2 ^ (12 * vecSize ?i)"
    using F(9,11) unfolding power_mult by linarith
  then have "vecBits ?i < 12 * vecSize ?i" by (rule power_less_imp_less_exp [rotated]) simp
  then have "vecBits ?i < 6144" unfolding km512_facts by simp
  then show ?thesis using F(10) by (simp add: codeKeyBytes_def rhoBytes_def row_consts)
qed

text \<open>The retry loop returns the key of some attempt whose encoding succeeded.\<close>

lemma key_tries_Some:
  assumes "key_tries env row det ts = Inr (Some (sk, code))"
  shows "\<exists>t \<in> set ts. \<exists>rawPk. keypair_derand (ke_native env) MlKem512 (fillMlKemKeySeed env row t det) = Some (rawPk, sk)
     \<and> encodeKey (ke_gmp env) (ke_hash env) (km env) rawPk = Inr (True, code)"
  using assms
proof (induction ts)
  case (Cons t ts)
  obtain rawPk sk' where k: "keypair_derand (ke_native env) MlKem512 (fillMlKemKeySeed env row t det) = Some (rawPk, sk')"
    and rest: "bindE (encodeKey (ke_gmp env) (ke_hash env) (km env) rawPk) (\<lambda>(ok, code).
           if ok then Inr (Some (sk', code)) else key_tries env row det ts) = Inr (Some (sk, code))"
    using Cons.prems unfolding key_tries.simps Let_def bindE_Inr_iff [of "MlKem_keyGen_into _ _ _ _ _"]
    by (auto simp: MlKem_keyGen_into_def guardE_Inr_iff km512_facts)
  obtain ok code' where e: "encodeKey (ke_gmp env) (ke_hash env) (km env) rawPk = Inr (ok, code')"
    using rest unfolding bindE_Inr_iff by auto
  show ?case
  proof (cases ok)
    case True
    then show ?thesis using k e rest by auto
  next
    case False
    then show ?thesis using Cons.IH e rest by auto
  qed
qed simp

lemma decodeKey_into_of_decodeKey:
  "decodeKey g k data = Inr (True, key) \<Longrightarrow> decodeKey_into g k data (rawKeyBytes k) = Inr (Some key)"
  by (auto simp: decodeKey_def bindE_Inr_iff split: option.splits)

lemma ml_genE:
  assumes "ml_sound env" and "ml_gen env i = Inr (sk, pk)"
  obtains t rawPk code where "t < kMaxKeyTries"
    and "keypair_derand (ke_native env) MlKem512
       (fillMlKemKeySeed env i t (deterministicKemSeeds (ke_deterministic env))) = Some (rawPk, sk)"
    and "take (codeKeyBytes (km env)) (bytesOf pk) = code" and "length pk = KEM_key_block_size"
    and "decodeKey_into (ke_gmp env) (km env) code 800 = Inr (Some rawPk)"
proof -
  let ?det = "deterministicKemSeeds (ke_deterministic env)"
  obtain code where tr: "key_tries env i ?det [0..<kMaxKeyTries] = Inr (Some (sk, code))"
    and pk: "pk = blocksOf KEM_key_block_size (patch_at 0 code (replicate (rowBytes KEM_key_block_size) 0))"
    and lc: "length code \<le> rowBytes KEM_key_block_size"
    using assms(2) by (auto simp: ml_gen_def genKey_row_def bindE_Inr_iff guardE_Inr_iff split: option.splits)
  obtain t rawPk where t: "t < kMaxKeyTries"
    and k: "keypair_derand (ke_native env) MlKem512 (fillMlKemKeySeed env i t ?det) = Some (rawPk, sk)"
    and e: "encodeKey (ke_gmp env) (ke_hash env) (km env) rawPk = Inr (True, code)"
    using key_tries_Some [OF tr] by auto
  have g: "gmp_ok (ke_gmp env)" using assms(1) by (simp add: ml_sound_def)
  have canon: "\<forall>x \<in> set t. unat x < kq" if "unpackPolyBytes (take (polyBytes (km_info (km env))) rawPk) = Inr t" for t
    using that assms(1) k unfolding ml_sound_def native_keys_def km512_facts by blast
  note D = decodeKey_encodeKey [OF g km_wf_new e canon]
  have "bytesOf pk = patch_at 0 code (replicate (rowBytes KEM_key_block_size) 0)"
    unfolding pk using lc by (intro bytesOf_blocksOf) (simp add: rowBytes_def)
  then have "take (codeKeyBytes (km env)) (bytesOf pk) = code" using D(2) by (simp add: patch_at_def)
  moreover have "decodeKey_into (ke_gmp env) (km env) code 800 = Inr (Some rawPk)"
    using decodeKey_into_of_decodeKey [OF D(1)] by (simp add: km512_facts)
  ultimately show ?thesis using that t k pk by simp
qed

text \<open>A ciphertext row holds the ciphertext and, after it, the shared secret.\<close>

lemma ml_encE:
  assumes "native_sizes (ke_native env) MlKem512"
    and "decodeKey_into (ke_gmp env) (km env) (take (codeKeyBytes (km env)) (bytesOf row)) 800 = Inr (Some rawPk)"
    and "enc_derand (ke_native env) MlKem512 rawPk (ke_encSeed env j) = Some (ct, ss)"
    and "length rawPk = 800" and "length (ke_encSeed env j) = EncapSeedSize"
  shows "\<exists>out. ml_enc env j row = Inr out \<and> length out = KEM_key_block_size \<and> bytesOf out = ct @ ss"
    and "length ct = 768" and "length ss = 32"
proof -
  show l: "length ct = 768" "length ss = 32"
    using assms(1,3) by (auto simp: native_sizes_def SharedSecretSize_def)
  have p: "patch_at 768 ss (patch_at 0 ct (replicate 800 0)) = ct @ ss" using l by (simp add: patch_at_def)
  have "ml_enc env j row = Inr (blocksOf KEM_key_block_size (ct @ ss))"
    using assms(2-5) p by (simp add: ml_enc_def encap_row_def km512_facts MlKem_encaps_into_def
        requireSize_def requireSuccess_def SharedSecretSize_def rowBytes_def row_consts)
  then show "\<exists>out. ml_enc env j row = Inr out \<and> length out = KEM_key_block_size \<and> bytesOf out = ct @ ss"
    using l by (simp add: bytesOf_blocksOf row_consts)
qed

lemma ml_hit_eq:
  assumes "length row = KEM_key_block_size" and "length sk = 1632"
    and "dec (ke_native env) MlKem512 (take 768 (bytesOf row)) sk = Some got"
  shows "ml_hit env sk row = Inr (got = slice 768 (length got) (bytesOf row))"
  using assms by (simp add: ml_hit_def decapWith_def decapBytes_def Let_def km512_facts SharedSecretSize_def
      row_consts MlKem_decaps_def requireSize_def requireSuccess_def)

lemma ml_enc_total:
  assumes s: "ml_sound env" and row: "length row = KEM_key_block_size"
  shows "\<exists>ct. ml_enc env j row = Inr ct \<and> length ct = KEM_key_block_size"
proof -
  have g: "gmp_ok (ke_gmp env)" using s by (simp add: ml_sound_def)
  have "length (take (codeKeyBytes (km env)) (bytesOf row)) = codeKeyBytes (km env)"
    using codeKeyBytes_row [OF g] row by (simp add: row_consts)
  then obtain key t where d: "decodeKey (ke_gmp env) (km env) (take (codeKeyBytes (km env)) (bytesOf row)) = Inr (True, key)"
    and k: "length key = 800" "unpackPolyBytes (take 768 key) = Inr t" "\<forall>x \<in> set t. unat x < kq"
    using decodeKey_total [OF g km_wf_new [of _ MlKem512]] unfolding km512_facts by blast
  have ls: "length (ke_encSeed env j) = 32" using s by (simp add: ml_sound_def EncapSeedSize_def)
  have "enc_derand (ke_native env) MlKem512 key (ke_encSeed env j) \<noteq> None"
    using s k ls unfolding ml_sound_def native_enc_total_def by blast
  then obtain ct ss where e: "enc_derand (ke_native env) MlKem512 key (ke_encSeed env j) = Some (ct, ss)" by auto
  have "native_sizes (ke_native env) MlKem512" using s by (simp add: ml_sound_def)
  from ml_encE(1) [OF this decodeKey_into_of_decodeKey [OF d, unfolded km512_facts] e k(1)] ls
  show ?thesis by (auto simp: EncapSeedSize_def)
qed

lemma keypair_sizes:
  assumes "ml_sound env" and "keypair_derand (ke_native env) MlKem512 seed = Some (pk, sk)"
  shows "length pk = 800" "length sk = 1632"
  using assms by (auto simp: ml_sound_def native_sizes_def)

interpretation mlRows: row_kem ml_gen ml_enc ml_hit KEM_key_block_size ml_sound ml_honest
proof
  fix env i sk pk
  assume s: "ml_sound env" and gen: "ml_gen env i = Inr (sk, pk)"
  show "length pk = KEM_key_block_size" using ml_genE [OF s gen] by blast
next
  fix env j and row :: "block list"
  assume "ml_sound env" and "length row = KEM_key_block_size"
  then show "\<exists>ct. ml_enc env j row = Inr ct \<and> length ct = KEM_key_block_size" by (rule ml_enc_total)
next
  fix env i sk pk and row :: "block list"
  assume s: "ml_sound env" and gen: "ml_gen env i = Inr (sk, pk)" and row: "length row = KEM_key_block_size"
  obtain seed rawPk where k: "keypair_derand (ke_native env) MlKem512 seed = Some (rawPk, sk)"
    using ml_genE [OF s gen] by blast
  have "length (take 768 (bytesOf row)) = 768" using row by (simp add: row_consts)
  then have "dec (ke_native env) MlKem512 (take 768 (bytesOf row)) sk \<noteq> None"
    using s k unfolding ml_sound_def native_dec_total_def by blast
  then show "\<exists>b. ml_hit env sk row = Inr b" using ml_hit_eq [OF row keypair_sizes(2) [OF s k]] by blast
next
  fix env i j sk pk ct
  assume s: "ml_sound env" and h: "ml_honest env i j" and gen: "ml_gen env i = Inr (sk, pk)"
    and enc: "ml_enc env j pk = Inr ct"
  let ?seed = "\<lambda>t. fillMlKemKeySeed env i t (deterministicKemSeeds (ke_deterministic env))"
  obtain t rawPk code where t: "t < kMaxKeyTries" "keypair_derand (ke_native env) MlKem512 (?seed t) = Some (rawPk, sk)"
    and dk: "take (codeKeyBytes (km env)) (bytesOf pk) = code" "length pk = KEM_key_block_size"
      "decodeKey_into (ke_gmp env) (km env) code 800 = Inr (Some rawPk)"
    using ml_genE [OF s gen] .
  have sz: "native_sizes (ke_native env) MlKem512" and ls: "length (ke_encSeed env j) = EncapSeedSize"
    using s by (simp_all add: ml_sound_def)
  note kp = keypair_sizes [OF s t(2)]
  obtain c ss where e: "enc_derand (ke_native env) MlKem512 rawPk (ke_encSeed env j) = Some (c, ss)"
    using enc dk by (auto simp: ml_enc_def encap_row_def km512_facts MlKem_encaps_into_def bindE_Inr_iff guardE_Inr_iff)
  note E = ml_encE [OF sz dk(3) [folded dk(1)] e kp(1) ls]
  have ct: "length ct = KEM_key_block_size" "bytesOf ct = c @ ss" using E(1) enc by auto
  have "native_correct (ke_native env) MlKem512 (?seed t) (ke_encSeed env j)"
    using h t(1) by (simp add: ml_honest_def)
  then have "dec (ke_native env) MlKem512 c sk = Some ss"
    using t(2) e unfolding native_correct_def by blast
  then show "ml_hit env sk ct = Inr True"
    using ml_hit_eq [OF ct(1) kp(2)] ct(2) E(2,3) by (simp add: slice_def)
qed

section \<open>The curve KEM\<close>

definition ec_sound :: "kem_env \<Rightarrow> bool" where
  "ec_sound env \<longleftrightarrow> ec_sizes (ke_ec env) \<and> sodium_ok (ke_ec env)"

definition ec_honest :: "kem_env \<Rightarrow> nat \<Rightarrow> nat \<Rightarrow> bool" where
  "ec_honest env i j \<longleftrightarrow> ec_dh (ke_ec env) (ke_keySeed env i 0) (ke_encSeed env j)"

definition ec_gen :: "kem_env \<Rightarrow> nat \<Rightarrow> (u8 list \<times> block list) result" where
  "ec_gen env i = genEc_row env 3 i"

definition ec_enc :: "kem_env \<Rightarrow> nat \<Rightarrow> block list \<Rightarrow> block list result" where
  "ec_enc env j row = encapEc_row env 3 j row"

definition ec_hit :: "kem_env \<Rightarrow> u8 list \<Rightarrow> block list \<Rightarrow> bool result" where
  "ec_hit env sk row = Inr (ecHit env sk row)"

lemma ec_genE:
  assumes "ec_sound env" and "ec_gen env i = Inr (sk, pk)"
  obtains rep where "ec_keyGen_seed (ke_ec env) (ke_keySeed env i 0) = (rep, sk)" and "length rep = 32"
    and "length sk = 32" and "length pk = 3" and "take 32 (bytesOf pk) = rep"
proof -
  obtain rep where k: "ec_keyGen_seed (ke_ec env) (ke_keySeed env i 0) = (rep, sk)"
    and pk: "pk = blocksOf 3 (patch_at 0 rep (replicate 48 0))"
    using assms(2) by (cases "ec_keyGen_seed (ke_ec env) (ke_keySeed env i 0)")
      (auto simp: ec_gen_def genEc_row_def ec_keyGen_eq EcKem_keyGen_def bindE_Inr_iff rowBytes_def)
  have l: "length rep = 32" "length sk = 32"
    using assms(1) k unfolding ec_sound_def ec_sizes_def ec_keyGen_seed_def by (metis fst_conv snd_conv)+
  have "bytesOf pk = patch_at 0 rep (replicate 48 0)" unfolding pk using l by (intro bytesOf_blocksOf) simp
  then have "take 32 (bytesOf pk) = rep" using l by (simp add: patch_at_def)
  then show ?thesis using that k l pk by simp
qed

lemma ec_enc_eq:
  assumes "ec_sound env"
  shows "\<exists>ct tag out. ec_encap_seed (ke_ec env) (take 32 (bytesOf row)) (ke_encSeed env j) = (ct, tag) \<and>
    ec_enc env j row = Inr out \<and> length out = 3 \<and> bytesOf out = ct"
proof -
  obtain ct tag where e: "ec_encap_seed (ke_ec env) (take 32 (bytesOf row)) (ke_encSeed env j) = (ct, tag)" by fastforce
  have "length ct = 48" using ec_encap_shape [OF _ e] assms by (simp add: ec_sound_def ec_consts)
  moreover have "ec_enc env j row = Inr (blocksOf 3 ct)"
    using e assms by (simp add: ec_enc_def encapEc_row_def ec_encap_eq EcKem_encap_def ec_sound_def ec_random_def
        ec_init_def PkBytes_def PointBytes_def)
  ultimately show ?thesis using e by (auto simp: bytesOf_blocksOf)
qed

interpretation ecRows: row_kem ec_gen ec_enc ec_hit 3 ec_sound ec_honest
proof
  fix env i sk pk
  assume "ec_sound env" and "ec_gen env i = Inr (sk, pk)"
  then show "length pk = 3" by (rule ec_genE)
next
  fix env j and row :: "block list"
  assume "ec_sound env"
  then show "\<exists>ct. ec_enc env j row = Inr ct \<and> length ct = 3" using ec_enc_eq by blast
next
  fix env i sk pk and row :: "block list"
  show "\<exists>b. ec_hit env sk row = Inr b" by (simp add: ec_hit_def)
next
  fix env i j sk pk ct
  assume s: "ec_sound env" and h: "ec_honest env i j" and gen: "ec_gen env i = Inr (sk, pk)"
    and enc: "ec_enc env j pk = Inr ct"
  obtain rep where r: "ec_keyGen_seed (ke_ec env) (ke_keySeed env i 0) = (rep, sk)" "length sk = 32"
    "take 32 (bytesOf pk) = rep" using ec_genE [OF s gen] .
  obtain c tag where e: "ec_encap_seed (ke_ec env) rep (ke_encSeed env j) = (c, tag)" "bytesOf ct = c"
    using ec_enc_eq [OF s, of pk j] r(3) enc by auto
  have "ec_decap (ke_ec env) sk c = (True, tag)"
    using ec_decap_encap [OF _ _ r(1) e(1)] s h by (simp add: ec_sound_def ec_honest_def)
  then show "ec_hit env sk ct = Inr True" using r(2) e(2) by (simp add: ec_hit_def ecHit_def SkBytes_def SecretBytes_def)
qed

section \<open>The loops over all rows\<close>

text \<open>The three dispatching functions as loops over the row functions of the contract.\<close>

fun kem_width :: "PsiKemKind \<Rightarrow> nat" where
  "kem_width ObfMlKem = KEM_key_block_size" | "kem_width EcKem = 3"

fun kem_gen where "kem_gen ObfMlKem = ml_gen" | "kem_gen EcKem = ec_gen"
fun kem_enc where "kem_enc ObfMlKem = ml_enc" | "kem_enc EcKem = ec_enc"
fun kem_hit where "kem_hit ObfMlKem = ml_hit" | "kem_hit EcKem = ec_hit"
fun kem_sound where "kem_sound ObfMlKem = ml_sound" | "kem_sound EcKem = ec_sound"
fun kem_honest where "kem_honest ObfMlKem = ml_honest" | "kem_honest EcKem = ec_honest"

interpretation kemRows: row_kem "kem_gen kind" "kem_enc kind" "kem_hit kind" "kem_width kind" "kem_sound kind" "kem_honest kind"
  for kind
  by (cases kind) (simp_all add: mlRows.row_kem_axioms ecRows.row_kem_axioms)

lemma kem_width_pos: "0 < kem_width kind" "kemRowBlocks kind = Inr (kem_width kind)"
  by (cases kind; simp add: row_consts kemRowBlocks_eq)+

lemma genRows_Inr:
  assumes "w = kem_width kind"
  shows "genRows kind env (n * w) w mt wt = Inr (sks, pk) \<longleftrightarrow>
    (\<exists>ks. mapE (kem_gen kind env) [0..<n] = Inr ks \<and> sks = map fst ks \<and> pk = concat (map snd ks))"
proof (cases kind)
  case ObfMlKem
  have "genKey_row ''genMlKemKeys'' env 50 = ml_gen env" by (rule ext) (simp add: ml_gen_def row_consts)
  then show ?thesis using assms ObfMlKem by (auto simp: genMlKemKeys_def parallelTry_sequential bindE_Inr_iff row_consts)
next
  case EcKem
  have "genEc_row env 3 = ec_gen env" by (rule ext) (simp add: ec_gen_def)
  then show ?thesis using assms EcKem by (auto simp: genEcKeys_def kemRowBlocks_eq parallelFor_Inr bindE_Inr_iff)
qed

lemma encapRows_Inr:
  assumes "w = kem_width kind" and "length rows = n * w"
  shows "encapRows kind env rows w mt wt = Inr out \<longleftrightarrow>
    (\<exists>cts. mapE (\<lambda>j. kem_enc kind env j (rowPtr rows w j)) [0..<n] = Inr cts \<and> out = concat cts)"
proof (cases kind)
  case ObfMlKem
  have "(\<lambda>j. encap_row ''encapMlKem'' env 50 j (rowPtr rows 50 j)) = (\<lambda>j. ml_enc env j (rowPtr rows 50 j))"
    by (rule ext) (simp add: ml_enc_def row_consts)
  then show ?thesis using assms ObfMlKem by (auto simp: encapMlKem_def parallelTry_sequential bindE_Inr_iff row_consts)
next
  case EcKem
  have "(\<lambda>j. encapEc_row env 3 j (rowPtr rows 3 j)) = (\<lambda>j. ec_enc env j (rowPtr rows 3 j))"
    by (rule ext) (simp add: ec_enc_def)
  then show ?thesis using assms EcKem by (auto simp: encapEc_def kemRowBlocks_eq parallelFor_Inr bindE_Inr_iff)
qed

lemma countHits_eq:
  assumes "w = kem_width kind" and "length rows = length sks * w"
    and "\<And>i. i < length sks \<Longrightarrow> kem_hit kind env (sks ! i) (rowPtr rows w i) = Inr (q i)"
  shows "countHits kind env sks rows w mt wt = Inr (word_of_nat (length (filter q [0..<length sks])))"
proof (cases kind)
  case ObfMlKem
  then have "decapWith (ke_native env) (MlKem_new MlKem512) (sks ! i) (rowPtr rows 50 i) = Inr (q i)"
    if "i < length sks" for i using that assms by (simp add: ml_hit_def row_consts)
  from count_threads_eq [of "length sks", OF this] show ?thesis
    using assms ObfMlKem by (simp add: countDecapHits_def row_consts)
next
  case EcKem
  then have "Inr (ecHit env (sks ! i) (rowPtr rows 3 i)) = (Inr (q i) :: bool result)"
    if "i < length sks" for i using that assms by (simp add: ec_hit_def)
  from count_threads_eq [of "length sks" "\<lambda>i. Inr (ecHit env (sks ! i) (rowPtr rows 3 i))", OF this] show ?thesis
    using assms EcKem by (simp add: countEcHits_def kemRowBlocks_eq)
qed

end
