(* ===== verification/Psi_Protocol.thy ===== *)
theory Psi_Protocol
  imports Psi_Net Perm_Api Kem_RowsCorrect RB_Okvs
begin

text \<open>
  The two parties of \<open>frontend/pqpsi/protocols\<close>: \<open>Send\<close> of \<open>send.cpp\<close> and \<open>Recv\<close> of \<open>recv.cpp\<close>,
  the latter in the two halves that its blocking receive separates, and a session of both as
  a step relation. Timing, tracing and the simulated network delay are left out.
\<close>

section \<open>Contexts\<close>

record Ctx =
  tableSize :: nat
  bandWidth :: nat
  rowSize :: nat
  multiThread :: bool
  workerThreads :: nat
  rb :: RBParams
  kem :: PsiKemKind
  bobPi :: bool
  ownPi :: Perm
  peerPi :: Perm
  items :: "block list"
  chls :: "nat list"

text \<open>
  The environment of a run: floating point and threads, the block cipher, the KEM libraries and
  the random bytes (those of key row \<open>i\<close> the receiver's, those of encapsulation \<open>j\<close> the sender's).
\<close>

record psi_env =
  pe_rb :: rb_env
  pe_aes :: cipher
  pe_kem :: kem_env
  pe_hc :: nat

section \<open>The receiver\<close>

record recv_state =
  rs_sk :: "u8 list list"
  rs_masks :: "block list"
  rs_buf :: "block list"

text \<open>Up to the posted receive of the second table. The result of \<open>RBEncode\<close> is not looked at.\<close>

definition Recv_begin :: "psi_env \<Rightarrow> Ctx \<Rightarrow> recv_state result" where
  "Recv_begin env ctx =
     (let n = length (items ctx); w = rowSize ctx; mt = multiThread ctx; wt = workerThreads ctx
      in bindE (genRows (kem ctx) (pe_kem env) (n * w) w mt wt) (\<lambda>(sk, pk).
         bindE (precomputeMasks (pe_hc env) (pe_aes env) (items ctx) w mt wt) (\<lambda>masks.
         bindE (parallelFor (pe_hc env) n 16 mt wt (\<lambda>i.
                  bindE (permute (ownPi ctx) (rowPtr pk w i) w) (\<lambda>row.
                    Inr (xorMask (rowPtr masks w i) row w)))) (\<lambda>rows.
         bindE (RBEncodeFlat (pe_rb env) (pe_aes env) (items ctx) (concat rows) w
                  (replicate (tableSize ctx * w) 0) (rb ctx)) (\<lambda>(ok, buf).
           Inr \<lparr> rs_sk = sk, rs_masks = masks, rs_buf = buf \<rparr>)))))"

text \<open>From the received table to the number of hits.\<close>

definition Recv_finish :: "psi_env \<Rightarrow> Ctx \<Rightarrow> recv_state \<Rightarrow> block list \<Rightarrow> u64 result" where
  "Recv_finish env ctx st recvBuf =
     (let n = length (items ctx); w = rowSize ctx; mt = multiThread ctx; wt = workerThreads ctx
      in bindE (RBDecodeFlat (pe_rb env) (pe_aes env) recvBuf w (items ctx) (rb ctx)) (\<lambda>rows.
         bindE (parallelFor (pe_hc env) n 16 mt wt (\<lambda>i.
                  let row = xorMask (rowPtr (rs_masks st) w i) (rowPtr rows w i) w
                  in if bobPi ctx then unpermute (peerPi ctx) row w else Inr row)) (\<lambda>rows.
         countHits (kem ctx) (pe_kem env) (rs_sk st) (concat rows) w mt wt)))"

section \<open>The sender\<close>

text \<open>
  From the received table to the table sent back. \<open>RBEncode\<close> writes into the buffer that still
  holds the received table, and its result is not looked at.
\<close>

definition Send_reply :: "psi_env \<Rightarrow> Ctx \<Rightarrow> block list \<Rightarrow> block list result" where
  "Send_reply env ctx buf =
     (let n = length (items ctx); w = rowSize ctx; mt = multiThread ctx; wt = workerThreads ctx
      in bindE (precomputeMasks (pe_hc env) (pe_aes env) (items ctx) w mt wt) (\<lambda>masks.
         bindE (RBDecodeFlat (pe_rb env) (pe_aes env) buf w (items ctx) (rb ctx)) (\<lambda>rows.
         bindE (parallelFor (pe_hc env) n 16 mt wt (\<lambda>i.
                  unpermute (peerPi ctx) (xorMask (rowPtr masks w i) (rowPtr rows w i) w) w)) (\<lambda>rows.
         bindE (encapRows (kem ctx) (pe_kem env) (concat rows) w mt wt) (\<lambda>ct.
         bindE (parallelFor (pe_hc env) n 16 mt wt (\<lambda>i.
                  bindE (if bobPi ctx then permute (ownPi ctx) (rowPtr ct w i) w else Inr (rowPtr ct w i))
                    (\<lambda>row. Inr (xorMask (rowPtr masks w i) row w)))) (\<lambda>rows.
         bindE (RBEncodeFlat (pe_rb env) (pe_aes env) (items ctx) (concat rows) w buf (rb ctx)) (\<lambda>(ok, out).
           Inr out)))))))"

section \<open>A session of both parties\<close>

datatype recv_phase = RStart | RWait recv_state | RDone u64 | RFailed error
datatype send_phase = SWait | SDone | SFailed error

record session =
  se_recv :: recv_phase
  se_send :: send_phase
  se_to_sender :: link
  se_to_receiver :: link

text \<open>
  One step of a session: a party computes up to its next blocking receive, or completes it. The
  receiver talks to peer 1 and the sender to peer 0. A receive completes when all its parts
  have arrived. Both sends and receives may throw.
\<close>

definition send_wait :: "Ctx \<Rightarrow> session \<Rightarrow> (u8 list \<times> link) comp" where
  "send_wait ctxS s =
     net_await (multiThread ctxS) (chls ctxS) 0 (replicate (16 * (tableSize ctxS * rowSize ctxS)) 0) (se_to_sender s)"

definition recv_wait :: "Ctx \<Rightarrow> recv_state \<Rightarrow> session \<Rightarrow> (u8 list \<times> link) comp" where
  "recv_wait ctxR st s =
     net_await (multiThread ctxR) (chls ctxR) 1 (replicate (16 * length (rs_buf st)) 0) (se_to_receiver s)"

inductive psi_step :: "psi_env \<Rightarrow> Ctx \<Rightarrow> Ctx \<Rightarrow> session \<Rightarrow> session \<Rightarrow> bool"
  for env ctxR ctxS where
  recv_begin: "se_recv s = RStart \<Longrightarrow> Recv_begin env ctxR = Inr st \<Longrightarrow>
    net_send (multiThread ctxR) (chls ctxR) 1 (bytesOf (rs_buf st)) (se_to_sender s) = retC lnk \<Longrightarrow>
    psi_step env ctxR ctxS s (s\<lparr> se_recv := RWait st, se_to_sender := lnk \<rparr>)"
| recv_throw: "se_recv s = RStart \<Longrightarrow> Recv_begin env ctxR = Inl e \<Longrightarrow>
    psi_step env ctxR ctxS s (s\<lparr> se_recv := RFailed e \<rparr>)"
| recv_send_throw: "se_recv s = RStart \<Longrightarrow> Recv_begin env ctxR = Inr st \<Longrightarrow>
    net_send (multiThread ctxR) (chls ctxR) 1 (bytesOf (rs_buf st)) (se_to_sender s) = throwC e \<Longrightarrow>
    psi_step env ctxR ctxS s (s\<lparr> se_recv := RFailed e \<rparr>)"
| send_reply: "se_send s = SWait \<Longrightarrow> send_wait ctxS s = retC (bytes, lnk) \<Longrightarrow>
    Send_reply env ctxS (blocksOf (tableSize ctxS * rowSize ctxS) bytes) = Inr out \<Longrightarrow>
    net_send (multiThread ctxS) (chls ctxS) 0 (bytesOf out) (se_to_receiver s) = retC lnk' \<Longrightarrow>
    psi_step env ctxR ctxS s (s\<lparr> se_send := SDone, se_to_sender := lnk, se_to_receiver := lnk' \<rparr>)"
| send_wait_throw: "se_send s = SWait \<Longrightarrow> send_wait ctxS s = throwC e \<Longrightarrow>
    psi_step env ctxR ctxS s (s\<lparr> se_send := SFailed e \<rparr>)"
| send_throw: "se_send s = SWait \<Longrightarrow> send_wait ctxS s = retC (bytes, lnk) \<Longrightarrow>
    Send_reply env ctxS (blocksOf (tableSize ctxS * rowSize ctxS) bytes) = Inl e \<Longrightarrow>
    psi_step env ctxR ctxS s (s\<lparr> se_send := SFailed e, se_to_sender := lnk \<rparr>)"
| send_send_throw: "se_send s = SWait \<Longrightarrow> send_wait ctxS s = retC (bytes, lnk) \<Longrightarrow>
    Send_reply env ctxS (blocksOf (tableSize ctxS * rowSize ctxS) bytes) = Inr out \<Longrightarrow>
    net_send (multiThread ctxS) (chls ctxS) 0 (bytesOf out) (se_to_receiver s) = throwC e \<Longrightarrow>
    psi_step env ctxR ctxS s (s\<lparr> se_send := SFailed e, se_to_sender := lnk \<rparr>)"
| recv_finish: "se_recv s = RWait st \<Longrightarrow> recv_wait ctxR st s = retC (bytes, lnk) \<Longrightarrow>
    Recv_finish env ctxR st (blocksOf (length (rs_buf st)) bytes) = Inr hits \<Longrightarrow>
    psi_step env ctxR ctxS s (s\<lparr> se_recv := RDone hits, se_to_receiver := lnk \<rparr>)"
| recv_wait_throw: "se_recv s = RWait st \<Longrightarrow> recv_wait ctxR st s = throwC e \<Longrightarrow>
    psi_step env ctxR ctxS s (s\<lparr> se_recv := RFailed e \<rparr>)"
| recv_finish_throw: "se_recv s = RWait st \<Longrightarrow> recv_wait ctxR st s = retC (bytes, lnk) \<Longrightarrow>
    Recv_finish env ctxR st (blocksOf (length (rs_buf st)) bytes) = Inl e \<Longrightarrow>
    psi_step env ctxR ctxS s (s\<lparr> se_recv := RFailed e, se_to_receiver := lnk \<rparr>)"

definition psi_start :: "Ctx \<Rightarrow> Ctx \<Rightarrow> session" where
  "psi_start ctxR ctxS =
     \<lparr> se_recv = RStart, se_send = SWait,
       se_to_sender = replicate (chls ctxR ! 1) [], se_to_receiver = replicate (chls ctxS ! 0) [] \<rparr>"

end
