(* ===== verification/Psi_Core.thy ===== *)
theory Psi_Core
  imports Psi_Protocol RB_Rank
begin

text \<open>
  Why the protocol finds the intersection, proved once over its interfaces: a key-value store, a
  KEM of rows and a way to seal a row under an item. The locale extends the contracts of the
  store and of the KEM; it is interpreted on the flat random-band codec, the KEMs of
  \<open>kem_rows.h\<close> and the mask-and-permute sealing of \<open>send.cpp\<close> and \<open>recv.cpp\<close>.
\<close>

locale psi_core = okvs encode decode fits val_ok + row_kem gen enc hit width sound honest
  for encode :: "'p \<Rightarrow> block list \<Rightarrow> block list list \<Rightarrow> 't \<Rightarrow> (bool \<times> 't) result"
    and decode :: "'p \<Rightarrow> 't \<Rightarrow> block list \<Rightarrow> block list list result"
    and fits :: "'p \<Rightarrow> nat \<Rightarrow> bool"
    and val_ok :: "'p \<Rightarrow> block list \<Rightarrow> bool"
    and gen :: "'e \<Rightarrow> nat \<Rightarrow> (u8 list \<times> block list) result"
    and enc :: "'e \<Rightarrow> nat \<Rightarrow> block list \<Rightarrow> block list result"
    and hit :: "'e \<Rightarrow> u8 list \<Rightarrow> block list \<Rightarrow> bool result"
    and width :: nat
    and sound :: "'e \<Rightarrow> bool"
    and honest :: "'e \<Rightarrow> nat \<Rightarrow> nat \<Rightarrow> bool" +
  fixes seal unseal :: "'s \<Rightarrow> block \<Rightarrow> block list \<Rightarrow> block list"
    and sealer :: "'s \<Rightarrow> bool"
    and suits :: "'p \<Rightarrow> bool"
  assumes seal_width: "sealer s \<Longrightarrow> length r = width \<Longrightarrow> length (seal s x r) = width"
    and unseal_width: "sealer s \<Longrightarrow> length r = width \<Longrightarrow> length (unseal s x r) = width"
    and unseal_seal: "sealer s \<Longrightarrow> length r = width \<Longrightarrow> unseal s x (seal s x r) = r"
    and suits_val: "suits p \<Longrightarrow> length v = width \<Longrightarrow> val_ok p v"
begin

text \<open>The rows one party encodes under its items.\<close>

lemma sealed_rows_ok:
  assumes "sealer s" and "suits p" and "\<forall>r \<in> set rows. length r = width" and "length rows = n"
  shows "\<forall>v \<in> set (map (\<lambda>i. seal s (X ! i) (rows ! i)) [0..<n]). val_ok p v \<and> length v = width"
  using assms seal_width suits_val by auto

text \<open>Decoding a sealed table at an item of the other party's set gives that party's row.\<close>

lemma sealed_lookup:
  assumes s: "sealer s" "suits p" and rows: "\<forall>r \<in> set rows. length r = width" "length rows = length X"
    and ne: "X \<noteq> []" "fits p (length X)" "length Y = length X"
    and enc: "encode p X (map (\<lambda>i. seal s (X ! i) (rows ! i)) [0..<length X]) T0 = Inr (True, T)"
    and dec: "decode p T Y = Inr vs" and ij: "i < length X" "j < length X" "X ! i = Y ! j"
  shows "unseal s (Y ! j) (vs ! j) = rows ! i"
proof -
  have "vs ! j = map (\<lambda>i. seal s (X ! i) (rows ! i)) [0..<length X] ! i"
    using sealed_rows_ok [OF s rows(1)] rows(2) ij ne
    by (intro decode_member [OF enc ne(1,2) _ _ ne(3) dec]) simp_all
  then show ?thesis using unseal_seal [OF s(1)] rows ij by simp
qed

text \<open>An item of both sets is a hit: key, encapsulation and test meet on the same row.\<close>

theorem common_item_hits:
  assumes s: "sealer s1" "sealer s2" "suits p" and e: "sound e" "honest e i j"
    and X: "X \<noteq> []" "fits p (length X)" "length Y = length X"
    and ks: "mapE (gen e) [0..<length X] = Inr ks"
    and enc1: "encode p X (map (\<lambda>i. seal s1 (X ! i) (map snd ks ! i)) [0..<length X]) T0 = Inr (True, T1)"
    and dec1: "decode p T1 Y = Inr vs1"
    and cts: "enc e j (unseal s1 (Y ! j) (vs1 ! j)) = Inr (cts ! j)" "length cts = length Y"
      "\<forall>r \<in> set cts. length r = width"
    and enc2: "encode p Y (map (\<lambda>j. seal s2 (Y ! j) (cts ! j)) [0..<length Y]) T0' = Inr (True, T2)"
    and dec2: "decode p T2 X = Inr vs2"
    and ij: "i < length X" "j < length X" "X ! i = Y ! j"
  shows "hit e (fst (ks ! i)) (unseal s2 (X ! i) (vs2 ! i)) = Inr True"
proof -
  have lk: "length ks = length X" using mapE_Inr_length [OF ks] by simp
  have gi: "gen e i = Inr (fst (ks ! i), snd (ks ! i))" using mapE_Inr_nth [OF ks, of i] ij(1) by simp
  have "unseal s1 (Y ! j) (vs1 ! j) = map snd ks ! i"
    using gens_width [OF e(1) ks] lk by (intro sealed_lookup [OF s(1,3) _ _ X enc1 dec1 ij]) auto
  then have "enc e j (snd (ks ! i)) = Inr (cts ! j)" using cts(1) lk ij(1) by simp
  then have "hit e (fst (ks ! i)) (cts ! j) = Inr True" by (rule hit_honest [OF e gi])
  moreover have "unseal s2 (X ! i) (vs2 ! i) = cts ! j"
    using X ij cts(2,3) by (intro sealed_lookup [OF s(2,3) _ _ _ _ _ enc2 dec2]) auto
  ultimately show ?thesis by simp
qed

end

section \<open>Sealing by mask and permutation\<close>

record sealer =
  sl_aes :: cipher
  sl_width :: nat
  sl_perm :: "Perm option"

definition seal_row :: "sealer \<Rightarrow> block \<Rightarrow> block list \<Rightarrow> block list" where
  "seal_row s x r =
     xorMask (fillMask (sl_aes s) x (sl_width s))
       (case sl_perm s of None \<Rightarrow> r | Some p \<Rightarrow> projr (permute p r (sl_width s))) (sl_width s)"

definition unseal_row :: "sealer \<Rightarrow> block \<Rightarrow> block list \<Rightarrow> block list" where
  "unseal_row s x r =
     (let m = xorMask (fillMask (sl_aes s) x (sl_width s)) r (sl_width s)
      in case sl_perm s of None \<Rightarrow> m | Some p \<Rightarrow> projr (unpermute p m (sl_width s)))"

definition sealer_ok :: "nat \<Rightarrow> sealer \<Rightarrow> bool" where
  "sealer_ok w s \<longleftrightarrow> sl_width s = w \<and> (case sl_perm s of None \<Rightarrow> True | Some p \<Rightarrow> perm_ok p (16 * w))"

lemma unseal_row_width:
  assumes "sealer_ok w s" and "length r = w"
  shows "length (unseal_row s x r) = w"
proof (cases "sl_perm s")
  case (Some p)
  let ?m = "xorMask (fillMask (sl_aes s) x w) r w"
  obtain out where "unpermute p ?m w = Inr out" "length out = w"
    using unpermute_total [of p w ?m] assms(1) Some by (auto simp: sealer_ok_def)
  then show ?thesis using assms Some by (simp add: unseal_row_def sealer_ok_def)
qed (use assms in \<open>simp add: unseal_row_def sealer_ok_def\<close>)

lemma unseal_seal_row:
  assumes "sealer_ok w s" and "length r = w"
  shows "unseal_row s x (seal_row s x r) = r"
proof (cases "sl_perm s")
  case None
  then show ?thesis using assms by (simp add: unseal_row_def seal_row_def sealer_ok_def xorMask_xorMask)
next
  case (Some p)
  obtain out where "permute p r w = Inr out" "length out = w" "unpermute p out w = Inr r"
    using unpermute_permute [of p w r] assms Some by (auto simp: sealer_ok_def)
  then show ?thesis using assms Some by (simp add: unseal_row_def seal_row_def sealer_ok_def xorMask_xorMask)
qed

text \<open>The codec configuration whose rows have the width of the KEM.\<close>

definition suits_width :: "nat \<Rightarrow> rb_cfg \<Rightarrow> bool" where
  "suits_width w c \<longleftrightarrow> cfg_rowSize c = w"

interpretation psi: psi_core flat_encode flat_decode cfg_fits row_width_ok
    "kem_gen kind" "kem_enc kind" "kem_hit kind" "kem_width kind" "kem_sound kind" "kem_honest kind"
    seal_row unseal_row "sealer_ok (kem_width kind)" "suits_width (kem_width kind)"
  for kind
proof
  fix s :: sealer and r :: "block list" and x
  assume s: "sealer_ok (kem_width kind) s" and r: "length r = kem_width kind"
  show "length (seal_row s x r) = kem_width kind" using s by (simp add: seal_row_def sealer_ok_def)
  show "length (unseal_row s x r) = kem_width kind" by (rule unseal_row_width [OF s r])
  show "unseal_row s x (seal_row s x r) = r" by (rule unseal_seal_row [OF s r])
next
  fix c and v :: "block list"
  assume "suits_width (kem_width kind) c" and "length v = kem_width kind"
  then show "row_width_ok c v" using kem_width_pos [of kind] by (auto simp: suits_width_def row_width_ok_def)
qed

end
