(* ===== verification/Psi_Correct.thy ===== *)
theory Psi_Correct
  imports Psi_Core
begin

text \<open>
  The two parties compute what the core theorem talks about: \<open>Recv_begin\<close>, \<open>Send_reply\<close> and
  \<open>Recv_finish\<close> on agreeing contexts, and the session of both.
\<close>

section \<open>Agreeing contexts\<close>

definition rb_of :: "psi_env \<Rightarrow> Ctx \<Rightarrow> rb_cfg" where
  "rb_of env ctx = \<lparr> cfg_env = pe_rb env, cfg_aes = pe_aes env, cfg_rowSize = rowSize ctx, cfg_params = rb ctx \<rparr>"

text \<open>What \<open>pqpsi\<close> sets up on both sides, up to the items.\<close>

definition ctx_ok :: "psi_env \<Rightarrow> Ctx \<Rightarrow> bool" where
  "ctx_ok env ctx \<longleftrightarrow> rowSize ctx = kem_width (kem ctx) \<and> items ctx \<noteq> [] \<and>
     perm_ok (ownPi ctx) (16 * rowSize ctx) \<and> perm_ok (peerPi ctx) (16 * rowSize ctx) \<and>
     kem_sound (kem ctx) (pe_kem env) \<and> cols_ok (rb ctx) (length (items ctx)) \<and>
     (\<exists>cfg. RBInfoOf (pe_rb env) (length (items ctx)) (rb ctx) = Inr cfg \<and> tableSize ctx = inf_columns cfg)"

definition ctx_agree :: "Ctx \<Rightarrow> Ctx \<Rightarrow> bool" where
  "ctx_agree ctxR ctxS \<longleftrightarrow> rowSize ctxS = rowSize ctxR \<and> kem ctxS = kem ctxR \<and> rb ctxS = rb ctxR \<and>
     bobPi ctxS = bobPi ctxR \<and> ownPi ctxS = peerPi ctxR \<and> peerPi ctxS = ownPi ctxR \<and>
     length (items ctxS) = length (items ctxR) \<and> tableSize ctxS = tableSize ctxR \<and>
     multiThread ctxS = multiThread ctxR"

text \<open>The items can be encoded: their band rows are linearly independent.\<close>

definition encodable :: "psi_env \<Rightarrow> Ctx \<Rightarrow> bool" where
  "encodable env ctx \<longleftrightarrow> (\<exists>cfg. RBInfoOf (pe_rb env) (length (items ctx)) (rb ctx) = Inr cfg \<and>
     \<not> cancels (mset (map (key_cols (RBMakeHashCtx (pe_aes env) (rb ctx)) (inf_columns cfg) (inf_bandWidth cfg))
         (items ctx))))"

text \<open>Every key row found an encodable key within its attempts.\<close>

definition keys_generated :: "psi_env \<Rightarrow> Ctx \<Rightarrow> bool" where
  "keys_generated env ctx \<longleftrightarrow>
     (\<forall>i < length (items ctx). \<exists>k. kem_gen (kem ctx) (pe_kem env) i = Inr k)"

section \<open>The store\<close>

lemma flat_encode_ok:
  assumes ok: "ctx_ok env ctx" and enc: "encodable env ctx" and len: "length vals = length (items ctx)"
    and w: "\<forall>v \<in> set vals. length v = rowSize ctx"
  shows "\<exists>T. flat_encode (rb_of env ctx) (items ctx) vals T0 = Inr (True, T) \<and>
    length T = tableSize ctx * rowSize ctx"
proof -
  obtain cfg where cfg: "RBInfoOf (pe_rb env) (length (items ctx)) (rb ctx) = Inr cfg" "tableSize ctx = inf_columns cfg"
    using ok by (auto simp: ctx_ok_def)
  have ne: "items ctx \<noteq> []" and pos: "0 < rowSize ctx" using ok kem_width_pos by (auto simp: ctx_ok_def)
  have nc: "\<not> cancels (mset (map (key_cols (RBMakeHashCtx (pe_aes env) (rb ctx)) (inf_columns cfg) (inf_bandWidth cfg))
         (items ctx)))" using enc cfg(1) by (auto simp: encodable_def)
  obtain T where T: "RBEncode (pe_rb env) (pe_aes env) (items ctx) vals [T0] (rb ctx) = Inr (True, T)"
    using RBEncode_decides [OF cfg(1) len w pos ne, of "pe_aes env" "[T0]"] nc by auto
  then have "flat_encode (rb_of env ctx) (items ctx) vals (concat [T0]) = Inr (True, concat T)"
    unfolding flat_encode_def rb_of_def rb_cfg.simps RBEncodeFlat_sim [OF len w pos] by simp
  moreover have "length (concat T) = tableSize ctx * rowSize ctx"
  proof -
    obtain cfg' where cfg': "RBInfoOf (pe_rb env) (length (items ctx)) (rb ctx) = Inr cfg'"
      "encodes (RBMakeHashCtx (pe_aes env) (rb ctx)) (inf_columns cfg') (inf_bandWidth cfg') (items ctx) vals T"
      using RBEncode_cases [OF T ne] by auto
    have "length (vals ! 0) = rowSize ctx" using w len ne by (cases vals) auto
    then have "table_ok (tableSize ctx) (rowSize ctx) T" using cfg' cfg by (auto simp: encodes_def)
    then show ?thesis using length_concat_uniform [of T "rowSize ctx"] by (auto simp: table_ok_def)
  qed
  ultimately show ?thesis by simp
qed

lemma flat_decode_ok:
  assumes ok: "ctx_ok env ctx" and enc: "flat_encode (rb_of env ctx) (items ctx) vals T0 = Inr (True, T)"
    and len: "length vals = length (items ctx)" and w: "\<forall>v \<in> set vals. length v = rowSize ctx"
    and len': "length keys = length (items ctx)"
  shows "\<exists>vs. flat_decode (rb_of env ctx) T keys = Inr vs \<and> length vs = length (items ctx) \<and>
    (\<forall>v \<in> set vs. length v = rowSize ctx)"
proof -
  have pos: "0 < rowSize ctx" and ne: "items ctx \<noteq> []" and c: "cols_ok (rb ctx) (length (items ctx))"
    using ok kem_width_pos by (auto simp: ctx_ok_def)
  show ?thesis
    using RBEncodeFlat_RBDecodeFlatRows [OF enc [unfolded flat_encode_def rb_of_def rb_cfg.simps] ne c len' len w pos]
    unfolding flat_decode_def rb_of_def rb_cfg.simps by blast
qed

section \<open>The parties\<close>

definition own_sealer :: "psi_env \<Rightarrow> Ctx \<Rightarrow> Perm option \<Rightarrow> sealer" where
  "own_sealer env ctx p = \<lparr> sl_aes = pe_aes env, sl_width = rowSize ctx, sl_perm = p \<rparr>"

text \<open>The permutation that closes the second table, if it is used.\<close>

definition bob_perm :: "Ctx \<Rightarrow> Perm \<Rightarrow> Perm option" where
  "bob_perm ctx p = (if bobPi ctx then Some p else None)"

lemma mask_row:
  "i < length xs \<Longrightarrow> rowPtr (concat (map (\<lambda>x. fillMask aes x w) xs)) w i = fillMask aes (xs ! i) w"
  by (subst rowPtr_concat) auto

lemma permute_ok: "perm_ok p (16 * w) \<Longrightarrow> length r = w \<Longrightarrow> permute p r w = Inr (projr (permute p r w))"
  using unpermute_permute [of p w r] by auto

lemma unpermute_ok: "perm_ok p (16 * w) \<Longrightarrow> length r = w \<Longrightarrow> unpermute p r w = Inr (projr (unpermute p r w))"
  using unpermute_total [of p w r] by auto

lemma parallelFor_map:
  "(\<And>i. i < n \<Longrightarrow> f i = Inr (g i)) \<Longrightarrow> parallelFor hc n mw mt wt f = Inr (map g [0..<n])"
  unfolding parallelFor_Inr by (intro mapE_all_Inr) simp

lemma Recv_begin_eq:
  assumes ok: "ctx_ok env ctx" and ks: "mapE (kem_gen (kem ctx) (pe_kem env)) [0..<length (items ctx)] = Inr ks"
  shows "Recv_begin env ctx =
    bindE (flat_encode (rb_of env ctx) (items ctx)
        (map (\<lambda>i. seal_row (own_sealer env ctx (Some (ownPi ctx))) (items ctx ! i) (map snd ks ! i)) [0..<length (items ctx)])
        (replicate (tableSize ctx * rowSize ctx) 0))
      (\<lambda>(ok, buf). Inr \<lparr> rs_sk = map fst ks,
         rs_masks = concat (map (\<lambda>x. fillMask (pe_aes env) x (rowSize ctx)) (items ctx)), rs_buf = buf \<rparr>)"
proof -
  let ?w = "rowSize ctx" and ?n = "length (items ctx)"
  have w: "?w = kem_width (kem ctx)" and p: "perm_ok (ownPi ctx) (16 * ?w)" and s: "kem_sound (kem ctx) (pe_kem env)"
    using ok by (auto simp: ctx_ok_def)
  have gen: "genRows (kem ctx) (pe_kem env) (?n * ?w) ?w (multiThread ctx) (workerThreads ctx) =
      Inr (map fst ks, concat (map snd ks))"
    using genRows_Inr [OF w] ks by blast
  have kw: "length r = ?w" if "r \<in> set (map snd ks)" for r
    using kemRows.gens_width [OF s ks] that w by auto
  have lk: "length ks = ?n" using mapE_Inr_length [OF ks] by simp
  have one: "bindE (permute (ownPi ctx) (rowPtr (concat (map snd ks)) ?w i) ?w) (\<lambda>row.
        Inr (xorMask (rowPtr (concat (map (\<lambda>x. fillMask (pe_aes env) x ?w) (items ctx))) ?w i) row ?w)) =
      Inr (seal_row (own_sealer env ctx (Some (ownPi ctx))) (items ctx ! i) (map snd ks ! i))" if i: "i < ?n" for i
  proof -
    have r: "rowPtr (concat (map snd ks)) ?w i = map snd ks ! i" using kw lk i by (intro rowPtr_concat) auto
    have l: "length (map snd ks ! i) = ?w" using kw lk i by (intro kw nth_mem) simp
    show ?thesis using i
      by (subst permute_ok [OF p l [folded r]]) (simp add: r mask_row seal_row_def own_sealer_def)
  qed
  have loop: "parallelFor (pe_hc env) ?n 16 (multiThread ctx) (workerThreads ctx) (\<lambda>i.
      bindE (permute (ownPi ctx) (rowPtr (concat (map snd ks)) ?w i) ?w) (\<lambda>row.
        Inr (xorMask (rowPtr (concat (map (\<lambda>x. fillMask (pe_aes env) x ?w) (items ctx))) ?w i) row ?w))) =
      Inr (map (\<lambda>i. seal_row (own_sealer env ctx (Some (ownPi ctx))) (items ctx ! i) (map snd ks ! i)) [0..<?n])"
    by (rule parallelFor_map, rule one)
  show ?thesis
    unfolding Recv_begin_def Let_def gen precomputeMasks_eq bindE_simps loop prod.case
    by (simp add: flat_encode_def rb_of_def)
qed

lemma RBDecodeFlat_eq:
  "flat_decode (rb_of env ctx) T keys = Inr vs \<Longrightarrow>
   RBDecodeFlat (pe_rb env) (pe_aes env) T (rowSize ctx) keys (rb ctx) = Inr (concat vs)"
  by (simp add: flat_decode_def rb_of_def RBDecodeFlat_def)

lemma Recv_finish_eq:
  assumes ok: "ctx_ok env ctx" and vs: "flat_decode (rb_of env ctx) T (items ctx) = Inr vs"
    "length vs = length (items ctx)" "\<forall>v \<in> set vs. length v = rowSize ctx"
    and st: "rs_masks st = concat (map (\<lambda>x. fillMask (pe_aes env) x (rowSize ctx)) (items ctx))"
  shows "Recv_finish env ctx st T =
    countHits (kem ctx) (pe_kem env) (rs_sk st)
      (concat (map (\<lambda>i. unseal_row (own_sealer env ctx (bob_perm ctx (peerPi ctx))) (items ctx ! i) (vs ! i))
        [0..<length (items ctx)])) (rowSize ctx) (multiThread ctx) (workerThreads ctx)"
proof -
  let ?w = "rowSize ctx" and ?n = "length (items ctx)"
  have p: "perm_ok (peerPi ctx) (16 * ?w)" using ok by (auto simp: ctx_ok_def)
  have one: "(let row = xorMask (rowPtr (rs_masks st) ?w i) (rowPtr (concat vs) ?w i) ?w
         in if bobPi ctx then unpermute (peerPi ctx) row ?w else Inr row) =
      Inr (unseal_row (own_sealer env ctx (bob_perm ctx (peerPi ctx))) (items ctx ! i) (vs ! i))" if i: "i < ?n" for i
  proof -
    have r: "rowPtr (concat vs) ?w i = vs ! i" using vs(2,3) i by (intro rowPtr_concat) auto
    show ?thesis
      using i unpermute_ok [OF p, of "xorMask (fillMask (pe_aes env) (items ctx ! i) ?w) (vs ! i) ?w"]
      by (simp add: r st mask_row unseal_row_def own_sealer_def bob_perm_def)
  qed
  have loop: "parallelFor (pe_hc env) ?n 16 (multiThread ctx) (workerThreads ctx) (\<lambda>i.
      let row = xorMask (rowPtr (rs_masks st) ?w i) (rowPtr (concat vs) ?w i) ?w
      in if bobPi ctx then unpermute (peerPi ctx) row ?w else Inr row) =
      Inr (map (\<lambda>i. unseal_row (own_sealer env ctx (bob_perm ctx (peerPi ctx))) (items ctx ! i) (vs ! i)) [0..<?n])"
    by (rule parallelFor_map, rule one)
  show ?thesis unfolding Recv_finish_def RBDecodeFlat_eq [OF vs(1)] Let_def [of "length (items ctx)"]
      Let_def [of "rowSize ctx"] Let_def [of "multiThread ctx"] Let_def [of "workerThreads ctx"] bindE_simps loop ..
qed

text \<open>The three loops of the sender.\<close>

lemma sender_unseal_loop:
  assumes p: "perm_ok (peerPi ctx) (16 * rowSize ctx)" and vs: "length vs = length (items ctx)"
    "\<forall>v \<in> set vs. length v = rowSize ctx"
    and masks: "masks = concat (map (\<lambda>x. fillMask (pe_aes env) x (rowSize ctx)) (items ctx))"
  shows "parallelFor (pe_hc env) (length (items ctx)) 16 (multiThread ctx) (workerThreads ctx) (\<lambda>i.
      unpermute (peerPi ctx) (xorMask (rowPtr masks (rowSize ctx) i) (rowPtr (concat vs) (rowSize ctx) i) (rowSize ctx)) (rowSize ctx)) =
    Inr (map (\<lambda>j. unseal_row (own_sealer env ctx (Some (peerPi ctx))) (items ctx ! j) (vs ! j)) [0..<length (items ctx)])"
proof (rule parallelFor_map)
  fix i assume i: "i < length (items ctx)"
  have "rowPtr (concat vs) (rowSize ctx) i = vs ! i" using vs i by (intro rowPtr_concat) auto
  then show "unpermute (peerPi ctx) (xorMask (rowPtr masks (rowSize ctx) i) (rowPtr (concat vs) (rowSize ctx) i) (rowSize ctx)) (rowSize ctx) =
      Inr (unseal_row (own_sealer env ctx (Some (peerPi ctx))) (items ctx ! i) (vs ! i))"
    using i unpermute_ok [OF p, of "xorMask (fillMask (pe_aes env) (items ctx ! i) (rowSize ctx)) (vs ! i) (rowSize ctx)"]
    by (simp add: masks mask_row unseal_row_def own_sealer_def)
qed

lemma sender_encap_loop:
  assumes ok: "ctx_ok env ctx" and rw: "\<And>j. j < length (items ctx) \<Longrightarrow> length (row j) = rowSize ctx"
  shows "\<exists>cts. encapRows (kem ctx) (pe_kem env) (concat (map row [0..<length (items ctx)])) (rowSize ctx)
      (multiThread ctx) (workerThreads ctx) = Inr (concat cts) \<and>
    length cts = length (items ctx) \<and> (\<forall>c \<in> set cts. length c = rowSize ctx) \<and>
    (\<forall>j < length (items ctx). kem_enc (kem ctx) (pe_kem env) j (row j) = Inr (cts ! j))"
proof -
  let ?w = "rowSize ctx" and ?n = "length (items ctx)" and ?flat = "concat (map row [0..<length (items ctx)])"
  have w: "?w = kem_width (kem ctx)" and s: "kem_sound (kem ctx) (pe_kem env)" using ok by (auto simp: ctx_ok_def)
  obtain cts where cts: "length cts = ?n" "\<forall>c \<in> set cts. length c = ?w"
    "\<forall>j < ?n. kem_enc (kem ctx) (pe_kem env) j (row j) = Inr (cts ! j)"
    using kemRows.encs_total [OF s, of ?n row] rw w by auto
  have rp: "rowPtr ?flat ?w j = row j" if "j < ?n" for j using rw that by (subst rowPtr_concat) auto
  have lf: "length ?flat = ?n * ?w" by (subst length_concat_uniform [of _ ?w]) (auto simp: rw)
  have "mapE (\<lambda>j. kem_enc (kem ctx) (pe_kem env) j (rowPtr ?flat ?w j)) [0..<?n] = Inr (map (\<lambda>j. cts ! j) [0..<?n])"
    using cts(3) rp by (intro mapE_all_Inr) simp
  then have "mapE (\<lambda>j. kem_enc (kem ctx) (pe_kem env) j (rowPtr ?flat ?w j)) [0..<?n] = Inr cts"
    using cts(1) map_nth [of cts] by simp
  then show ?thesis using encapRows_Inr [OF w lf] cts by blast
qed

lemma sender_seal_loop:
  assumes p: "perm_ok (ownPi ctx) (16 * rowSize ctx)" and cts: "length cts = length (items ctx)"
    "\<forall>c \<in> set cts. length c = rowSize ctx"
    and masks: "masks = concat (map (\<lambda>x. fillMask (pe_aes env) x (rowSize ctx)) (items ctx))"
  shows "parallelFor (pe_hc env) (length (items ctx)) 16 (multiThread ctx) (workerThreads ctx) (\<lambda>i.
      bindE (if bobPi ctx then permute (ownPi ctx) (rowPtr (concat cts) (rowSize ctx) i) (rowSize ctx)
             else Inr (rowPtr (concat cts) (rowSize ctx) i))
        (\<lambda>row. Inr (xorMask (rowPtr masks (rowSize ctx) i) row (rowSize ctx)))) =
    Inr (map (\<lambda>j. seal_row (own_sealer env ctx (bob_perm ctx (ownPi ctx))) (items ctx ! j) (cts ! j)) [0..<length (items ctx)])"
proof (rule parallelFor_map)
  fix i assume i: "i < length (items ctx)"
  have r: "rowPtr (concat cts) (rowSize ctx) i = cts ! i" using cts i by (intro rowPtr_concat) auto
  have l: "length (cts ! i) = rowSize ctx" using cts i by simp
  show "bindE (if bobPi ctx then permute (ownPi ctx) (rowPtr (concat cts) (rowSize ctx) i) (rowSize ctx)
             else Inr (rowPtr (concat cts) (rowSize ctx) i))
        (\<lambda>row. Inr (xorMask (rowPtr masks (rowSize ctx) i) row (rowSize ctx))) =
      Inr (seal_row (own_sealer env ctx (bob_perm ctx (ownPi ctx))) (items ctx ! i) (cts ! i))"
    using i permute_ok [OF p l]
    by (cases "bobPi ctx") (auto simp: r masks mask_row seal_row_def own_sealer_def bob_perm_def bindE_def split: sum.splits)
qed

lemma Send_reply_eq:
  assumes ok: "ctx_ok env ctx" and vs: "flat_decode (rb_of env ctx) T (items ctx) = Inr vs"
    "length vs = length (items ctx)" "\<forall>v \<in> set vs. length v = rowSize ctx"
  shows "\<exists>cts. length cts = length (items ctx) \<and> (\<forall>c \<in> set cts. length c = rowSize ctx) \<and>
    (\<forall>j < length (items ctx). kem_enc (kem ctx) (pe_kem env) j
       (unseal_row (own_sealer env ctx (Some (peerPi ctx))) (items ctx ! j) (vs ! j)) = Inr (cts ! j)) \<and>
    Send_reply env ctx T = bindE (flat_encode (rb_of env ctx) (items ctx)
      (map (\<lambda>j. seal_row (own_sealer env ctx (bob_perm ctx (ownPi ctx))) (items ctx ! j) (cts ! j)) [0..<length (items ctx)]) T)
      (\<lambda>(ok, out). Inr out)"
proof -
  let ?w = "rowSize ctx" and ?n = "length (items ctx)"
  define row where "row = (\<lambda>j. unseal_row (own_sealer env ctx (Some (peerPi ctx))) (items ctx ! j) (vs ! j))"
  have w: "?w = kem_width (kem ctx)" and p: "perm_ok (ownPi ctx) (16 * ?w)" "perm_ok (peerPi ctx) (16 * ?w)"
    using ok by (auto simp: ctx_ok_def)
  have so: "sealer_ok (kem_width (kem ctx)) (own_sealer env ctx (Some (peerPi ctx)))"
    using p w by (simp add: sealer_ok_def own_sealer_def)
  have rw: "length (row j) = ?w" if "j < ?n" for j
    using psi.unseal_width [OF so, of "vs ! j" "items ctx ! j"] vs(2,3) w that by (simp add: row_def)
  obtain cts where encap: "encapRows (kem ctx) (pe_kem env) (concat (map row [0..<?n])) ?w
      (multiThread ctx) (workerThreads ctx) = Inr (concat cts)"
    and cts: "length cts = ?n" "\<forall>c \<in> set cts. length c = ?w" "\<forall>j < ?n. kem_enc (kem ctx) (pe_kem env) j (row j) = Inr (cts ! j)"
    using sender_encap_loop [OF ok, of row] rw by blast
  have "Send_reply env ctx T = bindE (flat_encode (rb_of env ctx) (items ctx)
      (map (\<lambda>j. seal_row (own_sealer env ctx (bob_perm ctx (ownPi ctx))) (items ctx ! j) (cts ! j)) [0..<?n]) T)
      (\<lambda>(ok, out). Inr out)"
    unfolding Send_reply_def Let_def precomputeMasks_eq RBDecodeFlat_eq [OF vs(1)] bindE_simps
      sender_unseal_loop [OF p(2) vs(2,3) refl] encap [unfolded row_def] sender_seal_loop [OF p(1) cts(1,2) refl]
    by (simp add: flat_encode_def rb_of_def)
  then show ?thesis using cts unfolding row_def by blast
qed

section \<open>The three computations together\<close>

text \<open>The receiver's first half returns, with the table that stores its sealed keys.\<close>

lemma Recv_begin_ok:
  assumes ok: "ctx_ok env ctx" and enc: "encodable env ctx" and keys: "keys_generated env ctx"
  shows "\<exists>ks T. mapE (kem_gen (kem ctx) (pe_kem env)) [0..<length (items ctx)] = Inr ks \<and>
    Recv_begin env ctx = Inr \<lparr> rs_sk = map fst ks,
      rs_masks = concat (map (\<lambda>x. fillMask (pe_aes env) x (rowSize ctx)) (items ctx)), rs_buf = T \<rparr> \<and>
    flat_encode (rb_of env ctx) (items ctx)
      (map (\<lambda>i. seal_row (own_sealer env ctx (Some (ownPi ctx))) (items ctx ! i) (map snd ks ! i)) [0..<length (items ctx)])
      (replicate (tableSize ctx * rowSize ctx) 0) = Inr (True, T) \<and>
    length T = tableSize ctx * rowSize ctx \<and>
    (\<forall>v \<in> set (map (\<lambda>i. seal_row (own_sealer env ctx (Some (ownPi ctx))) (items ctx ! i) (map snd ks ! i)) [0..<length (items ctx)]).
       length v = rowSize ctx)"
proof -
  let ?n = "length (items ctx)" and ?k = "kem ctx" and ?e = "pe_kem env" and ?w = "rowSize ctx"
  let ?s = "own_sealer env ctx (Some (ownPi ctx))"
  have O: "?w = kem_width ?k" "perm_ok (ownPi ctx) (16 * ?w)" "kem_sound ?k ?e" using ok by (auto simp: ctx_ok_def)
  obtain f where "\<And>i. i < ?n \<Longrightarrow> kem_gen ?k ?e i = Inr (f i)" using keys unfolding keys_generated_def by metis
  then have "mapE (kem_gen ?k ?e) [0..<?n] = Inr (map f [0..<?n])" by (intro mapE_all_Inr) simp
  then obtain ks where ks: "mapE (kem_gen ?k ?e) [0..<?n] = Inr ks" by blast
  have so: "sealer_ok (kem_width ?k) ?s" using O by (auto simp: sealer_ok_def own_sealer_def)
  have su: "suits_width (kem_width ?k) (rb_of env ctx)" using O by (simp add: suits_width_def rb_of_def)
  let ?v = "map (\<lambda>i. seal_row ?s (items ctx ! i) (map snd ks ! i)) [0..<?n]"
  have v: "\<forall>v \<in> set ?v. length v = ?w"
    using psi.sealed_rows_ok [OF so su, of "map snd ks" ?n "items ctx"] kemRows.gens_width [OF O(3) ks] mapE_Inr_length [OF ks] O(1)
    by auto
  obtain T where T: "flat_encode (rb_of env ctx) (items ctx) ?v (replicate (tableSize ctx * ?w) 0) = Inr (True, T)"
    "length T = tableSize ctx * ?w" using flat_encode_ok [OF ok enc _ v] by auto
  have "Recv_begin env ctx = Inr \<lparr> rs_sk = map fst ks,
      rs_masks = concat (map (\<lambda>x. fillMask (pe_aes env) x ?w) (items ctx)), rs_buf = T \<rparr>"
    unfolding Recv_begin_eq [OF ok ks] T(1) by simp
  then show ?thesis using ks T v by blast
qed

text \<open>The receiver's second half returns the number of rows the KEM accepts.\<close>

lemma Recv_finish_ok:
  assumes ok: "ctx_ok env ctx" and vs: "flat_decode (rb_of env ctx) T (items ctx) = Inr vs"
    "length vs = length (items ctx)" "\<forall>v \<in> set vs. length v = rowSize ctx"
    and ks: "mapE (kem_gen (kem ctx) (pe_kem env)) [0..<length (items ctx)] = Inr ks"
    and st: "rs_masks st = concat (map (\<lambda>x. fillMask (pe_aes env) x (rowSize ctx)) (items ctx))" "rs_sk st = map fst ks"
  shows "\<exists>q. Recv_finish env ctx st T = Inr (word_of_nat (length (filter q [0..<length (items ctx)]))) \<and>
    (\<forall>i < length (items ctx). kem_hit (kem ctx) (pe_kem env) (fst (ks ! i))
       (unseal_row (own_sealer env ctx (bob_perm ctx (peerPi ctx))) (items ctx ! i) (vs ! i)) = Inr (q i))"
proof -
  let ?n = "length (items ctx)" and ?k = "kem ctx" and ?e = "pe_kem env" and ?w = "rowSize ctx"
  let ?s = "own_sealer env ctx (bob_perm ctx (peerPi ctx))"
  define row where "row = (\<lambda>i. unseal_row ?s (items ctx ! i) (vs ! i))"
  have O: "?w = kem_width ?k" "perm_ok (peerPi ctx) (16 * ?w)" "kem_sound ?k ?e" using ok by (auto simp: ctx_ok_def)
  have so: "sealer_ok (kem_width ?k) ?s" using O by (auto simp: sealer_ok_def own_sealer_def bob_perm_def)
  have rw: "length (row i) = ?w" if "i < ?n" for i
    using psi.unseal_width [OF so, of "vs ! i" "items ctx ! i"] vs(2,3) O(1) that by (simp add: row_def)
  have lk: "length ks = ?n" using mapE_Inr_length [OF ks] by simp
  have "\<exists>b. kem_hit ?k ?e (fst (ks ! i)) (row i) = Inr b" if i: "i < ?n" for i
  proof (rule kemRows.hit_total [OF O(3)])
    show "kem_gen ?k ?e i = Inr (fst (ks ! i), snd (ks ! i))" using mapE_Inr_nth [OF ks, of i] i by simp
    show "length (row i) = kem_width ?k" using rw [OF i] O(1) by simp
  qed
  then obtain q where q: "\<And>i. i < ?n \<Longrightarrow> kem_hit ?k ?e (fst (ks ! i)) (row i) = Inr (q i)" by metis
  let ?rows = "map row [0..<?n]"
  have rp: "rowPtr (concat ?rows) ?w i = row i" if "i < ?n" for i using rw that by (subst rowPtr_concat) auto
  have lr: "length (concat ?rows) = ?n * ?w" by (subst length_concat_uniform [of _ ?w]) (auto simp: rw)
  have "countHits ?k ?e (map fst ks) (concat ?rows) ?w (multiThread ctx) (workerThreads ctx) =
      Inr (word_of_nat (length (filter q [0..<length (map fst ks)])))"
    by (rule countHits_eq [OF O(1)]) (simp_all add: lr lk rp q)
  then show ?thesis using Recv_finish_eq [OF ok vs st(1)] st(2) lk q by (auto simp: row_def)
qed

text \<open>
  With agreeing contexts and encodable sets, all three computations return, and the count is the
  number of rows the KEM accepts, every common item among them.
\<close>

lemma psi_run:
  assumes ok: "ctx_ok env ctxR" "ctx_ok env ctxS" and agree: "ctx_agree ctxR ctxS"
    and encodable: "encodable env ctxR" "encodable env ctxS" and keys: "keys_generated env ctxR"
    and honest: "\<And>i j. i < length (items ctxR) \<Longrightarrow> j < length (items ctxS) \<Longrightarrow> items ctxR ! i = items ctxS ! j \<Longrightarrow>
      kem_honest (kem ctxR) (pe_kem env) i j"
  shows "\<exists>st out vs q. Recv_begin env ctxR = Inr st \<and> length (rs_buf st) = tableSize ctxR * rowSize ctxR \<and>
    Send_reply env ctxS (rs_buf st) = Inr out \<and> length out = tableSize ctxR * rowSize ctxR \<and>
    Recv_finish env ctxR st out = Inr (word_of_nat (length (filter q [0..<length (items ctxR)]))) \<and>
    flat_decode (rb_of env ctxR) out (items ctxR) = Inr vs \<and>
    (\<forall>i < length (items ctxR). kem_hit (kem ctxR) (pe_kem env) (rs_sk st ! i)
       (unseal_row (own_sealer env ctxR (bob_perm ctxR (peerPi ctxR))) (items ctxR ! i) (vs ! i)) = Inr (q i)) \<and>
    (\<forall>i < length (items ctxR). items ctxR ! i \<in> set (items ctxS) \<longrightarrow> q i)"
proof -
  let ?X = "items ctxR" and ?Y = "items ctxS" and ?n = "length (items ctxR)" and ?k = "kem ctxR" and ?e = "pe_kem env"
  let ?p = "rb_of env ctxR" and ?w = "rowSize ctxR"
  have A: "rowSize ctxS = ?w" "kem ctxS = ?k" "rb ctxS = rb ctxR" "bobPi ctxS = bobPi ctxR" "ownPi ctxS = peerPi ctxR"
    "peerPi ctxS = ownPi ctxR" "length ?Y = ?n" "tableSize ctxS = tableSize ctxR"
    using agree by (auto simp: ctx_agree_def)
  have O: "?w = kem_width ?k" "?X \<noteq> []" "perm_ok (ownPi ctxR) (16 * ?w)" "perm_ok (peerPi ctxR) (16 * ?w)"
    "kem_sound ?k ?e" "cols_ok (rb ctxR) ?n" using ok(1) by (auto simp: ctx_ok_def)
  have pS: "rb_of env ctxS = ?p" using A by (simp add: rb_of_def)
  let ?s1 = "own_sealer env ctxR (Some (ownPi ctxR))" and ?s2 = "own_sealer env ctxR (bob_perm ctxR (peerPi ctxR))"
  have sS: "own_sealer env ctxS (Some (ownPi ctxR)) = ?s1" "own_sealer env ctxS (bob_perm ctxS (peerPi ctxR)) = ?s2"
    using A by (simp_all add: own_sealer_def bob_perm_def)
  have so: "sealer_ok (kem_width ?k) ?s1" "sealer_ok (kem_width ?k) ?s2"
    using O by (auto simp: sealer_ok_def own_sealer_def bob_perm_def)
  have su: "suits_width (kem_width ?k) ?p" and fi: "cfg_fits ?p ?n"
    using O by (simp_all add: suits_width_def rb_of_def cfg_fits_def)
  obtain ks T1 where ks: "mapE (kem_gen ?k ?e) [0..<?n] = Inr ks"
    and start: "Recv_begin env ctxR = Inr \<lparr> rs_sk = map fst ks,
      rs_masks = concat (map (\<lambda>x. fillMask (pe_aes env) x ?w) ?X), rs_buf = T1 \<rparr>" (is "_ = Inr ?st")
    and T1: "flat_encode ?p ?X (map (\<lambda>i. seal_row ?s1 (?X ! i) (map snd ks ! i)) [0..<?n]) (replicate (tableSize ctxR * ?w) 0) =
      Inr (True, T1)" "length T1 = tableSize ctxR * ?w"
    and v1: "\<forall>v \<in> set (map (\<lambda>i. seal_row ?s1 (?X ! i) (map snd ks ! i)) [0..<?n]). length v = ?w"
    using Recv_begin_ok [OF ok(1) encodable(1) keys] by blast
  obtain vs1 where vs1: "flat_decode ?p T1 ?Y = Inr vs1" "length vs1 = ?n" "\<forall>v \<in> set vs1. length v = ?w"
    using flat_decode_ok [OF ok(1) T1(1) _ v1, of ?Y] A(7) by auto
  obtain cts where cts: "length cts = ?n" "\<forall>c \<in> set cts. length c = ?w"
      "\<forall>j < ?n. kem_enc ?k ?e j (unseal_row ?s1 (?Y ! j) (vs1 ! j)) = Inr (cts ! j)"
    and reply: "Send_reply env ctxS T1 = bindE (flat_encode ?p ?Y (map (\<lambda>j. seal_row ?s2 (?Y ! j) (cts ! j)) [0..<?n]) T1)
      (\<lambda>(ok, out). Inr out)"
    using Send_reply_eq [OF ok(2), of T1 vs1] vs1 unfolding pS sS A by blast
  let ?v2 = "map (\<lambda>j. seal_row ?s2 (?Y ! j) (cts ! j)) [0..<?n]"
  have v2: "\<forall>v \<in> set ?v2. length v = ?w" using psi.sealed_rows_ok [OF so(2) su, of cts ?n ?Y] cts O(1) by auto
  obtain T2 where T2: "flat_encode ?p ?Y ?v2 T1 = Inr (True, T2)" "length T2 = tableSize ctxR * ?w"
    using flat_encode_ok [OF ok(2) encodable(2), of ?v2 T1, unfolded pS A, OF _ v2] by (auto simp del: map_eq_conv)
  obtain vs2 where vs2: "flat_decode ?p T2 ?X = Inr vs2" "length vs2 = ?n" "\<forall>v \<in> set vs2. length v = ?w"
    using flat_decode_ok [OF ok(2), of ?v2 T1 T2 ?X, unfolded pS A, OF T2(1) _ v2 refl] by auto
  obtain q where q: "Recv_finish env ctxR ?st T2 = Inr (word_of_nat (length (filter q [0..<?n])))"
    "\<forall>i < ?n. kem_hit ?k ?e (fst (ks ! i)) (unseal_row ?s2 (?X ! i) (vs2 ! i)) = Inr (q i)"
    using Recv_finish_ok [OF ok(1) vs2 ks, of ?st] by auto
  have common: "q i" if i: "i < ?n" and mem: "?X ! i \<in> set ?Y" for i
  proof -
    obtain j where j: "j < ?n" "?X ! i = ?Y ! j" using mem A(7) by (auto simp: in_set_conv_nth)
    have "kem_hit ?k ?e (fst (ks ! i)) (unseal_row ?s2 (?X ! i) (vs2 ! i)) = Inr True"
      using honest [OF i, of j] j A(7) cts(3) O(1)
      by (intro psi.common_item_hits [OF so su O(5) _ O(2) fi A(7) ks T1(1) vs1(1) _ _ _ T2(1) [folded A(7)] vs2(1) i j])
        (auto simp: cts)
    then show ?thesis using q(2) i by simp
  qed
  have "kem_hit ?k ?e (rs_sk ?st ! i) (unseal_row ?s2 (?X ! i) (vs2 ! i)) = Inr (q i)" if "i < ?n" for i
    using q(2) that mapE_Inr_length [OF ks] by simp
  then show ?thesis using start T1(2) reply T2 q(1) vs2(1) common
    by (intro exI [of _ ?st] exI [of _ T2] exI [of _ vs2] exI [of _ q]) simp
qed

end
