(* ===== verification/Psi_Session.thy ===== *)
theory Psi_Session
  imports Psi_Correct
begin

text \<open>
  A session of both parties runs to completion: no reachable state is stuck before both are
  done, and the receiver ends with the count of the three computations.
\<close>

section \<open>Waiting\<close>

lemma net_wait_idle:
  assumes "0 < m" and "peer < length cs" and "cs ! peer = m" and "0 < length buf" and "length buf < 2 ^ 32"
  shows "net_await mt cs peer buf (replicate m []) = None"
proof -
  define ps where "ps = (if \<not> shouldSplit mt cs peer (length buf) then [(0, length buf)] else chunks (length buf) m)"
  have "ps \<noteq> []" using chunks_join [OF assms(1), of buf] assms(4) by (auto simp: ps_def)
  then obtain p ps' where ps': "ps = p # ps'" by (cases ps) auto
  have fit: "ch_bytes (snd p) \<noteq> 0" if "p \<in> set ps" for p
  proof -
    have "0 < snd p" "snd p < 2 ^ 32" using that assms(4,5) chunks_bounds [of p "length buf" m] by (auto simp: ps_def split: if_splits)
    then show ?thesis by simp
  qed
  then have "net_asyncRecv mt cs peer (length buf) = Inr (enumerate 0 ps)"
    using assms(3) by (auto simp: net_asyncRecv_def guardE_def Let_def ps_def)
  then show ?thesis using fit [of p] assms(1)
    by (cases p) (simp add: net_await_def PendingRecv_wait_def ch_recv_def ps')
qed

section \<open>The run\<close>

inductive_simps psi_step_iff: "psi_step env ctxR ctxS s s'"

text \<open>Both ends of each link have the same number of channels.\<close>

definition links_ok :: "Ctx \<Rightarrow> Ctx \<Rightarrow> bool" where
  "links_ok ctxR ctxS \<longleftrightarrow> 1 < length (chls ctxR) \<and> 0 < length (chls ctxS) \<and>
     chls ctxR ! 1 = chls ctxS ! 0 \<and> 0 < chls ctxS ! 0 \<and> multiThread ctxS = multiThread ctxR"

text \<open>The four states of a session whose computations return.\<close>

definition psi_sent :: "Ctx \<Rightarrow> Ctx \<Rightarrow> recv_state \<Rightarrow> link \<Rightarrow> session" where
  "psi_sent ctxR ctxS st lnk = (psi_start ctxR ctxS)\<lparr> se_recv := RWait st, se_to_sender := lnk \<rparr>"

definition psi_replied :: "Ctx \<Rightarrow> Ctx \<Rightarrow> recv_state \<Rightarrow> link \<Rightarrow> session" where
  "psi_replied ctxR ctxS st lnk = (psi_start ctxR ctxS)\<lparr> se_recv := RWait st, se_send := SDone, se_to_receiver := lnk \<rparr>"

definition psi_finished :: "Ctx \<Rightarrow> Ctx \<Rightarrow> u64 \<Rightarrow> session" where
  "psi_finished ctxR ctxS hits = (psi_start ctxR ctxS)\<lparr> se_recv := RDone hits, se_send := SDone \<rparr>"

text \<open>The computations of a session that return, with tables that the channels can carry.\<close>

definition psi_runs :: "psi_env \<Rightarrow> Ctx \<Rightarrow> Ctx \<Rightarrow> recv_state \<Rightarrow> block list \<Rightarrow> u64 \<Rightarrow> bool" where
  "psi_runs env ctxR ctxS st out hits \<longleftrightarrow>
     links_ok ctxR ctxS \<and> Recv_begin env ctxR = Inr st \<and>
     length (rs_buf st) = tableSize ctxS * rowSize ctxS \<and> 0 < length (rs_buf st) \<and> 16 * length (rs_buf st) < 2 ^ 32 \<and>
     Send_reply env ctxS (rs_buf st) = Inr out \<and> length out = length (rs_buf st) \<and> Recv_finish env ctxR st out = Inr hits"

lemma psi_steps:
  assumes "psi_runs env ctxR ctxS st out hits"
  shows "\<exists>lnk lnk'. \<forall>s.
    (psi_step env ctxR ctxS (psi_start ctxR ctxS) s \<longleftrightarrow> s = psi_sent ctxR ctxS st lnk) \<and>
    (psi_step env ctxR ctxS (psi_sent ctxR ctxS st lnk) s \<longleftrightarrow> s = psi_replied ctxR ctxS st lnk') \<and>
    (psi_step env ctxR ctxS (psi_replied ctxR ctxS st lnk') s \<longleftrightarrow> s = psi_finished ctxR ctxS hits) \<and>
    \<not> psi_step env ctxR ctxS (psi_finished ctxR ctxS hits) s"
proof -
  let ?m = "chls ctxS ! 0" and ?L = "length (rs_buf st)"
  have st: "Recv_begin env ctxR = Inr st" and len: "?L = tableSize ctxS * rowSize ctxS" "0 < ?L" "16 * ?L < 2 ^ 32"
    and out: "Send_reply env ctxS (rs_buf st) = Inr out" "length out = ?L" and hits: "Recv_finish env ctxR st out = Inr hits"
    using assms unfolding psi_runs_def by blast+
  have L: "1 < length (chls ctxR)" "0 < length (chls ctxS)" "chls ctxR ! 1 = ?m" "0 < ?m" "multiThread ctxS = multiThread ctxR"
    using assms by (auto simp: psi_runs_def links_ok_def)
  have idleS: "net_await (multiThread ctxS) (chls ctxS) 0 (replicate (16 * ?L) 0) (replicate ?m []) = None"
    using L len by (intro net_wait_idle) auto
  have idleR: "net_await (multiThread ctxR) (chls ctxR) 1 (replicate (16 * ?L) 0) (replicate ?m []) = None"
    using L len by (intro net_wait_idle) auto
  obtain lnk where toS: "net_send (multiThread ctxR) (chls ctxR) 1 (bytesOf (rs_buf st)) (replicate ?m []) = retC lnk"
      "net_await (multiThread ctxS) (chls ctxS) 0 (replicate (16 * ?L) 0) lnk = retC (bytesOf (rs_buf st), replicate ?m [])"
    using net_recv_net_send [OF refl L(4), of 1 "chls ctxR" "replicate (16 * ?L) 0" "bytesOf (rs_buf st)" 0 "chls ctxS"] L len by auto
  obtain lnk' where toR: "net_send (multiThread ctxS) (chls ctxS) 0 (bytesOf out) (replicate ?m []) = retC lnk'"
      "net_await (multiThread ctxR) (chls ctxR) 1 (replicate (16 * ?L) 0) lnk' = retC (bytesOf out, replicate ?m [])"
    using net_recv_net_send [OF refl L(4), of 0 "chls ctxS" "replicate (16 * ?L) 0" "bytesOf out" 1 "chls ctxR"] L len out by auto
  have b: "blocksOf ?L (bytesOf (rs_buf st)) = rs_buf st" "blocksOf ?L (bytesOf out) = out"
    using out by (simp_all add: blocksOf_bytesOf)
  show ?thesis
  proof (rule exI [of _ lnk], rule exI [of _ lnk'], intro allI conjI)
    fix s
    show "psi_step env ctxR ctxS (psi_start ctxR ctxS) s \<longleftrightarrow> s = psi_sent ctxR ctxS st lnk"
      using idleS st L toS(1)
      by (auto simp: psi_step_iff psi_start_def psi_sent_def send_wait_def retC_def throwC_def simp flip: len(1))
    show "psi_step env ctxR ctxS (psi_sent ctxR ctxS st lnk) s \<longleftrightarrow> s = psi_replied ctxR ctxS st lnk'"
      using idleR toS(2) toR(1) out L b
      by (auto simp: psi_step_iff psi_start_def psi_sent_def psi_replied_def send_wait_def recv_wait_def retC_def throwC_def simp flip: len(1))
    show "psi_step env ctxR ctxS (psi_replied ctxR ctxS st lnk') s \<longleftrightarrow> s = psi_finished ctxR ctxS hits"
      using toR(2) hits L b
      by (auto simp: psi_step_iff psi_start_def psi_finished_def psi_replied_def recv_wait_def retC_def throwC_def)
    show "\<not> psi_step env ctxR ctxS (psi_finished ctxR ctxS hits) s"
      by (simp add: psi_step_iff psi_finished_def psi_start_def)
  qed
qed

text \<open>Every reachable state is on the way to the end, and only the end has no successor.\<close>

lemma psi_from_reachable:
  assumes a: "psi_runs env ctxR ctxS st out hits" and s: "(psi_step env ctxR ctxS)\<^sup>*\<^sup>* (psi_start ctxR ctxS) s"
  shows "(psi_step env ctxR ctxS)\<^sup>*\<^sup>* s (psi_finished ctxR ctxS hits)"
    and "(\<exists>s'. psi_step env ctxR ctxS s s') \<or> s = psi_finished ctxR ctxS hits"
proof -
  obtain lnk lnk' where S: "\<And>s. psi_step env ctxR ctxS (psi_start ctxR ctxS) s \<longleftrightarrow> s = psi_sent ctxR ctxS st lnk"
    "\<And>s. psi_step env ctxR ctxS (psi_sent ctxR ctxS st lnk) s \<longleftrightarrow> s = psi_replied ctxR ctxS st lnk'"
    "\<And>s. psi_step env ctxR ctxS (psi_replied ctxR ctxS st lnk') s \<longleftrightarrow> s = psi_finished ctxR ctxS hits"
    "\<And>s. \<not> psi_step env ctxR ctxS (psi_finished ctxR ctxS hits) s"
    using psi_steps [OF a] by auto
  have r: "s \<in> {psi_start ctxR ctxS, psi_sent ctxR ctxS st lnk, psi_replied ctxR ctxS st lnk', psi_finished ctxR ctxS hits}"
    using s
  proof (induction rule: rtranclp_induct)
    case (step s s')
    then show ?case using S by auto
  qed simp
  then show "(\<exists>s'. psi_step env ctxR ctxS s s') \<or> s = psi_finished ctxR ctxS hits" using S by auto
  have "psi_step env ctxR ctxS (psi_start ctxR ctxS) (psi_sent ctxR ctxS st lnk)"
    "psi_step env ctxR ctxS (psi_sent ctxR ctxS st lnk) (psi_replied ctxR ctxS st lnk')"
    "psi_step env ctxR ctxS (psi_replied ctxR ctxS st lnk') (psi_finished ctxR ctxS hits)"
    using S by simp_all
  then show "(psi_step env ctxR ctxS)\<^sup>*\<^sup>* s (psi_finished ctxR ctxS hits)"
    using r by (auto intro: converse_rtranclp_into_rtranclp)
qed

lemma psi_completes:
  "psi_runs env ctxR ctxS st out hits \<Longrightarrow> (psi_step env ctxR ctxS)\<^sup>*\<^sup>* (psi_start ctxR ctxS) (psi_finished ctxR ctxS hits)"
  using psi_from_reachable(1) by blast

end
