(* ===== verification/Perm_Bits.thy ===== *)
theory Perm_Bits
  imports PSI_Prelude
begin

text \<open>
  Byte strings as bit strings: bit \<open>i\<close> of a buffer is bit \<open>i mod 8\<close> of byte \<open>i div 8\<close>. Slices,
  rotations and single-bit updates of the bytes are those of the bits.
\<close>

definition bit_of :: "u8 list \<Rightarrow> nat \<Rightarrow> bool" where
  "bit_of data i = bit (data ! (i div 8)) (i mod 8)"

definition bits :: "u8 list \<Rightarrow> bool list" where
  "bits data = concat (map (\<lambda>b. map (bit b) [0..<8]) data)"

definition of_bits :: "bool list \<Rightarrow> u8 list" where
  "of_bits bs = map (\<lambda>k. horner_sum of_bool 2 (take 8 (drop (8 * k) bs))) [0..<length bs div 8]"

lemma length_bits [simp]: "length (bits data) = 8 * length data"
  by (induction data) (simp_all add: bits_def)

lemma bits_append [simp]: "bits (xs @ ys) = bits xs @ bits ys"
  by (simp add: bits_def)

lemma bits_Nil [simp]: "bits [] = []"
  by (simp add: bits_def)

lemma bits_Cons: "bits (b # xs) = map (bit b) [0..<8] @ bits xs"
  by (simp add: bits_def)

lemma bits_take: "bits (take k data) = take (8 * k) (bits data)"
proof (induction data arbitrary: k)
  case (Cons b data)
  then show ?case by (cases k) (simp_all add: bits_Cons)
qed simp

lemma bits_drop: "bits (drop k data) = drop (8 * k) (bits data)"
proof (induction data arbitrary: k)
  case (Cons b data)
  then show ?case by (cases k) (simp_all add: bits_Cons)
qed simp

lemma nth_bits: "i < 8 * length data \<Longrightarrow> bits data ! i = bit_of data i"
proof (induction data arbitrary: i)
  case (Cons b data)
  show ?case
  proof (cases "i < 8")
    case True
    then show ?thesis by (simp add: bits_Cons bit_of_def nth_append del: upt_Suc)
  next
    case False
    then have "i div 8 = Suc ((i - 8) div 8)" "i mod 8 = (i - 8) mod 8"
      by (simp_all add: le_div_geq le_mod_geq)
    then have "bit_of (b # data) i = bit_of data (i - 8)" by (simp add: bit_of_def)
    then show ?thesis using Cons.IH [of "i - 8"] Cons.prems False by (simp add: bits_Cons nth_append del: upt_Suc)
  qed
qed simp

lemma bits_eq_iff: "bits xs = bits ys \<longleftrightarrow> xs = ys"
proof (induction xs arbitrary: ys)
  case Nil
  then show ?case by (cases ys) (simp_all add: bits_Cons)
next
  case (Cons x xs)
  show ?case
  proof (cases ys)
    case Nil
    then show ?thesis by (simp add: bits_Cons)
  next
    case (Cons y ys')
    have "map (bit x) [0..<8] = map (bit y) [0..<8] \<longleftrightarrow> x = y"
      by (auto intro!: bit_word_eqI simp del: upt_Suc)
    then show ?thesis using Cons.IH [of ys'] by (simp add: bits_Cons Cons del: upt_Suc)
  qed
qed

lemma length_of_bits [simp]: "length (of_bits bs) = length bs div 8"
  by (simp add: of_bits_def)

lemma bits_of_bits:
  assumes "length bs = 8 * n"
  shows "bits (of_bits bs) = bs"
proof (rule nth_equalityI)
  show "length (bits (of_bits bs)) = length bs" using assms by simp
  fix i assume "i < length (bits (of_bits bs))"
  then have i: "i < 8 * n" using assms by simp
  then have k: "i div 8 < n" by (simp add: less_mult_imp_div_less mult.commute)
  have l: "length (take 8 (drop (8 * (i div 8)) bs)) = 8" using assms k by simp
  have "bits (of_bits bs) ! i = bit (horner_sum of_bool 2 (take 8 (drop (8 * (i div 8)) bs)) :: u8) (i mod 8)"
    using i k assms by (simp add: nth_bits bit_of_def of_bits_def)
  also have "\<dots> = take 8 (drop (8 * (i div 8)) bs) ! (i mod 8)"
    using l by (simp add: bit_horner_sum_bit_iff)
  also have "\<dots> = bs ! (8 * (i div 8) + i mod 8)" using assms k by simp
  finally show "bits (of_bits bs) ! i = bs ! i" by simp
qed

lemma of_bits_bits [simp]: "of_bits (bits data) = data"
  using bits_of_bits [of "bits data" "length data"] by (simp add: bits_eq_iff)

section \<open>Rotations\<close>

lemma rotate_split: "k \<le> length xs \<Longrightarrow> rotate k xs = drop k xs @ take k xs"
proof (cases "k = length xs")
  case False
  assume "k \<le> length xs"
  with False show ?thesis by (simp add: rotate_drop_take)
qed simp

lemma bits_rotate: "k \<le> length data \<Longrightarrow> bits (rotate k data) = rotate (8 * k) (bits data)"
  by (simp add: rotate_split bits_take bits_drop)

lemma rotate_back: "k \<le> length xs \<Longrightarrow> rotate (length xs - k) (rotate k xs) = xs"
  by (simp add: rotate_rotate)

lemma rotate_index_eq:
  assumes "i < (n::nat)" and "k < n"
  shows "(off + i) mod n = (off + k) mod n \<longleftrightarrow> i = k"
proof
  have *: "x = y" if "(off + x) mod n = (off + y) mod n" "x \<le> y" "y < n" for x y
  proof -
    have "n dvd (off + y) - (off + x)"
      using that(1,2) by (subst mod_eq_dvd_iff_nat [symmetric]) simp_all
    then have d: "n dvd y - x" by simp
    have "\<not> 0 < y - x"
    proof
      assume "0 < y - x"
      then have "n \<le> y - x" using d by (intro dvd_imp_le)
      then show False using that(3) by linarith
    qed
    then show ?thesis using that(2) by simp
  qed
  assume e: "(off + i) mod n = (off + k) mod n"
  show "i = k"
  proof (cases "i \<le> k")
    case True
    then show ?thesis using * [OF e _ assms(2)] by simp
  next
    case False
    then show ?thesis using * [OF e [symmetric] _ assms(1)] by simp
  qed
qed simp

text \<open>An update under the rotation by \<open>off\<close>.\<close>

lemma rotate_update:
  assumes "k < length xs"
  shows "rotate off (xs[(off + k) mod length xs := v]) = (rotate off xs)[k := v]"
proof (rule nth_equalityI)
  fix i assume "i < length (rotate off (xs[(off + k) mod length xs := v]))"
  then have i: "i < length xs" by simp
  then have "(off + i) mod length xs < length xs" by (intro mod_less_divisor) linarith
  then show "rotate off (xs[(off + k) mod length xs := v]) ! i = (rotate off xs)[k := v] ! i"
    using i assms rotate_index_eq [OF i assms, of off] by (auto simp: nth_rotate nth_list_update)
qed simp

section \<open>Single bits\<close>

lemma bits_update:
  assumes "i < 8 * length data" and "\<And>j. j < 8 \<Longrightarrow> bit w j = (if j = i mod 8 then v else bit (data ! (i div 8)) j)"
  shows "bits (data[i div 8 := w]) = (bits data)[i := v]"
proof (rule nth_equalityI)
  fix j assume "j < length (bits (data[i div 8 := w]))"
  then have j: "j < 8 * length data" by simp
  have ij: "j div 8 = i div 8 \<and> j mod 8 = i mod 8 \<longleftrightarrow> j = i" by (metis div_mult_mod_eq)
  have d: "i div 8 < length data" using assms(1) by (simp add: less_mult_imp_div_less mult.commute)
  have "bit_of (data[i div 8 := w]) j = (if j = i then v else bit_of data j)"
    using assms(2) [of "j mod 8"] ij d by (auto simp: bit_of_def nth_list_update)
  then show "bits (data[i div 8 := w]) ! j = (bits data)[i := v] ! j"
    using j assms(1) by (simp add: nth_bits nth_list_update)
qed simp

end
