(* ===== verification/Perm_Cons.thy ===== *)
theory Perm_Cons
  imports Perm_Api Perm_Bits
begin

text \<open>
  The wide permutation built from a small one, \<open>frontend/permutation/cons.h\<close> with its
  parameters from \<open>params.h\<close>: the state is a ring of \<open>N\<close> bits, each round applies the small
  permutation to the \<open>n\<close> bits at the current offset, flips the round number into the state and
  moves the offset by \<open>s\<close>.
\<close>

section \<open>Small permutations\<close>

datatype SmallKind = Keccak800 | Keccak1600 | Keccak1600R12 | SneikF512

record SmallPerm =
  sp_kind :: SmallKind
  sp_bits :: nat
  sp_rounds :: nat
  sp_apply :: "u8 list \<Rightarrow> u8 list result"
  sp_invert :: "u8 list \<Rightarrow> u8 list result"

definition sp_bytes :: "SmallPerm \<Rightarrow> nat" where
  "sp_bytes sp = sp_bits sp div 8"

section \<open>Parameters\<close>

record PiParams =
  pp_kind :: SmallKind
  pp_n :: nat
  pp_N :: nat
  pp_s :: nat
  pp_lambda :: nat

fun widthOf :: "SmallKind \<Rightarrow> nat" where
  "widthOf Keccak800 = 800"
| "widthOf Keccak1600 = 1600"
| "widthOf Keccak1600R12 = 1600"
| "widthOf SneikF512 = 512"

text \<open>The search loop keeps the last step that divides the gap and leaves both margins.\<close>

definition bestStep :: "nat \<Rightarrow> nat \<Rightarrow> nat \<Rightarrow> nat result" where
  "bestStep n N lambda =
     guardE (N \<le> n) (InvalidArgument ''Pi needs N > n'')
     (let gap = N - n; minGap = 2 * lambda;
          best = foldl (\<lambda>best s. if gap mod s \<noteq> 0 then best
                                 else if s \<ge> minGap \<and> n - s \<ge> minGap then s else best) 0 [1..<Suc n]
      in guardE (best = 0) (InvalidArgument ''no valid Pi step for this small permutation'') (Inr best))"

definition defaults :: "SmallKind \<Rightarrow> nat \<Rightarrow> nat \<Rightarrow> PiParams result" where
  "defaults kind N lambda =
     bindE (bestStep (widthOf kind) N lambda) (\<lambda>s.
       Inr \<lparr> pp_kind = kind, pp_n = widthOf kind, pp_N = N, pp_s = s, pp_lambda = lambda \<rparr>)"

section \<open>The object\<close>

record ConsPi =
  cp_params :: PiParams
  cp_small :: SmallPerm
  cp_party :: u8
  cp_t :: nat
  cp_r :: nat
  cp_roundBits :: nat

definition legacyParams :: "nat \<Rightarrow> nat \<Rightarrow> nat \<Rightarrow> nat \<Rightarrow> PiParams" where
  "legacyParams nBits totalBits stepBits lambdaBits =
     \<lparr> pp_kind = (if nBits = 800 then Keccak800 else Keccak1600), pp_n = nBits, pp_N = totalBits,
       pp_s = stepBits, pp_lambda = lambdaBits \<rparr>"

definition checkParams :: "PiParams \<Rightarrow> SmallPerm \<Rightarrow> 'a result \<Rightarrow> 'a result" where
  "checkParams p sp k =
     guardE (pp_n p = 0 \<or> pp_N p = 0 \<or> pp_s p = 0) (InvalidArgument ''Pi params must be positive'')
     (guardE (pp_n p \<noteq> sp_bits sp) (InvalidArgument ''Pi n must match the small permutation width'')
     (guardE (pp_N p \<le> pp_n p) (InvalidArgument ''Pi needs N > n'')
     (guardE ((pp_N p - pp_n p) mod pp_s p \<noteq> 0) (InvalidArgument ''Pi needs step to divide N - n'')
     (guardE (pp_s p > pp_n p) (InvalidArgument ''Pi needs s <= n'')
     (let minGap = 2 * pp_lambda p
      in guardE (\<not> (pp_s p \<ge> minGap \<and> pp_n p - pp_s p \<ge> minGap)) (InvalidArgument ''Pi lambda check failed'')
           k)))))"

fun bitsNeeded :: "nat \<Rightarrow> nat" where
  "bitsNeeded x = (if x div 2 \<noteq> 0 then Suc (bitsNeeded (x div 2)) else 1)"

declare bitsNeeded.simps [simp del]

text \<open>\<open>sp\<close> is the small permutation that \<open>makePerm\<close> returns for the kind of the parameters.\<close>

definition ConsPi_new :: "SmallPerm \<Rightarrow> PiParams \<Rightarrow> u8 \<Rightarrow> ConsPi result" where
  "ConsPi_new sp p party =
     checkParams p sp
       (let t = (pp_N p - pp_n p) div pp_s p + 1; r = 5 * t - 2
        in Inr \<lparr> cp_params = p, cp_small = sp, cp_party = party AND 1, cp_t = t, cp_r = r,
                 cp_roundBits = bitsNeeded (r - 1) \<rparr>)"

abbreviation "cp_n cp \<equiv> pp_n (cp_params cp)"
abbreviation "cp_N cp \<equiv> pp_N (cp_params cp)"
abbreviation "cp_s cp \<equiv> pp_s (cp_params cp)"

section \<open>Bits of buffers\<close>

definition getByteBit :: "u8 list \<Rightarrow> nat \<Rightarrow> u8" where
  "getByteBit data idx = drop_bit (idx mod 8) (data ! (idx div 8)) AND 1"

definition setByteBit :: "u8 list \<Rightarrow> nat \<Rightarrow> u8 \<Rightarrow> u8 list" where
  "setByteBit data idx b =
     (let msk = push_bit (idx mod 8) 1
      in if b AND 1 \<noteq> 0 then data[idx div 8 := data ! (idx div 8) OR msk]
         else data[idx div 8 := data ! (idx div 8) AND NOT msk])"

definition bitsToBytes :: "u8 list \<Rightarrow> u8 list" where
  "bitsToBytes bs =
     foldl (\<lambda>bytes i. if bs ! i AND 1 \<noteq> 0 then bytes[i div 8 := bytes ! (i div 8) OR push_bit (i mod 8) 1] else bytes)
       (replicate ((length bs + 7) div 8) 0) [0..<length bs]"

definition bytesToBits :: "u8 list \<Rightarrow> u8 list \<Rightarrow> u8 list" where
  "bytesToBits bytes bs = map (\<lambda>i. getByteBit bytes i) [0..<length bs]"

definition setBufBit :: "u8 list \<Rightarrow> nat \<Rightarrow> u8 \<Rightarrow> u8 list" where
  "setBufBit buf idx b =
     (if b AND 1 \<noteq> 0 then buf[idx div 8 := buf ! (idx div 8) OR push_bit (idx mod 8) 1] else buf)"

definition getBufBit :: "u8 list \<Rightarrow> nat \<Rightarrow> u8" where
  "getBufBit buf idx = drop_bit (idx mod 8) (buf ! (idx div 8)) AND 1"

text \<open>The index of the ring position \<open>pos < 2 * N\<close>.\<close>

definition wrap :: "nat \<Rightarrow> nat \<Rightarrow> nat" where
  "wrap N pos = (if pos < N then pos else pos - N)"

section \<open>The window at an offset\<close>

definition packShifted :: "ConsPi \<Rightarrow> u8 list \<Rightarrow> nat \<Rightarrow> u8 list \<Rightarrow> u8 list" where
  "packShifted cp data off buf =
     (let nBytes = cp_n cp div 8; totalBytes = cp_N cp div 8
      in if off mod 8 = 0 then
           let start = off div 8; first = min nBytes (totalBytes - start);
               buf = patch_at 0 (slice start first data) buf
           in if first < nBytes then patch_at first (slice 0 (nBytes - first) data) buf else buf
         else foldl (\<lambda>buf i. setBufBit buf i (getByteBit data (wrap (cp_N cp) (off + i))))
                (replicate (length buf) 0) [0..<cp_n cp])"

definition unpackShifted :: "ConsPi \<Rightarrow> u8 list \<Rightarrow> u8 list \<Rightarrow> nat \<Rightarrow> u8 list" where
  "unpackShifted cp buf data off =
     (let nBytes = cp_n cp div 8; totalBytes = cp_N cp div 8
      in if off mod 8 = 0 then
           let start = off div 8; first = min nBytes (totalBytes - start);
               data = patch_at start (slice 0 first buf) data
           in if first < nBytes then patch_at 0 (slice first (nBytes - first) buf) data else data
         else foldl (\<lambda>data i. setByteBit data (wrap (cp_N cp) (off + i)) (getBufBit buf i)) data [0..<cp_n cp])"

text \<open>\<open>std::rotate\<close> on the whole bytes, bit by bit otherwise.\<close>

definition materialize :: "ConsPi \<Rightarrow> u8 list \<Rightarrow> nat \<Rightarrow> u8 list" where
  "materialize cp data off =
     (if off = 0 then data
      else if off mod 8 = 0 then rotate (off div 8) data
      else foldl (\<lambda>tmp i. setByteBit tmp i (getByteBit data (wrap (cp_N cp) (i + off))))
             (replicate (length data) 0) [0..<cp_N cp])"

definition applyShift :: "ConsPi \<Rightarrow> u8 list \<Rightarrow> nat \<Rightarrow> u8 list \<Rightarrow> (u8 list \<times> u8 list) result" where
  "applyShift cp data off buf =
     bindE (sp_apply (cp_small cp) (packShifted cp data off buf)) (\<lambda>buf.
       Inr (unpackShifted cp buf data off, buf))"

definition applyInvShift :: "ConsPi \<Rightarrow> u8 list \<Rightarrow> nat \<Rightarrow> u8 list \<Rightarrow> (u8 list \<times> u8 list) result" where
  "applyInvShift cp data off buf =
     bindE (sp_invert (cp_small cp) (packShifted cp data off buf)) (\<lambda>buf.
       Inr (unpackShifted cp buf data off, buf))"

text \<open>The bits of the round number, as long as they fit.\<close>

function round_bits :: "nat \<Rightarrow> nat \<Rightarrow> nat \<Rightarrow> nat list" where
  "round_bits len v b =
     (if v \<noteq> 0 \<and> b < len
      then (if odd v then [b] else []) @ round_bits len (v div 2) (Suc b)
      else [])"
  by pat_completeness auto
termination
  by (relation "measure (\<lambda>(len, v, b). len - b)") auto

declare round_bits.simps [simp del]

definition flipByteBit :: "nat \<Rightarrow> u8 list \<Rightarrow> u8 list" where
  "flipByteBit idx data = data[idx div 8 := data ! (idx div 8) XOR push_bit (idx mod 8) 1]"

definition xorRound :: "ConsPi \<Rightarrow> u8 list \<Rightarrow> nat \<Rightarrow> nat \<Rightarrow> u8 list" where
  "xorRound cp data off rnd =
     (let len = cp_n cp - cp_s cp;
          start = (if off + cp_s cp \<ge> cp_N cp then off + cp_s cp - cp_N cp else off + cp_s cp);
          data = fold (\<lambda>b. flipByteBit (wrap (cp_N cp) (start + b))) (round_bits len rnd 0) data
      in if cp_party cp \<noteq> 0 \<and> cp_roundBits cp < len
         then flipByteBit (wrap (cp_N cp) (start + cp_roundBits cp)) data else data)"

section \<open>The permutation\<close>

definition checkBytes :: "ConsPi \<Rightarrow> nat \<Rightarrow> 'a result \<Rightarrow> 'a result" where
  "checkBytes cp bytes k =
     guardE (bytes * 8 \<noteq> cp_N cp) (InvalidArgument ''Pi byte state size mismatch'') k"

definition enc_round :: "ConsPi \<Rightarrow> u8 list \<times> nat \<times> u8 list \<Rightarrow> nat \<Rightarrow> (u8 list \<times> nat \<times> u8 list) result" where
  "enc_round cp st rnd =
     (case st of (data, off, buf) \<Rightarrow>
        bindE (applyShift cp data off buf) (\<lambda>(data, buf).
          Inr (xorRound cp data off rnd, (off + cp_s cp) mod cp_N cp, buf)))"

definition ConsPi_encryptBytes :: "ConsPi \<Rightarrow> u8 list \<Rightarrow> u8 list result" where
  "ConsPi_encryptBytes cp data =
     checkBytes cp (length data)
     (bindE (foldE (enc_round cp) (data, 0, replicate (sp_bytes (cp_small cp)) 0) [1..<cp_r cp]) (\<lambda>(data, off, buf).
      bindE (applyShift cp data off buf) (\<lambda>(data, buf).
        Inr (materialize cp data off))))"

definition dec_round :: "ConsPi \<Rightarrow> u8 list \<times> nat \<times> u8 list \<Rightarrow> nat \<Rightarrow> (u8 list \<times> nat \<times> u8 list) result" where
  "dec_round cp st rnd =
     (case st of (data, off, buf) \<Rightarrow>
        let off = (off + cp_N cp - cp_s cp) mod cp_N cp;
            data = xorRound cp data off rnd
        in bindE (applyInvShift cp data off buf) (\<lambda>(data, buf). Inr (data, off, buf)))"

definition ConsPi_decryptBytes :: "ConsPi \<Rightarrow> u8 list \<Rightarrow> u8 list result" where
  "ConsPi_decryptBytes cp data =
     checkBytes cp (length data)
     (bindE (applyInvShift cp data 0 (replicate (sp_bytes (cp_small cp)) 0)) (\<lambda>(data, buf).
      bindE (foldE (dec_round cp) (data, 0, buf) (rev [1..<cp_r cp])) (\<lambda>(data, off, buf).
        Inr (materialize cp data off))))"

definition checkState :: "ConsPi \<Rightarrow> u8 list \<Rightarrow> 'a result \<Rightarrow> 'a result" where
  "checkState cp x k =
     guardE (length x \<noteq> cp_N cp) (InvalidArgument ''Pi state size mismatch'')
     (guardE (\<exists>b \<in> set x. b \<noteq> 0 \<and> b \<noteq> 1) (InvalidArgument ''Pi state must be binary'') k)"

definition ConsPi_encrypt :: "ConsPi \<Rightarrow> u8 list \<Rightarrow> u8 list result" where
  "ConsPi_encrypt cp x =
     checkState cp x (bindE (ConsPi_encryptBytes cp (bitsToBytes x)) (\<lambda>bytes. Inr (bytesToBits bytes x)))"

definition ConsPi_decrypt :: "ConsPi \<Rightarrow> u8 list \<Rightarrow> u8 list result" where
  "ConsPi_decrypt cp x =
     checkState cp x (bindE (ConsPi_decryptBytes cp (bitsToBytes x)) (\<lambda>bytes. Inr (bytesToBits bytes x)))"

end
