(* ===== verification/Perm_ConsCorrect.thy ===== *)
theory Perm_ConsCorrect
  imports Perm_Cons
begin

text \<open>
  The offset representation of \<open>ConsPi\<close> refines a shift register: seen from the current offset
  the state is a bit string, each round acts on its front and the string is rotated. The register
  is inverted round by round, so \<open>ConsPi\<close> is a permutation.
\<close>

section \<open>Well-formed objects\<close>

definition small_ok :: "SmallPerm \<Rightarrow> bool" where
  "small_ok sp \<longleftrightarrow>
     (\<forall>x. length x = sp_bytes sp \<longrightarrow> (\<exists>y. sp_apply sp x = Inr y \<and> length y = sp_bytes sp \<and> sp_invert sp y = Inr x)) \<and>
     (\<forall>y. length y = sp_bytes sp \<longrightarrow> (\<exists>x. sp_invert sp y = Inr x \<and> length x = sp_bytes sp \<and> sp_apply sp x = Inr y))"

definition cons_wf :: "ConsPi \<Rightarrow> bool" where
  "cons_wf cp \<longleftrightarrow> 8 dvd cp_n cp \<and> 8 dvd cp_N cp \<and> cp_n cp < cp_N cp \<and> 0 < cp_s cp \<and> cp_s cp \<le> cp_n cp \<and>
     sp_bytes (cp_small cp) = cp_n cp div 8 \<and> small_ok (cp_small cp)"

definition cons_width :: "ConsPi \<Rightarrow> nat" where
  "cons_width cp = cp_N cp div 8"

lemma cons_wfE:
  assumes "cons_wf cp"
  obtains m M where "cp_n cp = 8 * m" and "cp_N cp = 8 * M" and "m < M" and "cons_width cp = M"
    and "sp_bytes (cp_small cp) = m" and "0 < cp_s cp" and "cp_s cp \<le> 8 * m" and "small_ok (cp_small cp)"
  using assms by (auto simp: cons_wf_def cons_width_def elim!: dvdE)

section \<open>Single bits\<close>

lemma getByteBit_eq: "getByteBit data i = of_bool (bit_of data i)"
  by (simp add: getByteBit_def bit_of_def bit_iff_odd_drop_bit and_one_eq of_bool_odd_eq_mod_2)

lemma getBufBit_eq: "getBufBit buf i = of_bool (bit_of buf i)"
  by (simp add: getBufBit_def bit_of_def bit_iff_odd_drop_bit and_one_eq of_bool_odd_eq_mod_2)

lemma of_bool_and_one: "(of_bool b :: u8) AND 1 \<noteq> 0 \<longleftrightarrow> b"
  by (cases b) simp_all

lemma bits_setByteBit:
  "i < 8 * length data \<Longrightarrow> bits (setByteBit data i (of_bool v)) = (bits data)[i := v]"
  unfolding setByteBit_def Let_def of_bool_and_one
  by (cases v) (auto intro!: bits_update simp: bit_simps split: if_splits)

lemma bits_setBufBit:
  "i < 8 * length data \<Longrightarrow> \<not> bits data ! i \<Longrightarrow> bits (setBufBit data i (of_bool v)) = (bits data)[i := v]"
proof (cases v)
  case True
  assume "i < 8 * length data"
  then show ?thesis unfolding setBufBit_def of_bool_and_one using True
    by (auto intro!: bits_update simp: bit_simps)
next
  case False
  assume "\<not> bits data ! i"
  then have "(bits data)[i := False] = bits data" by (metis (full_types) list_update_id)
  then show ?thesis using False by (simp add: setBufBit_def)
qed

lemma bits_flipByteBit:
  "i < 8 * length data \<Longrightarrow> bits (flipByteBit i data) = (bits data)[i := \<not> bits data ! i]"
  unfolding flipByteBit_def by (rule bits_update) (auto simp: bit_simps nth_bits bit_of_def)

lemma bits_zeros: "bits (replicate n 0) = replicate (8 * n) False"
proof (induction n)
  case (Suc n)
  have "map (bit (0::u8)) [0..<8] = replicate 8 False" by (rule nth_equalityI) (simp_all del: upt_Suc)
  then have "bits (0 # replicate n 0) = replicate (8 + 8 * n) False"
    unfolding bits_Cons replicate_add Suc by simp
  then show ?case by simp
qed simp

lemma length_setByteBit [simp]: "length (setByteBit data i b) = length data"
  by (simp add: setByteBit_def Let_def)

lemma wrap_mod: "pos < 2 * N \<Longrightarrow> wrap N pos = pos mod N"
  by (simp add: wrap_def le_mod_geq)

section \<open>The window\<close>

lemma pack_fast:
  assumes "start < length data" and "m < length data" and "length buf = m"
  defines "first \<equiv> min m (length data - start)"
  shows "(if first < m then patch_at first (slice 0 (m - first) data) (patch_at 0 (slice start first data) buf)
      else patch_at 0 (slice start first data) buf) = take m (rotate start data)"
proof (cases "first < m")
  case True
  then have f: "first = length data - start" by (simp add: first_def)
  have "patch_at first (slice 0 (m - first) data) (patch_at 0 (slice start first data) buf) =
      drop start data @ take (m - first) data"
    using True f assms by (simp add: patch_at_def slice_def)
  moreover have "take m (rotate start data) = drop start data @ take (m - first) data"
  proof -
    have "min (m - first) start = m - first" using f assms(2) by simp
    then show ?thesis using True f assms(1) by (simp add: rotate_split)
  qed
  ultimately show ?thesis using True by simp
next
  case False
  then have "first = m" "m \<le> length data - start" by (auto simp: first_def)
  then show ?thesis using assms by (simp add: patch_at_def slice_def rotate_split)
qed

lemma bits_set_prefix:
  assumes "\<And>i. i < k \<Longrightarrow> v i = f i"
  shows "length (foldl (\<lambda>d i. setBufBit d i (of_bool (v i))) (replicate m 0) [0..<k]) = m"
    and "k \<le> 8 * m \<Longrightarrow> bits (foldl (\<lambda>d i. setBufBit d i (of_bool (v i))) (replicate m 0) [0..<k]) =
      map f [0..<k] @ replicate (8 * m - k) False"
  using assms
proof (induction k)
  case (Suc k)
  let ?d = "foldl (\<lambda>d i. setBufBit d i (of_bool (v i))) (replicate m 0) [0..<k]"
  { case 1 then show ?case using Suc.IH(1) by (simp add: setBufBit_def) }
  { case 2
    have b: "bits ?d = map f [0..<k] @ replicate (8 * m - k) False" and l: "length ?d = m" using Suc.IH 2 by auto
    have nk: "\<not> bits ?d ! k" using b 2 by (simp add: nth_append)
    have "bits (setBufBit ?d k (of_bool (v k))) = (map f [0..<k] @ replicate (8 * m - k) False)[k := v k]"
      using bits_setBufBit [of k ?d "v k"] nk l b 2 by simp
    also have "\<dots> = map f [0..<k] @ v k # replicate (8 * m - Suc k) False"
      using 2 by (simp add: list_update_append Suc_diff_Suc [symmetric])
    finally show ?case using 2 by simp }
qed (simp_all add: bits_zeros)

lemma packShifted_bits:
  assumes wf: "cons_wf cp" and len: "length data = cons_width cp" and off: "off < cp_N cp"
    and buf: "length buf = sp_bytes (cp_small cp)"
  shows "packShifted cp data off buf = of_bits (take (cp_n cp) (rotate off (bits data)))"
    and "length (packShifted cp data off buf) = sp_bytes (cp_small cp)"
proof -
  obtain m M where M: "cp_n cp = 8 * m" "cp_N cp = 8 * M" "m < M" "cons_width cp = M" "sp_bytes (cp_small cp) = m"
    using cons_wfE [OF wf] by metis
  have "bits (packShifted cp data off buf) = take (cp_n cp) (rotate off (bits data))"
  proof (cases "off mod 8 = 0")
    case True
    then obtain start where st: "off = 8 * start" by (auto elim: dvdE simp: mod_eq_0_iff_dvd)
    have lt: "start < length data" "m < length data" using off M len st by auto
    have lb: "length buf = m" using buf M by simp
    have e: "cp_n cp div 8 = m" "cp_N cp div 8 = length data" "off div 8 = start" using M len st by simp_all
    have "packShifted cp data off buf = take m (rotate start data)"
      unfolding packShifted_def Let_def e if_P [OF True] by (rule pack_fast [OF lt lb])
    then show ?thesis using lt st M by (simp add: bits_take bits_rotate)
  next
    case False
    let ?f = "\<lambda>i. bit_of data (wrap (cp_N cp) (off + i))"
    have "packShifted cp data off buf = foldl (\<lambda>d i. setBufBit d i (of_bool (?f i))) (replicate m 0) [0..<8 * m]"
      using False M buf by (simp add: packShifted_def Let_def getByteBit_eq)
    then have "bits (packShifted cp data off buf) = map ?f [0..<8 * m]"
      using bits_set_prefix(2) [of "8 * m" ?f ?f m] by simp
    also have "\<dots> = take (cp_n cp) (rotate off (bits data))"
    proof (rule nth_equalityI)
      fix i assume "i < length (map ?f [0..<8 * m])"
      then have i: "i < 8 * m" by simp
      have w: "wrap (cp_N cp) (off + i) = (off + i) mod (8 * M)" using off i M by (simp add: wrap_mod)
      have "(off + i) mod (8 * M) < 8 * M" using M(3) by (intro mod_less_divisor) simp
      then show "map ?f [0..<8 * m] ! i = take (cp_n cp) (rotate off (bits data)) ! i"
        using i w M len by (simp add: nth_rotate nth_bits)
    qed (use M len in simp)
    finally show ?thesis .
  qed
  then show p: "packShifted cp data off buf = of_bits (take (cp_n cp) (rotate off (bits data)))"
    by (metis of_bits_bits)
  show "length (packShifted cp data off buf) = sp_bytes (cp_small cp)"
    using M len by (simp add: p)
qed

lemma unpack_fast:
  assumes "start < length data" and "m < length data" and "length buf = m"
  defines "first \<equiv> min m (length data - start)"
  defines "out \<equiv> (if first < m then patch_at 0 (slice first (m - first) buf) (patch_at start (slice 0 first buf) data)
      else patch_at start (slice 0 first buf) data)"
  shows "length out = length data" and "rotate start out = buf @ drop m (rotate start data)"
proof -
  have "length out = length data \<and> rotate start out = buf @ drop m (rotate start data)"
  proof (cases "first < m")
    case True
    then have f: "first = length data - start" by (simp add: first_def)
    have o: "out = (drop first buf @ drop (m - first) (take start data)) @ take first buf"
      using True f assms by (simp add: patch_at_def slice_def)
    define A where "A = drop first buf @ drop (m - first) (take start data)"
    have l: "length A = start" using True f assms(1-3) by (simp add: A_def)
    have "rotate start out = take first buf @ A"
      unfolding o A_def [symmetric] using rotate_append [of A "take first buf"] l by simp
    also have "\<dots> = buf @ drop m (rotate start data)" using True f assms(1-3) by (simp add: A_def rotate_split)
    finally show ?thesis using o l True f assms(1-3) by (simp add: A_def [symmetric])
  next
    case False
    then have "first = m" "m \<le> length data - start" by (auto simp: first_def)
    then have o: "out = take start data @ buf @ drop (m + start) data"
      using assms(3) by (simp add: out_def patch_at_def slice_def add.commute)
    have "rotate start out = (buf @ drop (m + start) data) @ take start data"
      unfolding o using rotate_append [of "take start data" "buf @ drop (m + start) data"] assms(1) by simp
    moreover have "drop m (rotate start data) = drop (m + start) data @ take start data"
      using \<open>m \<le> length data - start\<close> assms(1) by (simp add: rotate_split)
    moreover have "length out = length data" using o \<open>m \<le> length data - start\<close> assms(1,3) by simp
    ultimately show ?thesis by simp
  qed
  then show "length out = length data" "rotate start out = buf @ drop m (rotate start data)" by auto
qed

lemma unpack_slow:
  assumes len: "length data = M" and m: "k \<le> 8 * length buf" "length buf < M" and off: "off < 8 * M"
  defines "out \<equiv> (\<lambda>k. foldl (\<lambda>d i. setByteBit d (wrap (8 * M) (off + i)) (getBufBit buf i)) data [0..<k])"
  shows "length (out k) = M \<and> rotate off (bits (out k)) = take k (bits buf) @ drop k (rotate off (bits data))"
  using m(1)
proof (induction k)
  case 0
  then show ?case by (simp add: out_def len)
next
  case (Suc k)
  then have IH: "length (out k) = M" "rotate off (bits (out k)) = take k (bits buf) @ drop k (rotate off (bits data))" by auto
  have s: "out (Suc k) = setByteBit (out k) (wrap (8 * M) (off + k)) (of_bool (bit_of buf k))"
    by (simp add: out_def getBufBit_eq)
  have w: "wrap (8 * M) (off + k) = (off + k) mod (8 * M)" using off m Suc.prems by (simp add: wrap_mod)
  have lt: "(off + k) mod (8 * M) < 8 * length (out k)" unfolding IH(1) using m(2) by (intro mod_less_divisor) simp
  have kM: "k < length (bits (out k))" using Suc.prems m IH(1) by simp
  have "rotate off (bits (out (Suc k))) = (rotate off (bits (out k)))[k := bit_of buf k]"
    unfolding s w bits_setByteBit [OF lt] using rotate_update [OF kM, of off "bit_of buf k"] IH(1) by simp
  also have "\<dots> = take (Suc k) (bits buf) @ drop (Suc k) (rotate off (bits data))"
  proof -
    have d: "drop k (rotate off (bits data)) = rotate off (bits data) ! k # drop (Suc k) (rotate off (bits data))"
      using kM IH(1) len by (simp add: Cons_nth_drop_Suc)
    have t: "take (Suc k) (bits buf) = take k (bits buf) @ [bit_of buf k]"
      using Suc.prems by (simp add: take_Suc_conv_app_nth nth_bits)
    show ?thesis unfolding IH(2) d t using Suc.prems by (simp add: list_update_append)
  qed
  finally show ?case using s IH(1) by simp
qed

lemma unpackShifted_bits:
  assumes wf: "cons_wf cp" and len: "length data = cons_width cp" and off: "off < cp_N cp"
    and buf: "length buf = sp_bytes (cp_small cp)"
  shows "length (unpackShifted cp buf data off) = cons_width cp"
    and "rotate off (bits (unpackShifted cp buf data off)) = bits buf @ drop (cp_n cp) (rotate off (bits data))"
proof -
  obtain m M where M: "cp_n cp = 8 * m" "cp_N cp = 8 * M" "m < M" "cons_width cp = M" "sp_bytes (cp_small cp) = m"
    using cons_wfE [OF wf] by metis
  have "length (unpackShifted cp buf data off) = cons_width cp \<and>
      rotate off (bits (unpackShifted cp buf data off)) = bits buf @ drop (cp_n cp) (rotate off (bits data))"
  proof (cases "off mod 8 = 0")
    case True
    then obtain start where st: "off = 8 * start" by (auto elim: dvdE simp: mod_eq_0_iff_dvd)
    have lt: "start < length data" "m < length data" using off M len st by auto
    have lb: "length buf = m" using buf M by simp
    define out where "out = unpackShifted cp buf data off"
    have e: "cp_n cp div 8 = m" "cp_N cp div 8 = length data" "off div 8 = start" using M len st by simp_all
    have o: "length out = length data" "rotate start out = buf @ drop m (rotate start data)"
      unfolding out_def unpackShifted_def Let_def e if_P [OF True] by (rule unpack_fast [OF lt lb])+
    have "rotate off (bits out) = bits (rotate start out)" using o(1) lt(1) st by (simp add: bits_rotate)
    also have "\<dots> = bits buf @ drop (cp_n cp) (rotate off (bits data))"
      using o(2) lt(1) st M by (simp add: bits_drop bits_rotate)
    finally show ?thesis using o(1) len by (simp add: out_def)
  next
    case False
    have "unpackShifted cp buf data off =
        foldl (\<lambda>d i. setByteBit d (wrap (8 * M) (off + i)) (getBufBit buf i)) data [0..<8 * m]"
      using False M by (simp add: unpackShifted_def Let_def)
    then show ?thesis using unpack_slow [of data M "8 * m" buf off] len M off buf by simp
  qed
  then show "length (unpackShifted cp buf data off) = cons_width cp"
    "rotate off (bits (unpackShifted cp buf data off)) = bits buf @ drop (cp_n cp) (rotate off (bits data))" by auto
qed

lemma materialize_bits:
  assumes wf: "cons_wf cp" and len: "length data = cons_width cp" and off: "off < cp_N cp"
  shows "bits (materialize cp data off) = rotate off (bits data)"
proof -
  obtain m M where M: "cp_N cp = 8 * M" "m < M" "cons_width cp = M" using cons_wfE [OF wf] by metis
  consider "off = 0" | "off \<noteq> 0" "off mod 8 = 0" | "off mod 8 \<noteq> 0" by auto
  then show ?thesis
  proof cases
    case 2
    then obtain start where st: "off = 8 * start" by (auto elim: dvdE simp: mod_eq_0_iff_dvd)
    then have "start < length data" using off M len by simp
    then show ?thesis using 2 st by (simp add: materialize_def bits_rotate)
  next
    case 3
    let ?f = "\<lambda>i. bit_of data (wrap (8 * M) (i + off))"
    let ?out = "\<lambda>k. foldl (\<lambda>tmp i. setByteBit tmp i (of_bool (?f i))) (replicate M 0) [0..<k]"
    have "length (?out k) = M \<and> bits (?out k) = map ?f [0..<k] @ replicate (8 * M - k) False" if "k \<le> 8 * M" for k
      using that
    proof (induction k)
      case (Suc k)
      then have IH: "length (?out k) = M" "bits (?out k) = map ?f [0..<k] @ replicate (8 * M - k) False" by auto
      have "bits (?out (Suc k)) = (bits (?out k))[k := ?f k]" using bits_setByteBit [of k "?out k" "?f k"] IH(1) Suc.prems by simp
      also have "\<dots> = map ?f [0..<Suc k] @ replicate (8 * M - Suc k) False"
        unfolding IH(2) using Suc.prems by (simp add: list_update_append Suc_diff_Suc [symmetric])
      finally show ?case using IH(1) by simp
    qed (simp add: bits_zeros)
    from this [of "8 * M"] have "bits (materialize cp data off) = map ?f [0..<8 * M]"
      using 3 M len by (auto simp: materialize_def getByteBit_eq)
    also have "\<dots> = rotate off (bits data)"
    proof (rule nth_equalityI)
      fix i assume "i < length (map ?f [0..<8 * M])"
      then have i: "i < 8 * M" by simp
      have w: "wrap (8 * M) (i + off) = (off + i) mod (8 * M)" using off i M by (simp add: wrap_mod add.commute)
      have "(off + i) mod (8 * M) < 8 * M" using M(2) by (intro mod_less_divisor) simp
      then show "map ?f [0..<8 * M] ! i = rotate off (bits data) ! i"
        using i w M len by (simp add: nth_rotate nth_bits)
    qed (use M len in simp)
    finally show ?thesis .
  qed (simp add: materialize_def)
qed

section \<open>The round number\<close>

definition flip_at :: "nat \<Rightarrow> bool list \<Rightarrow> bool list" where
  "flip_at k V = V[k := \<not> V ! k]"

definition round_flips :: "ConsPi \<Rightarrow> nat \<Rightarrow> nat list" where
  "round_flips cp rnd =
     (let len = cp_n cp - cp_s cp
      in map (\<lambda>b. cp_s cp + b) (round_bits len rnd 0 @
           (if cp_party cp \<noteq> 0 \<and> cp_roundBits cp < len then [cp_roundBits cp] else [])))"

lemma length_flip_at [simp]: "length (flip_at k V) = length V"
  by (simp add: flip_at_def)

lemma length_flips [simp]: "length (fold flip_at ks V) = length V"
  by (induction ks arbitrary: V) simp_all

lemma flip_flip: "flip_at k (flip_at k V) = V"
  by (cases "k < length V") (simp_all add: flip_at_def list_update_beyond)

lemma flip_commute: "flip_at j (flip_at k V) = flip_at k (flip_at j V)"
  by (cases "j = k") (simp_all add: flip_at_def list_update_swap)

lemma flips_flip: "fold flip_at ks (flip_at k V) = flip_at k (fold flip_at ks V)"
proof (induction ks arbitrary: V)
  case (Cons j ks)
  have "flip_at j (flip_at k V) = flip_at k (flip_at j V)" by (rule flip_commute)
  then show ?case using Cons [of "flip_at j V"] by simp
qed simp

lemma flips_flips: "fold flip_at ks (fold flip_at ks V) = V"
  by (induction ks arbitrary: V) (simp_all add: flips_flip flip_flip)

lemma round_bits_lt: "b' \<in> set (round_bits len v b) \<Longrightarrow> b' < len"
proof (induction len v b rule: round_bits.induct)
  case (1 len v b)
  then show ?case by (subst (asm) round_bits.simps) (auto split: if_splits)
qed

lemma round_flips_lt:
  assumes "cons_wf cp" and "k \<in> set (round_flips cp rnd)"
  shows "k < cp_N cp"
proof -
  obtain b where b: "k = cp_s cp + b" "b < cp_n cp - cp_s cp"
    using assms(2) round_bits_lt by (auto simp: round_flips_def Let_def split: if_splits)
  then show ?thesis using assms(1) by (auto simp: cons_wf_def)
qed

lemma flipByteBit_view:
  assumes "length data = M" and "k < 8 * M" and "off < 8 * M"
  shows "rotate off (bits (flipByteBit ((off + k) mod (8 * M)) data)) = flip_at k (rotate off (bits data))"
    and "length (flipByteBit i data) = length data"
proof -
  have lt: "(off + k) mod (8 * M) < 8 * length data" unfolding assms(1) using assms(2) by (intro mod_less_divisor) simp
  have "rotate off (bits data) ! k = bits data ! ((off + k) mod (8 * M))" using assms by (simp add: nth_rotate)
  then show "rotate off (bits (flipByteBit ((off + k) mod (8 * M)) data)) = flip_at k (rotate off (bits data))"
    unfolding bits_flipByteBit [OF lt] flip_at_def
    using rotate_update [of k "bits data" off] assms by simp
  show "length (flipByteBit i data) = length data" by (simp add: flipByteBit_def)
qed

lemma flips_view:
  assumes "length data = M" and "\<forall>k \<in> set ks. k < 8 * M" and "off < 8 * M"
  shows "rotate off (bits (fold (\<lambda>k. flipByteBit ((off + k) mod (8 * M))) ks data)) = fold flip_at ks (rotate off (bits data))"
    and "length (fold (\<lambda>k. flipByteBit ((off + k) mod (8 * M))) ks data) = M"
  using assms(1,2)
proof (induction ks arbitrary: data)
  case (Cons k ks)
  { case 1 then show ?case using Cons.IH(1) [of "flipByteBit ((off + k) mod (8 * M)) data"] flipByteBit_view assms(3) by simp }
  { case 2 then show ?case using Cons.IH(2) [of "flipByteBit ((off + k) mod (8 * M)) data"] flipByteBit_view assms(3) by simp }
qed simp_all

lemma xorRound_bits:
  assumes wf: "cons_wf cp" and len: "length data = cons_width cp" and off: "off < cp_N cp"
  shows "rotate off (bits (xorRound cp data off rnd)) = fold flip_at (round_flips cp rnd) (rotate off (bits data))"
    and "length (xorRound cp data off rnd) = cons_width cp"
proof -
  obtain m M where M: "cp_n cp = 8 * m" "cp_N cp = 8 * M" "m < M" "cons_width cp = M" "cp_s cp \<le> 8 * m"
    using cons_wfE [OF wf] by metis
  define start where "start = (if off + cp_s cp \<ge> cp_N cp then off + cp_s cp - cp_N cp else off + cp_s cp)"
  have w: "wrap (cp_N cp) (start + b) = (off + (cp_s cp + b)) mod (8 * M)" if "b < cp_n cp - cp_s cp" for b
  proof -
    have "off + cp_s cp < 2 * (8 * M)" using off M by simp
    then have s: "start = (off + cp_s cp) mod (8 * M)"
      unfolding start_def M(2) by (cases "off + cp_s cp < 8 * M") (simp_all add: le_mod_geq)
    have "start + b < 2 * (8 * M)" using that M s mod_less_divisor [of "8 * M" "off + cp_s cp"] by linarith
    then have "wrap (cp_N cp) (start + b) = (start + b) mod (8 * M)" unfolding M(2) by (rule wrap_mod)
    then show ?thesis unfolding s mod_add_left_eq by (simp add: add.assoc)
  qed
  let ?len = "cp_n cp - cp_s cp"
  let ?bs = "round_bits ?len rnd 0 @ (if cp_party cp \<noteq> 0 \<and> cp_roundBits cp < ?len then [cp_roundBits cp] else [])"
  have lt: "b < ?len" if "b \<in> set ?bs" for b using that round_bits_lt by (auto split: if_splits)
  have "xorRound cp data off rnd = fold (\<lambda>b. flipByteBit (wrap (cp_N cp) (start + b))) ?bs data"
    by (simp add: xorRound_def Let_def start_def [symmetric])
  also have "\<dots> = fold (\<lambda>b. flipByteBit ((off + (cp_s cp + b)) mod (8 * M))) ?bs data"
  proof (rule fold_cong [OF refl refl])
    fix b assume "b \<in> set ?bs"
    from w [OF lt [OF this]]
    show "flipByteBit (wrap (cp_N cp) (start + b)) = flipByteBit ((off + (cp_s cp + b)) mod (8 * M))" by (rule arg_cong)
  qed
  also have "\<dots> = fold (\<lambda>k. flipByteBit ((off + k) mod (8 * M))) (round_flips cp rnd) data"
    by (simp add: round_flips_def Let_def fold_map comp_def)
  finally have x: "xorRound cp data off rnd = fold (\<lambda>k. flipByteBit ((off + k) mod (8 * M))) (round_flips cp rnd) data" .
  have ks: "\<forall>k \<in> set (round_flips cp rnd). k < 8 * M" using round_flips_lt [OF wf] M by simp
  show "rotate off (bits (xorRound cp data off rnd)) = fold flip_at (round_flips cp rnd) (rotate off (bits data))"
    unfolding x using flips_view(1) [OF _ ks, of data off] len off M by simp
  show "length (xorRound cp data off rnd) = cons_width cp"
    unfolding x using flips_view(2) [OF _ ks, of data off] len off M by simp
qed

section \<open>The shift register\<close>

text \<open>
  The reference: the small permutation on the first \<open>n\<close> bits, the round flips, a rotation by
  \<open>s\<close>; no offsets and no byte buffers.
\<close>

definition reg_apply :: "ConsPi \<Rightarrow> bool list \<Rightarrow> bool list result" where
  "reg_apply cp V =
     bindE (sp_apply (cp_small cp) (of_bits (take (cp_n cp) V))) (\<lambda>b. Inr (bits b @ drop (cp_n cp) V))"

definition reg_invert :: "ConsPi \<Rightarrow> bool list \<Rightarrow> bool list result" where
  "reg_invert cp V =
     bindE (sp_invert (cp_small cp) (of_bits (take (cp_n cp) V))) (\<lambda>b. Inr (bits b @ drop (cp_n cp) V))"

definition reg_enc_round :: "ConsPi \<Rightarrow> bool list \<Rightarrow> nat \<Rightarrow> bool list result" where
  "reg_enc_round cp V rnd =
     bindE (reg_apply cp V) (\<lambda>V. Inr (rotate (cp_s cp) (fold flip_at (round_flips cp rnd) V)))"

definition reg_dec_round :: "ConsPi \<Rightarrow> bool list \<Rightarrow> nat \<Rightarrow> bool list result" where
  "reg_dec_round cp V rnd =
     reg_invert cp (fold flip_at (round_flips cp rnd) (rotate (cp_N cp - cp_s cp) V))"

definition reg_encrypt :: "ConsPi \<Rightarrow> bool list \<Rightarrow> bool list result" where
  "reg_encrypt cp V = bindE (foldE (reg_enc_round cp) V [1..<cp_r cp]) (reg_apply cp)"

definition reg_decrypt :: "ConsPi \<Rightarrow> bool list \<Rightarrow> bool list result" where
  "reg_decrypt cp V = bindE (reg_invert cp V) (\<lambda>V. foldE (reg_dec_round cp) V (rev [1..<cp_r cp]))"

lemma reg_apply_invert:
  assumes wf: "cons_wf cp" and V: "length V = cp_N cp"
  shows "\<exists>W. reg_apply cp V = Inr W \<and> length W = cp_N cp \<and> reg_invert cp W = Inr V"
    and "\<exists>W. reg_invert cp V = Inr W \<and> length W = cp_N cp \<and> reg_apply cp W = Inr V"
proof -
  obtain m M where M: "cp_n cp = 8 * m" "cp_N cp = 8 * M" "m < M" "sp_bytes (cp_small cp) = m" "small_ok (cp_small cp)"
    using cons_wfE [OF wf] by metis
  define x where "x = of_bits (take (cp_n cp) V)"
  have lx: "length x = m" using V M by (simp add: x_def)
  have bx: "bits x = take (cp_n cp) V" unfolding x_def using V M by (intro bits_of_bits [of _ m]) simp
  have step: "reg_apply cp (bits y @ drop (cp_n cp) V) = bindE (sp_apply (cp_small cp) y) (\<lambda>b. Inr (bits b @ drop (cp_n cp) V))"
    "reg_invert cp (bits y @ drop (cp_n cp) V) = bindE (sp_invert (cp_small cp) y) (\<lambda>b. Inr (bits b @ drop (cp_n cp) V))"
    if "length y = m" for y using that M by (simp_all add: reg_apply_def reg_invert_def)
  have V': "bits x @ drop (cp_n cp) V = V" unfolding bx by (rule append_take_drop_id)
  obtain y where y: "sp_apply (cp_small cp) x = Inr y" "length y = m" "sp_invert (cp_small cp) y = Inr x"
    using M(4,5) lx unfolding small_ok_def by blast
  obtain z where z: "sp_invert (cp_small cp) x = Inr z" "length z = m" "sp_apply (cp_small cp) z = Inr x"
    using M(4,5) lx unfolding small_ok_def by blast
  have l: "length (bits w @ drop (cp_n cp) V) = cp_N cp" if "length w = m" for w using that V M by simp
  show "\<exists>W. reg_apply cp V = Inr W \<and> length W = cp_N cp \<and> reg_invert cp W = Inr V"
    using step(1) [OF lx] step(2) [OF y(2)] y l V' by auto
  show "\<exists>W. reg_invert cp V = Inr W \<and> length W = cp_N cp \<and> reg_apply cp W = Inr V"
    using step(2) [OF lx] step(1) [OF z(2)] z l V' by auto
qed

lemma reg_round_inverse:
  assumes wf: "cons_wf cp" and V: "length V = cp_N cp"
  shows "\<exists>W. reg_enc_round cp V rnd = Inr W \<and> length W = cp_N cp \<and> reg_dec_round cp W rnd = Inr V"
    and "\<exists>W. reg_dec_round cp V rnd = Inr W \<and> length W = cp_N cp \<and> reg_enc_round cp W rnd = Inr V"
proof -
  have s: "cp_s cp \<le> cp_N cp" using wf by (auto simp: cons_wf_def)
  obtain W where W: "reg_apply cp V = Inr W" "length W = cp_N cp" "reg_invert cp W = Inr V"
    using reg_apply_invert(1) [OF wf V] by blast
  have "rotate (cp_N cp - cp_s cp) (rotate (cp_s cp) (fold flip_at (round_flips cp rnd) W)) = fold flip_at (round_flips cp rnd) W"
    using rotate_back [of "cp_s cp" "fold flip_at (round_flips cp rnd) W"] s W(2) by simp
  then show "\<exists>W. reg_enc_round cp V rnd = Inr W \<and> length W = cp_N cp \<and> reg_dec_round cp W rnd = Inr V"
    using W by (simp add: reg_enc_round_def reg_dec_round_def flips_flips)
  define U where "U = fold flip_at (round_flips cp rnd) (rotate (cp_N cp - cp_s cp) V)"
  obtain X where X: "reg_invert cp U = Inr X" "length X = cp_N cp" "reg_apply cp X = Inr U"
    using reg_apply_invert(2) [OF wf, of U] V by (auto simp: U_def)
  have "rotate (cp_s cp) (fold flip_at (round_flips cp rnd) U) = V"
    using rotate_back [of "cp_N cp - cp_s cp" V] s V by (simp add: U_def flips_flips)
  then show "\<exists>W. reg_dec_round cp V rnd = Inr W \<and> length W = cp_N cp \<and> reg_enc_round cp W rnd = Inr V"
    using X by (simp add: reg_enc_round_def reg_dec_round_def U_def [symmetric])
qed

lemma reg_inverse:
  assumes wf: "cons_wf cp" and V: "length V = cp_N cp"
  shows "\<exists>W. reg_encrypt cp V = Inr W \<and> length W = cp_N cp \<and> reg_decrypt cp W = Inr V"
    and "\<exists>W. reg_decrypt cp V = Inr W \<and> length W = cp_N cp \<and> reg_encrypt cp W = Inr V"
proof -
  let ?P = "\<lambda>V. length V = cp_N cp"
  obtain A where A: "foldE (reg_enc_round cp) V [1..<cp_r cp] = Inr A" "?P A" "foldE (reg_dec_round cp) A (rev [1..<cp_r cp]) = Inr V"
    using foldE_inverse [of ?P "reg_enc_round cp" "reg_dec_round cp", OF reg_round_inverse(1) [OF wf] V] by blast
  obtain B where "reg_apply cp A = Inr B" "?P B" "reg_invert cp B = Inr A" using reg_apply_invert(1) [OF wf A(2)] by blast
  then show "\<exists>W. reg_encrypt cp V = Inr W \<and> ?P W \<and> reg_decrypt cp W = Inr V"
    using A by (simp add: reg_encrypt_def reg_decrypt_def)
  obtain C where C: "reg_invert cp V = Inr C" "?P C" "reg_apply cp C = Inr V" using reg_apply_invert(2) [OF wf V] by blast
  obtain D where "foldE (reg_dec_round cp) C (rev [1..<cp_r cp]) = Inr D" "?P D"
      "foldE (reg_enc_round cp) D (rev (rev [1..<cp_r cp])) = Inr C"
    using foldE_inverse [of ?P "reg_dec_round cp" "reg_enc_round cp", OF reg_round_inverse(2) [OF wf] C(2)] by blast
  then show "\<exists>W. reg_decrypt cp V = Inr W \<and> ?P W \<and> reg_encrypt cp W = Inr V"
    using C by (simp add: reg_encrypt_def reg_decrypt_def)
qed

section \<open>Refinement\<close>

text \<open>What the register sees of a state with data, offset and scratch buffer.\<close>

fun view :: "u8 list \<times> nat \<times> u8 list \<Rightarrow> bool list" where
  "view (data, off, buf) = rotate off (bits data)"

fun st_ok :: "ConsPi \<Rightarrow> u8 list \<times> nat \<times> u8 list \<Rightarrow> bool" where
  "st_ok cp (data, off, buf) \<longleftrightarrow>
     length data = cons_width cp \<and> off < cp_N cp \<and> length buf = sp_bytes (cp_small cp)"

lemma shift_sim:
  assumes wf: "cons_wf cp" and st: "st_ok cp (data, off, buf)"
  shows "\<exists>data' buf'. applyShift cp data off buf = Inr (data', buf') \<and> st_ok cp (data', off, buf') \<and>
      reg_apply cp (rotate off (bits data)) = Inr (rotate off (bits data'))"
    and "\<exists>data' buf'. applyInvShift cp data off buf = Inr (data', buf') \<and> st_ok cp (data', off, buf') \<and>
      reg_invert cp (rotate off (bits data)) = Inr (rotate off (bits data'))"
proof -
  have s: "length data = cons_width cp" "off < cp_N cp" "length buf = sp_bytes (cp_small cp)" using st by auto
  note P = packShifted_bits [OF wf s]
  obtain y where y: "sp_apply (cp_small cp) (packShifted cp data off buf) = Inr y" "length y = sp_bytes (cp_small cp)"
    using wf P(2) unfolding cons_wf_def small_ok_def by blast
  obtain z where z: "sp_invert (cp_small cp) (packShifted cp data off buf) = Inr z" "length z = sp_bytes (cp_small cp)"
    using wf P(2) unfolding cons_wf_def small_ok_def by blast
  show "\<exists>data' buf'. applyShift cp data off buf = Inr (data', buf') \<and> st_ok cp (data', off, buf') \<and>
      reg_apply cp (rotate off (bits data)) = Inr (rotate off (bits data'))"
    using y s unpackShifted_bits [OF wf s(1,2) y(2)] by (simp add: applyShift_def reg_apply_def P(1))
  show "\<exists>data' buf'. applyInvShift cp data off buf = Inr (data', buf') \<and> st_ok cp (data', off, buf') \<and>
      reg_invert cp (rotate off (bits data)) = Inr (rotate off (bits data'))"
    using z s unpackShifted_bits [OF wf s(1,2) z(2)] by (simp add: applyInvShift_def reg_invert_def P(1))
qed

lemma rotate_step:
  assumes "length V = N"
  shows "rotate ((off + k) mod N) V = rotate k (rotate off V)"
  using assms rotate_conv_mod [of "off + k" V] by (simp add: rotate_rotate add.commute)

lemma enc_round_sim:
  assumes wf: "cons_wf cp" and st: "st_ok cp st"
  shows "\<exists>st'. enc_round cp st rnd = Inr st' \<and> st_ok cp st' \<and> reg_enc_round cp (view st) rnd = Inr (view st')"
proof -
  obtain data off buf where e: "st = (data, off, buf)" by (cases st)
  obtain d b where a: "applyShift cp data off buf = Inr (d, b)" "st_ok cp (d, off, b)"
      "reg_apply cp (rotate off (bits data)) = Inr (rotate off (bits d))"
    using shift_sim(1) [OF wf] st e by blast
  have l: "length d = cons_width cp" "off < cp_N cp" using a(2) by auto
  note X = xorRound_bits [OF wf l, of rnd]
  have N: "8 * cons_width cp = cp_N cp" "0 < cp_N cp" using wf by (auto simp: cons_wf_def cons_width_def)
  then have "rotate ((off + cp_s cp) mod cp_N cp) (bits (xorRound cp d off rnd)) =
      rotate (cp_s cp) (fold flip_at (round_flips cp rnd) (rotate off (bits d)))"
    using rotate_step [of "bits (xorRound cp d off rnd)" "cp_N cp" off "cp_s cp"] X by simp
  then show ?thesis using a X(2) N by (simp add: e enc_round_def reg_enc_round_def)
qed

lemma dec_round_sim:
  assumes wf: "cons_wf cp" and st: "st_ok cp st"
  shows "\<exists>st'. dec_round cp st rnd = Inr st' \<and> st_ok cp st' \<and> reg_dec_round cp (view st) rnd = Inr (view st')"
proof -
  obtain data off buf where e: "st = (data, off, buf)" by (cases st)
  define o' where "o' = (off + cp_N cp - cp_s cp) mod cp_N cp"
  have l: "length data = cons_width cp" "length buf = sp_bytes (cp_small cp)" using st e by auto
  have N: "8 * cons_width cp = cp_N cp" "0 < cp_N cp" "cp_s cp \<le> cp_N cp" using wf by (auto simp: cons_wf_def cons_width_def)
  have o': "o' < cp_N cp" using N by (simp add: o'_def)
  note X = xorRound_bits [OF wf l(1) o', of rnd]
  obtain d b where a: "applyInvShift cp (xorRound cp data o' rnd) o' buf = Inr (d, b)" "st_ok cp (d, o', b)"
      "reg_invert cp (rotate o' (bits (xorRound cp data o' rnd))) = Inr (rotate o' (bits d))"
    using shift_sim(2) [OF wf, of "xorRound cp data o' rnd" o' buf] X(2) o' l by auto
  have "rotate o' (bits data) = rotate (cp_N cp - cp_s cp) (rotate off (bits data))"
    using rotate_step [of "bits data" "cp_N cp" off "cp_N cp - cp_s cp"] N l by (simp add: o'_def)
  then have "reg_dec_round cp (rotate off (bits data)) rnd = Inr (rotate o' (bits d))"
    using a(3) X(1) by (simp add: reg_dec_round_def)
  then show ?thesis using a by (simp add: e dec_round_def Let_def o'_def [symmetric])
qed

text \<open>\<open>ConsPi\<close> is the shift register.\<close>

lemma encryptBytes_refines:
  assumes wf: "cons_wf cp" and len: "length data = cons_width cp"
  shows "bindE (ConsPi_encryptBytes cp data) (\<lambda>out. Inr (bits out)) = reg_encrypt cp (bits data)"
proof -
  have N: "8 * cons_width cp = cp_N cp" "0 < cp_N cp" using wf by (auto simp: cons_wf_def cons_width_def)
  let ?st = "(data, 0, replicate (sp_bytes (cp_small cp)) 0)"
  have ok: "st_ok cp ?st" using len N by simp
  obtain d off b where l: "foldE (enc_round cp) ?st [1..<cp_r cp] = Inr (d, off, b)" "st_ok cp (d, off, b)"
      "foldE (reg_enc_round cp) (view ?st) [1..<cp_r cp] = Inr (view (d, off, b))"
    using foldE_sim [of "st_ok cp" "[1..<cp_r cp]" "enc_round cp" "reg_enc_round cp" view, OF enc_round_sim [OF wf] ok]
    by (metis prod_cases3)
  obtain d' b' where a: "applyShift cp d off b = Inr (d', b')" "st_ok cp (d', off, b')"
      "reg_apply cp (rotate off (bits d)) = Inr (rotate off (bits d'))" using shift_sim(1) [OF wf l(2)] by blast
  then have "ConsPi_encryptBytes cp data = Inr (materialize cp d' off)"
    using l(1) len N by (simp add: ConsPi_encryptBytes_def checkBytes_def mult.commute)
  then show ?thesis using materialize_bits [OF wf, of d' off] a l(3) by (simp add: reg_encrypt_def)
qed

lemma decryptBytes_refines:
  assumes wf: "cons_wf cp" and len: "length data = cons_width cp"
  shows "bindE (ConsPi_decryptBytes cp data) (\<lambda>out. Inr (bits out)) = reg_decrypt cp (bits data)"
proof -
  have N: "8 * cons_width cp = cp_N cp" "0 < cp_N cp" using wf by (auto simp: cons_wf_def cons_width_def)
  let ?buf = "replicate (sp_bytes (cp_small cp)) 0"
  have ok: "st_ok cp (data, 0, ?buf)" using len N by simp
  obtain d b where a: "applyInvShift cp data 0 ?buf = Inr (d, b)" "st_ok cp (d, 0, b)"
      "reg_invert cp (bits data) = Inr (view (d, 0, b))" using shift_sim(2) [OF wf ok] by auto
  obtain e off c where l: "foldE (dec_round cp) (d, 0, b) (rev [1..<cp_r cp]) = Inr (e, off, c)" "st_ok cp (e, off, c)"
      "foldE (reg_dec_round cp) (view (d, 0, b)) (rev [1..<cp_r cp]) = Inr (view (e, off, c))"
    using foldE_sim [of "st_ok cp" "rev [1..<cp_r cp]" "dec_round cp" "reg_dec_round cp" view, OF dec_round_sim [OF wf] a(2)]
    by (metis prod_cases3)
  have "ConsPi_decryptBytes cp data = Inr (materialize cp e off)"
    using a(1) l(1) len N by (simp add: ConsPi_decryptBytes_def checkBytes_def mult.commute)
  then show ?thesis using materialize_bits [OF wf, of e off] l(2,3) a(3) by (simp add: reg_decrypt_def)
qed

interpretation conspi: byte_perm ConsPi_encryptBytes ConsPi_decryptBytes cons_width cons_wf
proof
  fix cp :: ConsPi and x :: "u8 list"
  assume wf: "cons_wf cp" and len: "length x = cons_width cp"
  have N: "8 * cons_width cp = cp_N cp" using wf by (auto simp: cons_wf_def cons_width_def)
  obtain W where W: "reg_encrypt cp (bits x) = Inr W" "length W = cp_N cp" "reg_decrypt cp W = Inr (bits x)"
    using reg_inverse(1) [OF wf, of "bits x"] len N by auto
  obtain y where y: "ConsPi_encryptBytes cp x = Inr y" "bits y = W"
    using encryptBytes_refines [OF wf len] W(1) by (auto simp: bindE_Inr_iff)
  have ly: "length y = cons_width cp" using arg_cong [OF y(2), of length] W(2) N by simp
  obtain z where "ConsPi_decryptBytes cp y = Inr z" "bits z = bits x"
    using decryptBytes_refines [OF wf ly] W(3) y(2) by (auto simp: bindE_Inr_iff)
  then show "\<exists>y. ConsPi_encryptBytes cp x = Inr y \<and> length y = cons_width cp \<and> ConsPi_decryptBytes cp y = Inr x"
    using y(1) ly by (simp add: bits_eq_iff)
next
  fix cp :: ConsPi and y :: "u8 list"
  assume wf: "cons_wf cp" and len: "length y = cons_width cp"
  have N: "8 * cons_width cp = cp_N cp" using wf by (auto simp: cons_wf_def cons_width_def)
  obtain W where W: "reg_decrypt cp (bits y) = Inr W" "length W = cp_N cp" "reg_encrypt cp W = Inr (bits y)"
    using reg_inverse(2) [OF wf, of "bits y"] len N by auto
  obtain x where x: "ConsPi_decryptBytes cp y = Inr x" "bits x = W"
    using decryptBytes_refines [OF wf len] W(1) by (auto simp: bindE_Inr_iff)
  have lx: "length x = cons_width cp" using arg_cong [OF x(2), of length] W(2) N by simp
  obtain z where "ConsPi_encryptBytes cp x = Inr z" "bits z = bits y"
    using encryptBytes_refines [OF wf lx] W(3) x(2) by (auto simp: bindE_Inr_iff)
  then show "\<exists>x. ConsPi_decryptBytes cp y = Inr x \<and> length x = cons_width cp \<and> ConsPi_encryptBytes cp x = Inr y"
    using x(1) lx by (simp add: bits_eq_iff)
qed

end
