(* ===== verification/Perm_Xoodoo.thy ===== *)
theory Perm_Xoodoo
  imports Perm_Api
begin

text \<open>
  The permutation of the 48-byte rows of the curve KEM: \<open>frontend/permutation/xoodoo.h\<close>, its
  inverse \<open>xoodoo_inv.h\<close>, and the forward rounds of XKCP's \<open>Xoodoo-plain.c\<close> that it calls. A
  state is twelve lanes, three planes of four; in memory each lane is four bytes, least
  significant first.
\<close>

unbundle bit_operations_syntax

section \<open>Lanes in memory\<close>

definition u32_bytes :: "u32 \<Rightarrow> u8 list" where
  "u32_bytes w = map word_of_nat (digits 256 4 (unat w))"

definition bytes_u32 :: "u8 list \<Rightarrow> u32" where
  "bytes_u32 bs = word_of_nat (le_val bs)"

definition lanesOf :: "nat \<Rightarrow> u8 list \<Rightarrow> u32 list" where
  "lanesOf n data = map (\<lambda>i. bytes_u32 (slice (4 * i) 4 data)) [0..<n]"

definition bytesOfLanes :: "u32 list \<Rightarrow> u8 list" where
  "bytesOfLanes a = concat (map u32_bytes a)"

section \<open>The forward rounds\<close>

definition ROTL32 :: "u32 \<Rightarrow> nat \<Rightarrow> u32" where
  "ROTL32 a off = push_bit (off mod 32) a XOR drop_bit ((32 - off) mod 32) a"

definition col_parity :: "u32 list \<Rightarrow> nat \<Rightarrow> u32" where
  "col_parity a x = a ! x XOR a ! (4 + x) XOR a ! (8 + x)"

text \<open>Every lane of column \<open>x\<close> gets the mixed parity of column \<open>x - 1\<close>.\<close>

definition Theta :: "u32 list \<Rightarrow> u32 list" where
  "Theta a =
     (let v = (\<lambda>x. let p = col_parity a x in ROTL32 p 5 XOR ROTL32 p 14)
      in [a ! 0 XOR v 3, a ! 1 XOR v 0, a ! 2 XOR v 1, a ! 3 XOR v 2,
          a ! 4 XOR v 3, a ! 5 XOR v 0, a ! 6 XOR v 1, a ! 7 XOR v 2,
          a ! 8 XOR v 3, a ! 9 XOR v 0, a ! 10 XOR v 1, a ! 11 XOR v 2])"

definition Rho_west :: "u32 list \<Rightarrow> u32 list" where
  "Rho_west a =
     [a ! 0, a ! 1, a ! 2, a ! 3, a ! 7, a ! 4, a ! 5, a ! 6,
      ROTL32 (a ! 8) 11, ROTL32 (a ! 9) 11, ROTL32 (a ! 10) 11, ROTL32 (a ! 11) 11]"

definition Iota :: "u32 \<Rightarrow> u32 list \<Rightarrow> u32 list" where
  "Iota rc a = a[0 := a ! 0 XOR rc]"

text \<open>The three assignments to one column, in their order.\<close>

definition chi_col :: "u32 list \<Rightarrow> nat \<Rightarrow> u32 \<times> u32 \<times> u32" where
  "chi_col a x =
     (let a0 = a ! x; a1 = a ! (4 + x); a2 = a ! (8 + x);
          a0 = a0 XOR (NOT a1 AND a2);
          a1 = a1 XOR (NOT a2 AND a0);
          a2 = a2 XOR (NOT a0 AND a1)
      in (a0, a1, a2))"

definition Chi :: "u32 list \<Rightarrow> u32 list" where
  "Chi a =
     map (\<lambda>x. fst (chi_col a x)) [0, 1, 2, 3] @ map (\<lambda>x. fst (snd (chi_col a x))) [0, 1, 2, 3] @
     map (\<lambda>x. snd (snd (chi_col a x))) [0, 1, 2, 3]"

definition Rho_east :: "u32 list \<Rightarrow> u32 list" where
  "Rho_east a =
     [a ! 0, a ! 1, a ! 2, a ! 3,
      ROTL32 (a ! 4) 1, ROTL32 (a ! 5) 1, ROTL32 (a ! 6) 1, ROTL32 (a ! 7) 1,
      ROTL32 (a ! 10) 8, ROTL32 (a ! 11) 8, ROTL32 (a ! 8) 8, ROTL32 (a ! 9) 8]"

definition Xoodoo_Round :: "u32 list \<Rightarrow> u32 \<Rightarrow> u32 list" where
  "Xoodoo_Round a rc = Rho_east (Chi (Iota rc (Rho_west (Theta a))))"

definition Xoodoo_plain_Permute_12rounds :: "u32 list \<Rightarrow> u32 list" where
  "Xoodoo_plain_Permute_12rounds a =
     foldl Xoodoo_Round a [0x58, 0x38, 0x3C0, 0xD0, 0x120, 0x14, 0x60, 0x2C, 0x380, 0xF0, 0x1A0, 0x12]"

section \<open>The inverse rounds\<close>

definition xoodoo_check :: "nat \<Rightarrow> 'a result \<Rightarrow> 'a result" where
  "xoodoo_check bytes k = guardE (bytes \<noteq> 48) (InvalidArgument ''xoodoo expects exactly 48 bytes'') k"

definition rot :: "u32 \<Rightarrow> int \<Rightarrow> u32" where
  "rot x n = (let n = nat (n mod 32) in if n = 0 then x else push_bit n x OR drop_bit (32 - n) x)"

definition rotr :: "u32 \<Rightarrow> int \<Rightarrow> u32" where
  "rotr x n = rot x (- n)"

definition xm :: "int \<Rightarrow> nat" where
  "xm x = nat ((x mod 4 + 4) mod 4)"

definition theta_step :: "nat \<Rightarrow> u32 list \<Rightarrow> u32 list" where
  "theta_step p prev =
     map (\<lambda>x. let v = prev ! xm (int x - int p)
              in prev ! x XOR rot v (5 * int p) XOR rot v (14 * int p)) [0..<4]"

text \<open>The doubling loop runs for \<open>p\<close> from 1 to 16.\<close>

definition theta_inv :: "u32 list \<Rightarrow> u32 list" where
  "theta_inv a =
     (let parity = map (col_parity a) [0..<4];
          effect = foldl (\<lambda>e p. theta_step p e) parity [1, 2, 4, 8, 16];
          effect = map (\<lambda>x. effect ! x XOR parity ! x) [0..<4]
      in map (\<lambda>i. a ! i XOR effect ! (i mod 4)) [0..<12])"

definition rhoWest :: "u32 list \<Rightarrow> u32 list" where
  "rhoWest a =
     [a ! 0, a ! 1, a ! 2, a ! 3, a ! 5, a ! 6, a ! 7, a ! 4,
      rotr (a ! 8) 11, rotr (a ! 9) 11, rotr (a ! 10) 11, rotr (a ! 11) 11]"

definition rhoEast :: "u32 list \<Rightarrow> u32 list" where
  "rhoEast a =
     [a ! 0, a ! 1, a ! 2, a ! 3,
      rotr (a ! 4) 1, rotr (a ! 5) 1, rotr (a ! 6) 1, rotr (a ! 7) 1,
      rotr (a ! 10) 8, rotr (a ! 11) 8, rotr (a ! 8) 8, rotr (a ! 9) 8]"

definition chi_inv :: "u32 list \<Rightarrow> u32 list" where
  "chi_inv a =
     foldl (\<lambda>a x. case chi_col a x of (a0, a1, a2) \<Rightarrow> a[x := a0, 4 + x := a1, 8 + x := a2]) a [0, 1, 2, 3]"

definition xoodoo_inv_round :: "u32 list \<Rightarrow> u32 \<Rightarrow> u32 list" where
  "xoodoo_inv_round a c = theta_inv (rhoWest (Iota c (chi_inv (rhoEast a))))"

definition xoodoo_run :: "u32 list \<Rightarrow> u32 list" where
  "xoodoo_run a =
     foldl xoodoo_inv_round a [0x12, 0x1A0, 0xF0, 0x380, 0x2C, 0x60, 0x14, 0x120, 0xD0, 0x3C0, 0x38, 0x58]"

section \<open>The object\<close>

definition Xoodoo_encryptBytes :: "unit \<Rightarrow> u8 list \<Rightarrow> u8 list result" where
  "Xoodoo_encryptBytes _ data =
     xoodoo_check (length data) (Inr (bytesOfLanes (Xoodoo_plain_Permute_12rounds (lanesOf 12 data))))"

definition Xoodoo_decryptBytes :: "unit \<Rightarrow> u8 list \<Rightarrow> u8 list result" where
  "Xoodoo_decryptBytes _ data =
     xoodoo_check (length data) (Inr (bytesOfLanes (xoodoo_run (lanesOf 12 data))))"

section \<open>Rotations\<close>

lemma rot_bit: "bit (rot x n) i \<longleftrightarrow> i < 32 \<and> bit x (nat ((int i - n) mod 32))"
proof (cases "i < 32")
  case i: True
  define k where "k = nat (n mod 32)"
  have k: "k < 32" "int k = n mod 32" by (simp_all add: k_def)
  have "(int i - n) mod 32 = (int i - int k) mod 32" by (simp add: k mod_diff_right_eq)
  also have "\<dots> = (if k \<le> i then int (i - k) else int (32 + i - k))"
  proof (cases "k \<le> i")
    case False
    have "(int i - int k) mod 32 = (int i - int k + 32) mod 32" by simp
    also have "\<dots> = int i - int k + 32" using False i k(1) by (intro mod_pos_pos_trivial) linarith+
    finally show ?thesis using False k(1) by simp
  qed (use i in simp)
  finally have e: "nat ((int i - n) mod 32) = (if k \<le> i then i - k else 32 + i - k)"
    by (cases "k \<le> i") (simp_all only: simp_thms if_True if_False nat_int)
  show ?thesis
  proof (cases "k = 0")
    case True
    then show ?thesis using e i by (simp add: rot_def flip: k_def)
  next
    case False
    have "bit (rot x n) i \<longleftrightarrow> k \<le> i \<and> bit x (i - k) \<or> bit x (32 - k + i)"
      using False i by (simp add: rot_def bit_or_iff bit_push_bit_iff bit_drop_bit_eq flip: k_def)
    moreover have "\<not> bit x (32 - k + i)" if "k \<le> i" using that k(1) bit_imp_le_length [of x "32 - k + i"] by auto
    ultimately show ?thesis using e i k(1) by auto
  qed
qed (use bit_imp_le_length [of "rot x n" i] in auto)

lemma rot_rot: "rot (rot x m) n = rot x (m + n)"
  by (rule bit_word_eqI) (simp add: rot_bit mod_diff_left_eq nat_less_iff algebra_simps)

lemma rot_xor: "rot (x XOR y) n = rot x n XOR rot y n"
  by (rule bit_word_eqI) (auto simp: rot_bit bit_xor_iff)

lemma rot_full: "32 dvd n \<Longrightarrow> rot x n = x"
  by (simp add: rot_def)

lemma rotr_rot: "rotr (rot x n) n = x"
  by (simp add: rotr_def rot_rot rot_full)

lemma ROTL32_rot:
  assumes "0 < k" and "k < 32"
  shows "ROTL32 x k = rot x (int k)"
proof (rule bit_word_eqI)
  fix n assume n: "n < LENGTH(32)"
  have "\<not> bit x (32 - k + n)" if "k \<le> n" using that assms bit_imp_le_length [of x "32 - k + n"] by auto
  then show "bit (ROTL32 x k) n = bit (rot x (int k)) n"
    using assms n by (auto simp: ROTL32_def rot_def bit_xor_iff bit_or_iff bit_push_bit_iff bit_drop_bit_eq)
qed

section \<open>The inverse of the column mixer\<close>

text \<open>
  A row of four parities is a function of its index modulo 4. \<open>shift_rot m k\<close> moves it by \<open>m\<close>
  columns and rotates by \<open>k\<close>; \<open>mix p\<close> is one step of the doubling loop, and two equal steps make
  the next one, because the cross terms cancel.
\<close>

definition shift_rot :: "nat \<Rightarrow> nat \<Rightarrow> (nat \<Rightarrow> u32) \<Rightarrow> nat \<Rightarrow> u32" where
  "shift_rot m k P x = rot (P ((x + 3 * m) mod 4)) (int k)"

definition mix :: "nat \<Rightarrow> (nat \<Rightarrow> u32) \<Rightarrow> nat \<Rightarrow> u32" where
  "mix p P x = P (x mod 4) XOR shift_rot p (5 * p) P x XOR shift_rot p (14 * p) P x"

lemma shift_rot_compose: "shift_rot m k (shift_rot m' k' P) x = shift_rot (m + m') (k + k') P x"
proof -
  have "((x + 3 * m) mod 4 + 3 * m') mod 4 = (x + 3 * (m + m')) mod 4"
    unfolding mod_add_left_eq by (simp add: algebra_simps)
  then show ?thesis by (simp add: shift_rot_def rot_rot add.commute)
qed

lemma shift_rot_mod: "shift_rot m k P (x mod 4) = shift_rot m k P x"
  by (simp add: shift_rot_def mod_add_left_eq)

lemma shift_rot_mix: "shift_rot m k (mix p P) x = shift_rot m k P x XOR
  shift_rot (m + p) (k + 5 * p) P x XOR shift_rot (m + p) (k + 14 * p) P x"
proof -
  have "shift_rot m k (mix p P) x = shift_rot m k P x XOR shift_rot m k (shift_rot p (5 * p) P) x XOR
      shift_rot m k (shift_rot p (14 * p) P) x"
    by (simp add: shift_rot_def mix_def rot_xor)
  then show ?thesis by (simp only: shift_rot_compose)
qed

lemma xor_cancel3: "a XOR b XOR c XOR (b XOR d XOR e) XOR (c XOR e XOR f) = a XOR d XOR (f :: u32)"
  by (rule bit_word_eqI) (auto simp: bit_xor_iff)

lemma mix_mix: "mix p (mix p P) x = mix (2 * p) P x"
proof -
  have e: "5 * p + 5 * p = 5 * (2 * p)" "5 * p + 14 * p = 19 * p" "14 * p + 5 * p = 19 * p"
    "14 * p + 14 * p = 14 * (2 * p)" "p + p = 2 * p" by simp_all
  have "mix p (mix p P) x = P (x mod 4) XOR shift_rot p (5 * p) P x XOR shift_rot p (14 * p) P x XOR
      (shift_rot p (5 * p) P x XOR shift_rot (2 * p) (5 * (2 * p)) P x XOR shift_rot (2 * p) (19 * p) P x) XOR
      (shift_rot p (14 * p) P x XOR shift_rot (2 * p) (19 * p) P x XOR shift_rot (2 * p) (14 * (2 * p)) P x)"
    unfolding mix_def [of p "mix p P"] shift_rot_mix e by (simp add: mix_def shift_rot_mod xor.assoc)
  then show ?thesis unfolding xor_cancel3 mix_def [of "2 * p"] .
qed

lemma mix_32: "mix 32 P x = P (x mod 4)"
  by (simp add: mix_def shift_rot_def rot_full xor.assoc flip: mod_add_right_eq)

lemma xm_eq: "xm (int x - int p) = (x + 3 * p) mod 4"
proof -
  have "(int x - int p) mod 4 = (int x - int p + 4 * int p) mod 4" by (rule mod_mult_self2 [symmetric])
  also have "\<dots> = int ((x + 3 * p) mod 4)" by (simp add: of_nat_mod add.commute)
  finally show ?thesis by (simp add: xm_def)
qed

lemma theta_step_mix: "theta_step p (map P [0..<4]) = map (mix p P) [0..<4]"
  unfolding theta_step_def
  by (rule map_cong [OF refl]) (simp add: Let_def xm_eq mix_def shift_rot_def nth_map_upt0 del: upt_Suc)

lemma theta_loop:
  "foldl (\<lambda>e p. theta_step p e) (map (mix 1 P) [0..<4]) [1, 2, 4, 8, 16] = map P [0..<4]"
proof -
  have "mix 1 (mix 1 P) = mix 2 P" "mix 2 (mix 2 P) = mix 4 P" "mix 4 (mix 4 P) = mix 8 P"
    "mix 8 (mix 8 P) = mix 16 P" "mix 16 (mix 16 P) = mix 32 P"
    using mix_mix [of 1 P] mix_mix [of 2 P] mix_mix [of 4 P] mix_mix [of 8 P] mix_mix [of 16 P]
    by (simp_all add: fun_eq_iff)
  then show ?thesis by (simp add: theta_step_mix mix_32 del: upt_Suc)
qed

lemma list12E:
  assumes "length a = 12"
  obtains a0 a1 a2 a3 a4 a5 a6 a7 a8 a9 a10 a11 where "a = [a0, a1, a2, a3, a4, a5, a6, a7, a8, a9, a10, a11]"
  using assms by (auto simp: eval_nat_numeral length_Suc_conv)

lemma col_parity_Theta:
  assumes "x < 4"
  shows "col_parity (Theta a) x = mix 1 (col_parity a) x"
proof -
  have "x = 0 \<or> x = 1 \<or> x = 2 \<or> x = 3" using assms by auto
  then show ?thesis
    by (elim disjE; hypsubst)
      (simp_all add: col_parity_def [of "Theta a"] Theta_def Let_def mix_def shift_rot_def ROTL32_rot;
       simp add: col_parity_def xor.assoc xor.left_commute xor.commute)+
qed

lemma theta_inv_Theta:
  assumes "length a = 12"
  shows "theta_inv (Theta a) = a"
proof -
  let ?v = "\<lambda>x. ROTL32 (col_parity a x) 5 XOR ROTL32 (col_parity a x) 14"
  have parity: "map (col_parity (Theta a)) [0..<4] = map (mix 1 (col_parity a)) [0..<4]"
    by (rule map_cong [OF refl]) (simp add: col_parity_Theta)
  have effect: "mix 1 (col_parity a) x XOR col_parity a x = ?v ((x + 3) mod 4)" if "x < 4" for x
    using that by (simp add: mix_def shift_rot_def ROTL32_rot xor.assoc xor.left_commute xor.commute)
  have "theta_inv (Theta a) = map (\<lambda>i. Theta a ! i XOR ?v ((i mod 4 + 3) mod 4)) [0..<12]"
    unfolding theta_inv_def Let_def parity theta_loop
    by (rule map_cong [OF refl]) (simp add: xor.commute flip: effect del: upt_Suc)
  also have "\<dots> = a"
  proof (rule nth_equalityI)
    fix i assume "i < length (map (\<lambda>i. Theta a ! i XOR ?v ((i mod 4 + 3) mod 4)) [0..<12])"
    then have i: "i < 12" by (simp del: upt_Suc)
    then have "i = 0 \<or> i = 1 \<or> i = 2 \<or> i = 3 \<or> i = 4 \<or> i = 5 \<or> i = 6 \<or> i = 7 \<or> i = 8 \<or> i = 9 \<or> i = 10 \<or> i = 11"
      by presburger
    then have "Theta a ! i = a ! i XOR ?v ((i mod 4 + 3) mod 4)"
      by (elim disjE; hypsubst) (simp_all add: Theta_def Let_def)
    then show "map (\<lambda>i. Theta a ! i XOR ?v ((i mod 4 + 3) mod 4)) [0..<12] ! i = a ! i"
      using i by (simp add: xor.assoc del: upt_Suc)
  qed (simp add: assms)
  finally show ?thesis .
qed

section \<open>The other layers\<close>

lemma chi_involution:
  fixes a0 a1 a2 :: u32
  assumes "b0 = a0 XOR (NOT a1 AND a2)" and "b1 = a1 XOR (NOT a2 AND b0)" and "b2 = a2 XOR (NOT b0 AND b1)"
  shows "b0 XOR (NOT b1 AND b2) = a0" and "b1 XOR (NOT b2 AND a0) = a1" and "b2 XOR (NOT a0 AND a1) = a2"
  by (rule bit_word_eqI; auto simp: assms bit_simps)+

lemma chi_inv_Chi:
  assumes "length a = 12"
  shows "chi_inv (Chi a) = a"
  using assms by (elim list12E) (simp add: Chi_def chi_inv_def chi_col_def Let_def chi_involution [OF refl refl refl] eval_nat_numeral)

lemma lanes_length [simp]: "length (Theta a) = 12" "length (Rho_west a) = 12" "length (Chi a) = 12" "length (Rho_east a) = 12"
  "length (Iota c a) = length a" "length (theta_inv a) = 12"
  by (simp_all add: Theta_def Let_def Rho_west_def Chi_def Rho_east_def Iota_def theta_inv_def del: upt_Suc)

lemma rho_inverse:
  assumes "length a = 12"
  shows "rhoWest (Rho_west a) = a" and "rhoEast (Rho_east a) = a" and "Iota c (Iota c a) = a"
  using assms by (elim list12E; simp add: rhoWest_def Rho_west_def rhoEast_def Rho_east_def Iota_def ROTL32_rot rotr_rot xor.assoc)+

lemma xoodoo_inv_round_Round: "length a = 12 \<Longrightarrow> xoodoo_inv_round (Xoodoo_Round a c) c = a"
  by (simp add: xoodoo_inv_round_def Xoodoo_Round_def rho_inverse chi_inv_Chi theta_inv_Theta)

lemma length_Xoodoo_Round [simp]: "length (Xoodoo_Round a c) = 12"
  by (simp add: Xoodoo_Round_def)

lemma xoodoo_run_Permute: "length a = 12 \<Longrightarrow> xoodoo_run (Xoodoo_plain_Permute_12rounds a) = a"
  by (simp add: xoodoo_run_def Xoodoo_plain_Permute_12rounds_def xoodoo_inv_round_Round)

section \<open>Bytes\<close>

lemma length_u32_bytes [simp]: "length (u32_bytes w) = 4"
  by (simp add: u32_bytes_def)

lemma bytes_u32_u32_bytes [simp]: "bytes_u32 (u32_bytes w) = w"
proof -
  have "unat w < 256 ^ 4" using unat_lt [of w] by simp
  then show ?thesis by (simp add: bytes_u32_def u32_bytes_def le_val_digits)
qed

lemma u32_bytes_bytes_u32:
  assumes "length bs = 4"
  shows "u32_bytes (bytes_u32 bs) = bs"
proof -
  have "unat (bytes_u32 bs) = le_val bs"
    using le_val_lt [of bs] assms unfolding bytes_u32_def by (simp add: unsigned_of_nat take_bit_nat_eq_self)
  then show ?thesis using digits_le_val [of bs] assms by (simp add: u32_bytes_def)
qed

lemma length_bytesOfLanes [simp]: "length (bytesOfLanes a) = 4 * length a"
  by (induction a) (simp_all add: bytesOfLanes_def)

lemma lanesOf_bytesOfLanes: "length a = n \<Longrightarrow> lanesOf n (bytesOfLanes a) = a"
proof (rule nth_equalityI)
  fix i assume "length a = n" and "i < length (lanesOf n (bytesOfLanes a))"
  then have i: "i < length a" by (simp add: lanesOf_def)
  have "slice (i * 4) 4 (concat (map u32_bytes a)) = map u32_bytes a ! i" using i by (intro slice_concat) auto
  then show "lanesOf n (bytesOfLanes a) ! i = a ! i"
    using i \<open>length a = n\<close> by (simp add: lanesOf_def bytesOfLanes_def mult.commute)
qed (simp add: lanesOf_def)

lemma bytesOfLanes_lanesOf:
  assumes "length data = 4 * n"
  shows "bytesOfLanes (lanesOf n data) = data"
proof -
  have "bytesOfLanes (lanesOf k data) = take (4 * k) data" if "k \<le> n" for k
    using that
  proof (induction k)
    case (Suc k)
    have "u32_bytes (bytes_u32 (slice (4 * k) 4 data)) = slice (4 * k) 4 data"
      using Suc.prems assms by (intro u32_bytes_bytes_u32 length_slice) simp
    then show ?case using Suc take_add [of "4 * k" 4 data]
      by (simp add: bytesOfLanes_def lanesOf_def slice_def add.commute)
  qed (simp add: bytesOfLanes_def lanesOf_def)
  then show ?thesis using assms by simp
qed

text \<open>A left inverse on the byte strings of one length is a right inverse, as there are finitely many.\<close>

lemma left_inverse_is_right:
  fixes f g :: "u8 list \<Rightarrow> u8 list"
  assumes f: "\<And>x. length x = n \<Longrightarrow> length (f x) = n" and gf: "\<And>x. length x = n \<Longrightarrow> g (f x) = x"
    and y: "length y = n"
  shows "length (g y) = n \<and> f (g y) = y"
proof -
  let ?S = "{xs :: u8 list. length xs = n}"
  have fin: "finite ?S" using finite_lists_length_eq [of "UNIV :: u8 set" n] by simp
  have "inj_on f ?S" using gf by (metis (mono_tags, lifting) inj_onI mem_Collect_eq)
  moreover have "f ` ?S \<subseteq> ?S" using f by auto
  ultimately have "f ` ?S = ?S" using fin endo_inj_surj by blast
  then obtain x where "length x = n" "y = f x" using y by (metis (mono_tags, lifting) imageE mem_Collect_eq)
  then show ?thesis using gf by simp
qed

section \<open>The contract\<close>

definition xoodoo_enc :: "u8 list \<Rightarrow> u8 list" where
  "xoodoo_enc data = bytesOfLanes (Xoodoo_plain_Permute_12rounds (lanesOf 12 data))"

definition xoodoo_dec :: "u8 list \<Rightarrow> u8 list" where
  "xoodoo_dec data = bytesOfLanes (xoodoo_run (lanesOf 12 data))"

lemma xoodoo_dec_enc: "length x = 48 \<Longrightarrow> length (xoodoo_enc x) = 48 \<and> xoodoo_dec (xoodoo_enc x) = x"
proof -
  assume len: "length x = 48"
  have l: "length (lanesOf 12 x) = 12" by (simp add: lanesOf_def)
  have l': "length (Xoodoo_plain_Permute_12rounds (lanesOf 12 x)) = 12" by (simp add: Xoodoo_plain_Permute_12rounds_def)
  show ?thesis using len by (simp add: xoodoo_enc_def xoodoo_dec_def lanesOf_bytesOfLanes [OF l'] xoodoo_run_Permute [OF l]
    bytesOfLanes_lanesOf l')
qed

interpretation xoodoo: byte_perm Xoodoo_encryptBytes Xoodoo_decryptBytes "\<lambda>_. 48" "\<lambda>_. True"
proof
  fix p and x :: "u8 list"
  assume "length x = 48"
  then show "\<exists>y. Xoodoo_encryptBytes p x = Inr y \<and> length y = 48 \<and> Xoodoo_decryptBytes p y = Inr x"
    using xoodoo_dec_enc [of x]
    by (simp add: Xoodoo_encryptBytes_def Xoodoo_decryptBytes_def xoodoo_check_def flip: xoodoo_enc_def xoodoo_dec_def)
next
  fix p and y :: "u8 list"
  assume "length y = 48"
  then show "\<exists>x. Xoodoo_decryptBytes p y = Inr x \<and> length x = 48 \<and> Xoodoo_encryptBytes p x = Inr y"
    using left_inverse_is_right [of 48 xoodoo_enc xoodoo_dec y] xoodoo_dec_enc
    by (simp add: Xoodoo_encryptBytes_def Xoodoo_decryptBytes_def xoodoo_check_def flip: xoodoo_enc_def xoodoo_dec_def)
qed

end
