(* ===== verification/Perm_Sneik.thy ===== *)
theory Perm_Sneik
  imports Perm_Xoodoo
begin

text \<open>
  The 512-bit permutation SNEIK-f512: the forward rounds of \<open>thirdparty/sneik/sneik_f512.c\<close> and
  their inverse in \<open>frontend/permutation/sneik.h\<close>, which inverts the two linear maps of a round
  by Gauss-Jordan elimination and byte tables.
\<close>

section \<open>Linear maps\<close>

definition sneik_rotr :: "u32 \<Rightarrow> nat \<Rightarrow> u32" where
  "sneik_rotr x n = drop_bit n x OR push_bit (32 - n) x"

definition linA :: "u32 \<Rightarrow> u32" where
  "linA x = x XOR sneik_rotr x 7 XOR sneik_rotr x 8"

definition linB :: "u32 \<Rightarrow> u32" where
  "linB x = x XOR sneik_rotr x 15 XOR sneik_rotr x 23"

section \<open>Inverting a linear map\<close>

definition matrix_rows :: "(u32 \<Rightarrow> u32) \<Rightarrow> u32 list" where
  "matrix_rows fn =
     map (\<lambda>row. foldl (\<lambda>r col. if drop_bit row (fn (push_bit col 1)) AND 1 \<noteq> 0 then r OR push_bit col 1 else r)
            0 [0..<32]) [0..<32]"

text \<open>
  One column of the elimination on the matrix and the right-hand side: the first row at or
  below the column with a one there is swapped up and added to every other row with a one.
\<close>

definition swap_rows :: "nat \<Rightarrow> nat \<Rightarrow> 'a list \<Rightarrow> 'a list" where
  "swap_rows i j xs = xs[i := xs ! j, j := xs ! i]"

definition gauss_step :: "u32 list \<times> u8 list \<Rightarrow> nat \<Rightarrow> (u32 list \<times> u8 list) result" where
  "gauss_step st col =
     (case st of (a, rhs) \<Rightarrow>
        case find (\<lambda>pivot. drop_bit col (a ! pivot) AND 1 \<noteq> 0) [col..<32] of
          None \<Rightarrow> Inl (RuntimeError ''SNEIK inverse matrix is singular'')
        | Some pivot \<Rightarrow>
            let a = (if pivot \<noteq> col then swap_rows pivot col a else a);
                rhs = (if pivot \<noteq> col then swap_rows pivot col rhs else rhs);
                elim = (\<lambda>row. row \<noteq> col \<and> drop_bit col (a ! row) AND 1 \<noteq> 0)
            in Inr (map (\<lambda>row. if elim row then a ! row XOR a ! col else a ! row) [0..<32],
                    map (\<lambda>row. if elim row then rhs ! row XOR rhs ! col else rhs ! row) [0..<32]))"

definition solve_bit :: "u32 list \<Rightarrow> nat \<Rightarrow> u32 result" where
  "solve_bit rows b =
     bindE (foldE gauss_step (rows, (replicate 32 0)[b := 1]) [0..<32]) (\<lambda>(a, rhs).
       Inr (foldl (\<lambda>x col. if rhs ! col \<noteq> 0 then x OR push_bit col 1 else x) 0 [0..<32]))"

definition invMatrix :: "(u32 \<Rightarrow> u32) \<Rightarrow> u32 list result" where
  "invMatrix fn = mapE (solve_bit (matrix_rows fn)) [0..<32]"

definition applyInvSlow :: "u32 \<Rightarrow> u32 list \<Rightarrow> u32" where
  "applyInvSlow y minv =
     foldl (\<lambda>x b. if drop_bit b y AND 1 \<noteq> 0 then x XOR minv ! b else x) 0 [0..<32]"

definition invTable :: "u32 list \<Rightarrow> u32 list list" where
  "invTable minv =
     map (\<lambda>lane. map (\<lambda>byte. applyInvSlow (push_bit (8 * lane) (word_of_nat byte)) minv) [0..<256]) [0..<4]"

definition applyInv :: "u32 \<Rightarrow> u32 list list \<Rightarrow> u32" where
  "applyInv y table =
     table ! 0 ! unat (y AND 0xFF) XOR table ! 1 ! unat (drop_bit 8 y AND 0xFF) XOR
     table ! 2 ! unat (drop_bit 16 y AND 0xFF) XOR table ! 3 ! unat (drop_bit 24 y AND 0xFF)"

section \<open>Lanes\<close>

definition load32 :: "u8 list \<Rightarrow> u32" where
  "load32 p = ucast (p ! 0) OR push_bit 8 (ucast (p ! 1)) OR push_bit 16 (ucast (p ! 2)) OR push_bit 24 (ucast (p ! 3))"

definition store32 :: "u32 \<Rightarrow> u8 list" where
  "store32 x = [ucast x, ucast (drop_bit 8 x), ucast (drop_bit 16 x), ucast (drop_bit 24 x)]"

definition sneik_load :: "u8 list \<Rightarrow> u32 list" where
  "sneik_load state = map (\<lambda>i. load32 (slice (4 * i) 4 state)) [0..<16]"

definition sneik_store :: "u32 list \<Rightarrow> u8 list" where
  "sneik_store v = concat (map store32 v)"

definition sneik_rc :: "u8 list" where
  "sneik_rc = [0xEF, 0xE0, 0xD9, 0xD6, 0xBA, 0xB5, 0x8C, 0x83,
               0x10, 0x1F, 0x26, 0x29, 0x45, 0x4A, 0x73, 0x7C]"

section \<open>The forward rounds\<close>

text \<open>
  The macro \<open>MIX_F(pos, sv, t0, t1, t2, t3)\<close>, whose register arguments are \<open>w\<close> rotated by \<open>pos\<close>:
  it assigns \<open>t0\<close>, \<open>t2\<close> and \<open>sv[pos]\<close>.
\<close>

definition MIX_F :: "u32 list \<times> u32 list \<Rightarrow> nat \<Rightarrow> u32 list \<times> u32 list" where
  "MIX_F st pos =
     (case st of (sv, w) \<Rightarrow>
        let t0 = w ! (pos mod 4); t1 = w ! ((pos + 1) mod 4); t2 = w ! ((pos + 2) mod 4); t3 = w ! ((pos + 3) mod 4);
            t0 = t0 + t3;
            t0 = linA t0;
            t0 = t0 XOR t2;
            t2 = sv ! ((pos + 2) mod 16);
            t0 = t0 + t2;
            t0 = linB t0;
            t0 = t0 XOR t1
        in (sv[pos := t0], w[pos mod 4 := t0, (pos + 2) mod 4 := t2]))"

definition sneik_round :: "u8 \<Rightarrow> u32 list \<times> u32 list \<Rightarrow> nat \<Rightarrow> u32 list \<times> u32 list" where
  "sneik_round domain st i =
     (case st of (sv, w) \<Rightarrow>
        foldl MIX_F (sv, w[0 := w ! 0 XOR ucast (sneik_rc ! i), 1 := w ! 1 XOR ucast domain]) [0..<16])"

definition sneik_f512 :: "u8 list \<Rightarrow> u8 \<Rightarrow> nat \<Rightarrow> u8 list" where
  "sneik_f512 state domain rounds =
     (let sv = sneik_load state
      in sneik_store (fst (foldl (sneik_round domain) (sv, [sv ! 0, sv ! 1, sv ! 14, sv ! 15]) [0..<rounds])))"

section \<open>The inverse\<close>

definition sneik_inv_step :: "u32 list list \<Rightarrow> u32 list list \<Rightarrow> u32 list \<Rightarrow> nat \<Rightarrow> u32 list" where
  "sneik_inv_step invA invB v j =
     (let x = v ! j XOR v ! ((j + 1) mod 16);
          x = applyInv x invB;
          x = x - v ! ((j + 2) mod 16);
          x = x XOR v ! ((j + 14) mod 16);
          x = applyInv x invA;
          x = x - v ! ((j + 15) mod 16)
      in v[j := x])"

definition sneik_inv_round :: "u32 list list \<Rightarrow> u32 list list \<Rightarrow> u8 \<Rightarrow> u32 list \<Rightarrow> nat \<Rightarrow> u32 list" where
  "sneik_inv_round invA invB domain v i =
     (let v = foldl (sneik_inv_step invA invB) v (rev [0..<16])
      in v[1 := v ! 1 XOR ucast domain, 0 := v ! 0 XOR ucast (sneik_rc ! i)])"

definition sneik_invert :: "u8 list \<Rightarrow> u8 \<Rightarrow> nat \<Rightarrow> u8 list result" where
  "sneik_invert state domain rounds =
     bindE (invMatrix linA) (\<lambda>mA. bindE (invMatrix linB) (\<lambda>mB.
       let invA = invTable mA; invB = invTable mB;
           v = foldl (sneik_inv_round invA invB domain) (sneik_load state) (rev [0..<rounds])
       in Inr (sneik_store v)))"

end
