(* ===== verification/Perm_SneikCorrect.thy ===== *)
theory Perm_SneikCorrect
  imports Perm_Sneik
begin

text \<open>
  SNEIK-f512 and its inverse: the elimination of \<open>invMatrix\<close> never meets a singular matrix on the
  two linear maps and returns their inverse, the byte tables apply it, the register form of the
  C rounds refines a plain 16-lane state, and \<open>invert\<close> undoes the rounds.
\<close>

section \<open>Words as bit vectors\<close>

lemma and_one_bit: "drop_bit n (x :: 'a::len word) AND 1 \<noteq> 0 \<longleftrightarrow> bit x n"
  by (simp add: bit_iff_and_drop_bit_eq_1 and_one_eq odd_iff_mod_2_eq_one)

fun dotn :: "nat \<Rightarrow> u32 \<Rightarrow> u32 \<Rightarrow> bool" where
  "dotn 0 w x = False"
| "dotn (Suc n) w x = (dotn n w x \<noteq> (bit w n \<and> bit x n))"

abbreviation dot :: "u32 \<Rightarrow> u32 \<Rightarrow> bool" where
  "dot \<equiv> dotn 32"

lemma dotn_xor: "dotn n (w XOR w') x \<longleftrightarrow> dotn n w x \<noteq> dotn n w' x"
  by (induction n) (auto simp: bit_xor_iff)

lemma dotn_single: "(\<And>c. c < n \<Longrightarrow> bit w c \<longleftrightarrow> c = r) \<Longrightarrow> dotn n w x \<longleftrightarrow> r < n \<and> bit x r"
  by (induction n) (auto simp: less_Suc_eq)

text \<open>A row that only meets \<open>x\<close> in the columns \<open>r\<close> and \<open>c\<close>.\<close>

lemma dotn_pair:
  assumes "r \<noteq> c" and "\<And>j. j < n \<Longrightarrow> bit w j \<and> bit x j \<longleftrightarrow> (j = r \<or> j = c) \<and> B"
  shows "dotn n w x \<longleftrightarrow> B \<and> ((r < n) \<noteq> (c < n))"
  using assms(2) by (induction n) (use assms(1) in \<open>auto simp: less_Suc_eq\<close>)

lemma dotn_none: "(\<And>j. j < n \<Longrightarrow> \<not> (bit w j \<and> bit x j)) \<Longrightarrow> \<not> dotn n w x"
  by (induction n) auto

lemma take_bit_Suc_xor: "take_bit (Suc n) x = take_bit n x XOR (if bit x n then push_bit n 1 else 0 :: u32)"
  by (rule bit_word_eqI) (auto simp: bit_simps less_Suc_eq)

definition linear :: "(u32 \<Rightarrow> u32) \<Rightarrow> bool" where
  "linear f \<longleftrightarrow> (\<forall>x y. f (x XOR y) = f x XOR f y)"

lemma linear_zero: "linear f \<Longrightarrow> f 0 = 0"
  unfolding linear_def by (metis xor_self_eq)

section \<open>The matrix\<close>

lemma bit_collect:
  "bit (foldl (\<lambda>r col. if P col then r OR push_bit col 1 else r) (0 :: u32) [0..<n]) c \<longleftrightarrow> c < n \<and> c < 32 \<and> P c"
  by (induction n) (auto simp: bit_simps less_Suc_eq)

lemma matrix_rows_bit:
  "r < 32 \<Longrightarrow> bit (matrix_rows f ! r) c \<longleftrightarrow> c < 32 \<and> bit (f (push_bit c 1)) r"
  by (simp add: matrix_rows_def and_one_bit bit_collect del: upt_Suc)

lemma matrix_rows_dot:
  assumes "linear f" and "r < 32"
  shows "dot (matrix_rows f ! r) x \<longleftrightarrow> bit (f x) r"
proof -
  have "dotn n (matrix_rows f ! r) x \<longleftrightarrow> bit (f (take_bit n x)) r" if "n \<le> 32" for n
    using that
  proof (induction n)
    case 0
    then show ?case by (simp add: linear_zero [OF assms(1)])
  next
    case (Suc n)
    have "f (take_bit (Suc n) x) = f (take_bit n x) XOR f (if bit x n then push_bit n 1 else 0)"
      unfolding take_bit_Suc_xor using assms(1) unfolding linear_def by blast
    then show ?case using Suc assms(2) by (auto simp: bit_xor_iff matrix_rows_bit linear_zero [OF assms(1)])
  qed
  then show ?thesis by (simp add: take_bit_word_eq_self)
qed

section \<open>Elimination\<close>

text \<open>Row operations do not change which vectors are solutions: \<open>e r\<close> is the error of row \<open>r\<close>.\<close>

lemma row_ops_zero:
  assumes p: "p < 32" "c < 32"
    and sw: "\<And>r. r < 32 \<Longrightarrow> s r = e (if r = p then c else if r = c then p else r)"
    and el: "\<And>r. r < 32 \<Longrightarrow> e' r = (if r \<noteq> c \<and> B r then s r \<noteq> s c else s r)"
  shows "(\<forall>r < 32. \<not> e' r) \<longleftrightarrow> (\<forall>r < (32::nat). \<not> e r)"
proof -
  have "(\<forall>r < 32. \<not> s r) \<longleftrightarrow> (\<forall>r < 32. \<not> e r)"
  proof
    assume *: "\<forall>r < 32. \<not> s r"
    show "\<forall>r < 32. \<not> e r"
    proof (intro allI impI)
      fix r :: nat assume "r < 32"
      then show "\<not> e r" using * p sw [of r] sw [of p] sw [of c] by (cases "r = p"; cases "r = c") auto
    qed
  qed (use sw p in auto)
  moreover have "(\<forall>r < 32. \<not> e' r) \<longleftrightarrow> (\<forall>r < 32. \<not> s r)" using el p(2) by metis
  ultimately show ?thesis by blast
qed

definition err :: "u32 list \<Rightarrow> u8 list \<Rightarrow> u32 \<Rightarrow> nat \<Rightarrow> bool" where
  "err a rhs x r \<longleftrightarrow> dot (a ! r) x \<noteq> (rhs ! r \<noteq> 0)"

definition solves :: "u32 list \<Rightarrow> u8 list \<Rightarrow> u32 \<Rightarrow> bool" where
  "solves a rhs x \<longleftrightarrow> (\<forall>r < 32. \<not> err a rhs x r)"

definition injective :: "u32 list \<Rightarrow> bool" where
  "injective a \<longleftrightarrow> (\<forall>x. (\<forall>r < 32. \<not> dot (a ! r) x) \<longrightarrow> x = 0)"

definition reduced :: "nat \<Rightarrow> u32 list \<Rightarrow> bool" where
  "reduced n a \<longleftrightarrow> (\<forall>j < n. \<forall>r < 32. bit (a ! r) j \<longleftrightarrow> r = j)"

definition binary :: "u8 list \<Rightarrow> bool" where
  "binary rhs \<longleftrightarrow> length rhs = 32 \<and> (\<forall>r < 32. rhs ! r = 0 \<or> rhs ! r = 1)"

lemma nth_swap_rows:
  "i < length xs \<Longrightarrow> j < length xs \<Longrightarrow> r < length xs \<Longrightarrow>
   swap_rows i j xs ! r = xs ! (if r = i then j else if r = j then i else r)"
  by (auto simp: swap_rows_def nth_list_update)

lemma swap_rows_same: "length (swap_rows i j xs) = length xs" "swap_rows i i xs = xs"
  by (simp_all add: swap_rows_def)

text \<open>A matrix with trivial kernel has a pivot in every column.\<close>

lemma pivot_exists:
  assumes red: "reduced c a" and inj: "injective a" and c: "c < 32"
  shows "\<exists>p. c \<le> p \<and> p < 32 \<and> bit (a ! p) c"
proof (rule ccontr)
  assume "\<not> ?thesis"
  then have none: "\<not> bit (a ! p) c" if "c \<le> p" "p < 32" for p using that by blast
  define x :: u32 where "x = foldl (\<lambda>r col. if col = c \<or> col < c \<and> bit (a ! col) c then r OR push_bit col 1 else r) 0 [0..<32]"
  have x: "bit x j \<longleftrightarrow> j < 32 \<and> (j = c \<or> j < c \<and> bit (a ! j) c)" for j
    unfolding x_def bit_collect by auto
  have "\<not> dot (a ! r) x" if r: "r < 32" for r
  proof (cases "r < c")
    case True
    have "bit (a ! r) j \<and> bit x j \<longleftrightarrow> (j = r \<or> j = c) \<and> bit (a ! r) c" if "j < 32" for j
      using that x [of j] red True r c unfolding reduced_def by (cases "j < c") auto
    then have "dot (a ! r) x \<longleftrightarrow> bit (a ! r) c \<and> ((r < 32) \<noteq> (c < 32))"
      using True by (intro dotn_pair) auto
    then show ?thesis using r c by simp
  next
    case False
    show ?thesis
    proof (rule dotn_none)
      fix j :: nat assume "j < 32"
      show "\<not> (bit (a ! r) j \<and> bit x j)"
        using x [of j] red False r none [of r] unfolding reduced_def by auto
    qed
  qed
  then have "x = 0" using inj by (auto simp: injective_def)
  moreover have "bit x c" using x c by simp
  ultimately show False by simp
qed

lemma gauss_step_ok:
  assumes len: "length a = 32" and bin: "binary rhs" and red: "reduced c a" and inj: "injective a" and c: "c < 32"
  shows "\<exists>a' rhs'. gauss_step (a, rhs) c = Inr (a', rhs') \<and> length a' = 32 \<and> binary rhs' \<and> reduced (Suc c) a' \<and>
    injective a' \<and> (\<forall>x. solves a' rhs' x = solves a rhs x)"
proof -
  have "find (\<lambda>pivot. drop_bit c (a ! pivot) AND 1 \<noteq> 0) [c..<32] \<noteq> None"
    using pivot_exists [OF red inj c] by (auto simp: find_None_iff and_one_bit)
  then obtain p where p: "find (\<lambda>pivot. drop_bit c (a ! pivot) AND 1 \<noteq> 0) [c..<32] = Some p" by blast
  then have pp: "c \<le> p" "p < 32" "bit (a ! p) c"
    by (auto simp: find_Some_iff and_one_bit simp del: upt_Suc)
  define sa where "sa = swap_rows p c a"
  define sr where "sr = swap_rows p c rhs"
  let ?el = "\<lambda>r. r \<noteq> c \<and> bit (sa ! r) c"
  define a' where "a' = map (\<lambda>r. if ?el r then sa ! r XOR sa ! c else sa ! r) [0..<32]"
  define rhs' where "rhs' = map (\<lambda>r. if ?el r then sr ! r XOR sr ! c else sr ! r) [0..<32]"
  let ?\<pi> = "\<lambda>r. if r = p then c else if r = c then p else r"
  have sa: "sa ! r = a ! ?\<pi> r" if "r < 32" for r using that len pp c unfolding sa_def by (simp add: nth_swap_rows)
  have sr: "sr ! r = rhs ! ?\<pi> r" if "r < 32" for r
    using that bin pp c unfolding sr_def binary_def by (simp add: nth_swap_rows)
  have a': "a' ! r = (if ?el r then sa ! r XOR sa ! c else sa ! r)" if "r < 32" for r using that by (simp add: a'_def del: upt_Suc)
  have r': "rhs' ! r = (if ?el r then sr ! r XOR sr ! c else sr ! r)" if "r < 32" for r using that by (simp add: rhs'_def del: upt_Suc)
  have step: "gauss_step (a, rhs) c = Inr (a', rhs')"
    using p by (simp add: gauss_step_def Let_def and_one_bit a'_def rhs'_def sa_def sr_def swap_rows_same del: upt_Suc
        cong: if_cong)
  have b01: "sr ! r = 0 \<or> sr ! r = 1" if "r < 32" for r
    using that sr [OF that] bin pp c unfolding binary_def by (auto split: if_splits)
  have "rhs' ! r = 0 \<or> rhs' ! r = 1" if "r < 32" for r using b01 [OF that] b01 [OF c] r' [OF that] by auto
  then have bin': "binary rhs'" unfolding binary_def by (simp add: rhs'_def del: upt_Suc)
  have red': "reduced (Suc c) a'"
    unfolding reduced_def
  proof (intro allI impI)
    fix j r :: nat assume j: "j < Suc c" and r: "r < 32"
    show "bit (a' ! r) j \<longleftrightarrow> r = j"
    proof (cases "j = c")
      case True
      then show ?thesis using a' [OF r] sa [OF c] pp(3) by (auto simp: bit_xor_iff)
    next
      case False
      then have jc: "j < c" using j by simp
      have "bit (sa ! r) j \<longleftrightarrow> r = j" if "r < 32" for r
        using red jc sa [OF that] that pp c unfolding reduced_def by (auto split: if_splits)
      then show ?thesis using a' [OF r] r c jc by (auto simp: bit_xor_iff)
    qed
  qed
  have dot': "dot (a' ! r) x = (if r \<noteq> c \<and> ?el r then dot (sa ! r) x \<noteq> dot (sa ! c) x else dot (sa ! r) x)" if "r < 32" for r x
    using a' [OF that] by (simp add: dotn_xor)
  have kernel: "(\<forall>r < 32. \<not> dot (a' ! r) x) \<longleftrightarrow> (\<forall>r < 32. \<not> dot (a ! r) x)" for x
    by (rule row_ops_zero [OF pp(2) c, where s = "\<lambda>r. dot (sa ! r) x" and B = ?el]) (simp_all add: sa dot')
  have "solves a' rhs' x = solves a rhs x" for x
    unfolding solves_def
  proof (rule row_ops_zero [OF pp(2) c, where s = "err sa sr x" and B = ?el])
    fix r :: nat assume r: "r < 32"
    show "err sa sr x r = err a rhs x (?\<pi> r)" using sa [OF r] sr [OF r] by (simp add: err_def)
    show "err a' rhs' x r = (if r \<noteq> c \<and> ?el r then err sa sr x r \<noteq> err sa sr x c else err sa sr x r)"
      using dot' [OF r] r' [OF r] b01 [OF r] b01 [OF c] by (auto simp: err_def)
  qed
  then show ?thesis using step bin' red' inj kernel
    by (auto simp: injective_def a'_def simp del: upt_Suc)
qed

section \<open>The inverse map\<close>

lemma gauss_run:
  assumes "length a = 32" and "binary rhs" and "injective a" and "n \<le> 32"
  shows "\<exists>a' rhs'. foldE gauss_step (a, rhs) [0..<n] = Inr (a', rhs') \<and> length a' = 32 \<and> binary rhs' \<and>
    reduced n a' \<and> injective a' \<and> (\<forall>x. solves a' rhs' x = solves a rhs x)"
  using assms(4)
proof (induction n)
  case 0
  then show ?case using assms by (auto simp: reduced_def)
next
  case (Suc n)
  then obtain a1 r1 where 1: "foldE gauss_step (a, rhs) [0..<n] = Inr (a1, r1)" "length a1 = 32" "binary r1"
    "reduced n a1" "injective a1" "\<forall>x. solves a1 r1 x = solves a rhs x" by auto
  obtain a2 r2 where "gauss_step (a1, r1) n = Inr (a2, r2)" "length a2 = 32" "binary r2" "reduced (Suc n) a2"
    "injective a2" "\<forall>x. solves a2 r2 x = solves a1 r1 x"
    using gauss_step_ok [OF 1(2-5)] Suc.prems by auto
  then show ?case using 1 by (simp add: foldE_append)
qed

lemma solve_bit_ok:
  assumes lin: "linear f" and inj: "\<And>x. f x = 0 \<Longrightarrow> x = 0" and b: "b < 32"
  shows "\<exists>x. solve_bit (matrix_rows f) b = Inr x \<and> f x = push_bit b 1"
proof -
  let ?m = "matrix_rows f" and ?r = "(replicate 32 0)[b := 1] :: u8 list"
  have m: "length ?m = 32" by (simp add: matrix_rows_def del: upt_Suc)
  have r: "binary ?r" unfolding binary_def using b by (simp add: nth_list_update)
  have i: "injective ?m"
    unfolding injective_def
  proof (intro allI impI)
    fix x assume "\<forall>r < 32. \<not> dot (?m ! r) x"
    then have "f x = 0" by (intro bit_word_eqI) (simp add: matrix_rows_dot [OF lin])
    then show "x = 0" by (rule inj)
  qed
  obtain a rhs where g: "foldE gauss_step (?m, ?r) [0..<32] = Inr (a, rhs)" "reduced 32 a"
    "\<forall>x. solves a rhs x = solves ?m ?r x" using gauss_run [OF m r i, of 32] by auto
  define x :: u32 where "x = foldl (\<lambda>x col. if rhs ! col \<noteq> 0 then x OR push_bit col 1 else x) 0 [0..<32]"
  have x: "bit x c \<longleftrightarrow> c < 32 \<and> rhs ! c \<noteq> 0" for c unfolding x_def bit_collect by auto
  have "dot (a ! r) x \<longleftrightarrow> bit x r" if "r < 32" for r
    using dotn_single [of 32 "a ! r" r x] g(2) that unfolding reduced_def by auto
  then have "solves a rhs x" unfolding solves_def err_def using x by auto
  then have "solves ?m ?r x" using g(3) by simp
  then have "bit (f x) r \<longleftrightarrow> r = b" if "r < 32" for r
    using that b matrix_rows_dot [OF lin that, of x] unfolding solves_def err_def
    by (auto simp: nth_list_update split: if_splits)
  then have "f x = push_bit b 1" using b by (intro bit_word_eqI) (auto simp: bit_simps)
  moreover have "solve_bit ?m b = Inr x" using g(1) by (simp add: solve_bit_def x_def del: upt_Suc)
  ultimately show ?thesis by blast
qed

lemma invMatrix_ok:
  assumes "linear f" and "\<And>x. f x = 0 \<Longrightarrow> x = 0"
  shows "\<exists>m. invMatrix f = Inr m \<and> (\<forall>b < 32. f (m ! b) = push_bit b 1)"
proof -
  have "\<exists>x. solve_bit (matrix_rows f) b = Inr x \<and> f x = push_bit b 1" if "b < 32" for b
    using solve_bit_ok [OF assms that] .
  then obtain g where g: "\<And>b. b < 32 \<Longrightarrow> solve_bit (matrix_rows f) b = Inr (g b) \<and> f (g b) = push_bit b 1" by metis
  then have "invMatrix f = Inr (map g [0..<32])" unfolding invMatrix_def by (intro mapE_all_Inr) simp
  then show ?thesis using g by (auto simp del: upt_Suc)
qed

lemma applyInvSlow_ok:
  assumes lin: "linear f" and m: "\<forall>b < 32. f (m ! b) = push_bit b 1"
  shows "f (applyInvSlow y m) = y"
proof -
  have "f (foldl (\<lambda>x b. if drop_bit b y AND 1 \<noteq> 0 then x XOR m ! b else x) 0 [0..<n]) = take_bit n y" if "n \<le> 32" for n
    using that
  proof (induction n)
    case 0
    then show ?case by (simp add: linear_zero [OF lin])
  next
    case (Suc n)
    then show ?case using lin m unfolding linear_def by (simp add: and_one_bit take_bit_Suc_xor)
  qed
  then show ?thesis by (simp add: applyInvSlow_def take_bit_word_eq_self)
qed

lemma applyInv_ok:
  assumes lin: "linear f" and m: "\<forall>b < 32. f (m ! b) = push_bit b 1"
  shows "f (applyInv y (invTable m)) = y"
proof -
  have "(0xFF :: u32) = mask 8" by (simp add: mask_eq_exp_minus_1)
  then have byte: "z AND 0xFF = take_bit 8 z" for z :: u32 by (simp add: take_bit_eq_mask)
  have lane: "f (invTable m ! l ! unat (drop_bit (8 * l) y AND 0xFF)) = push_bit (8 * l) (take_bit 8 (drop_bit (8 * l) y))"
    if "l < 4" for l
  proof -
    have "drop_bit (8 * l) y AND 0xFF \<le> 0xFF" by (rule word_and_le1)
    then have "unat (drop_bit (8 * l) y AND 0xFF) < 256" by (simp add: word_le_nat_alt)
    then show ?thesis using that by (simp add: byte invTable_def applyInvSlow_ok [OF lin m] del: upt_Suc)
  qed
  have "f (applyInv y (invTable m)) = take_bit 8 y XOR push_bit 8 (take_bit 8 (drop_bit 8 y)) XOR
      push_bit 16 (take_bit 8 (drop_bit 16 y)) XOR push_bit 24 (take_bit 8 (drop_bit 24 y))"
    using lane [of 0] lane [of 1] lane [of 2] lane [of 3] lin by (simp add: applyInv_def linear_def)
  also have "\<dots> = y" by (rule bit_word_eqI) (auto simp: bit_simps)
  finally show ?thesis .
qed

text \<open>\<open>applyInv\<close> with the table of \<open>invMatrix\<close> is the two-sided inverse.\<close>

lemma applyInv_inverse:
  assumes "linear f" and inj: "\<And>x. f x = 0 \<Longrightarrow> x = 0"
  shows "\<exists>m. invMatrix f = Inr m \<and> (\<forall>x. applyInv (f x) (invTable m) = x) \<and> (\<forall>y. f (applyInv y (invTable m)) = y)"
proof -
  obtain m where m: "invMatrix f = Inr m" "\<forall>b < 32. f (m ! b) = push_bit b 1" using invMatrix_ok [OF assms] by blast
  have right: "f (applyInv y (invTable m)) = y" for y by (rule applyInv_ok [OF assms(1) m(2)])
  have "applyInv (f x) (invTable m) = x" for x
  proof -
    have "f (applyInv (f x) (invTable m) XOR x) = 0" using right assms(1) by (simp add: linear_def)
    then have "applyInv (f x) (invTable m) XOR x = 0" by (rule inj)
    then show ?thesis using xor_cancel_right [of "applyInv (f x) (invTable m)" x x] by simp
  qed
  then show ?thesis using m(1) right by blast
qed

section \<open>The two linear maps are injective\<close>

text \<open>A map \<open>x + rot a x + rot b x\<close> squares to the one with doubled rotations; five squarings give the identity.\<close>

definition tri :: "int \<Rightarrow> int \<Rightarrow> u32 \<Rightarrow> u32" where
  "tri a b x = x XOR rot x a XOR rot x b"

lemma tri_tri: "tri a b (tri a b x) = tri (2 * a) (2 * b) x"
proof -
  have "tri a b (tri a b x) = x XOR rot x a XOR rot x b XOR (rot x a XOR rot x (2 * a) XOR rot x (a + b)) XOR
      (rot x b XOR rot x (a + b) XOR rot x (2 * b))"
    by (simp add: tri_def rot_xor rot_rot xor.assoc add.commute)
  then show ?thesis unfolding xor_cancel3 tri_def .
qed

lemma tri_injective:
  assumes "tri a b x = 0"
  shows "x = 0"
proof -
  have z: "tri c d 0 = 0" for c d by (simp add: tri_def rot_def Let_def)
  have "tri (2 * a) (2 * b) x = 0" using tri_tri [of a b x] assms z by simp
  then have "tri (4 * a) (4 * b) x = 0" using tri_tri [of "2 * a" "2 * b" x] z by simp
  then have "tri (8 * a) (8 * b) x = 0" using tri_tri [of "4 * a" "4 * b" x] z by simp
  then have "tri (16 * a) (16 * b) x = 0" using tri_tri [of "8 * a" "8 * b" x] z by simp
  then have "tri (32 * a) (32 * b) x = 0" using tri_tri [of "16 * a" "16 * b" x] z by simp
  then show "x = 0" by (simp add: tri_def rot_full)
qed

lemma sneik_rotr_rot: "0 < n \<Longrightarrow> n < 32 \<Longrightarrow> sneik_rotr x n = rot x (- int n)"
  by (simp add: sneik_rotr_def rot_def zmod_zminus1_eq_if nat_diff_distrib or.commute)

lemma lin_tri: "linA = tri (- 7) (- 8)" "linB = tri (- 15) (- 23)"
  by (rule ext; simp add: linA_def linB_def tri_def sneik_rotr_rot)+

lemma linear_tri: "linear (tri a b)"
  by (simp add: linear_def tri_def rot_xor xor.assoc xor.left_commute xor.commute)

lemma inv_tables:
  "\<exists>m. invMatrix linA = Inr m \<and> (\<forall>x. applyInv (linA x) (invTable m) = x) \<and> (\<forall>y. linA (applyInv y (invTable m)) = y)"
  "\<exists>m. invMatrix linB = Inr m \<and> (\<forall>x. applyInv (linB x) (invTable m) = x) \<and> (\<forall>y. linB (applyInv y (invTable m)) = y)"
  unfolding lin_tri by (rule applyInv_inverse [OF linear_tri]; erule tri_injective)+

section \<open>The rounds on a plain state\<close>

text \<open>The same mixing step on the sixteen lanes, without the registers.\<close>

definition lane_step :: "u32 list \<Rightarrow> nat \<Rightarrow> u32 list" where
  "lane_step v j =
     v[j := linB ((linA (v ! j + v ! ((j + 15) mod 16)) XOR v ! ((j + 14) mod 16)) + v ! ((j + 2) mod 16)) XOR
            v ! ((j + 1) mod 16)]"

definition lane_round :: "u8 \<Rightarrow> u32 list \<Rightarrow> nat \<Rightarrow> u32 list" where
  "lane_round domain v i =
     foldl lane_step (v[0 := v ! 0 XOR ucast (sneik_rc ! i), 1 := v ! 1 XOR ucast domain]) [0..<16]"

text \<open>The registers hold the lanes around the position; lanes 0 and 1 may be pending there.\<close>

definition regs :: "nat \<Rightarrow> u32 list \<Rightarrow> u32 list \<times> u32 list \<Rightarrow> bool" where
  "regs pos v st \<longleftrightarrow> (case st of (sv, w) \<Rightarrow>
     length v = 16 \<and> length sv = 16 \<and> length w = 4 \<and>
     w ! (pos mod 4) = v ! (pos mod 16) \<and> w ! ((pos + 1) mod 4) = v ! ((pos + 1) mod 16) \<and>
     w ! ((pos + 2) mod 4) = v ! ((pos + 14) mod 16) \<and> w ! ((pos + 3) mod 4) = v ! ((pos + 15) mod 16) \<and>
     (\<forall>i < 16. \<not> (pos \<le> i \<and> i < 2) \<longrightarrow> sv ! i = v ! i))"

lemma mod_add_neq:
  assumes "0 < k" and "k < m"
  shows "(p + k) mod m \<noteq> p mod (m :: nat)"
proof
  assume "(p + k) mod m = p mod m"
  then have "m dvd k" using mod_eq_dvd_iff_nat [of p "p + k" m] by simp
  then show False using assms nat_dvd_not_less by blast
qed

lemma mod_add_neq_self: "0 < k \<Longrightarrow> k < m \<Longrightarrow> p < m \<Longrightarrow> (p + k) mod m \<noteq> (p :: nat)"
  using mod_add_neq [of k m p] by simp

lemma mod4_distinct: "(p + 2) mod 4 \<noteq> p mod 4" "(p + 1) mod 4 \<noteq> p mod 4" "(p + 3) mod 4 \<noteq> p mod (4 :: nat)"
  "(p + 1) mod 4 \<noteq> (p + 2) mod 4" "(p + 3) mod 4 \<noteq> (p + 2) mod (4 :: nat)"
proof -
  show "(p + 2) mod 4 \<noteq> p mod 4" "(p + 1) mod 4 \<noteq> p mod 4" "(p + 3) mod 4 \<noteq> p mod 4" by (rule mod_add_neq; simp)+
  have "p + 1 + 1 = p + 2" "p + 2 + 1 = p + 3" by simp_all
  then show "(p + 1) mod 4 \<noteq> (p + 2) mod 4" "(p + 3) mod 4 \<noteq> (p + 2) mod 4"
    using mod_add_neq [of 1 4 "p + 1"] mod_add_neq [of 1 4 "p + 2"] by (simp_all only: not_sym simp_thms)
qed

lemma mod16_distinct: "p < 16 \<Longrightarrow> (p + 1) mod 16 \<noteq> p" "p < 16 \<Longrightarrow> (p + 2) mod 16 \<noteq> p"
  "p < 16 \<Longrightarrow> (p + 14) mod 16 \<noteq> p" "p < 16 \<Longrightarrow> (p + 15) mod 16 \<noteq> (p :: nat)"
  by (rule mod_add_neq_self; simp)+

lemma MIX_F_regs:
  assumes r: "regs pos v st" and pos: "pos < 16"
  shows "regs (Suc pos) (lane_step v pos) (MIX_F st pos)"
proof -
  obtain sv w where st: "st = (sv, w)" by fastforce
  have l: "length v = 16" "length sv = 16" "length w = 4"
    and w: "w ! (pos mod 4) = v ! pos" "w ! ((pos + 1) mod 4) = v ! ((pos + 1) mod 16)"
      "w ! ((pos + 2) mod 4) = v ! ((pos + 14) mod 16)" "w ! ((pos + 3) mod 4) = v ! ((pos + 15) mod 16)"
    and sv: "\<forall>i < 16. \<not> (pos \<le> i \<and> i < 2) \<longrightarrow> sv ! i = v ! i"
    using r pos by (simp_all add: regs_def st)
  define x where "x = linB ((linA (v ! pos + v ! ((pos + 15) mod 16)) XOR v ! ((pos + 14) mod 16)) + v ! ((pos + 2) mod 16)) XOR
            v ! ((pos + 1) mod 16)"
  have "\<not> (pos \<le> (pos + 2) mod 16 \<and> (pos + 2) mod 16 < 2)" using pos by presburger
  then have two: "sv ! ((pos + 2) mod 16) = v ! ((pos + 2) mod 16)" using sv by simp
  have m: "MIX_F st pos = (sv[pos := x], w[pos mod 4 := x, (pos + 2) mod 4 := v ! ((pos + 2) mod 16)])"
    unfolding MIX_F_def st prod.case Let_def w two x_def by (rule refl)
  have ls: "lane_step v pos = v[pos := x]" by (simp add: lane_step_def x_def)
  have idx: "Suc pos mod 4 = (pos + 1) mod 4" "(Suc pos + 1) mod 4 = (pos + 2) mod 4" "(Suc pos + 2) mod 4 = (pos + 3) mod 4"
    "(Suc pos + 3) mod 4 = pos mod 4" "Suc pos mod 16 = (pos + 1) mod 16" "(Suc pos + 1) mod 16 = (pos + 2) mod 16"
    "(Suc pos + 14) mod 16 = (pos + 15) mod 16" "(Suc pos + 15) mod 16 = pos mod 16"
    using mod_add_self2 [of pos 4] mod_add_self2 [of pos 16] by (simp_all add: add.commute)
  have lt: "pos mod 4 < 4" "(pos + 1) mod 4 < 4" "(pos + 2) mod 4 < 4" "(pos + 3) mod 4 < 4" by simp_all
  have lt16: "(pos + 1) mod 16 < 16" "(pos + 2) mod 16 < 16" "(pos + 15) mod 16 < 16" by simp_all
  have pm: "pos mod 16 = pos" using pos by simp
  note d4 = mod4_distinct [of pos] and d16 = mod16_distinct [OF pos]
  let ?w = "w[pos mod 4 := x, (pos + 2) mod 4 := v ! ((pos + 2) mod 16)]" and ?v = "v[pos := x]"
  have "?w ! ((pos + 1) mod 4) = ?v ! ((pos + 1) mod 16)"
    by (simp only: w nth_list_update_neq [OF d4(4) [symmetric]] nth_list_update_neq [OF d4(2) [symmetric]]
        nth_list_update_neq [OF d16(1) [symmetric]])
  moreover have "?w ! ((pos + 2) mod 4) = ?v ! ((pos + 2) mod 16)"
    using l lt by (simp only: nth_list_update_eq length_list_update nth_list_update_neq [OF d16(2) [symmetric]])
  moreover have "?w ! ((pos + 3) mod 4) = ?v ! ((pos + 15) mod 16)"
    by (simp only: w nth_list_update_neq [OF d4(5) [symmetric]] nth_list_update_neq [OF d4(3) [symmetric]]
        nth_list_update_neq [OF d16(4) [symmetric]])
  moreover have "?w ! (pos mod 4) = ?v ! pos"
    using l lt pos by (simp only: nth_list_update_eq nth_list_update_neq [OF d4(1)])
  moreover have "sv[pos := x] ! i = ?v ! i" if "i < 16" "\<not> (Suc pos \<le> i \<and> i < 2)" for i
    using that sv l by (cases "i = pos") auto
  ultimately show ?thesis unfolding regs_def m ls prod.case idx pm using l by simp
qed

lemma mix_rounds:
  assumes "regs 0 v st" and "n \<le> 16"
  shows "regs n (foldl lane_step v [0..<n]) (foldl MIX_F st [0..<n])"
  using assms(2) by (induction n) (simp_all add: assms(1) MIX_F_regs)

lemma regs_wrap:
  assumes "regs 16 v st"
  shows "fst st = v" and "regs 0 (v[0 := v ! 0 XOR a, 1 := v ! 1 XOR b])
    (fst st, (snd st)[0 := snd st ! 0 XOR a, 1 := snd st ! 1 XOR b])"
proof -
  obtain sv w where st: "st = (sv, w)" by fastforce
  have l: "length v = 16" "length sv = 16" "length w = 4"
    and w: "w ! 0 = v ! 0" "w ! 1 = v ! 1" "w ! 2 = v ! 14" "w ! 3 = v ! 15" and sv: "\<forall>i < 16. sv ! i = v ! i"
    using assms by (simp_all add: regs_def st)
  show "fst st = v" using l sv by (simp add: st nth_equalityI)
  show "regs 0 (v[0 := v ! 0 XOR a, 1 := v ! 1 XOR b]) (fst st, (snd st)[0 := snd st ! 0 XOR a, 1 := snd st ! 1 XOR b])"
    using l w w(3) [unfolded numeral_2_eq_2] sv unfolding regs_def st by (simp add: nth_list_update)
qed

lemma sneik_rounds_lanes:
  assumes "length v = 16"
  shows "fst (foldl (sneik_round domain) (v, [v ! 0, v ! 1, v ! 14, v ! 15]) is) = foldl (lane_round domain) v is"
proof -
  have "regs 16 v (v, w) \<Longrightarrow> regs 16 (foldl (lane_round domain) v is) (foldl (sneik_round domain) (v, w) is)" for v w
  proof (induction "is" rule: rev_induct)
    case (snoc i "is")
    define st where "st = foldl (sneik_round domain) (v, w) is"
    define u where "u = foldl (lane_round domain) v is"
    have r: "regs 16 u st" using snoc by (simp add: st_def u_def)
    have "regs 16 (lane_round domain u i) (sneik_round domain st i)"
      unfolding lane_round_def sneik_round_def split_beta
      by (rule mix_rounds [OF regs_wrap(2) [OF r] order_refl])
    then have "regs 16 (foldl (lane_round domain) v (is @ [i])) (foldl (sneik_round domain) (v, w) (is @ [i]))"
      by (simp add: st_def u_def)
    then show ?case .
  qed simp
  moreover have "regs 16 v (v, [v ! 0, v ! 1, v ! 14, v ! 15])" using assms by (simp add: regs_def)
  ultimately show ?thesis using regs_wrap(1) by blast
qed

section \<open>Undoing the rounds\<close>

lemma inv_step_lane_step:
  assumes A: "\<And>x. applyInv (linA x) invA = x" and B: "\<And>x. applyInv (linB x) invB = x"
    and l: "length v = 16" and j: "j < 16"
  shows "sneik_inv_step invA invB (lane_step v j) j = v"
proof -
  have o: "lane_step v j ! k = v ! k" if "k \<noteq> j" for k using that by (simp add: lane_step_def)
  note ne = mod16_distinct [OF j]
  have e: "lane_step v j ! j = linB ((linA (v ! j + v ! ((j + 15) mod 16)) XOR v ! ((j + 14) mod 16)) + v ! ((j + 2) mod 16)) XOR
            v ! ((j + 1) mod 16)" using l j by (simp add: lane_step_def)
  have "sneik_inv_step invA invB (lane_step v j) j = (lane_step v j)[j := v ! j]"
    unfolding sneik_inv_step_def Let_def o [OF ne(1)] o [OF ne(2)] o [OF ne(3)] o [OF ne(4)] e
    by (simp only: xor.assoc xor_self_eq xor.right_neutral A B add_diff_cancel_right')
  then show ?thesis by (simp add: lane_step_def)
qed

lemma length_lane_step [simp]: "length (lane_step v j) = length v" "length (lane_round domain v i) = length v"
proof -
  show "length (lane_step v j) = length v" for v j by (simp add: lane_step_def)
  then have "length (foldl lane_step v is) = length v" for v "is" by (induction "is" arbitrary: v) simp_all
  then show "length (lane_round domain v i) = length v" by (simp add: lane_round_def del: upt_Suc)
qed

lemma inv_round_lane_round:
  assumes A: "\<And>x. applyInv (linA x) invA = x" and B: "\<And>x. applyInv (linB x) invB = x" and l: "length v = 16"
  shows "sneik_inv_round invA invB domain (lane_round domain v i) i = v"
proof -
  have "length (foldl lane_step u [0..<n]) = 16 \<and> foldl (sneik_inv_step invA invB) (foldl lane_step u [0..<n]) (rev [0..<n]) = u"
    if "length u = 16" "n \<le> 16" for u n
    using that(2) by (induction n) (simp_all add: that(1) inv_step_lane_step [OF A B])
  then have s: "foldl (sneik_inv_step invA invB) (foldl lane_step u [0..<16]) (rev [0..<16]) = u" if "length u = 16" for u
    using that by blast
  let ?u = "v[0 := v ! 0 XOR ucast (sneik_rc ! i), 1 := v ! 1 XOR ucast domain]"
  have "?u[1 := ?u ! 1 XOR ucast domain, 0 := ?u ! 0 XOR ucast (sneik_rc ! i)] = v"
    using l by (intro nth_equalityI) (auto simp: nth_list_update xor.assoc)
  then show ?thesis using s [of ?u] l by (simp add: sneik_inv_round_def lane_round_def Let_def del: upt_Suc)
qed

section \<open>Bytes\<close>

lemma load32_store32: "load32 (store32 x) = x"
proof (rule bit_word_eqI)
  fix n assume "n < LENGTH(32)"
  then show "bit (load32 (store32 x)) n = bit x n"
    by (cases "n < 8"; cases "n < 16"; cases "n < 24") (auto simp: load32_def store32_def bit_simps)
qed

lemma store32_load32:
  assumes "length p = 4"
  shows "store32 (load32 p) = p"
proof -
  obtain a b c d where "p = [a, b, c, d]" using assms by (auto simp: eval_nat_numeral length_Suc_conv)
  moreover have "ucast (ucast a OR push_bit 8 (ucast b) OR push_bit 16 (ucast c) OR push_bit 24 (ucast d) :: u32) = a"
    "ucast (drop_bit 8 (ucast a OR push_bit 8 (ucast b) OR push_bit 16 (ucast c) OR push_bit 24 (ucast d) :: u32)) = b"
    "ucast (drop_bit 16 (ucast a OR push_bit 8 (ucast b) OR push_bit 16 (ucast c) OR push_bit 24 (ucast d) :: u32)) = c"
    "ucast (drop_bit 24 (ucast a OR push_bit 8 (ucast b) OR push_bit 16 (ucast c) OR push_bit 24 (ucast d) :: u32)) = d"
    by (rule bit_word_eqI; auto simp: bit_simps dest: bit_imp_le_length)+
  ultimately show ?thesis by (simp add: load32_def store32_def numeral_2_eq_2 numeral_3_eq_3)
qed

lemma length_store32 [simp]: "length (store32 x) = 4"
  by (simp add: store32_def)

lemma length_sneik_store [simp]: "length (sneik_store v) = 4 * length v"
  by (induction v) (simp_all add: sneik_store_def)

lemma sneik_load_store: "length v = 16 \<Longrightarrow> sneik_load (sneik_store v) = v"
proof (rule nth_equalityI)
  fix i assume len: "length v = 16" and "i < length (sneik_load (sneik_store v))"
  then have i: "i < length v" by (simp add: sneik_load_def)
  have "slice (i * 4) 4 (concat (map store32 v)) = map store32 v ! i" using i by (intro slice_concat) auto
  then show "sneik_load (sneik_store v) ! i = v ! i"
    using i len by (simp add: sneik_load_def sneik_store_def mult.commute load32_store32 del: upt_Suc)
qed (simp add: sneik_load_def)

lemma sneik_store_load:
  assumes "length data = 64"
  shows "sneik_store (sneik_load data) = data"
proof -
  have "sneik_store (map (\<lambda>i. load32 (slice (4 * i) 4 data)) [0..<k]) = take (4 * k) data" if "k \<le> 16" for k
    using that
  proof (induction k)
    case (Suc k)
    have "store32 (load32 (slice (4 * k) 4 data)) = slice (4 * k) 4 data"
      using Suc.prems assms by (intro store32_load32 length_slice) simp
    then show ?case using Suc take_add [of "4 * k" 4 data]
      by (simp add: sneik_store_def slice_def add.commute)
  qed (simp add: sneik_store_def)
  then show ?thesis using assms by (simp add: sneik_load_def)
qed

section \<open>The permutation\<close>

lemma sneik_invert_f512:
  assumes len: "length x = 64"
  shows "length (sneik_f512 x domain rounds) = 64 \<and> sneik_invert (sneik_f512 x domain rounds) domain rounds = Inr x"
proof -
  obtain mA mB where m: "invMatrix linA = Inr mA" "\<And>x. applyInv (linA x) (invTable mA) = x"
    "invMatrix linB = Inr mB" "\<And>x. applyInv (linB x) (invTable mB) = x" using inv_tables by metis
  let ?v = "sneik_load x"
  have l: "length ?v = 16" by (simp add: sneik_load_def)
  have f: "sneik_f512 x domain rounds = sneik_store (foldl (lane_round domain) ?v [0..<rounds])"
    unfolding sneik_f512_def Let_def sneik_rounds_lanes [OF l] by (rule refl)
  have r: "length (foldl (lane_round domain) ?v is) = 16 \<and>
      foldl (sneik_inv_round (invTable mA) (invTable mB) domain) (foldl (lane_round domain) ?v is) (rev is) = ?v" for "is"
    by (induction "is" rule: rev_induct) (simp_all add: l inv_round_lane_round [OF m(2,4)])
  show ?thesis using r [of "[0..<rounds]"] len unfolding f
    by (simp add: sneik_invert_def m Let_def sneik_load_store sneik_store_load)
qed

lemma sneik_f512_invert:
  assumes len: "length y = 64"
  shows "\<exists>x. sneik_invert y domain rounds = Inr x \<and> length x = 64 \<and> sneik_f512 x domain rounds = y"
proof -
  have "length (projr (sneik_invert y domain rounds)) = 64 \<and> sneik_f512 (projr (sneik_invert y domain rounds)) domain rounds = y"
    using sneik_invert_f512 [of _ domain rounds]
    by (intro left_inverse_is_right [of 64 "\<lambda>x. sneik_f512 x domain rounds", OF _ _ len]) simp_all
  moreover have "\<exists>x. sneik_invert y domain rounds = Inr x" using inv_tables by (auto simp: sneik_invert_def Let_def)
  ultimately show ?thesis by auto
qed

end
