(* ===== verification/Perm_Small.thy ===== *)
theory Perm_Small
  imports Perm_ConsCorrect Perm_SneikCorrect
begin

text \<open>
  The small permutations \<open>frontend/permutation/small.h\<close> offers to \<open>ConsPi\<close>: the names, the Keccak
  and SNEIK adapters and the factory. KeccakTools' \<open>KeccakF\<close> and \<open>KeccakP\<close> are the two operations
  of \<open>keccak_native\<close>, given the width and the number of rounds of the instance.
\<close>

section \<open>Names\<close>

fun small_name :: "SmallKind \<Rightarrow> string" where
  "small_name Keccak800 = ''keccak800''"
| "small_name Keccak1600 = ''keccak1600''"
| "small_name Keccak1600R12 = ''keccak1600-12''"
| "small_name SneikF512 = ''sneik-f512''"

definition parseKind :: "string \<Rightarrow> SmallKind result" where
  "parseKind text =
     (if text = ''keccak800'' \<or> text = ''k800'' then Inr Keccak800
      else if text = ''keccak1600'' \<or> text = ''k1600'' then Inr Keccak1600
      else if text = ''keccak1600-12'' \<or> text = ''keccak-p1600-12'' \<or> text = ''k1600-12'' \<or> text = ''k1600r12''
        then Inr Keccak1600R12
      else if text = ''sneik'' \<or> text = ''sneik512'' \<or> text = ''sneik-f512'' \<or> text = ''f512'' then Inr SneikF512
      else Inl (InvalidArgument (''unknown pi permutation: '' @ text)))"

section \<open>The Keccak adapter\<close>

record keccak_native =
  kn_apply :: "nat \<Rightarrow> nat \<Rightarrow> u8 list \<Rightarrow> u8 list"
  kn_inverse :: "nat \<Rightarrow> nat \<Rightarrow> u8 list \<Rightarrow> u8 list"

record Keccak =
  kc_width :: nat
  kc_rounds :: nat

definition nominalRounds :: "nat \<Rightarrow> nat result" where
  "nominalRounds width =
     (if width = 800 then Inr 22 else if width = 1600 then Inr 24
      else Inl (InvalidArgument ''unknown Keccak width''))"

definition Keccak_new :: "nat \<Rightarrow> nat \<Rightarrow> Keccak result" where
  "Keccak_new widthBits rounds =
     bindE (if rounds = 0 then nominalRounds widthBits else Inr rounds) (\<lambda>r.
     guardE (widthBits \<noteq> 800 \<and> widthBits \<noteq> 1600)
       (InvalidArgument ''Keccak adapter supports 800 or 1600 bits'')
     (if r = 0 then Inl (InvalidArgument ''Keccak round count is invalid'')
      else bindE (nominalRounds widthBits) (\<lambda>nominal.
        guardE (r > nominal) (InvalidArgument ''Keccak round count is invalid'')
          (Inr \<lparr> kc_width = widthBits, kc_rounds = r \<rparr>))))"

definition Keccak_kind :: "Keccak \<Rightarrow> SmallKind" where
  "Keccak_kind k =
     (if kc_width k = 1600 \<and> kc_rounds k = 12 then Keccak1600R12
      else if kc_width k = 800 then Keccak800 else Keccak1600)"

text \<open>The instance: 22 and 24 rounds for the two full permutations, 12 for the reduced one.\<close>

definition Keccak_inst :: "Keccak \<Rightarrow> nat \<times> nat" where
  "Keccak_inst k =
     (if kc_width k = 800 then (800, 22) else if kc_rounds k = 12 then (1600, 12) else (1600, 24))"

definition Keccak_check :: "Keccak \<Rightarrow> u8 list \<Rightarrow> 'a result \<Rightarrow> 'a result" where
  "Keccak_check k buf c =
     guardE (length buf \<noteq> kc_width k div 8) (InvalidArgument ''Keccak buffer size mismatch'') c"

definition Keccak_apply :: "keccak_native \<Rightarrow> Keccak \<Rightarrow> u8 list \<Rightarrow> u8 list result" where
  "Keccak_apply kn k buf =
     Keccak_check k buf (Inr (kn_apply kn (fst (Keccak_inst k)) (snd (Keccak_inst k)) buf))"

definition Keccak_invert :: "keccak_native \<Rightarrow> Keccak \<Rightarrow> u8 list \<Rightarrow> u8 list result" where
  "Keccak_invert kn k buf =
     Keccak_check k buf (Inr (kn_inverse kn (fst (Keccak_inst k)) (snd (Keccak_inst k)) buf))"

definition Keccak_perm :: "keccak_native \<Rightarrow> nat \<Rightarrow> nat \<Rightarrow> SmallPerm result" where
  "Keccak_perm kn widthBits rounds =
     bindE (Keccak_new widthBits rounds) (\<lambda>k.
       Inr \<lparr> sp_kind = Keccak_kind k, sp_bits = kc_width k, sp_rounds = kc_rounds k,
             sp_apply = Keccak_apply kn k, sp_invert = Keccak_invert kn k \<rparr>)"

section \<open>The SNEIK adapter\<close>

definition WidthBits :: nat where "WidthBits = 512"
definition WidthBytes :: nat where "WidthBytes = WidthBits div 8"
definition sneik_Domain :: u8 where "sneik_Domain = 0"
definition sneik_Rounds :: nat where "sneik_Rounds = 8"

definition Sneik_check :: "u8 list \<Rightarrow> 'a result \<Rightarrow> 'a result" where
  "Sneik_check buf c = guardE (length buf \<noteq> WidthBytes) (InvalidArgument ''SNEIK-f512 buffer size mismatch'') c"

definition Sneik_apply :: "u8 list \<Rightarrow> u8 list result" where
  "Sneik_apply buf = Sneik_check buf (Inr (sneik_f512 buf sneik_Domain sneik_Rounds))"

definition Sneik_invert :: "u8 list \<Rightarrow> u8 list result" where
  "Sneik_invert buf = Sneik_check buf (sneik_invert buf sneik_Domain sneik_Rounds)"

definition Sneik_perm :: SmallPerm where
  "Sneik_perm = \<lparr> sp_kind = SneikF512, sp_bits = WidthBits, sp_rounds = sneik_Rounds,
     sp_apply = Sneik_apply, sp_invert = Sneik_invert \<rparr>"

section \<open>The factory\<close>

fun makePerm :: "keccak_native \<Rightarrow> SmallKind \<Rightarrow> SmallPerm result" where
  "makePerm kn Keccak800 = Keccak_perm kn 800 0"
| "makePerm kn Keccak1600 = Keccak_perm kn 1600 0"
| "makePerm kn Keccak1600R12 = Keccak_perm kn 1600 12"
| "makePerm kn SneikF512 = Inr Sneik_perm"

section \<open>Every small permutation is a permutation of its width\<close>

text \<open>What KeccakTools provides: mutually inverse maps on the states of each instance.\<close>

definition keccak_ok :: "keccak_native \<Rightarrow> bool" where
  "keccak_ok kn \<longleftrightarrow> (\<forall>w r x. length x = w div 8 \<longrightarrow>
     length (kn_apply kn w r x) = w div 8 \<and> kn_inverse kn w r (kn_apply kn w r x) = x \<and>
     length (kn_inverse kn w r x) = w div 8 \<and> kn_apply kn w r (kn_inverse kn w r x) = x)"

lemma sneik_small_ok: "small_ok Sneik_perm"
proof -
  have w: "sp_bytes Sneik_perm = 64" "WidthBytes = 64" by (simp_all add: sp_bytes_def Sneik_perm_def WidthBytes_def WidthBits_def)
  have a: "sp_apply Sneik_perm x = Inr (sneik_f512 x sneik_Domain sneik_Rounds)" if "length x = 64" for x
    using that by (simp add: Sneik_perm_def Sneik_apply_def Sneik_check_def w)
  have i: "sp_invert Sneik_perm x = sneik_invert x sneik_Domain sneik_Rounds" if "length x = 64" for x
    using that by (simp add: Sneik_perm_def Sneik_invert_def Sneik_check_def w)
  show ?thesis
    unfolding small_ok_def w
  proof (intro conjI allI impI)
    fix x :: "u8 list" assume "length x = 64"
    then show "\<exists>y. sp_apply Sneik_perm x = Inr y \<and> length y = 64 \<and> sp_invert Sneik_perm y = Inr x"
      using sneik_invert_f512 [of x sneik_Domain sneik_Rounds] by (simp add: a i)
  next
    fix y :: "u8 list" assume "length y = 64"
    then show "\<exists>x. sp_invert Sneik_perm y = Inr x \<and> length x = 64 \<and> sp_apply Sneik_perm x = Inr y"
      using sneik_f512_invert [of y sneik_Domain sneik_Rounds] by (auto simp: a i)
  qed
qed

lemma Keccak_new_width: "Keccak_new w r = Inr k \<Longrightarrow> kc_width k = w \<and> (w = 800 \<or> w = 1600)"
  by (auto simp: Keccak_new_def result_simps split: if_splits)

lemma keccak_small_ok:
  assumes "keccak_ok kn" and "Keccak_perm kn w r = Inr sp"
  shows "small_ok sp" and "sp_bits sp = w"
proof -
  obtain k where k: "Keccak_new w r = Inr k" and sp: "sp = \<lparr> sp_kind = Keccak_kind k, sp_bits = kc_width k, sp_rounds = kc_rounds k,
             sp_apply = Keccak_apply kn k, sp_invert = Keccak_invert kn k \<rparr>"
    using assms(2) by (auto simp: Keccak_perm_def result_simps)
  have w: "kc_width k = w" "w = 800 \<or> w = 1600" using Keccak_new_width [OF k] by auto
  then have "fst (Keccak_inst k) = w" by (auto simp: Keccak_inst_def)
  then show "small_ok sp"
    using assms(1) w by (simp add: small_ok_def sp sp_bytes_def Keccak_apply_def Keccak_invert_def Keccak_check_def keccak_ok_def)
  show "sp_bits sp = w" using w by (simp add: sp)
qed

lemma makePerm_total: "\<exists>sp. makePerm kn kind = Inr sp"
  by (cases kind) (simp_all add: Keccak_perm_def Keccak_new_def nominalRounds_def)

lemma makePerm_ok:
  assumes "keccak_ok kn" and "makePerm kn kind = Inr sp"
  shows "small_ok sp" and "sp_bits sp = widthOf kind"
  using assms keccak_small_ok [OF assms(1)] sneik_small_ok
  by (cases kind; auto simp: Sneik_perm_def WidthBits_def)+

text \<open>The rounds and the kind an adapter reports are those it was made for.\<close>

lemma makePerm_kind: "makePerm kn kind = Inr sp \<Longrightarrow> sp_kind sp = kind"
  by (cases kind) (auto simp: Keccak_perm_def Keccak_new_def nominalRounds_def Keccak_kind_def Sneik_perm_def)

lemma parseKind_name: "parseKind (small_name kind) = Inr kind"
  by (cases kind) (simp_all add: parseKind_def)

end
