(* ===== verification/Perm_Feistel.thy ===== *)
theory Perm_Feistel
  imports Perm_Api
begin

text \<open>
  The SHAKE256 Feistel network \<open>frontend/permutation/feistel.h\<close>. The extendable output
  function \<open>crypto_hash_shake256\<close> is the field \<open>fs_shake\<close>; \<open>None\<close> is a nonzero return code.
\<close>

record Feistel =
  fs_shake :: "nat \<Rightarrow> u8 list \<Rightarrow> u8 list option"
  fs_rounds :: nat
  fs_party :: u8

definition FeistelBytes :: nat where "FeistelBytes = KEM_key_size_bit div 8"
definition HalfBytes :: nat where "HalfBytes = FeistelBytes div 2"
definition DefaultRounds :: nat where "DefaultRounds = 8"

definition Feistel_new :: "(nat \<Rightarrow> u8 list \<Rightarrow> u8 list option) \<Rightarrow> nat \<Rightarrow> u8 \<Rightarrow> Feistel result" where
  "Feistel_new shake rounds party =
     guardE (rounds = 0) (InvalidArgument ''feistel needs at least one round'')
       (Inr \<lparr> fs_shake = shake, fs_rounds = rounds, fs_party = party AND 1 \<rparr>)"

definition feistel_check :: "nat \<Rightarrow> 'a result \<Rightarrow> 'a result" where
  "feistel_check bytes k =
     guardE (bytes \<noteq> FeistelBytes) (InvalidArgument ''feistel expects one full PQ row'') k"

definition xorInto :: "u8 list \<Rightarrow> u8 list \<Rightarrow> u8 list" where
  "xorInto inp out = map (\<lambda>i. out ! i XOR inp ! i) [0..<HalfBytes]"

definition feistel_store64 :: "u64 \<Rightarrow> u8 list" where
  "feistel_store64 x = map (\<lambda>i. ucast (drop_bit (8 * i) x)) [0..<8]"

definition roundMask :: "Feistel \<Rightarrow> u8 list \<Rightarrow> nat \<Rightarrow> u8 list result" where
  "roundMask fs cur r =
     (let inp = [0x50, 0x51, 0x46, 0x53, 0x54, 0x4C, 0x31, 0] @ [fs_party fs] @
                feistel_store64 (word_of_nat r) @ cur
      in case fs_shake fs HalfBytes inp of
           None \<Rightarrow> Inl (RuntimeError ''SHAKE256 failed'')
         | Some out \<Rightarrow> Inr out)"

text \<open>One round, and the loops over the round numbers; the state is the two halves.\<close>

definition feistel_enc_round :: "Feistel \<Rightarrow> u8 list \<times> u8 list \<Rightarrow> nat \<Rightarrow> (u8 list \<times> u8 list) result" where
  "feistel_enc_round fs st r =
     (case st of (prev, cur) \<Rightarrow>
        bindE (roundMask fs cur r) (\<lambda>nxt. Inr (cur, xorInto prev nxt)))"

definition feistel_dec_round :: "Feistel \<Rightarrow> u8 list \<times> u8 list \<Rightarrow> nat \<Rightarrow> (u8 list \<times> u8 list) result" where
  "feistel_dec_round fs st r =
     (case st of (cur, nxt) \<Rightarrow>
        bindE (roundMask fs cur r) (\<lambda>prev. Inr (xorInto nxt prev, cur)))"

definition Feistel_encryptBytes :: "Feistel \<Rightarrow> u8 list \<Rightarrow> u8 list result" where
  "Feistel_encryptBytes fs data =
     feistel_check (length data)
       (bindE (foldE (feistel_enc_round fs) (take HalfBytes data, drop HalfBytes data) [0..<fs_rounds fs])
          (\<lambda>(prev, cur). Inr (prev @ cur)))"

definition Feistel_decryptBytes :: "Feistel \<Rightarrow> u8 list \<Rightarrow> u8 list result" where
  "Feistel_decryptBytes fs data =
     feistel_check (length data)
       (bindE (foldE (feistel_dec_round fs) (take HalfBytes data, drop HalfBytes data) (rev [0..<fs_rounds fs]))
          (\<lambda>(cur, nxt). Inr (cur @ nxt)))"

section \<open>Decryption undoes encryption\<close>

definition shake_ok :: "Feistel \<Rightarrow> bool" where
  "shake_ok fs \<longleftrightarrow> (\<forall>n m. \<exists>out. fs_shake fs n m = Some out \<and> length out = n)"

definition halves :: "u8 list \<times> u8 list \<Rightarrow> bool" where
  "halves st \<longleftrightarrow> length (fst st) = HalfBytes \<and> length (snd st) = HalfBytes"

lemma HalfBytes_eq: "HalfBytes = 400" "FeistelBytes = 800"
  by (simp_all add: HalfBytes_def FeistelBytes_def row_consts)

lemma roundMask_ok:
  assumes "shake_ok fs"
  shows "\<exists>m. roundMask fs cur r = Inr m \<and> length m = HalfBytes"
proof -
  obtain out where "fs_shake fs HalfBytes ([0x50, 0x51, 0x46, 0x53, 0x54, 0x4C, 0x31, 0] @ [fs_party fs] @
                feistel_store64 (word_of_nat r) @ cur) = Some out" "length out = HalfBytes"
    using assms unfolding shake_ok_def by blast
  then show ?thesis unfolding roundMask_def Let_def by simp
qed

lemma xorInto_xorInto:
  "length prev = HalfBytes \<Longrightarrow> length m = HalfBytes \<Longrightarrow> xorInto (xorInto prev m) m = prev"
  by (rule nth_equalityI) (simp_all add: xorInto_def flip: xor.assoc)

lemma feistel_rounds:
  assumes "shake_ok fs" and "halves st"
  shows "\<exists>st'. feistel_enc_round fs st r = Inr st' \<and> halves st' \<and> feistel_dec_round fs st' r = Inr st"
    and "\<exists>st'. feistel_dec_round fs st r = Inr st' \<and> halves st' \<and> feistel_enc_round fs st' r = Inr st"
proof -
  obtain a b where st: "st = (a, b)" and l: "length a = HalfBytes" "length b = HalfBytes"
    using assms(2) by (cases st) (auto simp: halves_def)
  obtain mb where mb: "roundMask fs b r = Inr mb" "length mb = HalfBytes" using roundMask_ok [OF assms(1)] by blast
  obtain ma where ma: "roundMask fs a r = Inr ma" "length ma = HalfBytes" using roundMask_ok [OF assms(1)] by blast
  show "\<exists>st'. feistel_enc_round fs st r = Inr st' \<and> halves st' \<and> feistel_dec_round fs st' r = Inr st"
    using mb l by (simp add: st feistel_enc_round_def feistel_dec_round_def halves_def xorInto_xorInto)
      (simp add: xorInto_def)
  show "\<exists>st'. feistel_dec_round fs st r = Inr st' \<and> halves st' \<and> feistel_enc_round fs st' r = Inr st"
    using ma l by (simp add: st feistel_enc_round_def feistel_dec_round_def halves_def xorInto_xorInto)
      (simp add: xorInto_def)
qed

interpretation feistel: byte_perm Feistel_encryptBytes Feistel_decryptBytes "\<lambda>_. FeistelBytes" shake_ok
proof
  fix fs :: Feistel and x :: "u8 list"
  assume ok: "shake_ok fs" and len: "length x = FeistelBytes"
  then have h: "halves (take HalfBytes x, drop HalfBytes x)" by (simp add: halves_def HalfBytes_eq)
  obtain a b where "foldE (feistel_enc_round fs) (take HalfBytes x, drop HalfBytes x) [0..<fs_rounds fs] = Inr (a, b)"
      "halves (a, b)" "foldE (feistel_dec_round fs) (a, b) (rev [0..<fs_rounds fs]) = Inr (take HalfBytes x, drop HalfBytes x)"
    using foldE_inverse [of halves "feistel_enc_round fs" "feistel_dec_round fs", OF feistel_rounds(1) [OF ok] h] by (metis surj_pair)
  then show "\<exists>y. Feistel_encryptBytes fs x = Inr y \<and> length y = FeistelBytes \<and> Feistel_decryptBytes fs y = Inr x"
    using len by (simp add: Feistel_encryptBytes_def Feistel_decryptBytes_def feistel_check_def halves_def HalfBytes_eq)
next
  fix fs :: Feistel and y :: "u8 list"
  assume ok: "shake_ok fs" and len: "length y = FeistelBytes"
  then have h: "halves (take HalfBytes y, drop HalfBytes y)" by (simp add: halves_def HalfBytes_eq)
  obtain a b where "foldE (feistel_dec_round fs) (take HalfBytes y, drop HalfBytes y) (rev [0..<fs_rounds fs]) = Inr (a, b)"
      "halves (a, b)" "foldE (feistel_enc_round fs) (a, b) (rev (rev [0..<fs_rounds fs])) = Inr (take HalfBytes y, drop HalfBytes y)"
    using foldE_inverse [of halves "feistel_dec_round fs" "feistel_enc_round fs", OF feistel_rounds(2) [OF ok] h] by (metis surj_pair)
  then show "\<exists>x. Feistel_decryptBytes fs y = Inr x \<and> length x = FeistelBytes \<and> Feistel_encryptBytes fs x = Inr y"
    using len by (simp add: Feistel_encryptBytes_def Feistel_decryptBytes_def feistel_check_def halves_def HalfBytes_eq)
qed

end
