(* ===== verification/Perm_Hctr.thy ===== *)
theory Perm_Hctr
  imports Perm_Api
begin

text \<open>
  The HCTR2 wide-block mode \<open>frontend/permutation/hctr2.h\<close>: POLYVAL over the field of 2^128
  elements with a table of multiples, the XCTR key stream and the mode itself. The block cipher
  and its inverse (\<open>AES\<close> and \<open>AESDec\<close> of cryptoTools) are the two fields of \<open>hctr_aes\<close>.
\<close>

unbundle bit_operations_syntax

section \<open>128-bit values\<close>

record U128 =
  u_lo :: u64
  u_hi :: u64

definition u128 :: "u64 \<Rightarrow> u64 \<Rightarrow> U128" where
  "u128 a b = \<lparr> u_lo = a, u_hi = b \<rparr>"

definition load64 :: "u8 list \<Rightarrow> u64" where
  "load64 inp = foldl (\<lambda>x i. x OR push_bit (8 * i) (ucast (inp ! i))) 0 [0..<8]"

definition store64 :: "u64 \<Rightarrow> u8 list" where
  "store64 x = map (\<lambda>i. ucast (drop_bit (8 * i) x AND 0xff)) [0..<8]"

definition load128 :: "u8 list \<Rightarrow> U128" where
  "load128 inp = u128 (load64 inp) (load64 (drop 8 inp))"

definition store128 :: "U128 \<Rightarrow> u8 list" where
  "store128 x = store64 (u_lo x) @ store64 (u_hi x)"

definition getBit256 :: "u64 list \<Rightarrow> nat \<Rightarrow> bool" where
  "getBit256 x b = (drop_bit (b mod 64) (x ! (b div 64)) AND 1 \<noteq> 0)"

definition flipBit :: "u64 list \<Rightarrow> nat \<Rightarrow> u64 list" where
  "flipBit x b = x[b div 64 := x ! (b div 64) XOR push_bit (b mod 64) 1]"

definition getBit :: "U128 \<Rightarrow> nat \<Rightarrow> bool" where
  "getBit x b = (if b < 64 then drop_bit b (u_lo x) AND 1 \<noteq> 0 else drop_bit (b - 64) (u_hi x) AND 1 \<noteq> 0)"

definition xor128 :: "U128 \<Rightarrow> U128 \<Rightarrow> U128" where
  "xor128 a b = u128 (u_lo a XOR u_lo b) (u_hi a XOR u_hi b)"

section \<open>Multiplication\<close>

text \<open>\<open>xorAt p w v\<close> is the statement \<open>p[w] ^= v\<close>.\<close>

definition xorAt :: "u64 list \<Rightarrow> nat \<Rightarrow> u64 \<Rightarrow> u64 list" where
  "xorAt p w v = p[w := p ! w XOR v]"

definition mul_add :: "U128 \<Rightarrow> u64 list \<Rightarrow> nat \<Rightarrow> u64 list" where
  "mul_add b p i =
     (let word = i div 64; shift = i mod 64;
          p = xorAt p word (push_bit shift (u_lo b));
          p = (if shift \<noteq> 0 then xorAt p (word + 1) (drop_bit (64 - shift) (u_lo b)) else p);
          p = xorAt p (word + 1) (push_bit shift (u_hi b))
      in if shift \<noteq> 0 \<and> word + 2 < length p then xorAt p (word + 2) (drop_bit (64 - shift) (u_hi b)) else p)"

definition mul_step :: "U128 \<Rightarrow> U128 \<Rightarrow> u64 list \<Rightarrow> nat \<Rightarrow> u64 list" where
  "mul_step a b p i = (if getBit a i then mul_add b p i else p)"

text \<open>Reduction by x^128 + x^127 + x^126 + x^121 + 1, from the top bit down.\<close>

definition reduce_step :: "u64 list \<Rightarrow> nat \<Rightarrow> u64 list" where
  "reduce_step p d =
     (if getBit256 p d
      then flipBit (flipBit (flipBit (flipBit (flipBit p d) (d - 1)) (d - 2)) (d - 7)) (d - 128)
      else p)"

definition mul :: "U128 \<Rightarrow> U128 \<Rightarrow> U128" where
  "mul a b =
     (let p = foldl (mul_step a b) [0, 0, 0, 0] [0..<128];
          p = foldl reduce_step p (rev [128..<256])
      in u128 (p ! 0) (p ! 1))"

definition makeMulTable :: "U128 \<Rightarrow> U128 list list" where
  "makeMulTable h =
     map (\<lambda>pos. let b = pos * 8
                in map (\<lambda>v. mul (if b < 64 then u128 (push_bit b (word_of_nat v)) 0
                                 else u128 0 (push_bit (b - 64) (word_of_nat v))) h) [0..<256]) [0..<16]"

definition mulFixed :: "U128 \<Rightarrow> U128 list list \<Rightarrow> U128" where
  "mulFixed x table =
     foldl (\<lambda>out pos.
         xor128 (xor128 out (table ! pos ! unat (drop_bit (pos * 8) (u_lo x) AND 0xff)))
           (table ! (pos + 8) ! unat (drop_bit (pos * 8) (u_hi x) AND 0xff)))
       (u128 0 0) [0..<8]"

section \<open>The cipher\<close>

record hctr_aes =
  ha_enc :: "block \<Rightarrow> block \<Rightarrow> block"
  ha_dec :: "block \<Rightarrow> block \<Rightarrow> block"

definition xorBlock :: "u8 list \<Rightarrow> u8 list \<Rightarrow> u8 list" where
  "xorBlock a b = map (\<lambda>i. a ! i XOR b ! i) [0..<16]"

definition loadAesBlock :: "u8 list \<Rightarrow> block" where
  "loadAesBlock inp = bytes_block (take 16 inp)"

definition storeAesBlock :: "block \<Rightarrow> u8 list" where
  "storeAesBlock b = block_bytes b"

definition Aes_enc :: "hctr_aes \<Rightarrow> block \<Rightarrow> u8 list \<Rightarrow> u8 list" where
  "Aes_enc A k inp = storeAesBlock (ha_enc A k (loadAesBlock inp))"

definition Aes_encBlocks :: "hctr_aes \<Rightarrow> block \<Rightarrow> block list \<Rightarrow> block list" where
  "Aes_encBlocks A k inp = map (ha_enc A k) inp"

definition Aes_dec :: "hctr_aes \<Rightarrow> block \<Rightarrow> u8 list \<Rightarrow> u8 list" where
  "Aes_dec A k inp = storeAesBlock (ha_dec A k (loadAesBlock inp))"

definition schedule :: "hctr_aes \<Rightarrow> block \<Rightarrow> u64 \<Rightarrow> u8 list" where
  "schedule A k i = Aes_enc A k (store64 i @ replicate 8 0)"

section \<open>Hashing\<close>

definition polyvalKey :: "u8 list \<Rightarrow> U128" where
  "polyvalKey hashKey =
     (let c = u128 1 (push_bit 63 1 OR push_bit 60 1 OR push_bit 57 1 OR push_bit 50 1)
      in mul (load128 hashKey) c)"

definition hash_update :: "U128 \<Rightarrow> U128 list list \<Rightarrow> u8 list \<Rightarrow> nat \<Rightarrow> U128" where
  "hash_update acc table blocks cnt =
     foldl (\<lambda>acc i. mulFixed (xor128 acc (load128 (drop (i * 16) blocks))) table) acc [0..<cnt]"

definition updatePaddedZero :: "U128 \<Rightarrow> U128 list list \<Rightarrow> u8 list \<Rightarrow> U128" where
  "updatePaddedZero acc table data =
     (let bytes = length data; acc = hash_update acc table data (bytes div 16); rem = bytes mod 16
      in if rem \<noteq> 0
         then hash_update acc table (patch_at 0 (drop (bytes - rem) data) (replicate 16 0)) 1
         else acc)"

definition initHash :: "U128 list list \<Rightarrow> u8 list \<Rightarrow> u64 \<Rightarrow> U128" where
  "initHash table tweak modifier =
     (let acc = hash_update (u128 0 0) table
            (store64 (word_of_nat (length tweak) * 8 * 2 + modifier) @ replicate 8 0) 1
      in updatePaddedZero acc table tweak)"

record hctr_key =
  hk_aes :: block
  hk_hashKey :: "u8 list"
  hk_l :: "u8 list"
  hk_h :: U128
  hk_table :: "U128 list list"
  hk_initDiv :: U128
  hk_initAwk :: U128

definition Key_new :: "hctr_aes \<Rightarrow> u8 list \<Rightarrow> u8 list \<Rightarrow> hctr_key" where
  "Key_new A keyBytes tweakBytes =
     (let aes = loadAesBlock keyBytes; hashKey = schedule A aes 0; h = polyvalKey hashKey;
          table = makeMulTable h
      in \<lparr> hk_aes = aes, hk_hashKey = hashKey, hk_l = schedule A aes 1, hk_h = h, hk_table = table,
           hk_initDiv = initHash table tweakBytes 2, hk_initAwk = initHash table tweakBytes 3 \<rparr>)"

definition hctr_hash :: "hctr_key \<Rightarrow> u8 list \<Rightarrow> u8 list" where
  "hctr_hash key msg =
     (let full = length msg div 16; rem = length msg mod 16;
          acc = (if rem = 0 then hk_initDiv key else hk_initAwk key);
          acc = hash_update acc (hk_table key) msg full;
          acc = (if rem \<noteq> 0
                 then hash_update acc (hk_table key)
                        ((patch_at 0 (drop (full * 16) msg) (replicate 16 0))[rem := 1]) 1
                 else acc)
      in store128 acc)"

section \<open>Key stream\<close>

definition xctr_ctr :: "u8 list \<Rightarrow> nat \<Rightarrow> u8 list" where
  "xctr_ctr nonce i = xorBlock (store64 (word_of_nat (i + 1)) @ replicate 8 0) nonce"

text \<open>
  The key stream of \<open>bytes\<close> bytes. The source keeps the counters of the whole blocks in an array
  of 50; a longer message, for which it writes outside the array, is an error here.
\<close>

definition xctr_stream :: "hctr_aes \<Rightarrow> block \<Rightarrow> nat \<Rightarrow> u8 list \<Rightarrow> u8 list" where
  "xctr_stream A k bytes nonce =
     (let full = bytes div 16; rem = bytes mod 16
      in bytesOf (Aes_encBlocks A k (map (\<lambda>i. loadAesBlock (xctr_ctr nonce i)) [0..<full])) @
         take rem (Aes_enc A k (xctr_ctr nonce full)))"

definition xctr :: "hctr_aes \<Rightarrow> block \<Rightarrow> u8 list \<Rightarrow> u8 list \<Rightarrow> u8 list result" where
  "xctr A k inp nonce =
     guardE (length inp div 16 > KEM_key_block_size) (OutOfRange ''xctr: counter array'')
       (Inr (map (\<lambda>i. inp ! i XOR xctr_stream A k (length inp) nonce ! i) [0..<length inp]))"

section \<open>The mode\<close>

definition xor3 :: "u8 list \<Rightarrow> u8 list \<Rightarrow> u8 list \<Rightarrow> u8 list" where
  "xor3 a b c = map (\<lambda>i. a ! i XOR b ! i XOR c ! i) [0..<16]"

definition hctr_crypt :: "hctr_aes \<Rightarrow> u8 list \<Rightarrow> hctr_key \<Rightarrow> bool \<Rightarrow> u8 list result" where
  "hctr_crypt A data key encrypt =
     guardE (length data < 16) (InvalidArgument ''HCTR2 needs at least one AES block'')
     (if encrypt then
        let d1 = hctr_hash key (drop 16 data);
            mm = xorBlock data d1;
            uu = Aes_enc A (hk_aes key) mm;
            s = xor3 mm uu (hk_l key)
        in bindE (xctr A (hk_aes key) (drop 16 data) s) (\<lambda>rest.
           let d2 = hctr_hash key rest
           in Inr (xorBlock uu d2 @ rest))
      else
        let d1 = hctr_hash key (drop 16 data);
            uu = xorBlock data d1;
            mm = Aes_dec A (hk_aes key) uu;
            s = xor3 mm uu (hk_l key)
        in bindE (xctr A (hk_aes key) (drop 16 data) s) (\<lambda>rest.
           let d2 = hctr_hash key rest
           in Inr (xorBlock mm d2 @ rest)))"

definition partyKey :: "u8 \<Rightarrow> u8 list" where
  "partyKey party =
     [0x70, 0x71, 0x70, 0x73, 0x69, 0x2D, 0x68, 0x63, 0x74, 0x72, 0x32, 0x2D, 0x6B, 0x65, 0x30 + (party AND 1), 0x21]"

definition partyTweak :: "u8 \<Rightarrow> u8 list" where
  "partyTweak party =
     [0x70, 0x71, 0x70, 0x73, 0x69, 0x2D, 0x68, 0x63, 0x74, 0x72, 0x32, 0x2D, 0x74, 0x77, 0x30 + (party AND 1), 0x21]"

record Hctr =
  hc_aes :: hctr_aes
  hc_key :: hctr_key

definition Hctr_new :: "hctr_aes \<Rightarrow> u8 \<Rightarrow> Hctr" where
  "Hctr_new A party = \<lparr> hc_aes = A, hc_key = Key_new A (partyKey party) (partyTweak party) \<rparr>"

definition Hctr_crypt :: "Hctr \<Rightarrow> u8 list \<Rightarrow> bool \<Rightarrow> u8 list result" where
  "Hctr_crypt hc data encrypt =
     guardE (length data \<noteq> KEM_key_size_bit div 8) (InvalidArgument ''HCTR state size mismatch'')
       (hctr_crypt (hc_aes hc) data (hc_key hc) encrypt)"

definition Hctr_encryptBytes :: "Hctr \<Rightarrow> u8 list \<Rightarrow> u8 list result" where
  "Hctr_encryptBytes hc data = Hctr_crypt hc data True"

definition Hctr_decryptBytes :: "Hctr \<Rightarrow> u8 list \<Rightarrow> u8 list result" where
  "Hctr_decryptBytes hc data = Hctr_crypt hc data False"

section \<open>Decryption undoes encryption\<close>

lemma length_store64 [simp]: "length (store64 x) = 8"
  by (simp add: store64_def)

lemma length_hctr_parts [simp]: "length (xorBlock a b) = 16" "length (xor3 a b c) = 16"
  "length (storeAesBlock blk) = 16" "length (Aes_enc A k x) = 16" "length (Aes_dec A k x) = 16"
  "length (hctr_hash key msg) = 16" "length (store128 u) = 16"
  by (simp_all add: xorBlock_def xor3_def storeAesBlock_def Aes_enc_def Aes_dec_def hctr_hash_def Let_def store128_def)

lemma xorBlock_cancel:
  "length a = 16 \<Longrightarrow> xorBlock (xorBlock a d @ rest) d = a" "length a = 16 \<Longrightarrow> xorBlock (xorBlock a d) d = a"
  by (rule nth_equalityI; simp add: xorBlock_def nth_append xor.assoc)+

lemma xorBlock_take: "xorBlock (take 16 data) d = xorBlock data d"
  by (simp add: xorBlock_def)

definition aes_inverse :: "hctr_aes \<Rightarrow> block \<Rightarrow> bool" where
  "aes_inverse A k \<longleftrightarrow> (\<forall>x. ha_dec A k (ha_enc A k x) = x) \<and> (\<forall>x. ha_enc A k (ha_dec A k x) = x)"

lemma Aes_dec_enc:
  "aes_inverse A k \<Longrightarrow> length x = 16 \<Longrightarrow> Aes_dec A k (Aes_enc A k x) = x"
  "aes_inverse A k \<Longrightarrow> length x = 16 \<Longrightarrow> Aes_enc A k (Aes_dec A k x) = x"
  by (simp_all add: Aes_dec_def Aes_enc_def aes_inverse_def loadAesBlock_def storeAesBlock_def block_bytes_bytes_block)

lemma xctr_ok:
  assumes "length inp div 16 \<le> KEM_key_block_size"
  shows "\<exists>out. xctr A k inp nonce = Inr out \<and> length out = length inp \<and> xctr A k out nonce = Inr inp"
proof -
  let ?s = "xctr_stream A k (length inp) nonce"
  let ?out = "map (\<lambda>i. inp ! i XOR ?s ! i) [0..<length inp]"
  have "map (\<lambda>i. ?out ! i XOR ?s ! i) [0..<length inp] = inp"
    by (rule nth_equalityI) (simp_all add: xor.assoc)
  then show ?thesis using assms by (simp add: xctr_def)
qed

text \<open>Both directions run the same computation with the roles of the two middle blocks exchanged.\<close>

lemma hctr_crypt_inverse:
  assumes inv: "aes_inverse A (hk_aes key)" and len: "16 \<le> length x" "(length x - 16) div 16 \<le> KEM_key_block_size"
  shows "\<exists>y. hctr_crypt A x key dir = Inr y \<and> length y = length x \<and> hctr_crypt A y key (\<not> dir) = Inr x"
proof -
  let ?k = "hk_aes key"
  let ?d1 = "hctr_hash key (drop 16 x)"
  define mm where "mm = (if dir then xorBlock x ?d1 else Aes_dec A ?k (xorBlock x ?d1))"
  define uu where "uu = (if dir then Aes_enc A ?k mm else xorBlock x ?d1)"
  let ?s = "xor3 mm uu (hk_l key)"
  have l: "length mm = 16" "length uu = 16" by (auto simp: mm_def uu_def)
  have aes: "Aes_enc A ?k mm = uu" "Aes_dec A ?k uu = mm"
    using Aes_dec_enc [OF inv] l by (auto simp: uu_def mm_def)
  obtain rest where rest: "xctr A ?k (drop 16 x) ?s = Inr rest" "length rest = length x - 16"
      "xctr A ?k rest ?s = Inr (drop 16 x)"
    using xctr_ok [of "drop 16 x" A ?k ?s] len by auto
  let ?head = "if dir then uu else mm"
  let ?y = "xorBlock ?head (hctr_hash key rest) @ rest"
  have y: "hctr_crypt A x key dir = Inr ?y"
    using len rest(1) aes by (auto simp: hctr_crypt_def Let_def mm_def uu_def)
  have x: "xorBlock (if dir then mm else uu) ?d1 @ drop 16 x = x"
  proof -
    have "(if dir then mm else uu) = xorBlock (take 16 x) ?d1" by (simp add: mm_def uu_def xorBlock_take)
    then have "xorBlock (if dir then mm else uu) ?d1 = take 16 x" using xorBlock_cancel(2) len by simp
    then show ?thesis by simp
  qed
  have "xorBlock ?y (hctr_hash key rest) = ?head" by (rule xorBlock_cancel(1)) (simp add: l)
  then have "hctr_crypt A ?y key (\<not> dir) = Inr x"
    using len rest aes x by (cases dir) (simp_all add: hctr_crypt_def Let_def)
  then show ?thesis using y rest(2) len(1) by auto
qed

definition hctr_usable :: "Hctr \<Rightarrow> bool" where
  "hctr_usable hc \<longleftrightarrow> aes_inverse (hc_aes hc) (hk_aes (hc_key hc))"

interpretation hctr: byte_perm Hctr_encryptBytes Hctr_decryptBytes "\<lambda>_. kKemBytes" hctr_usable
proof
  fix hc :: Hctr and x :: "u8 list"
  assume "hctr_usable hc" and "length x = kKemBytes"
  then show "\<exists>y. Hctr_encryptBytes hc x = Inr y \<and> length y = kKemBytes \<and> Hctr_decryptBytes hc y = Inr x"
    using hctr_crypt_inverse [of "hc_aes hc" "hc_key hc" x True]
    by (auto simp: Hctr_encryptBytes_def Hctr_decryptBytes_def Hctr_crypt_def hctr_usable_def row_consts)
next
  fix hc :: Hctr and y :: "u8 list"
  assume "hctr_usable hc" and "length y = kKemBytes"
  then show "\<exists>x. Hctr_decryptBytes hc y = Inr x \<and> length x = kKemBytes \<and> Hctr_encryptBytes hc x = Inr y"
    using hctr_crypt_inverse [of "hc_aes hc" "hc_key hc" y False]
    by (auto simp: Hctr_encryptBytes_def Hctr_decryptBytes_def Hctr_crypt_def hctr_usable_def row_consts)
qed

end
