(* ===== verification/Perm_Polyval.thy ===== *)
theory Perm_Polyval
  imports Perm_Hctr
begin

text \<open>
  The table of multiples of \<open>hctr2.h\<close> computes the field multiplication: \<open>mulFixed\<close> on the table
  of \<open>h\<close> is \<open>mul\<close> by \<open>h\<close>. Both passes of \<open>mul\<close> are linear in their left argument, because every
  conditional step adds a mask that does not depend on the state.
\<close>

section \<open>Steps that add a mask\<close>

definition adds_mask :: "(u64 list \<Rightarrow> u64 list) \<Rightarrow> bool" where
  "adds_mask f \<longleftrightarrow> (\<forall>p q. length p = 4 \<longrightarrow> length q = 4 \<longrightarrow>
     length (f p) = 4 \<and> f (xor_list p q) = xor_list (f p) q)"

lemma adds_mask_id [simp]: "adds_mask (\<lambda>p. p)"
  by (simp add: adds_mask_def)

lemma xor_list_list_update:
  "w < length p \<Longrightarrow> length p = length q \<Longrightarrow>
   (xor_list p q)[w := (xor_list p q ! w) XOR v] = xor_list (p[w := p ! w XOR v]) q"
  by (rule nth_equalityI) (auto simp: nth_list_update xor.assoc xor.commute xor.left_commute)

lemma adds_mask_xorAt: "adds_mask f \<Longrightarrow> w < 4 \<Longrightarrow> adds_mask (\<lambda>p. xorAt (f p) w v)"
  by (simp add: adds_mask_def xorAt_def xor_list_list_update del: nth_xor_list)

lemma adds_mask_flipBit: "adds_mask f \<Longrightarrow> b < 256 \<Longrightarrow> adds_mask (\<lambda>p. flipBit (f p) b)"
  by (simp add: adds_mask_def flipBit_def xor_list_list_update del: nth_xor_list)

text \<open>A step taken under a condition that is additive is additive.\<close>

lemma cond_step_additive:
  assumes f: "adds_mask f" and l: "length p = 4" "length q = 4"
  shows "(if A \<noteq> B then f (xor_list p q) else xor_list p q) =
    xor_list (if A then f p else p) (if B then f q else q)"
proof -
  let ?z = "replicate 4 0 :: u64 list"
  have f': "length x = 4 \<Longrightarrow> length y = 4 \<Longrightarrow> f (xor_list x y) = xor_list (f x) y \<and> length (f x) = 4" for x y
    using f by (simp add: adds_mask_def)
  have m: "f x = xor_list (f ?z) x" if "length x = 4" for x
    using f' [of ?z x] that by (simp add: xor_list_commute [of ?z])
  have "xor_list (f p) (f q) = xor_list (xor_list p (f ?z)) (xor_list (f ?z) q)"
    using m [OF l(1)] m [OF l(2)] xor_list_commute by metis
  also have "\<dots> = xor_list (xor_list (xor_list p (f ?z)) (f ?z)) q" by (simp only: xor_list_assoc)
  also have "\<dots> = xor_list p q" using l f' [of ?z ?z] by simp
  finally have both: "xor_list (f p) (f q) = xor_list p q" .
  have right: "f (xor_list p q) = xor_list p (f q)"
    using f' [OF l(2,1)] by (simp add: xor_list_commute)
  show ?thesis using f' [OF l] right both by (cases A; cases B) simp_all
qed

section \<open>Both passes\<close>

lemma getBit_bit: "getBit x i \<longleftrightarrow> (if i < 64 then bit (u_lo x) i else bit (u_hi x) (i - 64))"
  by (simp add: getBit_def bit_iff_and_drop_bit_eq_1 and_one_eq odd_iff_mod_2_eq_one)

lemma getBit256_bit: "getBit256 p d \<longleftrightarrow> bit (p ! (d div 64)) (d mod 64)"
  by (simp add: getBit256_def bit_iff_and_drop_bit_eq_1 and_one_eq odd_iff_mod_2_eq_one)

lemma getBit_xor: "getBit (xor128 a b) i \<longleftrightarrow> getBit a i \<noteq> getBit b i"
  by (simp add: getBit_bit xor128_def u128_def bit_xor_iff)

lemma getBit256_xor:
  "length p = 4 \<Longrightarrow> length q = 4 \<Longrightarrow> d < 256 \<Longrightarrow> getBit256 (xor_list p q) d \<longleftrightarrow> getBit256 p d \<noteq> getBit256 q d"
  by (simp add: getBit256_bit bit_xor_iff)

lemma adds_mask_mul_add:
  assumes "i < 128"
  shows "adds_mask (\<lambda>p. mul_add b p i)"
proof -
  let ?w = "i div 64" and ?s = "i mod 64"
  define g where "g p = xorAt (if ?s \<noteq> 0 then xorAt (xorAt p ?w (push_bit ?s (u_lo b))) (?w + 1) (drop_bit (64 - ?s) (u_lo b))
       else xorAt p ?w (push_bit ?s (u_lo b))) (?w + 1) (push_bit ?s (u_hi b))" for p
  have w: "?w < 2" using assms by simp
  have g: "adds_mask g"
    unfolding g_def using w by (cases "?s = 0") (simp_all add: adds_mask_xorAt)
  have "adds_mask (\<lambda>p. if ?s \<noteq> 0 then xorAt (g p) (?w + 2) (drop_bit (64 - ?s) (u_hi b)) else g p)"
    using w g by (cases "?s = 0") (simp_all add: adds_mask_xorAt)
  moreover have "mul_add b p i = (if ?s \<noteq> 0 then xorAt (g p) (?w + 2) (drop_bit (64 - ?s) (u_hi b)) else g p)"
    if "length p = 4" for p
    using that w by (simp add: mul_add_def Let_def g_def xorAt_def)
  ultimately show ?thesis by (simp add: adds_mask_def)
qed

lemma mul_step_additive:
  assumes "length p = 4" and "length q = 4" and "i < 128"
  shows "mul_step (xor128 a a') b (xor_list p q) i = xor_list (mul_step a b p i) (mul_step a' b q i)"
  unfolding mul_step_def getBit_xor by (rule cond_step_additive [OF adds_mask_mul_add [OF assms(3)] assms(1,2)])

lemma reduce_step_additive:
  assumes "length p = 4" and "length q = 4" and "d < 256"
  shows "reduce_step (xor_list p q) d = xor_list (reduce_step p d) (reduce_step q d)"
proof -
  have "adds_mask (\<lambda>p. flipBit (flipBit (flipBit (flipBit (flipBit p d) (d - 1)) (d - 2)) (d - 7)) (d - 128))"
    using assms(3) by (intro adds_mask_flipBit adds_mask_id) simp_all
  from cond_step_additive [OF this assms(1,2)] show ?thesis
    unfolding reduce_step_def using getBit256_xor [OF assms] by simp
qed

lemma length_mul_step [simp]: "length (mul_step a b p i) = length p"
  by (simp add: mul_step_def mul_add_def xorAt_def Let_def)

lemma length_reduce_step [simp]: "length (reduce_step p d) = length p"
  by (simp add: reduce_step_def flipBit_def)

lemma length_foldl_step: "(\<And>p i. length (f p i) = length p) \<Longrightarrow> length (foldl f p is) = length p"
  by (induction "is" arbitrary: p) simp_all

lemma foldl_additive:
  assumes "\<And>p q i. i \<in> set is \<Longrightarrow> length p = 4 \<Longrightarrow> length q = 4 \<Longrightarrow>
      f (xor_list p q) i = xor_list (g p i) (h q i) \<and> length (g p i) = 4 \<and> length (h q i) = 4"
    and "length p = 4" and "length q = 4"
  shows "foldl f (xor_list p q) is = xor_list (foldl g p is) (foldl h q is)"
  using assms by (induction "is" arbitrary: p q) simp_all

lemma mul_xor_left: "mul (xor128 a a') b = xor128 (mul a b) (mul a' b)"
proof -
  let ?z = "[0, 0, 0, 0] :: u64 list"
  let ?p = "\<lambda>a. foldl (mul_step a b) ?z [0..<128]"
  let ?r = "\<lambda>p. foldl reduce_step p (rev [128..<256])"
  have l: "length (?p a) = 4" for a by (simp add: length_foldl_step del: upt_Suc)
  have lr: "length (?r (?p a)) = 4" for a using l by (simp add: length_foldl_step del: upt_Suc)
  have "?p (xor128 a a') = foldl (mul_step (xor128 a a') b) (xor_list ?z ?z) [0..<128]" by simp
  also have "\<dots> = xor_list (?p a) (?p a')"
    by (rule foldl_additive) (simp_all add: mul_step_additive)
  finally have p: "?p (xor128 a a') = xor_list (?p a) (?p a')" .
  have r: "?r (xor_list (?p a) (?p a')) = xor_list (?r (?p a)) (?r (?p a'))"
    by (rule foldl_additive) (auto simp: reduce_step_additive l)
  show ?thesis unfolding mul_def Let_def p r using lr by (simp add: xor128_def u128_def del: upt_Suc)
qed

section \<open>The table\<close>

lemma xor128_simps: "u_lo (xor128 a b) = u_lo a XOR u_lo b" "u_hi (xor128 a b) = u_hi a XOR u_hi b"
  "u_lo (u128 x y) = x" "u_hi (u128 x y) = y"
  by (simp_all add: xor128_def u128_def)

lemma U128_eqI: "u_lo a = u_lo b \<Longrightarrow> u_hi a = u_hi b \<Longrightarrow> a = (b :: U128)"
  by simp

lemma xor128_laws: "xor128 a (u128 0 0) = a" "xor128 (u128 0 0) a = a" "xor128 a a = u128 0 0"
  "xor128 (xor128 a b) c = xor128 a (xor128 b c)"
  by (rule U128_eqI; simp add: xor128_simps xor.assoc)+

lemma mul_zero_left: "mul (u128 0 0) b = u128 0 0"
  using mul_xor_left [of "u128 0 0" "u128 0 0" b] by (simp add: xor128_laws)

text \<open>The byte of \<open>x\<close> at position \<open>pos\<close>, in place.\<close>

definition byte_at :: "u64 \<Rightarrow> nat \<Rightarrow> u64" where
  "byte_at x pos = push_bit (pos * 8) (drop_bit (pos * 8) x AND 0xff)"

lemma xor_byte_at: "take_bit (k * 8) x XOR byte_at x k = take_bit (Suc k * 8) x"
proof (rule bit_word_eqI)
  fix n assume n: "n < LENGTH(64)"
  have "(0xff :: u64) = mask 8" by (simp add: mask_eq_exp_minus_1)
  then have "drop_bit (k * 8) x AND 0xff = take_bit 8 (drop_bit (k * 8) x)" by (simp add: take_bit_eq_mask)
  then show "bit (take_bit (k * 8) x XOR byte_at x k) n = bit (take_bit (Suc k * 8) x) n"
    using n by (auto simp: byte_at_def bit_simps)
qed

lemma table_entry:
  assumes "pos < 8"
  shows "makeMulTable h ! pos ! unat (drop_bit (pos * 8) x AND 0xff) = mul (u128 (byte_at x pos) 0) h"
    and "makeMulTable h ! (pos + 8) ! unat (drop_bit (pos * 8) x AND 0xff) = mul (u128 0 (byte_at x pos)) h"
proof -
  let ?v = "unat (drop_bit (pos * 8) x AND (0xff :: u64))"
  have "drop_bit (pos * 8) x AND 0xff \<le> (0xff :: u64)" by (rule word_and_le1)
  then have v: "?v < 256" by (simp add: word_le_nat_alt)
  show "makeMulTable h ! pos ! ?v = mul (u128 (byte_at x pos) 0) h"
    using assms v by (simp add: makeMulTable_def Let_def byte_at_def del: upt_Suc)
  show "makeMulTable h ! (pos + 8) ! ?v = mul (u128 0 (byte_at x pos)) h"
    using assms v by (simp add: makeMulTable_def Let_def byte_at_def del: upt_Suc)
qed

lemma mulFixed_prefix:
  assumes "k \<le> 8"
  shows "foldl (\<lambda>out pos.
         xor128 (xor128 out (makeMulTable h ! pos ! unat (drop_bit (pos * 8) (u_lo x) AND 0xff)))
           (makeMulTable h ! (pos + 8) ! unat (drop_bit (pos * 8) (u_hi x) AND 0xff))) (u128 0 0) [0..<k] =
    mul (u128 (take_bit (k * 8) (u_lo x)) (take_bit (k * 8) (u_hi x))) h"
  using assms
proof (induction k)
  case 0
  then show ?case by (simp add: mul_zero_left)
next
  case (Suc k)
  have "u128 (take_bit (Suc k * 8) (u_lo x)) (take_bit (Suc k * 8) (u_hi x)) =
      xor128 (xor128 (u128 (take_bit (k * 8) (u_lo x)) (take_bit (k * 8) (u_hi x))) (u128 (byte_at (u_lo x) k) 0))
        (u128 0 (byte_at (u_hi x) k))"
    by (rule U128_eqI) (simp_all add: xor128_simps xor_byte_at del: mult_Suc)
  then show ?case using Suc table_entry [of k h] by (simp add: mul_xor_left del: mult_Suc)
qed

lemma mulFixed_mul: "mulFixed x (makeMulTable h) = mul x h"
proof -
  have "u128 (take_bit (8 * 8) (u_lo x)) (take_bit (8 * 8) (u_hi x)) = x"
    by (rule U128_eqI) (simp_all add: xor128_simps take_bit_word_eq_self)
  then show ?thesis using mulFixed_prefix [of 8 h x] by (simp add: mulFixed_def del: upt_Suc)
qed

section \<open>The hash as a polynomial evaluation\<close>

text \<open>Horner evaluation of the message blocks with the plain multiplication.\<close>

definition polyval :: "U128 \<Rightarrow> U128 \<Rightarrow> U128 list \<Rightarrow> U128" where
  "polyval h acc blks = foldl (\<lambda>acc b. mul (xor128 acc b) h) acc blks"

lemma hash_update_polyval:
  "hash_update acc (makeMulTable h) data cnt = polyval h acc (map (\<lambda>i. load128 (drop (i * 16) data)) [0..<cnt])"
proof -
  have "foldl (\<lambda>acc i. mul (xor128 acc (f i)) h) acc is = foldl (\<lambda>acc b. mul (xor128 acc b) h) acc (map f is)" for f "is" acc
    by (induction "is" arbitrary: acc) simp_all
  then show ?thesis by (simp add: hash_update_def polyval_def mulFixed_mul)
qed

end
