(* ===== verification/Perm_Config.thy ===== *)
theory Perm_Config
  imports Perm_Small Perm_Feistel Perm_Polyval
begin

text \<open>
  Choosing a permutation: \<open>frontend/permutation/permutation.h\<close> with the step search of
  \<open>params.h\<close> and the configuration of \<open>pqpsi.h\<close>. The libraries below the constructions are the
  record \<open>perm_env\<close>.
\<close>

section \<open>Configurations\<close>

datatype PermKind = PK_ConsPi | PK_Hctr | PK_Feistel | PK_Xoodoo

record PermCfg =
  pc_kind :: PermKind
  pc_small :: SmallKind
  pc_lambda :: nat
  pc_rounds :: nat

record PiCfg =
  pi_kind :: PermKind
  pi_small :: SmallKind
  pi_lambda :: nat
  pi_rounds :: nat
  pi_bobPi :: bool

definition PiCfg_default :: PiCfg where
  "PiCfg_default = \<lparr> pi_kind = PK_ConsPi, pi_small = Keccak1600, pi_lambda = 128, pi_rounds = DefaultRounds,
     pi_bobPi = False \<rparr>"

fun perm_name :: "PermKind \<Rightarrow> string" where
  "perm_name PK_ConsPi = ''conspi''"
| "perm_name PK_Hctr = ''hctr''"
| "perm_name PK_Feistel = ''feistel''"
| "perm_name PK_Xoodoo = ''xoodoo''"

text \<open>\<open>std::isdigit\<close> in the C locale, and \<open>std::stoull\<close> on a string of digits.\<close>

definition is_digit :: "char \<Rightarrow> bool" where
  "is_digit c \<longleftrightarrow> 48 \<le> (of_char c :: nat) \<and> (of_char c :: nat) \<le> 57"

definition digits_value :: "string \<Rightarrow> nat" where
  "digits_value s = foldl (\<lambda>n c. 10 * n + ((of_char c :: nat) - 48)) 0 s"

definition stoull :: "string \<Rightarrow> nat result" where
  "stoull s = guardE (digits_value s \<ge> 2 ^ 64) (OutOfRange ''stoull'') (Inr (digits_value s))"

definition set_perm :: "PermCfg \<Rightarrow> string \<Rightarrow> PermCfg result" where
  "set_perm cfg text =
     (if text = ''conspi'' \<or> text = ''cons-pi'' \<or> text = ''pi'' then Inr (cfg\<lparr> pc_kind := PK_ConsPi \<rparr>)
      else if text = ''hctr'' \<or> text = ''hctr2'' then Inr (cfg\<lparr> pc_kind := PK_Hctr \<rparr>)
      else if text = ''feistel'' then Inr (cfg\<lparr> pc_kind := PK_Feistel \<rparr>)
      else if take 8 text = ''feistel-'' then
        (let tail = drop 8 text
         in if tail = [] \<or> \<not> list_all is_digit tail
            then Inl (InvalidArgument (''bad feistel round count: '' @ text))
            else bindE (stoull tail) (\<lambda>r. Inr (cfg\<lparr> pc_kind := PK_Feistel, pc_rounds := r \<rparr>)))
      else if text = ''xoodoo'' then Inr (cfg\<lparr> pc_kind := PK_Xoodoo \<rparr>)
      else bindE (parseKind text) (\<lambda>k. Inr (cfg\<lparr> pc_kind := PK_ConsPi, pc_small := k \<rparr>)))"

definition toPermCfg :: "PiCfg \<Rightarrow> PermCfg" where
  "toPermCfg p = \<lparr> pc_kind = pi_kind p, pc_small = pi_small p, pc_lambda = pi_lambda p, pc_rounds = pi_rounds p \<rparr>"

definition setPi :: "PiCfg \<Rightarrow> string \<Rightarrow> PiCfg result" where
  "setPi p text =
     bindE (set_perm (toPermCfg p) text) (\<lambda>cfg.
       Inr (p\<lparr> pi_kind := pc_kind cfg, pi_small := pc_small cfg, pi_lambda := pc_lambda cfg, pi_rounds := pc_rounds cfg \<rparr>))"

section \<open>Making the object\<close>

record perm_env =
  pv_keccak :: keccak_native
  pv_aes :: hctr_aes
  pv_shake :: "nat \<Rightarrow> u8 list \<Rightarrow> u8 list option"

definition makePermutation :: "perm_env \<Rightarrow> PermCfg \<Rightarrow> u8 \<Rightarrow> Perm result" where
  "makePermutation pv cfg party =
     (case pc_kind cfg of
        PK_ConsPi \<Rightarrow>
          bindE (defaults (pc_small cfg) KEM_key_size_bit (pc_lambda cfg)) (\<lambda>p.
          bindE (makePerm (pv_keccak pv) (pp_kind p)) (\<lambda>sp.
          bindE (ConsPi_new sp p party) (\<lambda>cp.
            Inr \<lparr> encryptBytes = ConsPi_encryptBytes cp, decryptBytes = ConsPi_decryptBytes cp \<rparr>)))
      | PK_Hctr \<Rightarrow>
          let hc = Hctr_new (pv_aes pv) party
          in Inr \<lparr> encryptBytes = Hctr_encryptBytes hc, decryptBytes = Hctr_decryptBytes hc \<rparr>
      | PK_Feistel \<Rightarrow>
          bindE (Feistel_new (pv_shake pv) (pc_rounds cfg) party) (\<lambda>fs.
            Inr \<lparr> encryptBytes = Feistel_encryptBytes fs, decryptBytes = Feistel_decryptBytes fs \<rparr>)
      | PK_Xoodoo \<Rightarrow>
          Inr \<lparr> encryptBytes = Xoodoo_encryptBytes (), decryptBytes = Xoodoo_decryptBytes () \<rparr>)"

definition makePi :: "perm_env \<Rightarrow> PiCfg \<Rightarrow> u8 \<Rightarrow> Perm result" where
  "makePi pv p party = makePermutation pv (toPermCfg p) party"

section \<open>The step search\<close>

definition valid_step :: "nat \<Rightarrow> nat \<Rightarrow> nat \<Rightarrow> nat \<Rightarrow> bool" where
  "valid_step n N lambda s \<longleftrightarrow> 0 < s \<and> s \<le> n \<and> s dvd (N - n) \<and> 2 * lambda \<le> s \<and> 2 * lambda \<le> n - s"

lemma last_match:
  fixes Q :: "nat \<Rightarrow> bool"
  defines "b n \<equiv> foldl (\<lambda>best s. if Q s then s else best) 0 [1..<Suc n]"
  shows "(\<forall>s. 0 < s \<and> s \<le> n \<and> Q s \<longrightarrow> s \<le> b n) \<and> (b n = 0 \<or> b n \<le> n \<and> Q (b n))"
proof (induction n)
  case (Suc n)
  have "b (Suc n) = (if Q (Suc n) then Suc n else b n)" by (simp add: b_def)
  then show ?case using Suc by (auto simp: le_Suc_eq)
qed (simp add: b_def)

text \<open>\<open>bestStep\<close> returns the largest step that divides the gap and leaves both margins.\<close>

lemma bestStep_iff:
  "bestStep n N lambda = Inr s \<longleftrightarrow>
     n < N \<and> valid_step n N lambda s \<and> (\<forall>s'. valid_step n N lambda s' \<longrightarrow> s' \<le> s)"
proof -
  define Q where "Q s \<longleftrightarrow> (N - n) mod s = 0 \<and> 2 * lambda \<le> s \<and> 2 * lambda \<le> n - s" for s
  define best where "best = foldl (\<lambda>best s. if Q s then s else best) 0 [1..<Suc n]"
  have body: "(\<lambda>best s. if (N - n) mod s \<noteq> 0 then best else if s \<ge> 2 * lambda \<and> n - s \<ge> 2 * lambda then s else best) =
      (\<lambda>best s. if Q s then s else best)" by (auto simp: Q_def fun_eq_iff)
  have eq: "bestStep n N lambda = Inr s \<longleftrightarrow> n < N \<and> best \<noteq> 0 \<and> s = best"
    unfolding bestStep_def Let_def body best_def [symmetric] by (auto simp: result_simps)
  have v: "valid_step n N lambda t \<longleftrightarrow> 0 < t \<and> t \<le> n \<and> Q t" for t
    by (auto simp: valid_step_def Q_def dvd_eq_mod_eq_0)
  have m: "\<forall>t. 0 < t \<and> t \<le> n \<and> Q t \<longrightarrow> t \<le> best" "best = 0 \<or> best \<le> n \<and> Q best"
    using last_match [of n Q] unfolding best_def by auto
  show ?thesis
    unfolding eq v
  proof
    assume r: "n < N \<and> (0 < s \<and> s \<le> n \<and> Q s) \<and> (\<forall>s'. 0 < s' \<and> s' \<le> n \<and> Q s' \<longrightarrow> s' \<le> s)"
    then have le: "s \<le> best" using m(1) by blast
    then have "best \<noteq> 0" "best \<le> s" using r m(2) by auto
    then show "n < N \<and> best \<noteq> 0 \<and> s = best" using r le by simp
  qed (use m in auto)
qed

section \<open>Objects are permutations of a row\<close>

text \<open>What the constructor checks is what the round trip needs.\<close>

lemma ConsPi_new_wf:
  assumes "ConsPi_new sp p party = Inr cp" and "small_ok sp" and "8 dvd pp_n p" and "8 dvd pp_N p"
  shows "cons_wf cp" and "cons_width cp = pp_N p div 8"
  using assms by (auto simp: ConsPi_new_def checkParams_def Let_def guardE_Inr_iff cons_wf_def sp_bytes_def cons_width_def)

text \<open>The documented behaviour of the libraries: KeccakTools, AES and SHAKE256.\<close>

definition perm_env_ok :: "perm_env \<Rightarrow> bool" where
  "perm_env_ok pv \<longleftrightarrow> keccak_ok (pv_keccak pv) \<and> (\<forall>k. aes_inverse (pv_aes pv) k) \<and>
     (\<forall>n m. \<exists>out. pv_shake pv n m = Some out \<and> length out = n)"

definition perm_row_bytes :: "PermKind \<Rightarrow> nat" where
  "perm_row_bytes kind = (if kind = PK_Xoodoo then 48 else kKemBytes)"

lemma makePermutation_ok:
  assumes ok: "perm_env_ok pv" and mk: "makePermutation pv cfg party = Inr prm"
  shows "perm_ok prm (perm_row_bytes (pc_kind cfg))"
proof (cases "pc_kind cfg")
  case PK_ConsPi
  obtain p sp cp where p: "defaults (pc_small cfg) KEM_key_size_bit (pc_lambda cfg) = Inr p"
      and sp: "makePerm (pv_keccak pv) (pp_kind p) = Inr sp" and cp: "ConsPi_new sp p party = Inr cp"
      and prm: "prm = \<lparr> encryptBytes = ConsPi_encryptBytes cp, decryptBytes = ConsPi_decryptBytes cp \<rparr>"
    using mk PK_ConsPi by (auto simp: makePermutation_def result_simps)
  have n: "pp_n p = widthOf (pp_kind p)" "pp_N p = KEM_key_size_bit" using p by (auto simp: defaults_def result_simps)
  have "8 dvd pp_n p" unfolding n by (cases "pp_kind p") simp_all
  then have "cons_wf cp" "cons_width cp = kKemBytes"
    using ConsPi_new_wf [OF cp makePerm_ok(1) [OF _ sp]] ok n(2) by (simp_all add: perm_env_ok_def row_consts)
  then show ?thesis using conspi.perm_okI [of cp] by (simp add: prm perm_row_bytes_def PK_ConsPi)
next
  case PK_Hctr
  have "hctr_usable (Hctr_new (pv_aes pv) party)" using ok by (simp add: hctr_usable_def Hctr_new_def perm_env_ok_def)
  then show ?thesis using hctr.perm_okI mk PK_Hctr by (auto simp: makePermutation_def perm_row_bytes_def Let_def)
next
  case PK_Feistel
  then obtain fs where "Feistel_new (pv_shake pv) (pc_rounds cfg) party = Inr fs"
      and prm: "prm = \<lparr> encryptBytes = Feistel_encryptBytes fs, decryptBytes = Feistel_decryptBytes fs \<rparr>"
    using mk by (auto simp: makePermutation_def result_simps)
  then have "fs_shake fs = pv_shake pv" by (auto simp: Feistel_new_def guardE_Inr_iff)
  then have "shake_ok fs" using ok by (simp add: shake_ok_def perm_env_ok_def)
  then show ?thesis using feistel.perm_okI [of fs] PK_Feistel by (simp add: prm perm_row_bytes_def HalfBytes_eq row_consts)
next
  case PK_Xoodoo
  then show ?thesis using mk xoodoo.perm_okI [of "()"] by (simp add: makePermutation_def perm_row_bytes_def)
qed

text \<open>When the factory succeeds.\<close>

lemma ConsPi_new_total:
  assumes "defaults kind N lambda = Inr p" and "sp_bits sp = widthOf kind"
  shows "\<exists>cp. ConsPi_new sp p party = Inr cp"
proof -
  obtain s where s: "bestStep (widthOf kind) N lambda = Inr s"
    and p: "p = \<lparr> pp_kind = kind, pp_n = widthOf kind, pp_N = N, pp_s = s, pp_lambda = lambda \<rparr>"
    using assms(1) by (auto simp: defaults_def result_simps)
  have "0 < widthOf kind" by (cases kind) simp_all
  then show ?thesis using s assms(2) unfolding bestStep_iff valid_step_def
    by (auto simp: p ConsPi_new_def checkParams_def Let_def)
qed

lemma makePermutation_total:
  assumes ok: "perm_env_ok pv"
    and step: "pc_kind cfg = PK_ConsPi \<Longrightarrow> \<exists>s. valid_step (widthOf (pc_small cfg)) KEM_key_size_bit (pc_lambda cfg) s"
    and rounds: "pc_kind cfg = PK_Feistel \<Longrightarrow> 0 < pc_rounds cfg"
  shows "\<exists>prm. makePermutation pv cfg party = Inr prm"
proof (cases "pc_kind cfg")
  case PK_ConsPi
  let ?n = "widthOf (pc_small cfg)" and ?V = "valid_step (widthOf (pc_small cfg)) KEM_key_size_bit (pc_lambda cfg)"
  have fin: "finite {s. ?V s}" by (rule finite_subset [of _ "{..?n}"]) (auto simp: valid_step_def)
  define s where "s = Max {s. ?V s}"
  have "?V s" "\<And>s'. ?V s' \<Longrightarrow> s' \<le> s" using step [OF PK_ConsPi] fin Max_in [OF fin] Max_ge [OF fin] by (auto simp: s_def)
  moreover have "?n < KEM_key_size_bit" by (cases "pc_small cfg") (simp_all add: row_consts)
  ultimately have "bestStep ?n KEM_key_size_bit (pc_lambda cfg) = Inr s" unfolding bestStep_iff by blast
  then obtain p where p: "defaults (pc_small cfg) KEM_key_size_bit (pc_lambda cfg) = Inr p" and k: "pp_kind p = pc_small cfg"
    by (simp add: defaults_def)
  obtain sp where sp: "makePerm (pv_keccak pv) (pc_small cfg) = Inr sp" using makePerm_total by blast
  have "sp_bits sp = ?n" using makePerm_ok(2) [OF _ sp] ok by (simp add: perm_env_ok_def)
  then obtain cp where "ConsPi_new sp p party = Inr cp" using ConsPi_new_total [OF p] by blast
  then show ?thesis using PK_ConsPi p k sp by (simp add: makePermutation_def)
qed (use rounds in \<open>auto simp: makePermutation_def Feistel_new_def Let_def\<close>)

text \<open>The steps of the default parameters: 6400 state bits and 128 bits of margin on both sides.\<close>

lemma best_steps:
  "bestStep 1600 KEM_key_size_bit 128 = Inr 1200" "bestStep 800 KEM_key_size_bit 128 = Inr 400"
  "bestStep 512 KEM_key_size_bit 128 = Inr 256"
proof -
  have N: "KEM_key_size_bit = 6400" by (simp add: row_consts)
  have a: "s \<le> 1200" if "valid_step 1600 6400 128 s" for s
  proof (rule ccontr)
    assume "\<not> s \<le> 1200"
    moreover have "s dvd 4800" using that by (simp add: valid_step_def)
    then obtain k where k: "4800 = s * k" by (rule dvdE)
    moreover note k
    moreover have "s \<le> 1344" using that by (auto simp: valid_step_def)
    ultimately have "k < 4" "3 < k" using mult_le_mono [of 1201 s 4 k] mult_le_mono [of s 1344 k 3] by linarith+
    then show False by simp
  qed
  have b: "s \<le> 400" if "valid_step 800 6400 128 s" for s
  proof (rule ccontr)
    assume "\<not> s \<le> 400"
    moreover have "s dvd 5600" using that by (simp add: valid_step_def)
    then obtain k where k: "5600 = s * k" by (rule dvdE)
    moreover note k
    moreover have "s \<le> 544" using that by (auto simp: valid_step_def)
    ultimately have "k < 14" "10 < k" using mult_le_mono [of 401 s 14 k] mult_le_mono [of s 544 k 10] by linarith+
    then have "k = 11 \<or> k = 12 \<or> k = 13" by linarith
    then show False using k by (elim disjE; hypsubst) presburger+
  qed
  show "bestStep 1600 KEM_key_size_bit 128 = Inr 1200" unfolding bestStep_iff N
    using a by (auto simp: valid_step_def)
  show "bestStep 800 KEM_key_size_bit 128 = Inr 400" unfolding bestStep_iff N
    using b by (auto simp: valid_step_def)
  show "bestStep 512 KEM_key_size_bit 128 = Inr 256" unfolding bestStep_iff N
    by (auto simp: valid_step_def)
qed

end
