(* ===== verification/Psi_Setup.thy ===== *)
theory Psi_Setup
  imports Psi_Session Perm_Config
begin

text \<open>
  The entry point \<open>pqpsi\<close> of \<open>frontend/pqpsi/pqpsi.cpp\<close>: it resolves the parameters, opens the
  channels, chooses the permutations and hands a context to \<open>Recv\<close> or \<open>Send\<close>. Two calls with the
  same options give contexts that agree, so the protocol's correctness applies to them. The
  connection itself is in \<open>Psi_Connect\<close>; the timing statistics are left out.
\<close>

record psi_opts =
  po_rb :: "RBParams option"
  po_pi :: "PiCfg option"
  po_kem :: "PsiKemKind option"
  po_channels :: "nat option"

text \<open>
  The number of channels: \<open>po_channels\<close> is the value of \<open>PQPSI_NET_CHANNELS\<close>, if it is set and
  parses; zero and no value both mean one per worker thread.
\<close>

definition net_channels :: "bool \<Rightarrow> nat \<Rightarrow> nat option \<Rightarrow> nat" where
  "net_channels mt wt req =
     (let requested = (case req of None \<Rightarrow> wt | Some c \<Rightarrow> c);
          requested = (if requested = 0 then wt else requested)
      in if mt then max 1 (min requested wt) else 1)"

definition open_channels :: "nat \<Rightarrow> nat \<Rightarrow> nat list" where
  "open_channels me nCh = map (\<lambda>i. if i = me then 0 else nCh) [0..<2]"

text \<open>The permutation configuration after the KEM has had its say.\<close>

definition pick_pi :: "PsiKemKind \<Rightarrow> PiCfg \<Rightarrow> PiCfg result" where
  "pick_pi k p =
     (if k = EcKem then Inr (p\<lparr> pi_kind := PK_Xoodoo \<rparr>)
      else if pi_kind p = PK_Xoodoo
      then Inl (InvalidArgument ''xoodoo permutation is only supported with eckem'')
      else Inr p)"

definition pqpsi_ctx :: "psi_env \<Rightarrow> perm_env \<Rightarrow> u64 \<Rightarrow> nat \<Rightarrow> block list \<Rightarrow> psi_opts \<Rightarrow> Ctx result" where
  "pqpsi_ctx env pv me setSize xs opts =
     guardE (setSize \<noteq> length xs) (InvalidArgument ''pqpsi: setSize must match set.size()'')
     (let rbCfg = (case po_rb opts of None \<Rightarrow> RBParams_default | Some r \<Rightarrow> r)
      in bindE (RBInfoOf (pe_rb env) (length xs) rbCfg) (\<lambda>info.
         let mt = prm_multiThread rbCfg; wt = inf_workerThreads info;
             nCh = net_channels mt wt (po_channels opts);
             localKem = (case po_kem opts of None \<Rightarrow> ObfMlKem | Some k \<Rightarrow> k);
             ownParty = ucast (me AND 1) :: u8;
             peerParty = ownParty XOR 1
         in bindE (kemRowBlocks localKem) (\<lambda>w.
            bindE (pick_pi localKem (case po_pi opts of None \<Rightarrow> PiCfg_default | Some p \<Rightarrow> p)) (\<lambda>localPi.
            bindE (makePi pv localPi ownParty) (\<lambda>own.
            bindE (makePi pv localPi peerParty) (\<lambda>peer.
              Inr \<lparr> tableSize = inf_columns info, bandWidth = inf_bandWidth info, rowSize = w,
                    multiThread = mt, workerThreads = wt, rb = rbCfg, kem = localKem,
                    bobPi = pi_bobPi localPi, ownPi = own, peerPi = peer, items = xs,
                    chls = open_channels (unat me) nCh \<rparr>))))))"

section \<open>What a context satisfies\<close>

lemma pick_pi_width:
  assumes "pick_pi k p = Inr p'"
  shows "perm_row_bytes (pi_kind p') = 16 * kem_width k"
  using assms by (cases k) (auto simp: pick_pi_def perm_row_bytes_def row_consts split: if_splits)

lemma pqpsi_ctxE:
  assumes "pqpsi_ctx env pv me setSize xs opts = Inr ctx"
  obtains info localPi where
    "setSize = length xs" and "items ctx = xs"
    and "RBInfoOf (pe_rb env) (length xs) (rb ctx) = Inr info" and "tableSize ctx = inf_columns info"
    and "rb ctx = (case po_rb opts of None \<Rightarrow> RBParams_default | Some r \<Rightarrow> r)"
    and "kem ctx = (case po_kem opts of None \<Rightarrow> ObfMlKem | Some k \<Rightarrow> k)"
    and "rowSize ctx = kem_width (kem ctx)"
    and "pick_pi (kem ctx) (case po_pi opts of None \<Rightarrow> PiCfg_default | Some p \<Rightarrow> p) = Inr localPi"
    and "bobPi ctx = pi_bobPi localPi"
    and "makePi pv localPi (ucast (me AND 1)) = Inr (ownPi ctx)"
    and "makePi pv localPi (ucast (me AND 1) XOR 1) = Inr (peerPi ctx)"
    and "multiThread ctx = prm_multiThread (rb ctx)"
    and "chls ctx = open_channels (unat me) (net_channels (multiThread ctx) (inf_workerThreads info) (po_channels opts))"
  using assms unfolding pqpsi_ctx_def Let_def guardE_Inr_iff bindE_Inr_iff kem_width_pos(2)
  by auto

lemma pqpsi_ctx_ok:
  assumes c: "pqpsi_ctx env pv me setSize xs opts = Inr ctx" and pv: "perm_env_ok pv" and ne: "xs \<noteq> []"
    and s: "kem_sound (kem ctx) (pe_kem env)" and cols: "cols_ok (rb ctx) (length xs)"
  shows "ctx_ok env ctx"
proof (rule pqpsi_ctxE [OF c])
  fix info localPi
  assume x: "items ctx = xs" and r: "RBInfoOf (pe_rb env) (length xs) (rb ctx) = Inr info" "tableSize ctx = inf_columns info"
    and w: "rowSize ctx = kem_width (kem ctx)"
    and p: "pick_pi (kem ctx) (case po_pi opts of None \<Rightarrow> PiCfg_default | Some p \<Rightarrow> p) = Inr localPi"
    and own: "makePi pv localPi (ucast (me AND 1)) = Inr (ownPi ctx)"
    and peer: "makePi pv localPi (ucast (me AND 1) XOR 1) = Inr (peerPi ctx)"
  have k: "perm_row_bytes (pc_kind (toPermCfg localPi)) = 16 * rowSize ctx"
    using pick_pi_width [OF p] w by (simp add: toPermCfg_def)
  have "perm_ok (ownPi ctx) (16 * rowSize ctx)" "perm_ok (peerPi ctx) (16 * rowSize ctx)"
    using makePermutation_ok [OF pv own [unfolded makePi_def]] makePermutation_ok [OF pv peer [unfolded makePi_def]] k by simp_all
  then show ?thesis using x r w ne s cols by (simp add: ctx_ok_def)
qed

lemma pqpsi_ctx_agree:
  assumes R: "pqpsi_ctx env pv 0 n xs opts = Inr ctxR" and S: "pqpsi_ctx env pv 1 n ys opts = Inr ctxS"
  shows "ctx_agree ctxR ctxS" and "links_ok ctxR ctxS"
proof -
  obtain info localPi where r: "n = length xs" "items ctxR = xs" "RBInfoOf (pe_rb env) (length xs) (rb ctxR) = Inr info"
      "tableSize ctxR = inf_columns info" "rb ctxR = (case po_rb opts of None \<Rightarrow> RBParams_default | Some r \<Rightarrow> r)"
      "kem ctxR = (case po_kem opts of None \<Rightarrow> ObfMlKem | Some k \<Rightarrow> k)" "rowSize ctxR = kem_width (kem ctxR)"
      "pick_pi (kem ctxR) (case po_pi opts of None \<Rightarrow> PiCfg_default | Some p \<Rightarrow> p) = Inr localPi"
      "bobPi ctxR = pi_bobPi localPi" "makePi pv localPi 0 = Inr (ownPi ctxR)" "makePi pv localPi 1 = Inr (peerPi ctxR)"
      "multiThread ctxR = prm_multiThread (rb ctxR)"
      "chls ctxR = open_channels 0 (net_channels (multiThread ctxR) (inf_workerThreads info) (po_channels opts))"
    by (rule pqpsi_ctxE [OF R]) simp
  obtain info' localPi' where s: "n = length ys" "items ctxS = ys" "RBInfoOf (pe_rb env) (length ys) (rb ctxS) = Inr info'"
      "tableSize ctxS = inf_columns info'" "rb ctxS = (case po_rb opts of None \<Rightarrow> RBParams_default | Some r \<Rightarrow> r)"
      "kem ctxS = (case po_kem opts of None \<Rightarrow> ObfMlKem | Some k \<Rightarrow> k)" "rowSize ctxS = kem_width (kem ctxS)"
      "pick_pi (kem ctxS) (case po_pi opts of None \<Rightarrow> PiCfg_default | Some p \<Rightarrow> p) = Inr localPi'"
      "bobPi ctxS = pi_bobPi localPi'" "makePi pv localPi' 1 = Inr (ownPi ctxS)" "makePi pv localPi' 0 = Inr (peerPi ctxS)"
      "multiThread ctxS = prm_multiThread (rb ctxS)"
      "chls ctxS = open_channels 1 (net_channels (multiThread ctxS) (inf_workerThreads info') (po_channels opts))"
    by (rule pqpsi_ctxE [OF S]) simp
  have e: "rb ctxS = rb ctxR" "kem ctxS = kem ctxR" using r s by simp_all
  have ii: "info' = info" and pp: "localPi' = localPi" using r s e by simp_all
  show "ctx_agree ctxR ctxS" using r s e ii pp by (simp add: ctx_agree_def)
  show "links_ok ctxR ctxS" using r s e ii
    by (auto simp: links_ok_def open_channels_def net_channels_def Let_def numeral_2_eq_2)
qed

end
