(* ===== verification/Crypto_Aes.thy ===== *)
theory Crypto_Aes
  imports Perm_Hctr
begin

text \<open>
  AES-128 of \<open>cryptoTools/Crypto/AES.cpp\<close>. The AES-NI and SSE instructions behind the intrinsics
  are defined as the processor manual defines them; on top of them stand the key schedules, the
  one-block cipher, its inverse, and the routines that keep two, four, eight or sixteen blocks
  in flight, which are unrolled in the source and here.
\<close>

section \<open>The instructions\<close>

definition SBOX :: "int list" where
  "SBOX = [
     99, 124, 119, 123, 242, 107, 111, 197, 48, 1, 103, 43, 254, 215, 171, 118,
     202, 130, 201, 125, 250, 89, 71, 240, 173, 212, 162, 175, 156, 164, 114, 192,
     183, 253, 147, 38, 54, 63, 247, 204, 52, 165, 229, 241, 113, 216, 49, 21,
     4, 199, 35, 195, 24, 150, 5, 154, 7, 18, 128, 226, 235, 39, 178, 117,
     9, 131, 44, 26, 27, 110, 90, 160, 82, 59, 214, 179, 41, 227, 47, 132,
     83, 209, 0, 237, 32, 252, 177, 91, 106, 203, 190, 57, 74, 76, 88, 207,
     208, 239, 170, 251, 67, 77, 51, 133, 69, 249, 2, 127, 80, 60, 159, 168,
     81, 163, 64, 143, 146, 157, 56, 245, 188, 182, 218, 33, 16, 255, 243, 210,
     205, 12, 19, 236, 95, 151, 68, 23, 196, 167, 126, 61, 100, 93, 25, 115,
     96, 129, 79, 220, 34, 42, 144, 136, 70, 238, 184, 20, 222, 94, 11, 219,
     224, 50, 58, 10, 73, 6, 36, 92, 194, 211, 172, 98, 145, 149, 228, 121,
     231, 200, 55, 109, 141, 213, 78, 169, 108, 86, 244, 234, 101, 122, 174, 8,
     186, 120, 37, 46, 28, 166, 180, 198, 232, 221, 116, 31, 75, 189, 139, 138,
     112, 62, 181, 102, 72, 3, 246, 14, 97, 53, 87, 185, 134, 193, 29, 158,
     225, 248, 152, 17, 105, 217, 142, 148, 155, 30, 135, 233, 206, 85, 40, 223,
     140, 161, 137, 13, 191, 230, 66, 104, 65, 153, 45, 15, 176, 84, 187, 22]"

definition SubByte :: "u8 \<Rightarrow> u8" where
  "SubByte x = word_of_int (SBOX ! unat x)"

definition InvSubByte :: "u8 \<Rightarrow> u8" where
  "InvSubByte y = word_of_nat (length (takeWhile (\<lambda>v. v \<noteq> uint y) SBOX))"

text \<open>Byte \<open>i\<close> of a block is row \<open>i mod 4\<close> of column \<open>i div 4\<close>.\<close>

definition ShiftRows :: "u8 list \<Rightarrow> u8 list" where
  "ShiftRows s = map (\<lambda>i. s ! (i mod 4 + 4 * ((i div 4 + i mod 4) mod 4))) [0..<16]"

definition InvShiftRows :: "u8 list \<Rightarrow> u8 list" where
  "InvShiftRows s = map (\<lambda>i. s ! (i mod 4 + 4 * ((i div 4 + 4 - i mod 4) mod 4))) [0..<16]"

definition xtime :: "u8 \<Rightarrow> u8" where
  "xtime a = push_bit 1 a XOR (if bit a 7 then 0x1B else 0)"

definition mix_byte :: "u8 \<Rightarrow> u8 \<Rightarrow> u8 \<Rightarrow> u8 \<Rightarrow> u8" where
  "mix_byte a b c d = xtime a XOR xtime b XOR b XOR c XOR d"

text \<open>The coefficients 14, 11, 13 and 9.\<close>

definition inv_mix_byte :: "u8 \<Rightarrow> u8 \<Rightarrow> u8 \<Rightarrow> u8 \<Rightarrow> u8" where
  "inv_mix_byte a b c d =
     (let m = (\<lambda>x. (xtime x, xtime (xtime x), xtime (xtime (xtime x))))
      in case (m a, m b, m c, m d) of ((a2, a4, a8), (b2, b4, b8), (c2, c4, c8), (d2, d4, d8)) \<Rightarrow>
           (a8 XOR a4 XOR a2) XOR (b8 XOR b2 XOR b) XOR (c8 XOR c4 XOR c) XOR (d8 XOR d))"

definition mix_with :: "(u8 \<Rightarrow> u8 \<Rightarrow> u8 \<Rightarrow> u8 \<Rightarrow> u8) \<Rightarrow> u8 list \<Rightarrow> u8 list" where
  "mix_with f s = map (\<lambda>i. let c = 4 * (i div 4) in
     f (s ! (c + i mod 4)) (s ! (c + (i + 1) mod 4)) (s ! (c + (i + 2) mod 4)) (s ! (c + (i + 3) mod 4))) [0..<16]"

definition MixColumns :: "u8 list \<Rightarrow> u8 list" where
  "MixColumns s = mix_with mix_byte s"

definition InvMixColumns :: "u8 list \<Rightarrow> u8 list" where
  "InvMixColumns s = mix_with inv_mix_byte s"

definition on_bytes :: "(u8 list \<Rightarrow> u8 list) \<Rightarrow> block \<Rightarrow> block" where
  "on_bytes f x = bytes_block (f (block_bytes x))"

definition mm_aesenc :: "block \<Rightarrow> block \<Rightarrow> block" where
  "mm_aesenc x k = on_bytes (\<lambda>s. MixColumns (map SubByte (ShiftRows s))) x XOR k"

definition mm_aesenclast :: "block \<Rightarrow> block \<Rightarrow> block" where
  "mm_aesenclast x k = on_bytes (\<lambda>s. map SubByte (ShiftRows s)) x XOR k"

definition mm_aesdec :: "block \<Rightarrow> block \<Rightarrow> block" where
  "mm_aesdec x k = on_bytes (\<lambda>s. InvMixColumns (map InvSubByte (InvShiftRows s))) x XOR k"

definition mm_aesdeclast :: "block \<Rightarrow> block \<Rightarrow> block" where
  "mm_aesdeclast x k = on_bytes (\<lambda>s. map InvSubByte (InvShiftRows s)) x XOR k"

definition mm_aesimc :: "block \<Rightarrow> block" where
  "mm_aesimc x = on_bytes InvMixColumns x"

definition mm_aeskeygenassist :: "block \<Rightarrow> u8 \<Rightarrow> block" where
  "mm_aeskeygenassist x rc =
     (let s = block_bytes x;
          x1 = map SubByte (slice 4 4 s); x3 = map SubByte (slice 12 4 s);
          rcon = (\<lambda>w. (hd w XOR rc) # tl w)
      in bytes_block (x1 @ rcon (rotate1 x1) @ x3 @ rcon (rotate1 x3)))"

text \<open>\<open>_mm_shuffle_epi32\<close> with all four selectors 3, \<open>_mm_slli_si128\<close> by four bytes, \<open>_mm_set1_epi64x\<close>.\<close>

definition mm_shuffle3 :: "block \<Rightarrow> block" where
  "mm_shuffle3 x = bytes_block (concat (replicate 4 (slice 12 4 (block_bytes x))))"

definition mm_slli4 :: "block \<Rightarrow> block" where
  "mm_slli4 x = push_bit 32 x"

definition mm_set1_epi64x :: "u64 \<Rightarrow> block" where
  "mm_set1_epi64x x = ucast x OR push_bit 64 (ucast x)"

section \<open>The cipher\<close>

definition keyGenHelper :: "block \<Rightarrow> block \<Rightarrow> block" where
  "keyGenHelper key keyRcon =
     (let keyRcon = mm_shuffle3 keyRcon;
          key = key XOR mm_slli4 key;
          key = key XOR mm_slli4 key;
          key = key XOR mm_slli4 key
      in key XOR keyRcon)"

fun expand_key :: "block \<Rightarrow> u8 list \<Rightarrow> block list" where
  "expand_key v [] = [v]"
| "expand_key v (rc # rcs) = v # expand_key (keyGenHelper v (mm_aeskeygenassist v rc)) rcs"

definition AES_setKey :: "block \<Rightarrow> block list" where
  "AES_setKey userKey = expand_key userKey [0x01, 0x02, 0x04, 0x08, 0x10, 0x20, 0x40, 0x80, 0x1B, 0x36]"

definition ecbEncBlock :: "block list \<Rightarrow> block \<Rightarrow> block" where
  "ecbEncBlock mRoundKey plaintext =
     (let c = plaintext XOR mRoundKey ! 0;
          c = foldl mm_aesenc c (map ((!) mRoundKey) [1..<10])
      in mm_aesenclast c (mRoundKey ! 10))"

text \<open>
  The routines that keep several blocks in flight, lane by lane and round by round as the source
  unrolls them: eight blocks from position \<open>idx\<close> on, and one of the blocks that are left over.
\<close>

definition enc_eight :: "block list \<Rightarrow> block list \<Rightarrow> nat \<Rightarrow> block list" where
  "enc_eight mRoundKey plaintexts idx =
     (let c0 = plaintexts ! (idx + 0) XOR mRoundKey ! 0; c1 = plaintexts ! (idx + 1) XOR mRoundKey ! 0; c2 = plaintexts ! (idx + 2) XOR mRoundKey ! 0; c3 = plaintexts ! (idx + 3) XOR mRoundKey ! 0;
          c4 = plaintexts ! (idx + 4) XOR mRoundKey ! 0; c5 = plaintexts ! (idx + 5) XOR mRoundKey ! 0; c6 = plaintexts ! (idx + 6) XOR mRoundKey ! 0; c7 = plaintexts ! (idx + 7) XOR mRoundKey ! 0;
          c0 = mm_aesenc c0 (mRoundKey ! 1); c1 = mm_aesenc c1 (mRoundKey ! 1); c2 = mm_aesenc c2 (mRoundKey ! 1); c3 = mm_aesenc c3 (mRoundKey ! 1);
          c4 = mm_aesenc c4 (mRoundKey ! 1); c5 = mm_aesenc c5 (mRoundKey ! 1); c6 = mm_aesenc c6 (mRoundKey ! 1); c7 = mm_aesenc c7 (mRoundKey ! 1);
          c0 = mm_aesenc c0 (mRoundKey ! 2); c1 = mm_aesenc c1 (mRoundKey ! 2); c2 = mm_aesenc c2 (mRoundKey ! 2); c3 = mm_aesenc c3 (mRoundKey ! 2);
          c4 = mm_aesenc c4 (mRoundKey ! 2); c5 = mm_aesenc c5 (mRoundKey ! 2); c6 = mm_aesenc c6 (mRoundKey ! 2); c7 = mm_aesenc c7 (mRoundKey ! 2);
          c0 = mm_aesenc c0 (mRoundKey ! 3); c1 = mm_aesenc c1 (mRoundKey ! 3); c2 = mm_aesenc c2 (mRoundKey ! 3); c3 = mm_aesenc c3 (mRoundKey ! 3);
          c4 = mm_aesenc c4 (mRoundKey ! 3); c5 = mm_aesenc c5 (mRoundKey ! 3); c6 = mm_aesenc c6 (mRoundKey ! 3); c7 = mm_aesenc c7 (mRoundKey ! 3);
          c0 = mm_aesenc c0 (mRoundKey ! 4); c1 = mm_aesenc c1 (mRoundKey ! 4); c2 = mm_aesenc c2 (mRoundKey ! 4); c3 = mm_aesenc c3 (mRoundKey ! 4);
          c4 = mm_aesenc c4 (mRoundKey ! 4); c5 = mm_aesenc c5 (mRoundKey ! 4); c6 = mm_aesenc c6 (mRoundKey ! 4); c7 = mm_aesenc c7 (mRoundKey ! 4);
          c0 = mm_aesenc c0 (mRoundKey ! 5); c1 = mm_aesenc c1 (mRoundKey ! 5); c2 = mm_aesenc c2 (mRoundKey ! 5); c3 = mm_aesenc c3 (mRoundKey ! 5);
          c4 = mm_aesenc c4 (mRoundKey ! 5); c5 = mm_aesenc c5 (mRoundKey ! 5); c6 = mm_aesenc c6 (mRoundKey ! 5); c7 = mm_aesenc c7 (mRoundKey ! 5);
          c0 = mm_aesenc c0 (mRoundKey ! 6); c1 = mm_aesenc c1 (mRoundKey ! 6); c2 = mm_aesenc c2 (mRoundKey ! 6); c3 = mm_aesenc c3 (mRoundKey ! 6);
          c4 = mm_aesenc c4 (mRoundKey ! 6); c5 = mm_aesenc c5 (mRoundKey ! 6); c6 = mm_aesenc c6 (mRoundKey ! 6); c7 = mm_aesenc c7 (mRoundKey ! 6);
          c0 = mm_aesenc c0 (mRoundKey ! 7); c1 = mm_aesenc c1 (mRoundKey ! 7); c2 = mm_aesenc c2 (mRoundKey ! 7); c3 = mm_aesenc c3 (mRoundKey ! 7);
          c4 = mm_aesenc c4 (mRoundKey ! 7); c5 = mm_aesenc c5 (mRoundKey ! 7); c6 = mm_aesenc c6 (mRoundKey ! 7); c7 = mm_aesenc c7 (mRoundKey ! 7);
          c0 = mm_aesenc c0 (mRoundKey ! 8); c1 = mm_aesenc c1 (mRoundKey ! 8); c2 = mm_aesenc c2 (mRoundKey ! 8); c3 = mm_aesenc c3 (mRoundKey ! 8);
          c4 = mm_aesenc c4 (mRoundKey ! 8); c5 = mm_aesenc c5 (mRoundKey ! 8); c6 = mm_aesenc c6 (mRoundKey ! 8); c7 = mm_aesenc c7 (mRoundKey ! 8);
          c0 = mm_aesenc c0 (mRoundKey ! 9); c1 = mm_aesenc c1 (mRoundKey ! 9); c2 = mm_aesenc c2 (mRoundKey ! 9); c3 = mm_aesenc c3 (mRoundKey ! 9);
          c4 = mm_aesenc c4 (mRoundKey ! 9); c5 = mm_aesenc c5 (mRoundKey ! 9); c6 = mm_aesenc c6 (mRoundKey ! 9); c7 = mm_aesenc c7 (mRoundKey ! 9);
          c0 = mm_aesenclast c0 (mRoundKey ! 10); c1 = mm_aesenclast c1 (mRoundKey ! 10); c2 = mm_aesenclast c2 (mRoundKey ! 10); c3 = mm_aesenclast c3 (mRoundKey ! 10);
          c4 = mm_aesenclast c4 (mRoundKey ! 10); c5 = mm_aesenclast c5 (mRoundKey ! 10); c6 = mm_aesenclast c6 (mRoundKey ! 10); c7 = mm_aesenclast c7 (mRoundKey ! 10)
      in [c0, c1, c2, c3, c4, c5, c6, c7])"

definition enc_left :: "block list \<Rightarrow> block list \<Rightarrow> nat \<Rightarrow> block" where
  "enc_left mRoundKey plaintexts idx =
     (let c = plaintexts ! idx XOR mRoundKey ! 0; c = mm_aesenc c (mRoundKey ! 1); c = mm_aesenc c (mRoundKey ! 2); c = mm_aesenc c (mRoundKey ! 3);
          c = mm_aesenc c (mRoundKey ! 4); c = mm_aesenc c (mRoundKey ! 5); c = mm_aesenc c (mRoundKey ! 6); c = mm_aesenc c (mRoundKey ! 7);
          c = mm_aesenc c (mRoundKey ! 8); c = mm_aesenc c (mRoundKey ! 9); c = mm_aesenclast c (mRoundKey ! 10)
      in c)"

definition ecbEncBlocks :: "block list \<Rightarrow> block list \<Rightarrow> block list" where
  "ecbEncBlocks mRoundKey plaintexts =
     (let blockLength = length plaintexts; len = blockLength - blockLength mod 8
      in concat (map (\<lambda>b. enc_eight mRoundKey plaintexts (8 * b)) [0..<len div 8]) @
         map (enc_left mRoundKey plaintexts) [len..<blockLength])"

definition ecbEncTwoBlocks :: "block list \<Rightarrow> block list \<Rightarrow> block list" where
  "ecbEncTwoBlocks mRoundKey plaintexts =
     (let c0 = plaintexts ! 0 XOR mRoundKey ! 0; c1 = plaintexts ! 1 XOR mRoundKey ! 0;
          c0 = mm_aesenc c0 (mRoundKey ! 1); c1 = mm_aesenc c1 (mRoundKey ! 1);
          c0 = mm_aesenc c0 (mRoundKey ! 2); c1 = mm_aesenc c1 (mRoundKey ! 2);
          c0 = mm_aesenc c0 (mRoundKey ! 3); c1 = mm_aesenc c1 (mRoundKey ! 3);
          c0 = mm_aesenc c0 (mRoundKey ! 4); c1 = mm_aesenc c1 (mRoundKey ! 4);
          c0 = mm_aesenc c0 (mRoundKey ! 5); c1 = mm_aesenc c1 (mRoundKey ! 5);
          c0 = mm_aesenc c0 (mRoundKey ! 6); c1 = mm_aesenc c1 (mRoundKey ! 6);
          c0 = mm_aesenc c0 (mRoundKey ! 7); c1 = mm_aesenc c1 (mRoundKey ! 7);
          c0 = mm_aesenc c0 (mRoundKey ! 8); c1 = mm_aesenc c1 (mRoundKey ! 8);
          c0 = mm_aesenc c0 (mRoundKey ! 9); c1 = mm_aesenc c1 (mRoundKey ! 9);
          c0 = mm_aesenclast c0 (mRoundKey ! 10); c1 = mm_aesenclast c1 (mRoundKey ! 10)
      in [c0, c1])"

definition ecbEncFourBlocks :: "block list \<Rightarrow> block list \<Rightarrow> block list" where
  "ecbEncFourBlocks mRoundKey plaintexts =
     (let c0 = plaintexts ! 0 XOR mRoundKey ! 0; c1 = plaintexts ! 1 XOR mRoundKey ! 0; c2 = plaintexts ! 2 XOR mRoundKey ! 0; c3 = plaintexts ! 3 XOR mRoundKey ! 0;
          c0 = mm_aesenc c0 (mRoundKey ! 1); c1 = mm_aesenc c1 (mRoundKey ! 1); c2 = mm_aesenc c2 (mRoundKey ! 1); c3 = mm_aesenc c3 (mRoundKey ! 1);
          c0 = mm_aesenc c0 (mRoundKey ! 2); c1 = mm_aesenc c1 (mRoundKey ! 2); c2 = mm_aesenc c2 (mRoundKey ! 2); c3 = mm_aesenc c3 (mRoundKey ! 2);
          c0 = mm_aesenc c0 (mRoundKey ! 3); c1 = mm_aesenc c1 (mRoundKey ! 3); c2 = mm_aesenc c2 (mRoundKey ! 3); c3 = mm_aesenc c3 (mRoundKey ! 3);
          c0 = mm_aesenc c0 (mRoundKey ! 4); c1 = mm_aesenc c1 (mRoundKey ! 4); c2 = mm_aesenc c2 (mRoundKey ! 4); c3 = mm_aesenc c3 (mRoundKey ! 4);
          c0 = mm_aesenc c0 (mRoundKey ! 5); c1 = mm_aesenc c1 (mRoundKey ! 5); c2 = mm_aesenc c2 (mRoundKey ! 5); c3 = mm_aesenc c3 (mRoundKey ! 5);
          c0 = mm_aesenc c0 (mRoundKey ! 6); c1 = mm_aesenc c1 (mRoundKey ! 6); c2 = mm_aesenc c2 (mRoundKey ! 6); c3 = mm_aesenc c3 (mRoundKey ! 6);
          c0 = mm_aesenc c0 (mRoundKey ! 7); c1 = mm_aesenc c1 (mRoundKey ! 7); c2 = mm_aesenc c2 (mRoundKey ! 7); c3 = mm_aesenc c3 (mRoundKey ! 7);
          c0 = mm_aesenc c0 (mRoundKey ! 8); c1 = mm_aesenc c1 (mRoundKey ! 8); c2 = mm_aesenc c2 (mRoundKey ! 8); c3 = mm_aesenc c3 (mRoundKey ! 8);
          c0 = mm_aesenc c0 (mRoundKey ! 9); c1 = mm_aesenc c1 (mRoundKey ! 9); c2 = mm_aesenc c2 (mRoundKey ! 9); c3 = mm_aesenc c3 (mRoundKey ! 9);
          c0 = mm_aesenclast c0 (mRoundKey ! 10); c1 = mm_aesenclast c1 (mRoundKey ! 10); c2 = mm_aesenclast c2 (mRoundKey ! 10); c3 = mm_aesenclast c3 (mRoundKey ! 10)
      in [c0, c1, c2, c3])"

definition ecbEnc16Blocks :: "block list \<Rightarrow> block list \<Rightarrow> block list" where
  "ecbEnc16Blocks mRoundKey plaintexts =
     (let c0 = plaintexts ! 0 XOR mRoundKey ! 0; c1 = plaintexts ! 1 XOR mRoundKey ! 0; c2 = plaintexts ! 2 XOR mRoundKey ! 0; c3 = plaintexts ! 3 XOR mRoundKey ! 0;
          c4 = plaintexts ! 4 XOR mRoundKey ! 0; c5 = plaintexts ! 5 XOR mRoundKey ! 0; c6 = plaintexts ! 6 XOR mRoundKey ! 0; c7 = plaintexts ! 7 XOR mRoundKey ! 0;
          c8 = plaintexts ! 8 XOR mRoundKey ! 0; c9 = plaintexts ! 9 XOR mRoundKey ! 0; c10 = plaintexts ! 10 XOR mRoundKey ! 0; c11 = plaintexts ! 11 XOR mRoundKey ! 0;
          c12 = plaintexts ! 12 XOR mRoundKey ! 0; c13 = plaintexts ! 13 XOR mRoundKey ! 0; c14 = plaintexts ! 14 XOR mRoundKey ! 0; c15 = plaintexts ! 15 XOR mRoundKey ! 0;
          c0 = mm_aesenc c0 (mRoundKey ! 1); c1 = mm_aesenc c1 (mRoundKey ! 1); c2 = mm_aesenc c2 (mRoundKey ! 1); c3 = mm_aesenc c3 (mRoundKey ! 1);
          c4 = mm_aesenc c4 (mRoundKey ! 1); c5 = mm_aesenc c5 (mRoundKey ! 1); c6 = mm_aesenc c6 (mRoundKey ! 1); c7 = mm_aesenc c7 (mRoundKey ! 1);
          c8 = mm_aesenc c8 (mRoundKey ! 1); c9 = mm_aesenc c9 (mRoundKey ! 1); c10 = mm_aesenc c10 (mRoundKey ! 1); c11 = mm_aesenc c11 (mRoundKey ! 1);
          c12 = mm_aesenc c12 (mRoundKey ! 1); c13 = mm_aesenc c13 (mRoundKey ! 1); c14 = mm_aesenc c14 (mRoundKey ! 1); c15 = mm_aesenc c15 (mRoundKey ! 1);
          c0 = mm_aesenc c0 (mRoundKey ! 2); c1 = mm_aesenc c1 (mRoundKey ! 2); c2 = mm_aesenc c2 (mRoundKey ! 2); c3 = mm_aesenc c3 (mRoundKey ! 2);
          c4 = mm_aesenc c4 (mRoundKey ! 2); c5 = mm_aesenc c5 (mRoundKey ! 2); c6 = mm_aesenc c6 (mRoundKey ! 2); c7 = mm_aesenc c7 (mRoundKey ! 2);
          c8 = mm_aesenc c8 (mRoundKey ! 2); c9 = mm_aesenc c9 (mRoundKey ! 2); c10 = mm_aesenc c10 (mRoundKey ! 2); c11 = mm_aesenc c11 (mRoundKey ! 2);
          c12 = mm_aesenc c12 (mRoundKey ! 2); c13 = mm_aesenc c13 (mRoundKey ! 2); c14 = mm_aesenc c14 (mRoundKey ! 2); c15 = mm_aesenc c15 (mRoundKey ! 2);
          c0 = mm_aesenc c0 (mRoundKey ! 3); c1 = mm_aesenc c1 (mRoundKey ! 3); c2 = mm_aesenc c2 (mRoundKey ! 3); c3 = mm_aesenc c3 (mRoundKey ! 3);
          c4 = mm_aesenc c4 (mRoundKey ! 3); c5 = mm_aesenc c5 (mRoundKey ! 3); c6 = mm_aesenc c6 (mRoundKey ! 3); c7 = mm_aesenc c7 (mRoundKey ! 3);
          c8 = mm_aesenc c8 (mRoundKey ! 3); c9 = mm_aesenc c9 (mRoundKey ! 3); c10 = mm_aesenc c10 (mRoundKey ! 3); c11 = mm_aesenc c11 (mRoundKey ! 3);
          c12 = mm_aesenc c12 (mRoundKey ! 3); c13 = mm_aesenc c13 (mRoundKey ! 3); c14 = mm_aesenc c14 (mRoundKey ! 3); c15 = mm_aesenc c15 (mRoundKey ! 3);
          c0 = mm_aesenc c0 (mRoundKey ! 4); c1 = mm_aesenc c1 (mRoundKey ! 4); c2 = mm_aesenc c2 (mRoundKey ! 4); c3 = mm_aesenc c3 (mRoundKey ! 4);
          c4 = mm_aesenc c4 (mRoundKey ! 4); c5 = mm_aesenc c5 (mRoundKey ! 4); c6 = mm_aesenc c6 (mRoundKey ! 4); c7 = mm_aesenc c7 (mRoundKey ! 4);
          c8 = mm_aesenc c8 (mRoundKey ! 4); c9 = mm_aesenc c9 (mRoundKey ! 4); c10 = mm_aesenc c10 (mRoundKey ! 4); c11 = mm_aesenc c11 (mRoundKey ! 4);
          c12 = mm_aesenc c12 (mRoundKey ! 4); c13 = mm_aesenc c13 (mRoundKey ! 4); c14 = mm_aesenc c14 (mRoundKey ! 4); c15 = mm_aesenc c15 (mRoundKey ! 4);
          c0 = mm_aesenc c0 (mRoundKey ! 5); c1 = mm_aesenc c1 (mRoundKey ! 5); c2 = mm_aesenc c2 (mRoundKey ! 5); c3 = mm_aesenc c3 (mRoundKey ! 5);
          c4 = mm_aesenc c4 (mRoundKey ! 5); c5 = mm_aesenc c5 (mRoundKey ! 5); c6 = mm_aesenc c6 (mRoundKey ! 5); c7 = mm_aesenc c7 (mRoundKey ! 5);
          c8 = mm_aesenc c8 (mRoundKey ! 5); c9 = mm_aesenc c9 (mRoundKey ! 5); c10 = mm_aesenc c10 (mRoundKey ! 5); c11 = mm_aesenc c11 (mRoundKey ! 5);
          c12 = mm_aesenc c12 (mRoundKey ! 5); c13 = mm_aesenc c13 (mRoundKey ! 5); c14 = mm_aesenc c14 (mRoundKey ! 5); c15 = mm_aesenc c15 (mRoundKey ! 5);
          c0 = mm_aesenc c0 (mRoundKey ! 6); c1 = mm_aesenc c1 (mRoundKey ! 6); c2 = mm_aesenc c2 (mRoundKey ! 6); c3 = mm_aesenc c3 (mRoundKey ! 6);
          c4 = mm_aesenc c4 (mRoundKey ! 6); c5 = mm_aesenc c5 (mRoundKey ! 6); c6 = mm_aesenc c6 (mRoundKey ! 6); c7 = mm_aesenc c7 (mRoundKey ! 6);
          c8 = mm_aesenc c8 (mRoundKey ! 6); c9 = mm_aesenc c9 (mRoundKey ! 6); c10 = mm_aesenc c10 (mRoundKey ! 6); c11 = mm_aesenc c11 (mRoundKey ! 6);
          c12 = mm_aesenc c12 (mRoundKey ! 6); c13 = mm_aesenc c13 (mRoundKey ! 6); c14 = mm_aesenc c14 (mRoundKey ! 6); c15 = mm_aesenc c15 (mRoundKey ! 6);
          c0 = mm_aesenc c0 (mRoundKey ! 7); c1 = mm_aesenc c1 (mRoundKey ! 7); c2 = mm_aesenc c2 (mRoundKey ! 7); c3 = mm_aesenc c3 (mRoundKey ! 7);
          c4 = mm_aesenc c4 (mRoundKey ! 7); c5 = mm_aesenc c5 (mRoundKey ! 7); c6 = mm_aesenc c6 (mRoundKey ! 7); c7 = mm_aesenc c7 (mRoundKey ! 7);
          c8 = mm_aesenc c8 (mRoundKey ! 7); c9 = mm_aesenc c9 (mRoundKey ! 7); c10 = mm_aesenc c10 (mRoundKey ! 7); c11 = mm_aesenc c11 (mRoundKey ! 7);
          c12 = mm_aesenc c12 (mRoundKey ! 7); c13 = mm_aesenc c13 (mRoundKey ! 7); c14 = mm_aesenc c14 (mRoundKey ! 7); c15 = mm_aesenc c15 (mRoundKey ! 7);
          c0 = mm_aesenc c0 (mRoundKey ! 8); c1 = mm_aesenc c1 (mRoundKey ! 8); c2 = mm_aesenc c2 (mRoundKey ! 8); c3 = mm_aesenc c3 (mRoundKey ! 8);
          c4 = mm_aesenc c4 (mRoundKey ! 8); c5 = mm_aesenc c5 (mRoundKey ! 8); c6 = mm_aesenc c6 (mRoundKey ! 8); c7 = mm_aesenc c7 (mRoundKey ! 8);
          c8 = mm_aesenc c8 (mRoundKey ! 8); c9 = mm_aesenc c9 (mRoundKey ! 8); c10 = mm_aesenc c10 (mRoundKey ! 8); c11 = mm_aesenc c11 (mRoundKey ! 8);
          c12 = mm_aesenc c12 (mRoundKey ! 8); c13 = mm_aesenc c13 (mRoundKey ! 8); c14 = mm_aesenc c14 (mRoundKey ! 8); c15 = mm_aesenc c15 (mRoundKey ! 8);
          c0 = mm_aesenc c0 (mRoundKey ! 9); c1 = mm_aesenc c1 (mRoundKey ! 9); c2 = mm_aesenc c2 (mRoundKey ! 9); c3 = mm_aesenc c3 (mRoundKey ! 9);
          c4 = mm_aesenc c4 (mRoundKey ! 9); c5 = mm_aesenc c5 (mRoundKey ! 9); c6 = mm_aesenc c6 (mRoundKey ! 9); c7 = mm_aesenc c7 (mRoundKey ! 9);
          c8 = mm_aesenc c8 (mRoundKey ! 9); c9 = mm_aesenc c9 (mRoundKey ! 9); c10 = mm_aesenc c10 (mRoundKey ! 9); c11 = mm_aesenc c11 (mRoundKey ! 9);
          c12 = mm_aesenc c12 (mRoundKey ! 9); c13 = mm_aesenc c13 (mRoundKey ! 9); c14 = mm_aesenc c14 (mRoundKey ! 9); c15 = mm_aesenc c15 (mRoundKey ! 9);
          c0 = mm_aesenclast c0 (mRoundKey ! 10); c1 = mm_aesenclast c1 (mRoundKey ! 10); c2 = mm_aesenclast c2 (mRoundKey ! 10); c3 = mm_aesenclast c3 (mRoundKey ! 10);
          c4 = mm_aesenclast c4 (mRoundKey ! 10); c5 = mm_aesenclast c5 (mRoundKey ! 10); c6 = mm_aesenclast c6 (mRoundKey ! 10); c7 = mm_aesenclast c7 (mRoundKey ! 10);
          c8 = mm_aesenclast c8 (mRoundKey ! 10); c9 = mm_aesenclast c9 (mRoundKey ! 10); c10 = mm_aesenclast c10 (mRoundKey ! 10); c11 = mm_aesenclast c11 (mRoundKey ! 10);
          c12 = mm_aesenclast c12 (mRoundKey ! 10); c13 = mm_aesenclast c13 (mRoundKey ! 10); c14 = mm_aesenclast c14 (mRoundKey ! 10); c15 = mm_aesenclast c15 (mRoundKey ! 10)
      in [c0, c1, c2, c3, c4, c5, c6, c7, c8, c9, c10, c11, c12, c13, c14, c15])"

text \<open>The index is 64 bits wide and wraps; it fills both halves of the block.\<close>

definition ctr_eight :: "block list \<Rightarrow> u64 \<Rightarrow> block list" where
  "ctr_eight mRoundKey baseIdx =
     (let c0 = mm_set1_epi64x (baseIdx + 0) XOR mRoundKey ! 0; c1 = mm_set1_epi64x (baseIdx + 1) XOR mRoundKey ! 0; c2 = mm_set1_epi64x (baseIdx + 2) XOR mRoundKey ! 0; c3 = mm_set1_epi64x (baseIdx + 3) XOR mRoundKey ! 0;
          c4 = mm_set1_epi64x (baseIdx + 4) XOR mRoundKey ! 0; c5 = mm_set1_epi64x (baseIdx + 5) XOR mRoundKey ! 0; c6 = mm_set1_epi64x (baseIdx + 6) XOR mRoundKey ! 0; c7 = mm_set1_epi64x (baseIdx + 7) XOR mRoundKey ! 0;
          c0 = mm_aesenc c0 (mRoundKey ! 1); c1 = mm_aesenc c1 (mRoundKey ! 1); c2 = mm_aesenc c2 (mRoundKey ! 1); c3 = mm_aesenc c3 (mRoundKey ! 1);
          c4 = mm_aesenc c4 (mRoundKey ! 1); c5 = mm_aesenc c5 (mRoundKey ! 1); c6 = mm_aesenc c6 (mRoundKey ! 1); c7 = mm_aesenc c7 (mRoundKey ! 1);
          c0 = mm_aesenc c0 (mRoundKey ! 2); c1 = mm_aesenc c1 (mRoundKey ! 2); c2 = mm_aesenc c2 (mRoundKey ! 2); c3 = mm_aesenc c3 (mRoundKey ! 2);
          c4 = mm_aesenc c4 (mRoundKey ! 2); c5 = mm_aesenc c5 (mRoundKey ! 2); c6 = mm_aesenc c6 (mRoundKey ! 2); c7 = mm_aesenc c7 (mRoundKey ! 2);
          c0 = mm_aesenc c0 (mRoundKey ! 3); c1 = mm_aesenc c1 (mRoundKey ! 3); c2 = mm_aesenc c2 (mRoundKey ! 3); c3 = mm_aesenc c3 (mRoundKey ! 3);
          c4 = mm_aesenc c4 (mRoundKey ! 3); c5 = mm_aesenc c5 (mRoundKey ! 3); c6 = mm_aesenc c6 (mRoundKey ! 3); c7 = mm_aesenc c7 (mRoundKey ! 3);
          c0 = mm_aesenc c0 (mRoundKey ! 4); c1 = mm_aesenc c1 (mRoundKey ! 4); c2 = mm_aesenc c2 (mRoundKey ! 4); c3 = mm_aesenc c3 (mRoundKey ! 4);
          c4 = mm_aesenc c4 (mRoundKey ! 4); c5 = mm_aesenc c5 (mRoundKey ! 4); c6 = mm_aesenc c6 (mRoundKey ! 4); c7 = mm_aesenc c7 (mRoundKey ! 4);
          c0 = mm_aesenc c0 (mRoundKey ! 5); c1 = mm_aesenc c1 (mRoundKey ! 5); c2 = mm_aesenc c2 (mRoundKey ! 5); c3 = mm_aesenc c3 (mRoundKey ! 5);
          c4 = mm_aesenc c4 (mRoundKey ! 5); c5 = mm_aesenc c5 (mRoundKey ! 5); c6 = mm_aesenc c6 (mRoundKey ! 5); c7 = mm_aesenc c7 (mRoundKey ! 5);
          c0 = mm_aesenc c0 (mRoundKey ! 6); c1 = mm_aesenc c1 (mRoundKey ! 6); c2 = mm_aesenc c2 (mRoundKey ! 6); c3 = mm_aesenc c3 (mRoundKey ! 6);
          c4 = mm_aesenc c4 (mRoundKey ! 6); c5 = mm_aesenc c5 (mRoundKey ! 6); c6 = mm_aesenc c6 (mRoundKey ! 6); c7 = mm_aesenc c7 (mRoundKey ! 6);
          c0 = mm_aesenc c0 (mRoundKey ! 7); c1 = mm_aesenc c1 (mRoundKey ! 7); c2 = mm_aesenc c2 (mRoundKey ! 7); c3 = mm_aesenc c3 (mRoundKey ! 7);
          c4 = mm_aesenc c4 (mRoundKey ! 7); c5 = mm_aesenc c5 (mRoundKey ! 7); c6 = mm_aesenc c6 (mRoundKey ! 7); c7 = mm_aesenc c7 (mRoundKey ! 7);
          c0 = mm_aesenc c0 (mRoundKey ! 8); c1 = mm_aesenc c1 (mRoundKey ! 8); c2 = mm_aesenc c2 (mRoundKey ! 8); c3 = mm_aesenc c3 (mRoundKey ! 8);
          c4 = mm_aesenc c4 (mRoundKey ! 8); c5 = mm_aesenc c5 (mRoundKey ! 8); c6 = mm_aesenc c6 (mRoundKey ! 8); c7 = mm_aesenc c7 (mRoundKey ! 8);
          c0 = mm_aesenc c0 (mRoundKey ! 9); c1 = mm_aesenc c1 (mRoundKey ! 9); c2 = mm_aesenc c2 (mRoundKey ! 9); c3 = mm_aesenc c3 (mRoundKey ! 9);
          c4 = mm_aesenc c4 (mRoundKey ! 9); c5 = mm_aesenc c5 (mRoundKey ! 9); c6 = mm_aesenc c6 (mRoundKey ! 9); c7 = mm_aesenc c7 (mRoundKey ! 9);
          c0 = mm_aesenclast c0 (mRoundKey ! 10); c1 = mm_aesenclast c1 (mRoundKey ! 10); c2 = mm_aesenclast c2 (mRoundKey ! 10); c3 = mm_aesenclast c3 (mRoundKey ! 10);
          c4 = mm_aesenclast c4 (mRoundKey ! 10); c5 = mm_aesenclast c5 (mRoundKey ! 10); c6 = mm_aesenclast c6 (mRoundKey ! 10); c7 = mm_aesenclast c7 (mRoundKey ! 10)
      in [c0, c1, c2, c3, c4, c5, c6, c7])"

definition ctr_left :: "block list \<Rightarrow> u64 \<Rightarrow> block" where
  "ctr_left mRoundKey baseIdx =
     (let c = mm_set1_epi64x baseIdx XOR mRoundKey ! 0; c = mm_aesenc c (mRoundKey ! 1); c = mm_aesenc c (mRoundKey ! 2); c = mm_aesenc c (mRoundKey ! 3);
          c = mm_aesenc c (mRoundKey ! 4); c = mm_aesenc c (mRoundKey ! 5); c = mm_aesenc c (mRoundKey ! 6); c = mm_aesenc c (mRoundKey ! 7);
          c = mm_aesenc c (mRoundKey ! 8); c = mm_aesenc c (mRoundKey ! 9); c = mm_aesenclast c (mRoundKey ! 10)
      in c)"

definition ecbEncCounterMode :: "block list \<Rightarrow> u64 \<Rightarrow> nat \<Rightarrow> block list" where
  "ecbEncCounterMode mRoundKey baseIdx blockLength =
     (let len = blockLength - blockLength mod 8
      in concat (map (\<lambda>b. ctr_eight mRoundKey (baseIdx + word_of_nat (8 * b))) [0..<len div 8]) @
         map (\<lambda>idx. ctr_left mRoundKey (baseIdx + word_of_nat idx)) [len..<blockLength])"

definition AESDec_setKey :: "block \<Rightarrow> block list" where
  "AESDec_setKey userKey =
     (let v = AES_setKey userKey
      in [v ! 10] @ map (\<lambda>i. mm_aesimc (v ! (10 - i))) [1..<10] @ [v ! 0])"

definition ecbDecBlock :: "block list \<Rightarrow> block \<Rightarrow> block" where
  "ecbDecBlock mRoundKey cyphertext =
     (let p = cyphertext XOR mRoundKey ! 0;
          p = foldl mm_aesdec p (map ((!) mRoundKey) [1..<10])
      in mm_aesdeclast p (mRoundKey ! 10))"

section \<open>The S-box is a permutation\<close>

lemma length_SBOX: "length SBOX = 256"
  by (simp add: SBOX_def)

lemma SBOX_range: "list_all (\<lambda>v. 0 \<le> v \<and> v < 256) SBOX"
  by (simp add: SBOX_def)

lemma SBOX_distinct: "distinct SBOX"
  unfolding SBOX_def by code_simp

lemma takeWhile_index:
  "distinct xs \<Longrightarrow> i < length xs \<Longrightarrow> length (takeWhile (\<lambda>v. v \<noteq> xs ! i) xs) = i"
proof (induction xs arbitrary: i)
  case (Cons x xs)
  then show ?case by (cases i) auto
qed simp

lemma SBOX_nth: "i < 256 \<Longrightarrow> 0 \<le> SBOX ! i \<and> SBOX ! i < 256"
  using SBOX_range length_SBOX by (simp add: list_all_length)

lemma InvSubByte_SubByte [simp]: "InvSubByte (SubByte x) = x"
proof -
  have x: "unat x < 256" using unsigned_less [of x] by simp
  have "uint (SubByte x) = SBOX ! unat x"
    using SBOX_nth [OF x] by (simp add: SubByte_def uint_word_of_int take_bit_int_eq_self)
  then show ?thesis using takeWhile_index [OF SBOX_distinct, of "unat x"] x length_SBOX by (simp add: InvSubByte_def)
qed

section \<open>The layers are inverted\<close>

lemma shift_index:
  "list_all (\<lambda>i. let j = i mod 4 + 4 * ((i div 4 + 4 - i mod 4) mod 4)
     in j < 16 \<and> j mod 4 + 4 * ((j div 4 + j mod 4) mod 4) = i) [0..<16]"
  by code_simp

lemma InvShiftRows_ShiftRows: "length s = 16 \<Longrightarrow> InvShiftRows (ShiftRows s) = s"
  unfolding InvShiftRows_def ShiftRows_def
  using shift_index by (intro nth_equalityI) (simp_all add: list_all_length Let_def)

lemma xtime_xor: "xtime (a XOR b) = xtime a XOR xtime b"
  by (auto simp: xtime_def push_bit_xor bit_xor_iff xor.left_commute xor.assoc)

lemma inv_mix_mix:
  "inv_mix_byte (mix_byte a b c d) (mix_byte b c d a) (mix_byte c d a b) (mix_byte d a b c) = a"
  by (simp add: inv_mix_byte_def mix_byte_def Let_def xtime_xor ac_simps)

lemma length_mix_with [simp]: "length (mix_with f s) = 16"
  by (simp add: mix_with_def)

lemma mix_with_nth:
  assumes "q < 4"
  shows "mix_with f s ! (4 * q + r mod 4) =
    f (s ! (4 * q + r mod 4)) (s ! (4 * q + (r + 1) mod 4)) (s ! (4 * q + (r + 2) mod 4)) (s ! (4 * q + (r + 3) mod 4))"
proof -
  have lt: "4 * q + r mod 4 < 16" using assms mod_less_divisor [of 4 r] by linarith
  have d: "(4 * q + r mod 4) div 4 = q" by simp
  have m: "(4 * q + r mod 4 + k) mod 4 = (r + k) mod 4" for k by (simp add: mod_simps add.assoc)
  show ?thesis using lt d m [of 0] m [of 1] m [of 2] m [of 3] by (simp add: mix_with_def Let_def)
qed

lemma mix_with_column:
  assumes "q < 4"
  shows "mix_with f s ! (4 * q) = f (s ! (4 * q)) (s ! (4 * q + 1)) (s ! (4 * q + 2)) (s ! (4 * q + 3))"
    and "mix_with f s ! (4 * q + 1) = f (s ! (4 * q + 1)) (s ! (4 * q + 2)) (s ! (4 * q + 3)) (s ! (4 * q))"
    and "mix_with f s ! (4 * q + 2) = f (s ! (4 * q + 2)) (s ! (4 * q + 3)) (s ! (4 * q)) (s ! (4 * q + 1))"
    and "mix_with f s ! (4 * q + 3) = f (s ! (4 * q + 3)) (s ! (4 * q)) (s ! (4 * q + 1)) (s ! (4 * q + 2))"
  using mix_with_nth [OF assms, of f s 0] mix_with_nth [OF assms, of f s 1] mix_with_nth [OF assms, of f s 2]
    mix_with_nth [OF assms, of f s 3] by simp_all

lemma length_Mix [simp]: "length (MixColumns s) = 16" "length (InvMixColumns s) = 16"
  by (simp_all add: MixColumns_def InvMixColumns_def)

lemma InvMixColumns_MixColumns: "length s = 16 \<Longrightarrow> InvMixColumns (MixColumns s) = s"
proof (rule nth_equalityI)
  fix i assume s: "length s = 16" and "i < length (InvMixColumns (MixColumns s))"
  then have i: "i div 4 < 4" and "i = 4 * (i div 4) + i mod 4" by (simp_all add: InvMixColumns_def less_mult_imp_div_less)
  moreover have "i mod 4 = 0 \<or> i mod 4 = 1 \<or> i mod 4 = 2 \<or> i mod 4 = 3" using mod_less_divisor [of 4 i] by linarith
  ultimately have "i = 4 * (i div 4) \<or> i = 4 * (i div 4) + 1 \<or> i = 4 * (i div 4) + 2 \<or> i = 4 * (i div 4) + 3" by linarith
  moreover have "InvMixColumns (MixColumns s) ! j = s ! j"
    if "j \<in> {4 * (i div 4), 4 * (i div 4) + 1, 4 * (i div 4) + 2, 4 * (i div 4) + 3}" for j
    using that unfolding InvMixColumns_def MixColumns_def by (auto simp only: mix_with_column [OF i] inv_mix_mix insert_iff empty_iff)
  ultimately show "InvMixColumns (MixColumns s) ! i = s ! i" by blast
qed (simp add: InvMixColumns_def)

lemma mix_lin: "InvMixColumns (xor_list s t) = xor_list (InvMixColumns s) (InvMixColumns t)" if "length s = 16" "length t = 16"
proof (rule nth_equalityI)
  fix i assume "i < length (InvMixColumns (xor_list s t))"
  then have i: "i < 16" by (simp add: InvMixColumns_def)
  have lt: "4 * (i div 4) + (i + k) mod 4 < 16" for k
    using less_mult_imp_div_less [of i 4 4] i mod_less_divisor [of 4 "i + k"] by linarith
  have l0: "4 * (i div 4) + i mod 4 < 16" using lt [of 0] by simp
  have add: "inv_mix_byte (a XOR a') (b XOR b') (c XOR c') (d XOR d') = inv_mix_byte a b c d XOR inv_mix_byte a' b' c' d'" for a a' b b' c c' d d'
    by (simp add: inv_mix_byte_def Let_def xtime_xor ac_simps)
  show "InvMixColumns (xor_list s t) ! i = xor_list (InvMixColumns s) (InvMixColumns t) ! i"
    using i that l0 lt [of 1] lt [of 2] lt [of 3]
    by (simp add: InvMixColumns_def mix_with_def Let_def add)
qed (simp add: InvMixColumns_def)

section \<open>Blocks as bytes\<close>

lemma nth_digits: "i < n \<Longrightarrow> digits b n x ! i = x div b ^ i mod b"
  by (induction n arbitrary: x i) (auto simp: nth_Cons' div_mult2_eq less_Suc_eq_0_disj)

lemma nth_block_bytes: "i < 16 \<Longrightarrow> block_bytes b ! i = ucast (drop_bit (8 * i) b)"
proof -
  assume i: "i < 16"
  have "block_bytes b ! i = word_of_nat (unat b div 256 ^ i mod 256)" using i by (simp add: block_bytes_def nth_digits)
  also have "(256::nat) ^ i = 2 ^ (8 * i)" by (simp add: power_mult)
  also have "word_of_nat (unat b div 2 ^ (8 * i) mod 256) = (ucast (drop_bit (8 * i) b) :: u8)"
    by (rule bit_word_eqI) (simp add: bit_simps bit_of_nat_iff bit_unsigned_iff flip: drop_bit_eq_div take_bit_eq_mod [of 8, simplified])
  finally show ?thesis .
qed

lemma block_bytes_xor: "block_bytes (a XOR b) = xor_list (block_bytes a) (block_bytes b)"
  by (rule nth_equalityI) (simp_all add: nth_block_bytes unsigned_xor_eq drop_bit_xor)

lemma bytes_block_xor:
  "length s = 16 \<Longrightarrow> length t = 16 \<Longrightarrow> bytes_block (xor_list s t) = bytes_block s XOR bytes_block t"
  using block_bytes_xor [of "bytes_block s" "bytes_block t"]
  by (metis block_bytes_bytes_block bytes_block_block_bytes)

lemma on_bytes_on_bytes:
  "(\<And>s. length s = 16 \<Longrightarrow> length (f s) = 16) \<Longrightarrow> on_bytes g (on_bytes f x) = on_bytes (\<lambda>s. g (f s)) x"
  by (simp add: on_bytes_def block_bytes_bytes_block)

section \<open>The inverse cipher\<close>

definition sub_shift :: "block \<Rightarrow> block" where
  "sub_shift x = on_bytes (\<lambda>s. map SubByte (ShiftRows s)) x"

lemma length_ShiftRows [simp]: "length (ShiftRows s) = 16" "length (InvShiftRows s) = 16"
  by (simp_all add: ShiftRows_def InvShiftRows_def)

lemma InvShiftRows_map: "length s = 16 \<Longrightarrow> InvShiftRows (map f s) = map f (InvShiftRows s)"
proof -
  assume s: "length s = 16"
  have "list_all (\<lambda>i. i mod 4 + 4 * ((i div 4 + 4 - i mod 4) mod 4) < (16::nat)) [0..<16]" by code_simp
  then show ?thesis using s by (simp add: InvShiftRows_def list_all_length)
qed

lemma undo_sub_shift: "on_bytes (\<lambda>s. map InvSubByte (InvShiftRows s)) (sub_shift x) = x"
  unfolding sub_shift_def
  by (subst on_bytes_on_bytes) (simp_all add: InvShiftRows_map InvShiftRows_ShiftRows on_bytes_def comp_def)

lemma aesenc_eq: "mm_aesenc x k = on_bytes MixColumns (sub_shift x) XOR k" "mm_aesenclast x k = sub_shift x XOR k"
  unfolding sub_shift_def mm_aesenc_def mm_aesenclast_def by (simp_all add: on_bytes_on_bytes)

lemma imc_mix: "mm_aesimc (on_bytes MixColumns x) = x"
  unfolding mm_aesimc_def by (subst on_bytes_on_bytes) (simp_all add: InvMixColumns_MixColumns on_bytes_def)

lemma imc_xor: "mm_aesimc (x XOR y) = mm_aesimc x XOR mm_aesimc y"
  by (simp add: mm_aesimc_def on_bytes_def block_bytes_xor mix_lin bytes_block_xor)

text \<open>A decryption round under the transformed key takes one encryption round off.\<close>

lemma aesdec_round: "mm_aesdec (sub_shift (mm_aesenc x k)) (mm_aesimc k) = sub_shift x"
proof -
  have "mm_aesdec (sub_shift y) k' = mm_aesimc y XOR k'" for y k'
  proof -
    have "on_bytes (\<lambda>s. InvMixColumns (map InvSubByte (InvShiftRows s))) z =
        mm_aesimc (on_bytes (\<lambda>s. map InvSubByte (InvShiftRows s)) z)" for z
      unfolding mm_aesimc_def by (subst on_bytes_on_bytes) simp_all
    then show ?thesis by (simp add: mm_aesdec_def undo_sub_shift)
  qed
  then show ?thesis by (simp add: aesenc_eq imc_xor imc_mix xor.assoc)
qed

lemma aesdec_rounds:
  "foldl mm_aesdec (sub_shift (foldl mm_aesenc x ks)) (map mm_aesimc (rev ks)) = sub_shift x"
  by (induction ks rule: rev_induct) (simp_all add: aesdec_round)

lemma length_expand_key [simp]: "length (expand_key v rcs) = Suc (length rcs)"
  by (induction v rcs rule: expand_key.induct) simp_all

lemma AESDec_keys:
  "AESDec_setKey key ! 0 = AES_setKey key ! 10" "AESDec_setKey key ! 10 = AES_setKey key ! 0"
  "map ((!) (AESDec_setKey key)) [1..<10] = map mm_aesimc (rev (map ((!) (AES_setKey key)) [1..<10]))"
proof -
  have r: "rev [1..<10] = map (\<lambda>i. 10 - i) [1..<10::nat]" by code_simp
  show "AESDec_setKey key ! 0 = AES_setKey key ! 10" "AESDec_setKey key ! 10 = AES_setKey key ! 0"
    by (simp_all add: AESDec_setKey_def Let_def nth_append)
  have "map ((!) (AESDec_setKey key)) [1..<10] = map (\<lambda>i. mm_aesimc (AES_setKey key ! (10 - i))) [1..<10]"
    by (intro map_cong) (auto simp: AESDec_setKey_def Let_def nth_append nth_Cons')
  then show "map ((!) (AESDec_setKey key)) [1..<10] = map mm_aesimc (rev (map ((!) (AES_setKey key)) [1..<10]))"
    unfolding rev_map r by (simp add: comp_def)
qed

lemma ecbDec_ecbEnc: "ecbDecBlock (AESDec_setKey key) (ecbEncBlock (AES_setKey key) x) = x"
proof -
  let ?k = "AES_setKey key" and ?ks = "map ((!) (AES_setKey key)) [1..<10]"
  have "ecbEncBlock ?k x XOR AESDec_setKey key ! 0 = sub_shift (foldl mm_aesenc (x XOR ?k ! 0) ?ks)"
    unfolding ecbEncBlock_def Let_def aesenc_eq(2) AESDec_keys(1) by (simp add: xor.assoc)
  then have "ecbDecBlock (AESDec_setKey key) (ecbEncBlock ?k x) = mm_aesdeclast (sub_shift (x XOR ?k ! 0)) (?k ! 0)"
    unfolding ecbDecBlock_def Let_def AESDec_keys(2,3) by (simp only: aesdec_rounds)
  then show ?thesis by (simp add: mm_aesdeclast_def undo_sub_shift xor.assoc)
qed

lemma ecbEnc_ecbDec: "ecbEncBlock (AES_setKey key) (ecbDecBlock (AESDec_setKey key) y) = y"
proof -
  have "inj (ecbEncBlock (AES_setKey key))" using ecbDec_ecbEnc by (rule inj_on_inverseI)
  then have "surj (ecbEncBlock (AES_setKey key))" by (intro finite_UNIV_inj_surj) simp_all
  then obtain x where "y = ecbEncBlock (AES_setKey key) x" by blast
  then show ?thesis using ecbDec_ecbEnc by simp
qed

section \<open>Batches\<close>

lemma ecbEncBlock_rounds:
  "ecbEncBlock rk p = mm_aesenclast (mm_aesenc (mm_aesenc (mm_aesenc (mm_aesenc (mm_aesenc (mm_aesenc (mm_aesenc (mm_aesenc (mm_aesenc
     (p XOR rk ! 0) (rk ! 1)) (rk ! 2)) (rk ! 3)) (rk ! 4)) (rk ! 5)) (rk ! 6)) (rk ! 7)) (rk ! 8)) (rk ! 9)) (rk ! 10)"
proof -
  have "[1..<10] = [1, 2, 3, 4, 5, 6, 7, 8, 9 :: nat]" by code_simp
  then show ?thesis by (simp only: ecbEncBlock_def Let_def list.map foldl.simps)
qed

text \<open>Every lane of an unrolled routine is the encryption of its own block.\<close>

lemma enc_eight_lanes: "enc_eight rk ps idx = map (\<lambda>i. ecbEncBlock rk (ps ! (idx + i))) [0, 1, 2, 3, 4, 5, 6, 7]"
  by (simp only: enc_eight_def Let_def list.map ecbEncBlock_rounds)

lemma enc_left_block: "enc_left rk ps idx = ecbEncBlock rk (ps ! idx)"
  by (simp only: enc_left_def Let_def ecbEncBlock_rounds)

lemma ecbEncTwoBlocks_lanes: "ecbEncTwoBlocks rk ps = map (\<lambda>i. ecbEncBlock rk (ps ! i)) [0, 1]"
  by (simp only: ecbEncTwoBlocks_def Let_def list.map ecbEncBlock_rounds)

lemma ecbEncFourBlocks_lanes: "ecbEncFourBlocks rk ps = map (\<lambda>i. ecbEncBlock rk (ps ! i)) [0, 1, 2, 3]"
  by (simp only: ecbEncFourBlocks_def Let_def list.map ecbEncBlock_rounds)

lemma ecbEnc16Blocks_lanes:
  "ecbEnc16Blocks rk ps = map (\<lambda>i. ecbEncBlock rk (ps ! i)) [0, 1, 2, 3, 4, 5, 6, 7, 8, 9, 10, 11, 12, 13, 14, 15]"
  by (simp only: ecbEnc16Blocks_def Let_def list.map ecbEncBlock_rounds)

lemma ctr_eight_lanes: "ctr_eight rk base = map (\<lambda>i. ecbEncBlock rk (mm_set1_epi64x (base + i))) [0, 1, 2, 3, 4, 5, 6, 7]"
  by (simp only: ctr_eight_def Let_def list.map ecbEncBlock_rounds)

lemma ctr_left_block: "ctr_left rk base = ecbEncBlock rk (mm_set1_epi64x base)"
  by (simp only: ctr_left_def Let_def ecbEncBlock_rounds)

lemma upt_8: "[0..<8] = [0, 1, 2, 3, 4, 5, 6, 7 :: nat]"
  by code_simp

lemma concat_batches:
  "8 * k \<le> length xs \<Longrightarrow> concat (map (\<lambda>b. map f (slice (8 * b) 8 xs)) [0..<k]) = map f (take (8 * k) xs)"
proof (induction k)
  case (Suc k)
  have "take (8 * Suc k) xs = take (8 * k) xs @ slice (8 * k) 8 xs" using take_add [of "8 * k" 8 xs] by (simp add: slice_def add.commute)
  then show ?case using Suc by simp
qed simp

lemma batches_tail:
  assumes "n = length xs"
  shows "concat (map (\<lambda>b. map f (slice (8 * b) 8 xs)) [0..<(n - n mod 8) div 8]) @ map (\<lambda>i. f (xs ! i)) [n - n mod 8..<n] = map f xs"
proof -
  define k where "k = n div 8"
  have e: "n - n mod 8 = 8 * k" by (simp add: k_def minus_mod_eq_mult_div)
  have "map (\<lambda>i. f (xs ! i)) [8 * k..<n] = map f (drop (8 * k) xs)" using assms by (intro nth_equalityI) simp_all
  moreover have "8 * k \<le> length xs" using assms by (simp add: k_def)
  ultimately show ?thesis unfolding e using concat_batches [of k xs f] by (simp flip: map_append)
qed

lemma ecbEncBlocks_map: "ecbEncBlocks rk ps = map (ecbEncBlock rk) ps"
proof -
  let ?k = "(length ps - length ps mod 8) div 8"
  have "enc_eight rk ps (8 * b) = map (ecbEncBlock rk) (slice (8 * b) 8 ps)" if "b < ?k" for b
  proof -
    have "8 * b + 8 \<le> length ps" using that by (auto simp: minus_mod_eq_mult_div less_eq_Suc_le)
    then have "slice (8 * b) 8 ps = map (\<lambda>i. ps ! (8 * b + i)) [0..<8]" by (intro nth_equalityI) (simp_all add: slice_def)
    then show ?thesis unfolding enc_eight_lanes upt_8 by simp
  qed
  then have "map (\<lambda>b. enc_eight rk ps (8 * b)) [0..<?k] = map (\<lambda>b. map (ecbEncBlock rk) (slice (8 * b) 8 ps)) [0..<?k]"
    by (intro map_cong refl) (simp only: set_upt atLeastLessThan_iff)
  moreover have "enc_left rk ps = (\<lambda>i. ecbEncBlock rk (ps ! i))" by (rule ext) (rule enc_left_block)
  ultimately show ?thesis using batches_tail [OF refl, of "ecbEncBlock rk" ps] by (simp only: ecbEncBlocks_def Let_def)
qed

lemma ecbEncCounterMode_map:
  "ecbEncCounterMode rk base n = map (\<lambda>i. ecbEncBlock rk (mm_set1_epi64x (base + word_of_nat i))) [0..<n]"
proof -
  let ?xs = "map (\<lambda>i. mm_set1_epi64x (base + word_of_nat i)) [0..<n]" and ?k = "(n - n mod 8) div 8"
  have "ctr_eight rk (base + word_of_nat (8 * b)) = map (ecbEncBlock rk) (slice (8 * b) 8 ?xs)" if "b < ?k" for b
  proof -
    have "8 * b + 8 \<le> n" using that by (auto simp: minus_mod_eq_mult_div less_eq_Suc_le)
    then have "slice (8 * b) 8 ?xs = map (\<lambda>i. mm_set1_epi64x (base + word_of_nat (8 * b) + word_of_nat i)) [0..<8]"
      by (intro nth_equalityI) (simp_all add: slice_def add.assoc)
    then show ?thesis unfolding ctr_eight_lanes upt_8 by simp
  qed
  then have m: "map (\<lambda>b. ctr_eight rk (base + word_of_nat (8 * b))) [0..<?k] = map (\<lambda>b. map (ecbEncBlock rk) (slice (8 * b) 8 ?xs)) [0..<?k]"
    by (intro map_cong refl) (simp only: set_upt atLeastLessThan_iff)
  have "ecbEncCounterMode rk base n = concat (map (\<lambda>b. map (ecbEncBlock rk) (slice (8 * b) 8 ?xs)) [0..<?k]) @
      map (\<lambda>i. ecbEncBlock rk (?xs ! i)) [n - n mod 8..<n]"
    unfolding ecbEncCounterMode_def Let_def m ctr_left_block by simp
  also have "\<dots> = map (ecbEncBlock rk) ?xs" by (rule batches_tail) simp
  finally show ?thesis by (simp add: comp_def)
qed

text \<open>The cipher of HCTR2, with the classes \<open>AES\<close> and \<open>AESDec\<close>.\<close>

definition hctr_aes_ni :: hctr_aes where
  "hctr_aes_ni = \<lparr> ha_enc = (\<lambda>k. ecbEncBlock (AES_setKey k)), ha_dec = (\<lambda>k. ecbDecBlock (AESDec_setKey k)) \<rparr>"

lemma aes_inverse_ni: "aes_inverse hctr_aes_ni k"
  by (simp add: aes_inverse_def hctr_aes_ni_def ecbDec_ecbEnc ecbEnc_ecbDec)

end
