(* ===== verification/Crypto_Defines.thy ===== *)
theory Crypto_Defines
  imports Crypto_Aes
begin

text \<open>
  The free functions of \<open>cryptoTools/Common/Defines.cpp\<close>: the fixed-key pseudo-random function,
  the splitting of a string at a delimiter, and the logarithm by a multiplication and a table
  look-up.
\<close>

section \<open>The fixed-key function\<close>

definition fixed_key :: block where
  "fixed_key = bytes_block [-13, 29, -20, 98, -96, -51, -86, -82, 9, 49, -26, 92, -22, 50, -100, 36]"

definition mAesFixedKey :: "block list" where
  "mAesFixedKey = AES_setKey fixed_key"

definition PRF :: "block \<Rightarrow> u64 \<Rightarrow> block" where
  "PRF b i =
     (let tweak = mm_set1_epi64x i;
          ret = b XOR tweak;
          enc = ecbEncBlock mAesFixedKey ret
      in ret XOR enc)"

section \<open>Splitting a string\<close>

text \<open>
  \<open>std::getline\<close> extracts up to the delimiter and drops it; it fails, and the loop ends, when
  nothing is left to extract. A delimiter at the end is therefore not followed by an empty piece.
\<close>

function split :: "string \<Rightarrow> char \<Rightarrow> string list" where
  "split s delim =
     (if s = [] then []
      else takeWhile (\<lambda>c. c \<noteq> delim) s # split (drop 1 (dropWhile (\<lambda>c. c \<noteq> delim) s)) delim)"
  by pat_completeness auto
termination
proof (relation "measure (\<lambda>(s, d). length s)")
  fix s :: string and delim :: char
  assume "s \<noteq> []"
  moreover have "length (dropWhile (\<lambda>c. c \<noteq> delim) s) \<le> length s" by (rule length_dropWhile_le)
  ultimately show "((drop 1 (dropWhile (\<lambda>c. c \<noteq> delim) s), delim), s, delim) \<in> measure (\<lambda>(s, d). length s)"
    by (cases s) auto
qed simp

declare split.simps [simp del]

lemma split_last: "s \<noteq> [] \<Longrightarrow> d \<notin> set s \<Longrightarrow> split s d = [s]"
proof -
  assume s: "s \<noteq> []" "d \<notin> set s"
  then have e: "takeWhile (\<lambda>c. c \<noteq> d) s = s" "dropWhile (\<lambda>c. c \<noteq> d) s = []" by (auto simp: takeWhile_eq_all_conv)
  have "split s d = takeWhile (\<lambda>c. c \<noteq> d) s # split (drop 1 (dropWhile (\<lambda>c. c \<noteq> d) s)) d"
    using s(1) by (simp add: split.simps [of s])
  then show ?thesis unfolding e by (simp add: split.simps [of "[]"])
qed

lemma split_piece: "d \<notin> set a \<Longrightarrow> split (a @ d # s) d = a # split s d"
proof -
  assume d: "d \<notin> set a"
  then have p: "\<forall>c \<in> set a. c \<noteq> d" by auto
  then have "takeWhile (\<lambda>c. c \<noteq> d) (a @ d # s) = a" "dropWhile (\<lambda>c. c \<noteq> d) (a @ d # s) = d # s"
    by (induction a) auto
  then show ?thesis by (simp add: split.simps [of "a @ d # s"])
qed

lemma split_pieces_free: "p \<in> set (split s d) \<Longrightarrow> d \<notin> set p"
proof (induction s d rule: split.induct)
  case (1 s d)
  then show ?case by (auto simp: split.simps [of s] split: if_splits dest: set_takeWhileD)
qed

section \<open>The integer logarithm\<close>

definition tab64 :: "nat list" where
  "tab64 = [
     63,  0, 58,  1, 59, 47, 53,  2,
     60, 39, 48, 27, 54, 33, 42,  3,
     61, 51, 37, 40, 49, 18, 28, 20,
     55, 30, 34, 11, 43, 14, 22,  4,
     62, 57, 46, 52, 38, 26, 32, 41,
     50, 36, 17, 19, 29, 10, 13, 21,
     56, 45, 25, 31, 35, 16,  9, 12,
     44, 24, 15,  8, 23,  7,  6,  5]"

definition log2floor :: "u64 \<Rightarrow> u64" where
  "log2floor value =
     (let value = value OR drop_bit 1 value;
          value = value OR drop_bit 2 value;
          value = value OR drop_bit 4 value;
          value = value OR drop_bit 8 value;
          value = value OR drop_bit 16 value;
          value = value OR drop_bit 32 value
      in word_of_nat (tab64 ! unat (drop_bit 58 ((value - drop_bit 1 value) * 0x07EDD5E59A4E28C2))))"

text \<open>A word in which each bit says whether one of the \<open>n\<close> bits from there on is set in \<open>v\<close>.\<close>

definition smeared :: "nat \<Rightarrow> u64 \<Rightarrow> u64 \<Rightarrow> bool" where
  "smeared n v w \<longleftrightarrow> (\<forall>i. bit w i \<longleftrightarrow> (\<exists>j < n. bit v (i + j)))"

lemma smeared_start: "smeared 1 v v"
  by (simp add: smeared_def)

lemma smeared_double: "smeared n v w \<Longrightarrow> m = n + n \<Longrightarrow> smeared m v (w OR drop_bit n w)"
proof -
  assume "smeared n v w" "m = n + n"
  moreover have "(\<exists>j < n + n. P (j :: nat)) \<longleftrightarrow> (\<exists>j < n. P j) \<or> (\<exists>j < n. P (n + j))" for P
  proof
    assume "\<exists>j < n + n. P j"
    then obtain j where j: "j < n + n" "P j" by blast
    then show "(\<exists>j < n. P j) \<or> (\<exists>j < n. P (n + j))"
      by (cases "j < n") (auto intro: exI [of _ "j - n"])
  next
    assume "(\<exists>j < n. P j) \<or> (\<exists>j < n. P (n + j))"
    then show "\<exists>j < n + n. P j" by (metis add_less_cancel_left trans_less_add1)
  qed
  ultimately show ?thesis by (simp add: smeared_def bit_simps ac_simps)
qed

lemma smeared_mask:
  assumes s: "smeared 64 v w" and k: "bit v k" "\<And>j. k < j \<Longrightarrow> \<not> bit v j"
  shows "w = mask (Suc k)"
proof (rule bit_word_eqI)
  fix i assume "i < LENGTH(64)"
  moreover have "k < 64" using k(1) by (auto dest: bit_imp_le_length)
  moreover have "(\<exists>j < 64. bit v (i + j)) \<longleftrightarrow> i \<le> k"
  proof
    assume "i \<le> k"
    then have "k - i < 64" "bit v (i + (k - i))" using k \<open>k < 64\<close> by auto
    then show "\<exists>j < 64. bit v (i + j)" by blast
  next
    assume "\<exists>j < 64. bit v (i + j)"
    then obtain j where "bit v (i + j)" by blast
    then show "i \<le> k" using k(2) [of "i + j"] by (cases "i \<le> k") auto
  qed
  ultimately show "bit w i \<longleftrightarrow> bit (mask (Suc k) :: u64) i" using s by (auto simp: smeared_def bit_mask_iff)
qed

lemma tab64_magic: "k < 64 \<Longrightarrow> tab64 ! (2 ^ k * 0x07EDD5E59A4E28C2 mod 2 ^ 64 div 2 ^ 58) = k"
proof -
  have u: "[0..<64] = 0 # 1 # [2..<64]" by (simp add: upt_conv_Cons numeral_2_eq_2)
  have "\<forall>k \<in> set [0..<64]. tab64 ! (2 ^ k * 0x07EDD5E59A4E28C2 mod 2 ^ 64 div 2 ^ 58) = k"
    by (simp add: u tab64_def)
  then show "k < 64 \<Longrightarrow> ?thesis" by simp
qed

lemma log2floor_top:
  assumes "bit v k" and "\<And>j. k < j \<Longrightarrow> \<not> bit v j"
  shows "log2floor v = word_of_nat k"
proof -
  have k: "k < 64" using assms(1) by (auto dest: bit_imp_le_length)
  let ?s = "\<lambda>n w. w OR drop_bit n w"
  define w where "w = ?s 32 (?s 16 (?s 8 (?s 4 (?s 2 (?s 1 v)))))"
  have "smeared 64 v w" unfolding w_def
    by (rule smeared_double, rule smeared_double, rule smeared_double, rule smeared_double, rule smeared_double,
      rule smeared_double, rule smeared_start) simp_all
  then have w: "w = mask (Suc k)" using assms by (intro smeared_mask)
  have "drop_bit 1 (mask (Suc k) :: u64) = mask k" using k by (intro bit_word_eqI) (auto simp: bit_simps)
  then have "w - drop_bit 1 w = 2 ^ k" by (simp add: w mask_eq_exp_minus_1)
  then have "log2floor v = word_of_nat (tab64 ! unat (drop_bit 58 (2 ^ k * 0x07EDD5E59A4E28C2 :: u64)))"
    by (simp only: log2floor_def Let_def w_def [symmetric])
  also have "(2 ^ k * 0x07EDD5E59A4E28C2 :: u64) = word_of_nat (2 ^ k * 0x07EDD5E59A4E28C2)" by simp
  also have "unat (drop_bit 58 (word_of_nat (2 ^ k * 0x07EDD5E59A4E28C2) :: u64)) = 2 ^ k * 0x07EDD5E59A4E28C2 mod 2 ^ 64 div 2 ^ 58"
    unfolding unat_drop_bit_eq unat_of_nat by (simp add: drop_bit_eq_div)
  finally show ?thesis using tab64_magic [OF k] by simp
qed

lemma log2floor_range:
  assumes "v \<noteq> 0"
  shows "2 ^ unat (log2floor v) \<le> unat v \<and> unat v < 2 ^ Suc (unat (log2floor v))"
proof -
  obtain k where k: "2 ^ k \<le> unat v" "unat v < 2 ^ (k + 1)"
    using ex_power_ivl1 [of 2 "unat v"] assms by (auto simp: unat_gt_0 Suc_le_eq)
  have "unat v < 2 ^ LENGTH(64)" by (rule unsigned_less)
  then have "(2 :: nat) ^ k < 2 ^ 64" using k(1) by simp
  then have k64: "k < 64" by (rule power_less_imp_less_exp [rotated]) simp
  have "unat v div 2 ^ k = 1" using k by (intro div_nat_eqI) simp_all
  then have "bit (unat v) k" by (simp add: bit_iff_odd)
  then have "bit v k" by (simp add: bit_unsigned_iff)
  moreover have "\<not> bit v j" if "k < j" for j
  proof -
    have "(2 :: nat) ^ (k + 1) \<le> 2 ^ j" using that by (intro power_increasing) simp_all
    then have "unat v div 2 ^ j = 0" using k(2) by simp
    then have "\<not> bit (unat v) j" by (simp add: bit_iff_odd)
    then show ?thesis by (auto simp: bit_unsigned_iff dest: bit_imp_le_length)
  qed
  ultimately have "log2floor v = word_of_nat k" by (rule log2floor_top)
  then have "unat (log2floor v) = k" using k64 by (simp add: unat_of_nat)
  then show ?thesis using k by simp
qed

lemma log2floor_zero: "log2floor 0 = 63"
  by (simp add: log2floor_def tab64_def)

end
