(* ===== verification/Crypto_ByteStream.thy ===== *)
theory Crypto_ByteStream
  imports Net_SocketCorrect
begin

text \<open>
  The byte buffer of \<open>cryptoTools/Common/ByteStream.cpp\<close> that channels send from and receive into: an
  allocation with a position to write at and one to read from. It refines a queue of bytes.
\<close>

record ByteStream =
  bs_data :: "u8 list"
  bs_put :: nat
  bs_get :: nat

definition ByteStream_new :: "nat \<Rightarrow> ByteStream" where
  "ByteStream_new maxlen = \<lparr> bs_data = replicate maxlen 0, bs_put = maxlen, bs_get = 0 \<rparr>"

definition ByteStream_copy :: "ByteStream \<Rightarrow> ByteStream" where
  "ByteStream_copy os = \<lparr> bs_data = take (bs_put os) (bs_data os) @ replicate (length (bs_data os) - bs_put os) 0,
     bs_put = bs_put os, bs_get = bs_get os \<rparr>"

definition bs_reserve :: "ByteStream \<Rightarrow> nat \<Rightarrow> ByteStream" where
  "bs_reserve s l =
     (if l > length (bs_data s) then s\<lparr> bs_data := take (bs_put s) (bs_data s) @ replicate (l - bs_put s) 0 \<rparr> else s)"

definition bs_setg :: "ByteStream \<Rightarrow> nat \<Rightarrow> ByteStream result" where
  "bs_setg s loc = guardE (loc > bs_put s) (RuntimeError ''rt error'') (Inr (s\<lparr> bs_get := loc \<rparr>))"

definition bs_setp :: "ByteStream \<Rightarrow> nat \<Rightarrow> ByteStream result" where
  "bs_setp s loc =
     guardE (loc > length (bs_data s)) (RuntimeError ''rt error'') (Inr (s\<lparr> bs_put := loc, bs_get := min (bs_get s) loc \<rparr>))"

definition bs_resize :: "ByteStream \<Rightarrow> nat \<Rightarrow> ByteStream result" where
  "bs_resize s sz = bs_setp (bs_reserve s sz) sz"

definition bs_append :: "ByteStream \<Rightarrow> u8 list \<Rightarrow> ByteStream" where
  "bs_append s x =
     (let l = length x;
          s = (if bs_put s + l > length (bs_data s) then bs_reserve s (max (length (bs_data s) * 2) (bs_put s + l)) else s)
      in s\<lparr> bs_data := patch_at (bs_put s) x (bs_data s), bs_put := bs_put s + l \<rparr>)"

definition ByteStream_of :: "u8 list \<Rightarrow> ByteStream" where
  "ByteStream_of x = bs_append \<lparr> bs_data = [], bs_put = 0, bs_get = 0 \<rparr> x"

definition bs_consume :: "ByteStream \<Rightarrow> nat \<Rightarrow> (u8 list \<times> ByteStream) result" where
  "bs_consume s l =
     guardE (bs_get s + l > bs_put s) (RuntimeError ''rt error'')
       (Inr (slice (bs_get s) l (bs_data s), s\<lparr> bs_get := bs_get s + l \<rparr>))"

definition bs_assign :: "ByteStream \<Rightarrow> ByteStream \<Rightarrow> ByteStream" where
  "bs_assign s os =
     (let d = (if bs_put os \<ge> length (bs_data s) then replicate (length (bs_data os)) 0 else bs_data s)
      in \<lparr> bs_data = patch_at 0 (take (bs_put os) (bs_data os)) d, bs_put = bs_put os, bs_get = bs_get os \<rparr>)"

definition bs_equal :: "ByteStream \<Rightarrow> ByteStream \<Rightarrow> bool" where
  "bs_equal s a \<longleftrightarrow> bs_put s = bs_put a \<and> (\<forall>i \<in> set [0..<bs_put s]. bs_data s ! i = bs_data a ! i)"

text \<open>What a channel sees: the bytes that were not read, and the resize before a receive.\<close>

definition bs_size :: "ByteStream \<Rightarrow> nat" where
  "bs_size s = bs_put s - bs_get s"

definition bs_unread :: "ByteStream \<Rightarrow> u8 list" where
  "bs_unread s = slice (bs_get s) (bs_size s) (bs_data s)"

definition ChannelBufferResize :: "ByteStream \<Rightarrow> nat \<Rightarrow> ByteStream" where
  "ChannelBufferResize s l =
     \<lparr> bs_data = (if l > length (bs_data s) then replicate l 0 else bs_data s), bs_put = l, bs_get = 0 \<rparr>"

definition chl_asyncSendCopy :: "BtSocket \<Rightarrow> u8 list \<Rightarrow> BtSocket result" where
  "chl_asyncSendCopy sk x = chl_asyncSend_owned sk (bs_unread (ByteStream_of x))"

section \<open>A queue of bytes\<close>

definition bs_wf :: "ByteStream \<Rightarrow> bool" where
  "bs_wf s \<longleftrightarrow> bs_get s \<le> bs_put s \<and> bs_put s \<le> length (bs_data s)"

lemma bs_reserve_keeps:
  assumes "bs_wf s"
  shows "bs_wf (bs_reserve s l)" and "l \<le> length (bs_data (bs_reserve s l))" and "bs_put (bs_reserve s l) = bs_put s"
    and "bs_get (bs_reserve s l) = bs_get s" and "take (bs_put s) (bs_data (bs_reserve s l)) = take (bs_put s) (bs_data s)"
  using assms by (auto simp: bs_reserve_def bs_wf_def)

lemma bs_unread_alt: "bs_wf s \<Longrightarrow> bs_unread s = drop (bs_get s) (take (bs_put s) (bs_data s))"
  by (simp add: bs_unread_def bs_size_def slice_def drop_take bs_wf_def)

lemma bs_append_queue:
  assumes "bs_wf s"
  shows "bs_wf (bs_append s x) \<and> bs_unread (bs_append s x) = bs_unread s @ x"
proof -
  define r where "r = (if bs_put s + length x > length (bs_data s) then bs_reserve s (max (length (bs_data s) * 2) (bs_put s + length x)) else s)"
  have r: "bs_wf r" "bs_put s + length x \<le> length (bs_data r)" "bs_put r = bs_put s" "bs_get r = bs_get s"
      "take (bs_put s) (bs_data r) = take (bs_put s) (bs_data s)"
    using bs_reserve_keeps [OF assms, of "max (length (bs_data s) * 2) (bs_put s + length x)"] assms by (auto simp: r_def)
  let ?a = "r\<lparr> bs_data := patch_at (bs_put r) x (bs_data r), bs_put := bs_put r + length x \<rparr>"
  have a: "bs_append s x = ?a" by (simp add: bs_append_def Let_def r_def)
  have wf: "bs_wf ?a" using r(1-4) by (simp add: bs_wf_def patch_at_def)
  have "take (bs_put s + length x) (patch_at (bs_put s) x (bs_data r)) = take (bs_put s) (bs_data s) @ x"
    using r assms by (simp add: patch_at_def bs_wf_def)
  then have "bs_unread ?a = bs_unread s @ x"
    unfolding bs_unread_alt [OF wf] bs_unread_alt [OF assms] using r assms by (simp add: bs_wf_def)
  then show ?thesis using wf a by simp
qed

lemma bs_consume_queue:
  assumes "bs_wf s"
  shows "bs_consume s l = (if l \<le> length (bs_unread s) then Inr (take l (bs_unread s), s\<lparr> bs_get := bs_get s + l \<rparr>)
      else Inl (RuntimeError ''rt error''))"
    and "l \<le> length (bs_unread s) \<Longrightarrow> bs_wf (s\<lparr> bs_get := bs_get s + l \<rparr>) \<and> bs_unread (s\<lparr> bs_get := bs_get s + l \<rparr>) = drop l (bs_unread s)"
proof -
  have n: "length (bs_unread s) = bs_put s - bs_get s" using assms by (simp add: bs_unread_def bs_size_def bs_wf_def)
  show "bs_consume s l = (if l \<le> length (bs_unread s) then Inr (take l (bs_unread s), s\<lparr> bs_get := bs_get s + l \<rparr>)
      else Inl (RuntimeError ''rt error''))"
    using assms n by (auto simp: bs_consume_def guardE_def bs_wf_def bs_unread_def bs_size_def slice_def min_def)
  assume l: "l \<le> length (bs_unread s)"
  then have wf: "bs_wf (s\<lparr> bs_get := bs_get s + l \<rparr>)" using assms n by (auto simp: bs_wf_def)
  then show "bs_wf (s\<lparr> bs_get := bs_get s + l \<rparr>) \<and> bs_unread (s\<lparr> bs_get := bs_get s + l \<rparr>) = drop l (bs_unread s)"
    unfolding bs_unread_alt [OF wf] bs_unread_alt [OF assms] by (simp add: add.commute)
qed

lemma ByteStream_of_unread: "bs_wf (ByteStream_of x) \<and> bs_unread (ByteStream_of x) = x"
  using bs_append_queue [of "\<lparr> bs_data = [], bs_put = 0, bs_get = 0 \<rparr>" x]
  by (simp add: ByteStream_of_def bs_wf_def bs_unread_def bs_size_def slice_def)

text \<open>Copies and assignments hold the same bytes, whatever was in the target.\<close>

lemma bs_assign_equal:
  assumes "bs_wf os"
  shows "bs_wf (bs_assign s os) \<and> bs_equal (bs_assign s os) os \<and> bs_unread (bs_assign s os) = bs_unread os"
proof -
  let ?a = "bs_assign s os"
  have t: "take (bs_put os) (bs_data ?a) = take (bs_put os) (bs_data os)" and wf: "bs_wf ?a"
    using assms by (auto simp: bs_assign_def Let_def patch_at_def bs_wf_def)
  have p: "bs_put ?a = bs_put os" "bs_get ?a = bs_get os" by (simp_all add: bs_assign_def Let_def)
  have "bs_data ?a ! i = bs_data os ! i" if "i < bs_put os" for i
    using arg_cong [OF t, of "\<lambda>d. d ! i"] that by simp
  then show ?thesis using wf p t by (simp add: bs_equal_def bs_unread_alt [OF wf] bs_unread_alt [OF assms])
qed

text \<open>Sending a copy sends the bytes of the caller's buffer.\<close>

lemma chl_asyncSendCopy_sends: "chl_asyncSendCopy sk x = chl_asyncSend_owned sk x"
  using ByteStream_of_unread [of x] by (simp add: chl_asyncSendCopy_def)

end
