(* ===== verification/Net_Connect.thy ===== *)
theory Net_Connect
  imports Crypto_Defines Crypto_ByteStream
begin

text \<open>
  The set-up and the shutdown of connections: \<open>BtAcceptor\<close>, \<open>BtEndpoint\<close> and the life cycle of
  \<open>BtIOService\<close> in \<open>cryptoTools/Network\<close>. A client connects, sends the names of its endpoint and of
  its channel, and the acceptor hands the socket to the channel of the host that waits under the
  same names. What the operating system answers (addresses, errors, the bytes of a receive) is an
  argument of the definitions.
\<close>

section \<open>Names\<close>

definition str_bytes :: "string \<Rightarrow> u8 list" where
  "str_bytes s = map (\<lambda>c. word_of_nat (of_char c)) s"

definition bytes_str :: "u8 list \<Rightarrow> string" where
  "bytes_str b = map (\<lambda>x. char_of (unat x)) b"

abbreviation tick :: char where "tick \<equiv> CHR 0x60"

section \<open>The acceptor\<close>

text \<open>
  A promise of a socket: the socket, once it is set, and whether its future was taken. Sockets are
  numbered. \<open>acc_pending\<close> says that an \<open>async_accept\<close> is under way, \<open>acc_finished\<close> that \<open>mStoppedPromise\<close>
  has been set.
\<close>

record SocketPromise =
  pr_value :: "nat option"
  pr_retrieved :: bool

record BtAcceptor =
  acc_port :: u32
  acc_stopped :: bool
  acc_pending :: bool
  acc_finished :: bool
  mSocketPromises :: "string \<rightharpoonup> SocketPromise"

definition BtAcceptor_new :: BtAcceptor where
  "BtAcceptor_new = \<lparr> acc_port = 0, acc_stopped = False, acc_pending = False, acc_finished = False, mSocketPromises = Map.empty \<rparr>"

text \<open>\<open>resolved\<close> is the port of the address that was resolved, \<open>ec\<close> the message of a failed bind.\<close>

definition acc_bind :: "BtAcceptor \<Rightarrow> u32 \<Rightarrow> u32 \<Rightarrow> string option \<Rightarrow> BtAcceptor result" where
  "acc_bind a port resolved ec =
     guardE (resolved \<noteq> port) (RuntimeError ''rt error'')
       (case ec of Some m \<Rightarrow> Inl (RuntimeError m) | None \<Rightarrow> Inr (a\<lparr> acc_port := port \<rparr>))"

definition acc_start :: "BtAcceptor \<Rightarrow> BtAcceptor result" where
  "acc_start a =
     (if acc_stopped a = False then Inr (a\<lparr> acc_pending := True \<rparr>)
      else guardE (acc_finished a) (FutureError ''promise already satisfied'') (Inr (a\<lparr> acc_finished := True \<rparr>)))"

text \<open>The handler of \<open>async_accept\<close> starts the next accept before it looks at the error code.\<close>

definition acc_on_accept :: "BtAcceptor \<Rightarrow> bool \<Rightarrow> (BtAcceptor \<times> bool) result" where
  "acc_on_accept a ec = bindE (acc_start (a\<lparr> acc_pending := False \<rparr>)) (\<lambda>a. Inr (a, \<not> ec))"

text \<open>The header: four bytes, of which \<open>got\<close> have arrived. \<open>None\<close> drops the connection.\<close>

definition acc_on_header :: "bool \<Rightarrow> u8 list \<Rightarrow> (u32 \<times> ByteStream) option" where
  "acc_on_header ec2 got =
     (let buff = ByteStream_new 4; buff = buff\<lparr> bs_data := patch_at 0 got (bs_data buff) \<rparr>
      in if \<not> ec2 \<or> length got \<noteq> 4 then Some (hdr_val (bs_data buff), buff) else None)"

definition acc_body_buffer :: "u32 \<Rightarrow> ByteStream \<Rightarrow> ByteStream result" where
  "acc_body_buffer sz buff = bs_setp (bs_reserve buff (unat sz)) (unat sz)"

definition chan_tag :: "string \<Rightarrow> string \<Rightarrow> string \<Rightarrow> string" where
  "chan_tag endpointName localName remoteName = endpointName @ '':'' @ localName @ '':'' @ remoteName"

definition getSocketPromise :: "BtAcceptor \<Rightarrow> string \<Rightarrow> string \<Rightarrow> string \<Rightarrow> string \<times> BtAcceptor" where
  "getSocketPromise a e l r =
     (let tag = chan_tag e l r
      in (tag, if mSocketPromises a tag = None
               then a\<lparr> mSocketPromises := (mSocketPromises a)(tag \<mapsto> \<lparr> pr_value = None, pr_retrieved = False \<rparr>) \<rparr> else a))"

definition prom_set :: "BtAcceptor \<Rightarrow> string \<Rightarrow> nat \<Rightarrow> BtAcceptor result" where
  "prom_set a tag sock =
     (case mSocketPromises a tag of
        None \<Rightarrow> Inl (Undefined ''no promise'')
      | Some p \<Rightarrow> guardE (pr_value p \<noteq> None) (FutureError ''promise already satisfied'')
          (Inr (a\<lparr> mSocketPromises := (mSocketPromises a)(tag \<mapsto> p\<lparr> pr_value := Some sock \<rparr>) \<rparr>)))"

text \<open>\<open>names\<close> is indexed without a check of its size.\<close>

definition acc_on_names :: "BtAcceptor \<Rightarrow> nat \<Rightarrow> string \<Rightarrow> BtAcceptor result" where
  "acc_on_names a sock s =
     (let names = split s tick
      in guardE (length names < 3) (Undefined ''names[2]'')
           (case getSocketPromise a (names ! 0) (names ! 2) (names ! 1) of (tag, a) \<Rightarrow> prom_set a tag sock))"

definition acc_on_body :: "BtAcceptor \<Rightarrow> nat \<Rightarrow> u32 \<Rightarrow> ByteStream \<Rightarrow> bool \<Rightarrow> u8 list \<Rightarrow> BtAcceptor result" where
  "acc_on_body a sock sz buff ec3 got =
     (let buff = buff\<lparr> bs_data := patch_at 0 got (bs_data buff) \<rparr>
      in if \<not> ec3 \<or> length got \<noteq> unat sz then acc_on_names a sock (bytes_str (take (bs_size buff) (bs_data buff))) else Inr a)"

text \<open>An exception in a handler leaves \<open>io_service::run\<close> and with it the function of a worker thread.\<close>

definition in_worker :: "'a result \<Rightarrow> 'a result" where
  "in_worker r = (case r of Inl (Undefined m) \<Rightarrow> Inl (Undefined m) | Inl e \<Rightarrow> Inl Terminate | Inr x \<Rightarrow> Inr x)"

text \<open>A connection whose header and body arrive without an error, each in one piece.\<close>

definition acc_handshake :: "BtAcceptor \<Rightarrow> nat \<Rightarrow> u8 list \<Rightarrow> BtAcceptor result" where
  "acc_handshake a sock msg =
     (case acc_on_header False (take 4 msg) of
        None \<Rightarrow> Inr a
      | Some (sz, buff) \<Rightarrow>
          in_worker (bindE (acc_body_buffer sz buff) (\<lambda>buff.
            acc_on_body a sock sz buff False (take (unat sz) (drop 4 msg)))))"

definition acc_stop :: "BtAcceptor \<Rightarrow> BtAcceptor" where
  "acc_stop a = a\<lparr> acc_stopped := True \<rparr>"

text \<open>
  The destructor waits for \<open>mStoppedPromise\<close>. Closing the handle makes a pending accept complete with
  an error; without a pending accept nobody sets the promise.
\<close>

definition acc_destroy :: "BtAcceptor \<Rightarrow> BtAcceptor comp" where
  "acc_destroy a =
     (let a = acc_stop a
      in if acc_finished a then retC a
         else if acc_pending a then liftC (in_worker (bindE (acc_on_accept a True) (\<lambda>(a, ok). Inr a)))
         else None)"

section \<open>The endpoint\<close>

text \<open>A channel in the list of the endpoint: its local and its remote name.\<close>

record BtEndpoint =
  ep_port :: u32
  ep_host :: bool
  ep_stopped :: bool
  ep_name :: string
  ep_channels :: "(string \<times> string) list"
  ep_done :: bool

definition BtEndpoint_new :: BtEndpoint where
  "BtEndpoint_new = \<lparr> ep_port = 0, ep_host = False, ep_stopped = True, ep_name = [], ep_channels = [], ep_done = False \<rparr>"

definition ep_start :: "BtEndpoint \<Rightarrow> u32 \<Rightarrow> bool \<Rightarrow> string \<Rightarrow> BtEndpoint result" where
  "ep_start ep port host nm =
     guardE (ep_stopped ep = False) (RuntimeError ''rt error'')
       (Inr (ep\<lparr> ep_port := port, ep_host := host, ep_stopped := False, ep_name := nm \<rparr>))"

definition ep_addChannel :: "BtEndpoint \<Rightarrow> string \<Rightarrow> string \<Rightarrow> ((string \<times> string) \<times> BtEndpoint) result" where
  "ep_addChannel ep localName remoteName =
     (let remoteName = (if remoteName = [] then localName else remoteName)
      in guardE (ep_stopped ep) (RuntimeError ''rt error'')
           (Inr ((localName, remoteName), ep\<lparr> ep_channels := ep_channels ep @ [(localName, remoteName)] \<rparr>)))"

text \<open>The host waits for the promise of its channel, the client sends the names.\<close>

definition getSocket :: "BtAcceptor \<Rightarrow> BtEndpoint \<Rightarrow> string \<times> string \<Rightarrow> (string \<times> BtAcceptor) result" where
  "getSocket a ep chl =
     (case getSocketPromise a (ep_name ep) (fst chl) (snd chl) of (tag, a) \<Rightarrow>
        (case mSocketPromises a tag of
           None \<Rightarrow> Inl (Undefined ''no promise'')
         | Some p \<Rightarrow> guardE (pr_retrieved p) (FutureError ''future already retrieved'')
             (Inr (tag, a\<lparr> mSocketPromises := (mSocketPromises a)(tag \<mapsto> p\<lparr> pr_retrieved := True \<rparr>) \<rparr>))))"

definition future_get :: "BtAcceptor \<Rightarrow> string \<Rightarrow> nat option" where
  "future_get a tag = (case mSocketPromises a tag of None \<Rightarrow> None | Some p \<Rightarrow> pr_value p)"

definition hello :: "BtEndpoint \<Rightarrow> string \<times> string \<Rightarrow> string" where
  "hello ep chl = ep_name ep @ [tick] @ fst chl @ [tick] @ snd chl"

text \<open>What goes out on the new socket of a client channel.\<close>

definition client_wire :: "BtEndpoint \<Rightarrow> string \<times> string \<Rightarrow> u8 list result" where
  "client_wire ep chl =
     bindE (chl_asyncSend_owned BtSocket_new (bs_unread (ByteStream_of (str_bytes (hello ep chl)))))
       (\<lambda>sk. Inr (concat (map op_frame (sk_sendQueue sk))))"

text \<open>
  The attempts to connect: \<open>BT_CONNECT_RETRY_MAX\<close> retries after the first; \<open>con i\<close> is the success of
  attempt \<open>i\<close> and \<open>reopen i\<close> that of the socket before it.
\<close>

definition retry_max :: "int option \<Rightarrow> nat" where
  "retry_max env = nat (max 1 (case env of None \<Rightarrow> 1200 | Some n \<Rightarrow> n))"

fun connect_loop :: "(nat \<Rightarrow> bool) \<Rightarrow> (nat \<Rightarrow> bool) \<Rightarrow> nat \<Rightarrow> nat \<Rightarrow> bool \<Rightarrow> bool" where
  "connect_loop reopen con i 0 ok = ok"
| "connect_loop reopen con i (Suc tryCount) ok =
     (if ok then True else if \<not> reopen i then False else connect_loop reopen con (Suc i) tryCount (con i))"

definition ep_connect :: "bool \<Rightarrow> (nat \<Rightarrow> bool) \<Rightarrow> (nat \<Rightarrow> bool) \<Rightarrow> int option \<Rightarrow> unit result" where
  "ep_connect opened reopen con env =
     guardE (\<not> opened) (RuntimeError ''BtEndpoint socket open failed'')
     (guardE (\<not> connect_loop reopen con 1 (retry_max env) (con 0)) (RuntimeError ''BtEndpoint connect timeout'') (Inr ()))"

text \<open>\<open>stop\<close> up to the wait for \<open>mDoneFuture\<close>, and the removal of a channel by \<open>close\<close>.\<close>

definition ep_stop :: "BtEndpoint \<Rightarrow> BtEndpoint result" where
  "ep_stop ep =
     (if ep_stopped ep = False
      then let ep = ep\<lparr> ep_stopped := True \<rparr>
           in if ep_channels ep = [] then guardE (ep_done ep) (FutureError ''promise already satisfied'') (Inr (ep\<lparr> ep_done := True \<rparr>))
              else Inr ep
      else Inr ep)"

fun erase_first :: "string \<Rightarrow> (string \<times> string) list \<Rightarrow> (string \<times> string) list" where
  "erase_first nm [] = []"
| "erase_first nm (c # cs) = (if fst c = nm then cs else c # erase_first nm cs)"

definition ep_removeChannel :: "BtEndpoint \<Rightarrow> string \<Rightarrow> BtEndpoint result" where
  "ep_removeChannel ep nm =
     (let ep = ep\<lparr> ep_channels := erase_first nm (ep_channels ep) \<rparr>
      in if ep_stopped ep \<and> ep_channels ep = []
         then guardE (ep_done ep) (FutureError ''promise already satisfied'') (Inr (ep\<lparr> ep_done := True \<rparr>)) else Inr ep)"

section \<open>The I/O service\<close>

text \<open>The worker threads that have not been joined, the acceptors, and the endpoints whose end is waited for.\<close>

record BtIOService =
  ios_stopped :: bool
  ios_threads :: nat
  ios_acceptors :: "BtAcceptor list"
  ios_endpoints :: "nat list"

definition BtIOService_new :: "nat \<Rightarrow> nat \<Rightarrow> BtIOService" where
  "BtIOService_new hardware numThreads =
     \<lparr> ios_stopped = False, ios_threads = (if numThreads \<noteq> 0 then numThreads else hardware), ios_acceptors = [], ios_endpoints = [] \<rparr>"

text \<open>Starting an endpoint adds its future to those the service waits for when it stops.\<close>

definition ios_register :: "BtIOService \<Rightarrow> nat \<Rightarrow> BtIOService" where
  "ios_register ios k = ios\<lparr> ios_endpoints := ios_endpoints ios @ [k] \<rparr>"

text \<open>
  The acceptor of a host endpoint, by its position. A new one stays in the list when its bind throws,
  so the service is part of both results.
\<close>

definition getAcceptor :: "BtIOService \<Rightarrow> BtEndpoint \<Rightarrow> u32 \<Rightarrow> string option \<Rightarrow> BtIOService \<times> nat result" where
  "getAcceptor ios ep resolved ec =
     (if ep_host ep
      then let as = ios_acceptors ios; k = length (takeWhile (\<lambda>a. acc_port a \<noteq> ep_port ep) as)
           in if k = length as
              then (case acc_bind BtAcceptor_new (ep_port ep) resolved ec of
                      Inl e \<Rightarrow> (ios\<lparr> ios_acceptors := as @ [BtAcceptor_new\<lparr> acc_port := ep_port ep \<rparr>] \<rparr>, Inl e)
                    | Inr a \<Rightarrow> (case acc_start a of
                        Inl e \<Rightarrow> (ios\<lparr> ios_acceptors := as @ [a] \<rparr>, Inl e)
                      | Inr a \<Rightarrow> (ios\<lparr> ios_acceptors := as @ [a] \<rparr>, Inr k)))
              else (ios, Inr k)
      else (ios, Inl (RuntimeError ''rt error'')))"

fun destroy_all :: "BtAcceptor list \<Rightarrow> unit comp" where
  "destroy_all [] = retC ()"
| "destroy_all (a # as) = bindC (acc_destroy a) (\<lambda>a. destroy_all as)"

text \<open>\<open>stop\<close>; \<open>ended k\<close> says that the future of endpoint \<open>k\<close> is set.\<close>

definition ios_stop :: "BtIOService \<Rightarrow> (nat \<Rightarrow> bool) \<Rightarrow> BtIOService comp" where
  "ios_stop ios ended =
     (if ios_stopped ios = False
      then bindC (destroy_all (map acc_stop (ios_acceptors ios))) (\<lambda>u.
           if \<forall>k \<in> set (ios_endpoints ios). ended k
           then retC (ios\<lparr> ios_stopped := True, ios_acceptors := [], ios_threads := 0 \<rparr>) else None)
      else retC ios)"

text \<open>
  The destructor does not call \<open>stop\<close>. The members go in the reverse order of their declaration: the
  acceptors wait, then the destructor of a thread that was not joined calls \<open>std::terminate\<close>.
\<close>

definition ios_destroy :: "BtIOService \<Rightarrow> unit comp" where
  "ios_destroy ios = bindC (destroy_all (ios_acceptors ios)) (\<lambda>u. if ios_threads ios \<noteq> 0 then throwC Terminate else retC ())"

end
