(* ===== verification/Net_ConnectCorrect.thy ===== *)
theory Net_ConnectCorrect
  imports Net_Connect
begin

text \<open>
  What the acceptor and the endpoint promise. The acceptor is a meeting point: a client offers a
  socket under a name, a host channel asks for it, in either order. The endpoint reports its end
  exactly when it was stopped and its last channel is gone. The retry loop of a client makes a
  bounded number of attempts.
\<close>

section \<open>A meeting point\<close>

text \<open>
  \<open>rep s Off Ask\<close>: the sockets offered so far and the names that were asked for. Each name is offered
  once and asked for once.
\<close>

locale meeting_point =
  fixes rep :: "'s \<Rightarrow> (string \<rightharpoonup> nat) \<Rightarrow> string set \<Rightarrow> bool"
    and offer :: "'s \<Rightarrow> string \<Rightarrow> nat \<Rightarrow> 's result"
    and ask :: "'s \<Rightarrow> string \<Rightarrow> 's result"
    and answer :: "'s \<Rightarrow> string \<Rightarrow> nat option"
  assumes offer_new: "rep s Off Ask \<Longrightarrow> Off t = None \<Longrightarrow> \<exists>s'. offer s t k = Inr s' \<and> rep s' (Off(t \<mapsto> k)) Ask"
    and offer_again: "rep s Off Ask \<Longrightarrow> Off t \<noteq> None \<Longrightarrow> \<exists>e. offer s t k = Inl e"
    and ask_new: "rep s Off Ask \<Longrightarrow> t \<notin> Ask \<Longrightarrow> \<exists>s'. ask s t = Inr s' \<and> rep s' Off (insert t Ask)"
    and answer_offer: "rep s Off Ask \<Longrightarrow> answer s t = Off t"
begin

text \<open>The two sides may come in either order; nobody else's answer changes.\<close>

lemma meet:
  assumes "rep s Off Ask" and "Off t = None" and "t \<notin> Ask"
  shows "\<exists>a b. bindE (offer s t k) (\<lambda>s. ask s t) = Inr a \<and> bindE (ask s t) (\<lambda>s. offer s t k) = Inr b \<and>
    answer a t = Some k \<and> answer b t = Some k \<and> (\<forall>u. u \<noteq> t \<longrightarrow> answer a u = answer s u \<and> answer b u = answer s u)"
proof -
  obtain s1 where s1: "offer s t k = Inr s1" "rep s1 (Off(t \<mapsto> k)) Ask" using offer_new assms by blast
  obtain a where a: "ask s1 t = Inr a" "rep a (Off(t \<mapsto> k)) (insert t Ask)" using ask_new [OF s1(2) assms(3)] by blast
  obtain s2 where s2: "ask s t = Inr s2" "rep s2 Off (insert t Ask)" using ask_new assms by blast
  obtain b where b: "offer s2 t k = Inr b" "rep b (Off(t \<mapsto> k)) (insert t Ask)" using offer_new [OF s2(2) assms(2)] by blast
  show ?thesis using s1 a s2 b answer_offer [OF a(2)] answer_offer [OF b(2)] answer_offer [OF assms(1)] by simp
qed

end

definition acc_rep :: "BtAcceptor \<Rightarrow> (string \<rightharpoonup> nat) \<Rightarrow> string set \<Rightarrow> bool" where
  "acc_rep a Off Ask \<longleftrightarrow> mSocketPromises a =
     (\<lambda>t. if Off t = None \<and> t \<notin> Ask then None else Some \<lparr> pr_value = Off t, pr_retrieved = (t \<in> Ask) \<rparr>)"

definition acc_promise :: "BtAcceptor \<Rightarrow> string \<Rightarrow> BtAcceptor" where
  "acc_promise a tag = (if mSocketPromises a tag = None
     then a\<lparr> mSocketPromises := (mSocketPromises a)(tag \<mapsto> \<lparr> pr_value = None, pr_retrieved = False \<rparr>) \<rparr> else a)"

definition acc_offer :: "BtAcceptor \<Rightarrow> string \<Rightarrow> nat \<Rightarrow> BtAcceptor result" where
  "acc_offer a tag sock = prom_set (acc_promise a tag) tag sock"

definition acc_ask :: "BtAcceptor \<Rightarrow> string \<Rightarrow> BtAcceptor result" where
  "acc_ask a tag =
     (case mSocketPromises (acc_promise a tag) tag of
        None \<Rightarrow> Inl (Undefined ''no promise'')
      | Some p \<Rightarrow> guardE (pr_retrieved p) (FutureError ''future already retrieved'')
          (Inr ((acc_promise a tag)\<lparr> mSocketPromises := (mSocketPromises (acc_promise a tag))(tag \<mapsto> p\<lparr> pr_retrieved := True \<rparr>) \<rparr>)))"

lemma getSocketPromise_eq: "getSocketPromise a e l r = (chan_tag e l r, acc_promise a (chan_tag e l r))"
  by (simp add: getSocketPromise_def acc_promise_def Let_def)

lemma getSocket_ask:
  "getSocket a ep chl = bindE (acc_ask a (chan_tag (ep_name ep) (fst chl) (snd chl))) (\<lambda>a. Inr (chan_tag (ep_name ep) (fst chl) (snd chl), a))"
  by (auto simp: getSocket_def getSocketPromise_eq acc_ask_def guardE_def split: option.splits)

interpretation desk: meeting_point acc_rep acc_offer acc_ask future_get
proof unfold_locales
  fix a Off Ask t k
  assume r: "acc_rep a Off Ask"
  show "\<exists>s'. acc_offer a t k = Inr s' \<and> acc_rep s' (Off(t \<mapsto> k)) Ask" if "Off t = None"
    using r that by (auto simp: acc_rep_def acc_offer_def prom_set_def acc_promise_def fun_eq_iff)
  show "\<exists>e. acc_offer a t k = Inl e" if "Off t \<noteq> None"
    using r that by (auto simp: acc_rep_def acc_offer_def prom_set_def acc_promise_def)
  show "\<exists>s'. acc_ask a t = Inr s' \<and> acc_rep s' Off (insert t Ask)" if "t \<notin> Ask"
    using r that by (auto simp: acc_rep_def acc_ask_def acc_promise_def fun_eq_iff)
  show "future_get a t = Off t"
    using r by (simp add: acc_rep_def future_get_def)
qed

lemma acc_rep_new: "mSocketPromises a = Map.empty \<Longrightarrow> acc_rep a Map.empty {}"
  by (simp add: acc_rep_def fun_eq_iff)

section \<open>The names on the wire\<close>

lemma bytes_str_bytes [simp]: "bytes_str (str_bytes s) = s"
proof -
  have "(of_char c :: nat) < 256" for c using of_char_mod_256 [of c, where ?'a = nat] mod_less_divisor [of 256 "of_char c"] by simp
  then show ?thesis by (simp add: bytes_str_def str_bytes_def comp_def unat_of_nat map_idI)
qed

lemma length_str_bytes [simp]: "length (str_bytes s) = length s"
  by (simp add: str_bytes_def)

lemma client_wire_frame:
  assumes "length (hello ep chl) < 2 ^ 32"
  shows "client_wire ep chl = Inr (frame (str_bytes (hello ep chl)))"
proof -
  let ?m = "str_bytes (hello ep chl)"
  have u: "unat (size32 ?m) = length ?m" using assms by (simp add: unat_size32)
  have "0 < length ?m" by (simp add: hello_def)
  then have "size32 ?m \<noteq> 0" using u by (metis less_irrefl unat_0)
  then show ?thesis using u
    by (simp add: client_wire_def ByteStream_of_unread chl_asyncSend_owned_def BtSocket_new_def dispatch_def queue_send_def Let_def
        op_frame_def frame_def cut32_def)
qed

lemma acc_handshake_frame:
  assumes "length s < 2 ^ 32"
  shows "acc_handshake a sock (frame (str_bytes s)) = in_worker (acc_on_names a sock s)"
proof -
  let ?m = "str_bytes s"
  have u: "unat (size32 ?m) = length ?m" using assms by (simp add: unat_size32)
  define b0 where "b0 = (ByteStream_new 4)\<lparr> bs_data := hdr_bytes (size32 ?m) \<rparr>"
  have h: "acc_on_header False (take 4 (frame ?m)) = Some (size32 ?m, b0)"
    by (simp add: acc_on_header_def frame_def ByteStream_new_def patch_at_def b0_def)
  have w0: "bs_wf b0" by (simp add: b0_def ByteStream_new_def bs_wf_def)
  have k: "length ?m \<le> length (bs_data (bs_reserve b0 (length ?m)))" using bs_reserve_keeps(2) [OF w0] by blast
  obtain b where b: "acc_body_buffer (size32 ?m) b0 = Inr b" "bs_put b = length ?m" "bs_get b = 0" "length ?m \<le> length (bs_data b)"
    using k by (auto simp: acc_body_buffer_def bs_setp_def u bs_reserve_def b0_def ByteStream_new_def)
  have t: "take (unat (size32 ?m)) (drop 4 (frame ?m)) = ?m" by (simp add: frame_def u)
  show ?thesis unfolding acc_handshake_def h option.case prod.case b(1) bindE_simps t
    using b by (simp add: acc_on_body_def bs_size_def patch_at_def)
qed

lemma split_hello:
  assumes "tick \<notin> set (ep_name ep)" and "tick \<notin> set l" and "tick \<notin> set r" and "r \<noteq> []"
  shows "split (hello ep (l, r)) tick = [ep_name ep, l, r]"
  using assms by (simp add: hello_def split_piece split_last)

text \<open>The client and the host name the same promise: local and remote change places.\<close>

lemma acc_on_hello:
  assumes "tick \<notin> set (ep_name ep)" and "tick \<notin> set l" and "tick \<notin> set r" and "r \<noteq> []"
  shows "acc_on_names a sock (hello ep (l, r)) = acc_offer a (chan_tag (ep_name ep) r l) sock"
  using split_hello [OF assms] by (simp add: acc_on_names_def getSocketPromise_eq acc_offer_def)

lemma in_worker_Inr [simp]: "in_worker (Inr x) = Inr x"
  by (simp add: in_worker_def)

lemma in_worker_Inr_iff: "in_worker r = Inr x \<longleftrightarrow> r = Inr x"
  by (auto simp: in_worker_def split: sum.splits error.splits)

section \<open>Attempts to connect\<close>

lemma connect_loop_iff:
  "connect_loop reopen con i n ok \<longleftrightarrow> ok \<or> (\<exists>j < n. con (i + j) \<and> (\<forall>m \<le> j. reopen (i + m)))"
proof (induction n arbitrary: i ok)
  case (Suc n)
  have split: "(\<exists>j < Suc n. con (i + j) \<and> (\<forall>m \<le> j. reopen (i + m))) \<longleftrightarrow>
      reopen i \<and> (con i \<or> (\<exists>j < n. con (Suc i + j) \<and> (\<forall>m \<le> j. reopen (Suc i + m))))" (is "?L \<longleftrightarrow> ?R")
  proof
    assume ?L
    then obtain j where j: "j < Suc n" "con (i + j)" "\<forall>m \<le> j. reopen (i + m)" by blast
    show ?R
    proof (cases j)
      case (Suc k)
      then have "k < n" "con (Suc i + k)" "\<forall>m \<le> k. reopen (Suc i + m)" using j by (auto dest: spec [of _ "Suc _"])
      then show ?thesis using j(3) by (auto dest: spec [of _ 0])
    qed (use j in auto)
  next
    assume r: ?R
    show ?L
    proof (cases "con i")
      case True
      then show ?thesis using r by (intro exI [of _ 0]) simp
    next
      case False
      then obtain j where j: "j < n" "con (Suc i + j)" "\<forall>m \<le> j. reopen (Suc i + m)" using r by blast
      have "reopen (i + m)" if "m \<le> Suc j" for m using that j(3) r by (cases m) auto
      then show ?thesis using j by (intro exI [of _ "Suc j"]) simp
    qed
  qed
  show ?case by (simp add: Suc.IH split)
qed simp

section \<open>The end of an endpoint\<close>

datatype ep_call = AddChannel string string | RemoveChannel string | StopEndpoint

fun ep_do :: "BtEndpoint \<Rightarrow> ep_call \<Rightarrow> BtEndpoint result" where
  "ep_do ep (AddChannel l r) = bindE (ep_addChannel ep l r) (\<lambda>(chl, ep). Inr ep)"
| "ep_do ep (RemoveChannel nm) = ep_removeChannel ep nm"
| "ep_do ep StopEndpoint = ep_stop ep"

definition ep_inv :: "BtEndpoint \<Rightarrow> bool" where
  "ep_inv ep \<longleftrightarrow> (ep_done ep \<longleftrightarrow> ep_stopped ep \<and> ep_channels ep = [])"

lemma ep_do_inv: "ep_inv ep \<Longrightarrow> ep_do ep call = Inr ep' \<Longrightarrow> ep_inv ep'"
  by (cases call) (auto simp: ep_inv_def ep_addChannel_def ep_removeChannel_def ep_stop_def Let_def result_simps split: if_splits)

lemma ep_calls_inv: "ep_inv ep \<Longrightarrow> foldE ep_do ep calls = Inr ep' \<Longrightarrow> ep_inv ep'"
proof (induction calls arbitrary: ep)
  case (Cons c cs)
  then obtain ep1 where "ep_do ep c = Inr ep1" "foldE ep_do ep1 cs = Inr ep'" by (auto simp: result_simps)
  then show ?case using Cons ep_do_inv by blast
qed simp

lemma ep_start_inv: "ep_start BtEndpoint_new port host nm = Inr ep \<Longrightarrow> ep_inv ep \<and> \<not> ep_stopped ep \<and> ep_channels ep = [] \<and> ep_name ep = nm"
  by (auto simp: ep_start_def BtEndpoint_new_def ep_inv_def)

lemma ep_adds:
  "\<not> ep_stopped ep \<Longrightarrow> foldE ep_do ep (map (\<lambda>nm. AddChannel nm nm) ns) = Inr (ep\<lparr> ep_channels := ep_channels ep @ map (\<lambda>nm. (nm, nm)) ns \<rparr>)"
  by (induction ns arbitrary: ep) (simp_all add: ep_addChannel_def)

lemma ep_removes:
  "\<not> ep_stopped ep \<Longrightarrow> ep_channels ep = map (\<lambda>nm. (nm, nm)) ns \<Longrightarrow>
   foldE ep_do ep (map RemoveChannel ns) = Inr (ep\<lparr> ep_channels := [] \<rparr>)"
  by (induction ns arbitrary: ep) (simp_all add: ep_removeChannel_def Let_def)

text \<open>Channels opened, closed in the same order, and the endpoint stopped: its end is reported and \<open>stop\<close> returns.\<close>

lemma ep_teardown:
  assumes "ep_start BtEndpoint_new port host nm = Inr ep"
  shows "\<exists>ep'. foldE ep_do ep (map (\<lambda>nm. AddChannel nm nm) ns @ map RemoveChannel ns @ [StopEndpoint]) = Inr ep' \<and> ep_done ep'"
proof -
  have s: "\<not> ep_stopped ep" "ep_channels ep = []" "\<not> ep_done ep" using ep_start_inv [OF assms] by (auto simp: ep_inv_def)
  let ?a = "ep\<lparr> ep_channels := map (\<lambda>nm. (nm, nm)) ns \<rparr>"
  have "foldE ep_do ep (map (\<lambda>nm. AddChannel nm nm) ns) = Inr ?a" using ep_adds [OF s(1), of ns] s(2) by simp
  moreover have "foldE ep_do ?a (map RemoveChannel ns) = Inr (?a\<lparr> ep_channels := [] \<rparr>)" using s by (intro ep_removes) simp_all
  ultimately show ?thesis using s by (simp add: foldE_append ep_stop_def Let_def)
qed

section \<open>The end of the service\<close>

definition listening :: "BtAcceptor \<Rightarrow> bool" where
  "listening a \<longleftrightarrow> acc_pending a \<and> \<not> acc_finished a"

lemma acc_destroy_listening: "listening a \<Longrightarrow> \<exists>a'. acc_destroy a = retC a'"
  by (auto simp: listening_def acc_destroy_def acc_stop_def acc_on_accept_def acc_start_def Let_def liftC_def retC_def)

lemma destroy_all_listening: "list_all listening as \<Longrightarrow> destroy_all as = retC ()"
proof (induction as)
  case (Cons a as)
  then obtain a' where "acc_destroy a = retC a'" using acc_destroy_listening by auto
  then show ?case using Cons by simp
qed simp

text \<open>A service that was not stopped cannot be destroyed: with listening acceptors the process is terminated.\<close>

lemma ios_destroy_terminates: "list_all listening (ios_acceptors ios) \<Longrightarrow> ios_threads ios \<noteq> 0 \<Longrightarrow> ios_destroy ios = throwC Terminate"
  by (simp add: ios_destroy_def destroy_all_listening)

lemma ios_stop_destroy:
  assumes "list_all listening (ios_acceptors ios)" and "\<not> ios_stopped ios" and "\<forall>k \<in> set (ios_endpoints ios). ended k"
  shows "\<exists>ios'. ios_stop ios ended = retC ios' \<and> ios_destroy ios' = retC ()"
proof -
  have "list_all listening (map acc_stop (ios_acceptors ios))" using assms(1) by (simp add: list_all_iff listening_def acc_stop_def)
  then show ?thesis using assms by (simp add: ios_stop_def destroy_all_listening ios_destroy_def)
qed

text \<open>An acceptor whose bind failed was never started, and its destructor waits for ever.\<close>

lemma failed_bind_hangs:
  assumes "ep_host ep" and "ios_acceptors ios = []"
  shows "\<exists>ios'. getAcceptor ios ep (ep_port ep) (Some m) = (ios', Inl (RuntimeError m)) \<and> ios_destroy ios' = None \<and> ios_stop ios' ended = (if ios_stopped ios then retC ios' else None)"
  using assms by (auto simp: getAcceptor_def acc_bind_def ios_destroy_def ios_stop_def acc_destroy_def acc_stop_def BtAcceptor_new_def Let_def)

lemma getAcceptor_listens:
  assumes "ep_host ep" and "ios_acceptors ios = []"
  shows "\<exists>a. getAcceptor ios ep (ep_port ep) None = (ios\<lparr> ios_acceptors := [a] \<rparr>, Inr 0) \<and> listening a \<and> mSocketPromises a = Map.empty"
  using assms
  by (intro exI [of _ "\<lparr> acc_port = ep_port ep, acc_stopped = False, acc_pending = True, acc_finished = False, mSocketPromises = Map.empty \<rparr>"])
    (simp add: getAcceptor_def acc_bind_def acc_start_def BtAcceptor_new_def listening_def Let_def)

end
