(* ===== verification/Psi_Connect.thy ===== *)
theory Psi_Connect
  imports Psi_Setup Net_ConnectCorrect
begin

text \<open>
  The connection part of \<open>pqpsi\<close> in \<open>frontend/pqpsi/pqpsi.cpp\<close>: the name of the run, the port, the
  channels both parties open and the byte each sends on each of them. The two processes and the
  service threads of the host are a step relation; its reachable states pair the channels with equal
  numbers.
\<close>

section \<open>Names, ports and roles\<close>

definition runName :: "string option \<Rightarrow> string" where
  "runName tag = (case tag of None \<Rightarrow> ''psi'' | Some t \<Rightarrow> if t = [] then ''psi'' else ''psi'' @ ''_'' @ t)"

definition digit_char :: "nat \<Rightarrow> char" where
  "digit_char d = char_of (48 + d)"

fun to_string :: "nat \<Rightarrow> string" where
  "to_string n = (if n < 10 then [digit_char n] else to_string (n div 10) @ [digit_char (n mod 10)])"

declare to_string.simps [simp del]

definition chName :: "string \<Rightarrow> nat \<Rightarrow> string" where
  "chName run j = run @ ''_ch'' @ to_string j"

text \<open>\<open>portBase\<close> is the value of \<open>PQPSI_PORT_BASE\<close>, if it is set and parses.\<close>

definition port_base :: "nat option \<Rightarrow> u32" where
  "port_base v = (case v of None \<Rightarrow> 1210 | Some x \<Rightarrow> word_of_nat x)"

definition isServer :: "u64 \<Rightarrow> u64 \<Rightarrow> bool" where
  "isServer me i \<longleftrightarrow> i > me"

definition psi_port :: "u32 \<Rightarrow> u64 \<Rightarrow> u64 \<Rightarrow> u32" where
  "psi_port base me i = (if isServer me i then ucast (ucast base + me * 10 + i) else ucast (ucast base + i * 10 + me))"

definition psi_endpoint :: "u32 \<Rightarrow> string \<Rightarrow> u64 \<Rightarrow> u64 \<Rightarrow> BtEndpoint result" where
  "psi_endpoint base run me i = ep_start BtEndpoint_new (psi_port base me i) (isServer me i) run"

section \<open>The two processes\<close>

text \<open>
  \<open>cn_wait\<close> is the promise the host thread waits for, \<open>cn_socks\<close> the sockets its channels got, \<open>cn_sent\<close> the
  connections whose names the acceptor has not read yet. The socket of the \<open>j\<close>-th channel of the client
  has number \<open>j\<close>.
\<close>

record conn =
  cn_acc :: BtAcceptor
  cn_host :: BtEndpoint
  cn_client :: BtEndpoint
  cn_wait :: "string option"
  cn_socks :: "nat list"
  cn_sent :: "(nat \<times> u8 list) list"

definition conn_start :: "nat \<Rightarrow> u32 \<Rightarrow> string \<Rightarrow> conn result" where
  "conn_start hardware base run =
     bindE (psi_endpoint base run 0 1) (\<lambda>host.
     bindE (psi_endpoint base run 1 0) (\<lambda>client.
       case getAcceptor (BtIOService_new hardware 0) host (ep_port host) None of (ios, r) \<Rightarrow>
         bindE r (\<lambda>k. Inr \<lparr> cn_acc = ios_acceptors ios ! k, cn_host = host, cn_client = client, cn_wait = None, cn_socks = [], cn_sent = [] \<rparr>)))"

definition client_add :: "string \<Rightarrow> conn \<Rightarrow> conn result" where
  "client_add run c =
     (let j = length (ep_channels (cn_client c))
      in bindE (ep_addChannel (cn_client c) (chName run j) (chName run j)) (\<lambda>(chl, ep).
         bindE (client_wire ep chl) (\<lambda>msg. Inr (c\<lparr> cn_client := ep, cn_sent := cn_sent c @ [(j, msg)] \<rparr>))))"

definition host_add :: "string \<Rightarrow> conn \<Rightarrow> conn result" where
  "host_add run c =
     (let j = length (ep_channels (cn_host c))
      in bindE (ep_addChannel (cn_host c) (chName run j) (chName run j)) (\<lambda>(chl, ep).
         bindE (getSocket (cn_acc c) ep chl) (\<lambda>(tag, a). Inr (c\<lparr> cn_host := ep, cn_acc := a, cn_wait := Some tag \<rparr>))))"

text \<open>The service threads may finish the connections in any order.\<close>

definition accept_one :: "nat \<Rightarrow> conn \<Rightarrow> conn result" where
  "accept_one k c =
     (case cn_sent c ! k of (sock, msg) \<Rightarrow>
        bindE (acc_handshake (cn_acc c) sock msg) (\<lambda>a. Inr (c\<lparr> cn_acc := a, cn_sent := take k (cn_sent c) @ drop (Suc k) (cn_sent c) \<rparr>)))"

inductive conn_step :: "string \<Rightarrow> nat \<Rightarrow> conn \<Rightarrow> conn result \<Rightarrow> bool" where
  client: "length (ep_channels (cn_client c)) < nCh \<Longrightarrow> conn_step run nCh c (client_add run c)"
| accept: "k < length (cn_sent c) \<Longrightarrow> conn_step run nCh c (accept_one k c)"
| host: "cn_wait c = None \<Longrightarrow> length (ep_channels (cn_host c)) < nCh \<Longrightarrow> conn_step run nCh c (host_add run c)"
| got: "cn_wait c = Some tag \<Longrightarrow> future_get (cn_acc c) tag = Some sock \<Longrightarrow>
    conn_step run nCh c (Inr (c\<lparr> cn_wait := None, cn_socks := cn_socks c @ [sock] \<rparr>))"

inductive_simps conn_step_iff: "conn_step run nCh c r"

inductive conn_runs :: "string \<Rightarrow> nat \<Rightarrow> conn \<Rightarrow> nat \<Rightarrow> conn \<Rightarrow> bool" where
  here: "conn_runs run nCh c 0 c"
| more: "conn_runs run nCh c k c' \<Longrightarrow> conn_step run nCh c' (Inr c'') \<Longrightarrow> conn_runs run nCh c (Suc k) c''"

section \<open>Warming the channels\<close>

text \<open>
  One byte in each direction over channel \<open>j\<close>: \<open>out\<close> is the link from party 0 to party 1, \<open>back\<close> the other.
  Party 0 sends first and then waits, party 1 waits first, so the four calls happen in this order.
\<close>

definition warm_byte :: "u64 \<Rightarrow> u8" where
  "warm_byte me = 0xA0 OR ucast (me AND 1)"

definition warm_channel :: "nat \<Rightarrow> link \<times> link \<Rightarrow> (link \<times> link) comp" where
  "warm_channel j ls =
     bindC (liftC (ch_send (fst ls) j [warm_byte 0])) (\<lambda>out.
     bindC (ch_recv out j 1) (\<lambda>(b1, out).
     bindC (liftC (ch_send (snd ls) j [warm_byte 1])) (\<lambda>back.
     bindC (ch_recv back j 1) (\<lambda>(b0, back).
     retC (out, back)))))"

fun warmChannels :: "nat list \<Rightarrow> link \<times> link \<Rightarrow> (link \<times> link) comp" where
  "warmChannels [] ls = retC ls"
| "warmChannels (j # js) ls = bindC (warm_channel j ls) (\<lambda>ls. warmChannels js ls)"

section \<open>Exceptions\<close>

text \<open>What is computed before the I/O service is created.\<close>

definition pqpsi_early :: "psi_env \<Rightarrow> nat \<Rightarrow> block list \<Rightarrow> psi_opts \<Rightarrow> RBInfo result" where
  "pqpsi_early env setSize xs opts =
     guardE (setSize \<noteq> length xs) (InvalidArgument ''pqpsi: setSize must match set.size()'')
       (RBInfoOf (pe_rb env) (length xs) (case po_rb opts of None \<Rightarrow> RBParams_default | Some r \<Rightarrow> r))"

section \<open>Numbers as text\<close>

definition text_value :: "string \<Rightarrow> nat" where
  "text_value s = foldl (\<lambda>x c. 10 * x + (of_char c - 48)) 0 s"

lemma of_digit_char: "d < 10 \<Longrightarrow> of_char (digit_char d) = (48 + d :: nat)"
  by (simp add: digit_char_def)

lemma text_value_to_string: "text_value (to_string n) = n"
proof (induction n rule: to_string.induct)
  case (1 n)
  then show ?case by (cases "n < 10") (simp_all add: to_string.simps [of n] text_value_def of_digit_char)
qed

lemma to_string_inj: "to_string i = to_string j \<longleftrightarrow> i = j"
  by (metis text_value_to_string)

lemma digit_char_tick: "d < 10 \<Longrightarrow> digit_char d \<noteq> tick"
proof
  assume "d < 10" and "digit_char d = tick"
  then have "(48 + d :: nat) = of_char tick" using of_digit_char [of d] by simp
  then show False using \<open>d < 10\<close> by simp
qed

lemma to_string_facts: "to_string n \<noteq> [] \<and> tick \<notin> set (to_string n) \<and> length (to_string n) \<le> Suc n"
proof (induction n rule: to_string.induct)
  case (1 n)
  show ?case
  proof (cases "n < 10")
    case True
    then show ?thesis using digit_char_tick [of n] by (auto simp: to_string.simps [of n])
  next
    case False
    then have "Suc (n div 10) < Suc n" by simp
    then show ?thesis using 1 [OF False] digit_char_tick [of "n mod 10"] False by (auto simp: to_string.simps [of n])
  qed
qed

lemma chName_facts: "chName run j \<noteq> []" "tick \<notin> set run \<Longrightarrow> tick \<notin> set (chName run j)" "chName run i = chName run j \<longleftrightarrow> i = j"
  "length (chName run j) \<le> length run + 4 + j"
  using to_string_facts [of j] by (auto simp: chName_def to_string_inj)

section \<open>The channels meet\<close>

definition psi_tag :: "string \<Rightarrow> nat \<Rightarrow> string" where
  "psi_tag run j = chan_tag run (chName run j) (chName run j)"

lemma psi_tag_inj: "psi_tag run i = psi_tag run j \<longleftrightarrow> i = j"
proof
  assume e: "psi_tag run i = psi_tag run j"
  then have "length (psi_tag run i) = length (psi_tag run j)" by simp
  then have "length (chName run i) = length (chName run j)" by (simp add: psi_tag_def chan_tag_def)
  then have "chName run i = chName run j" using e by (simp add: psi_tag_def chan_tag_def)
  then show "i = j" by (simp add: chName_facts)
qed simp

definition greeting :: "string \<Rightarrow> nat \<Rightarrow> u8 list" where
  "greeting run j = frame (str_bytes (run @ [tick] @ chName run j @ [tick] @ chName run j))"

definition small_names :: "string \<Rightarrow> nat \<Rightarrow> bool" where
  "small_names run nCh \<longleftrightarrow> length run < 2 ^ 30 \<and> nCh \<le> 2 ^ 20"

lemma hello_short: "small_names run nCh \<Longrightarrow> j < nCh \<Longrightarrow> length (run @ [tick] @ chName run j @ [tick] @ chName run j) < 2 ^ 32"
  using chName_facts(4) [of run j] by (simp add: small_names_def)

text \<open>
  Which channels have met: the acceptor has been offered the sockets of the client whose names it
  read, and asked for those of the channels that the host has added. \<open>k\<close> counts the steps.
\<close>

definition desk_ok :: "string \<Rightarrow> conn \<Rightarrow> bool" where
  "desk_ok run c \<longleftrightarrow> (\<exists>Off Ask. acc_rep (cn_acc c) Off Ask \<and>
     (\<forall>j. Off (psi_tag run j) = (if j < length (ep_channels (cn_client c)) \<and> j \<notin> fst ` set (cn_sent c) then Some j else None)) \<and>
     (\<forall>j. psi_tag run j \<in> Ask \<longleftrightarrow> j < length (ep_channels (cn_host c))))"

lemma desk_okI:
  assumes "acc_rep (cn_acc c) Off Ask"
    and "\<And>j. Off (psi_tag run j) = (if j < length (ep_channels (cn_client c)) \<and> j \<notin> fst ` set (cn_sent c) then Some j else None)"
    and "\<And>j. psi_tag run j \<in> Ask \<longleftrightarrow> j < length (ep_channels (cn_host c))"
  shows "desk_ok run c"
  using assms unfolding desk_ok_def by blast

definition sent_ok :: "string \<Rightarrow> conn \<Rightarrow> bool" where
  "sent_ok run c \<longleftrightarrow> distinct (map fst (cn_sent c)) \<and>
     (\<forall>(j, msg) \<in> set (cn_sent c). j < length (ep_channels (cn_client c)) \<and> msg = greeting run j)"

definition wait_ok :: "string \<Rightarrow> conn \<Rightarrow> bool" where
  "wait_ok run c \<longleftrightarrow> (\<exists>m. cn_socks c = [0..<m] \<and>
     (case cn_wait c of None \<Rightarrow> m = length (ep_channels (cn_host c))
      | Some t \<Rightarrow> Suc m = length (ep_channels (cn_host c)) \<and> t = psi_tag run m))"

definition ends_ok :: "string \<Rightarrow> nat \<Rightarrow> nat \<Rightarrow> conn \<Rightarrow> bool" where
  "ends_ok run nCh k c \<longleftrightarrow> ep_name (cn_host c) = run \<and> ep_name (cn_client c) = run \<and>
     \<not> ep_stopped (cn_host c) \<and> \<not> ep_stopped (cn_client c) \<and>
     length (ep_channels (cn_client c)) \<le> nCh \<and> length (ep_channels (cn_host c)) \<le> nCh \<and>
     k + length (cn_sent c) = 2 * length (ep_channels (cn_client c)) + length (ep_channels (cn_host c)) + length (cn_socks c)"

definition conn_inv :: "string \<Rightarrow> nat \<Rightarrow> nat \<Rightarrow> conn \<Rightarrow> bool" where
  "conn_inv run nCh k c \<longleftrightarrow> desk_ok run c \<and> sent_ok run c \<and> wait_ok run c \<and> ends_ok run nCh k c"

lemmas conn_inv_defs = conn_inv_def sent_ok_def wait_ok_def ends_ok_def

lemma conn_start_eq:
  "\<exists>c. conn_start hw base run = Inr c \<and> conn_inv run nCh 0 c \<and> mSocketPromises (cn_acc c) = Map.empty \<and>
     cn_wait c = None \<and> cn_socks c = [] \<and> ep_name (cn_host c) = run \<and> ep_channels (cn_host c) = []"
proof -
  let ?h = "BtEndpoint_new\<lparr> ep_port := psi_port base 0 1, ep_host := True, ep_stopped := False, ep_name := run \<rparr>"
  let ?c = "BtEndpoint_new\<lparr> ep_port := psi_port base 1 0, ep_host := False, ep_stopped := False, ep_name := run \<rparr>"
  have e: "psi_endpoint base run 0 1 = Inr ?h" "psi_endpoint base run 1 0 = Inr ?c"
    by (simp_all add: psi_endpoint_def ep_start_def BtEndpoint_new_def isServer_def)
  obtain a where a: "getAcceptor (BtIOService_new hw 0) ?h (ep_port ?h) None = ((BtIOService_new hw 0)\<lparr> ios_acceptors := [a] \<rparr>, Inr 0)"
      "mSocketPromises a = Map.empty"
    using getAcceptor_listens [of ?h "BtIOService_new hw 0"] by (auto simp: BtIOService_new_def)
  let ?s = "\<lparr> cn_acc = a, cn_host = ?h, cn_client = ?c, cn_wait = None, cn_socks = [], cn_sent = [] \<rparr>"
  have "desk_ok run ?s" unfolding desk_ok_def
    using acc_rep_new [OF a(2)] by (auto simp: BtEndpoint_new_def intro!: exI [of _ Map.empty] exI [of _ "{}"])
  then have "conn_inv run nCh 0 ?s" by (simp add: conn_inv_defs BtEndpoint_new_def)
  moreover have "conn_start hw base run = Inr ?s" unfolding conn_start_def e bindE_simps a(1) by simp
  ultimately show ?thesis using a(2) by (intro exI [of _ ?s]) (simp add: BtEndpoint_new_def)
qed

lemma client_add_inv:
  assumes i: "conn_inv run nCh k c" and n: "length (ep_channels (cn_client c)) < nCh" and s: "small_names run nCh"
  shows "\<exists>c'. client_add run c = Inr c' \<and> conn_inv run nCh (Suc k) c'"
proof -
  let ?j = "length (ep_channels (cn_client c))"
  let ?p = "(chName run ?j, chName run ?j)"
  let ?ep = "(cn_client c)\<lparr> ep_channels := ep_channels (cn_client c) @ [?p] \<rparr>"
  let ?c = "c\<lparr> cn_client := ?ep, cn_sent := cn_sent c @ [(?j, greeting run ?j)] \<rparr>"
  have nm: "ep_name (cn_client c) = run" "\<not> ep_stopped (cn_client c)" using i by (auto simp: conn_inv_defs)
  have h: "hello ?ep ?p = run @ [tick] @ chName run ?j @ [tick] @ chName run ?j" by (simp add: hello_def nm)
  have w: "client_wire ?ep ?p = Inr (greeting run ?j)"
    using client_wire_frame [of ?ep ?p] hello_short [OF s n] unfolding h greeting_def by blast
  have a: "ep_addChannel (cn_client c) (chName run ?j) (chName run ?j) = Inr (?p, ?ep)" using nm by (simp add: ep_addChannel_def chName_facts Let_def)
  have e: "client_add run c = Inr ?c" unfolding client_add_def Let_def a bindE_simps prod.case w ..
  have fresh: "?j \<notin> fst ` set (cn_sent c)" using i by (auto simp: conn_inv_defs)
  obtain Off Ask where o: "acc_rep (cn_acc c) Off Ask"
      "\<forall>j. Off (psi_tag run j) = (if j < ?j \<and> j \<notin> fst ` set (cn_sent c) then Some j else None)"
      "\<forall>j. psi_tag run j \<in> Ask \<longleftrightarrow> j < length (ep_channels (cn_host c))"
    using i by (auto simp: conn_inv_def desk_ok_def)
  have "desk_ok run ?c" using o by (intro desk_okI [of _ Off Ask]) auto
  moreover have "sent_ok run ?c" using i fresh by (auto simp: conn_inv_def sent_ok_def)
  moreover have "wait_ok run ?c" using i by (cases "cn_wait c") (auto simp: conn_inv_def wait_ok_def)
  moreover have "ends_ok run nCh (Suc k) ?c" using i n by (simp add: conn_inv_def ends_ok_def)
  ultimately have "conn_inv run nCh (Suc k) ?c" by (simp add: conn_inv_def)
  then show ?thesis using e by blast
qed

lemma host_add_inv:
  assumes i: "conn_inv run nCh k c" and n: "length (ep_channels (cn_host c)) < nCh" and w: "cn_wait c = None"
  shows "\<exists>c'. host_add run c = Inr c' \<and> conn_inv run nCh (Suc k) c'"
proof -
  let ?j = "length (ep_channels (cn_host c))"
  let ?p = "(chName run ?j, chName run ?j)"
  let ?ep = "(cn_host c)\<lparr> ep_channels := ep_channels (cn_host c) @ [?p] \<rparr>"
  have nm: "ep_name (cn_host c) = run" "\<not> ep_stopped (cn_host c)" using i by (auto simp: conn_inv_defs)
  obtain Off Ask where o: "acc_rep (cn_acc c) Off Ask"
      "\<forall>j. Off (psi_tag run j) = (if j < length (ep_channels (cn_client c)) \<and> j \<notin> fst ` set (cn_sent c) then Some j else None)"
      "\<forall>j. psi_tag run j \<in> Ask \<longleftrightarrow> j < ?j"
    using i by (auto simp: conn_inv_def desk_ok_def)
  obtain a where a: "acc_ask (cn_acc c) (psi_tag run ?j) = Inr a" "acc_rep a Off (insert (psi_tag run ?j) Ask)"
    using desk.ask_new [OF o(1), of "psi_tag run ?j"] o(3) by auto
  let ?c = "c\<lparr> cn_host := ?ep, cn_acc := a, cn_wait := Some (psi_tag run ?j) \<rparr>"
  have "ep_addChannel (cn_host c) (chName run ?j) (chName run ?j) = Inr (?p, ?ep)" using nm by (simp add: ep_addChannel_def chName_facts Let_def)
  moreover have "getSocket (cn_acc c) ?ep ?p = Inr (psi_tag run ?j, a)"
    using a(1) by (simp add: getSocket_ask psi_tag_def nm)
  ultimately have e: "host_add run c = Inr ?c" by (simp add: host_add_def Let_def)
  have "desk_ok run ?c" using a(2) o by (intro desk_okI [of _ Off "insert (psi_tag run ?j) Ask"]) (auto simp: psi_tag_inj)
  moreover have "sent_ok run ?c" using i by (simp add: conn_inv_def sent_ok_def)
  moreover have "wait_ok run ?c" using i w by (simp add: conn_inv_def wait_ok_def)
  moreover have "ends_ok run nCh (Suc k) ?c" using i n by (simp add: conn_inv_def ends_ok_def)
  ultimately have "conn_inv run nCh (Suc k) ?c" by (simp add: conn_inv_def)
  then show ?thesis using e by blast
qed

lemma accept_one_inv:
  assumes i: "conn_inv run nCh k c" and q: "q < length (cn_sent c)" and s: "small_names run nCh" and t: "tick \<notin> set run"
  shows "\<exists>c'. accept_one q c = Inr c' \<and> conn_inv run nCh (Suc k) c'"
proof -
  let ?cl = "length (ep_channels (cn_client c))"
  obtain xs j msg ys where sent: "cn_sent c = xs @ (j, msg) # ys" "length xs = q"
    using id_take_nth_drop [OF q] q by (metis length_take min.absorb4 surj_pair)
  have j: "j < ?cl" "msg = greeting run j" using i sent by (auto simp: conn_inv_defs)
  have d: "j \<notin> fst ` set (xs @ ys)" using i sent by (auto simp: conn_inv_defs)
  have nm: "ep_name (cn_client c) = run" "j < nCh" using i j by (auto simp: conn_inv_defs)
  have cn: "tick \<notin> set (chName run j)" "chName run j \<noteq> []" using t by (auto simp: chName_facts)
  obtain Off Ask where o: "acc_rep (cn_acc c) Off Ask"
      "\<forall>i. Off (psi_tag run i) = (if i < ?cl \<and> i \<notin> fst ` set (cn_sent c) then Some i else None)"
      "\<forall>i. psi_tag run i \<in> Ask \<longleftrightarrow> i < length (ep_channels (cn_host c))"
    using i by (auto simp: conn_inv_def desk_ok_def)
  have none: "Off (psi_tag run j) = None" using o(2) sent(1) by simp
  obtain a where a: "acc_offer (cn_acc c) (psi_tag run j) j = Inr a" "acc_rep a (Off(psi_tag run j \<mapsto> j)) Ask"
    using desk.offer_new [OF o(1) none] by blast
  have h: "hello (cn_client c) (chName run j, chName run j) = run @ [tick] @ chName run j @ [tick] @ chName run j"
    by (simp add: hello_def nm)
  have "acc_handshake (cn_acc c) j msg = in_worker (acc_offer (cn_acc c) (psi_tag run j) j)"
    using acc_handshake_frame [OF hello_short [OF s nm(2)], of "cn_acc c" j] acc_on_hello [of "cn_client c", unfolded nm(1), OF t cn(1) cn(1,2)]
    unfolding j(2) greeting_def h [symmetric] psi_tag_def by simp
  then have e: "accept_one q c = Inr (c\<lparr> cn_acc := a, cn_sent := xs @ ys \<rparr>)" (is "_ = Inr ?c")
    using sent a(1) by (simp add: accept_one_def nth_append)
  have "desk_ok run ?c"
    using a(2) o(2,3) j(1) d sent(1) by (intro desk_okI [of _ "Off(psi_tag run j \<mapsto> j)" Ask]) (auto simp: psi_tag_inj)
  moreover have "sent_ok run ?c" using i sent(1) by (auto simp: conn_inv_def sent_ok_def)
  moreover have "wait_ok run ?c" using i by (cases "cn_wait c") (auto simp: conn_inv_def wait_ok_def)
  moreover have "ends_ok run nCh (Suc k) ?c" using i sent(1) by (simp add: conn_inv_def ends_ok_def)
  ultimately have "conn_inv run nCh (Suc k) ?c" by (simp add: conn_inv_def)
  then show ?thesis using e by blast
qed

lemma got_inv:
  assumes i: "conn_inv run nCh k c" and w: "cn_wait c = Some tag" "future_get (cn_acc c) tag = Some sock"
  shows "conn_inv run nCh (Suc k) (c\<lparr> cn_wait := None, cn_socks := cn_socks c @ [sock] \<rparr>)" (is "conn_inv _ _ _ ?c")
proof -
  obtain Off Ask where o: "acc_rep (cn_acc c) Off Ask"
      "\<forall>i. Off (psi_tag run i) = (if i < length (ep_channels (cn_client c)) \<and> i \<notin> fst ` set (cn_sent c) then Some i else None)"
    using i by (auto simp: conn_inv_def desk_ok_def)
  obtain m where m: "cn_socks c = [0..<m]" "Suc m = length (ep_channels (cn_host c))" "tag = psi_tag run m"
    using i w(1) by (auto simp: conn_inv_def wait_ok_def)
  have "sock = m" using desk.answer_offer [OF o(1), of tag] w(2) o(2) by (auto simp: m(3) split: if_splits)
  then have "cn_socks c @ [sock] = [0..<Suc m]" using m(1) by simp
  then have "wait_ok run ?c" using m(2) by (auto simp: wait_ok_def)
  moreover have "desk_ok run ?c" using i by (simp add: conn_inv_def desk_ok_def)
  moreover have "sent_ok run ?c" using i by (simp add: conn_inv_def sent_ok_def)
  moreover have "ends_ok run nCh (Suc k) ?c" using i by (simp add: conn_inv_def ends_ok_def)
  ultimately show ?thesis by (simp add: conn_inv_def)
qed

lemma conn_step_inv:
  assumes "conn_inv run nCh k c" and "small_names run nCh" and "tick \<notin> set run" and "conn_step run nCh c r"
  shows "\<exists>c'. r = Inr c' \<and> conn_inv run nCh (Suc k) c'"
  using assms(4)
proof cases
  case client
  then show ?thesis using client_add_inv [OF assms(1)] assms(2) by blast
next
  case (accept k)
  then show ?thesis using accept_one_inv [OF assms(1)] assms by blast
next
  case host
  then show ?thesis using host_add_inv [OF assms(1)] by blast
next
  case (got tag sock)
  then show ?thesis using got_inv [OF assms(1)] by blast
qed

lemma conn_runs_inv:
  assumes "conn_runs run nCh c k c'" and "conn_inv run nCh 0 c" and "small_names run nCh" and "tick \<notin> set run"
  shows "conn_inv run nCh k c'"
  using assms
proof induction
  case (more run nCh c k c' c'')
  then show ?case using conn_step_inv by fastforce
qed

text \<open>Where no step is possible every channel is connected; until then some step is.\<close>

lemma conn_stuck_iff:
  assumes i: "conn_inv run nCh k c"
  shows "(\<forall>r. \<not> conn_step run nCh c r) \<longleftrightarrow> length (cn_socks c) = nCh \<and> cn_sent c = [] \<and> length (ep_channels (cn_client c)) = nCh"
proof
  assume n: "\<forall>r. \<not> conn_step run nCh c r"
  have cl: "length (ep_channels (cn_client c)) = nCh" using n i client [of c nCh run] by (fastforce simp: conn_inv_defs)
  have s: "cn_sent c = []" using n accept [of 0 c run nCh] by fastforce
  obtain Off Ask where o: "acc_rep (cn_acc c) Off Ask" "\<forall>i. Off (psi_tag run i) = (if i < nCh then Some i else None)"
    using i cl s by (auto simp: conn_inv_def desk_ok_def)
  have "length (cn_socks c) = nCh"
  proof (cases "cn_wait c")
    case None
    then show ?thesis using n i host [of c nCh run] by (fastforce simp: conn_inv_defs)
  next
    case (Some tag)
    then have "tag = psi_tag run (length (cn_socks c))" "length (cn_socks c) < nCh" using i
      by (auto simp: conn_inv_def wait_ok_def ends_ok_def)
    then have "future_get (cn_acc c) tag = Some (length (cn_socks c))" using desk.answer_offer [OF o(1), of tag] o(2) by simp
    then show ?thesis using n got [OF Some] by blast
  qed
  then show "length (cn_socks c) = nCh \<and> cn_sent c = [] \<and> length (ep_channels (cn_client c)) = nCh" using s cl by blast
next
  assume f: "length (cn_socks c) = nCh \<and> cn_sent c = [] \<and> length (ep_channels (cn_client c)) = nCh"
  then have "cn_wait c = None" using i by (cases "cn_wait c") (auto simp: conn_inv_defs)
  then show "\<forall>r. \<not> conn_step run nCh c r" using f i by (auto simp: conn_step_iff conn_inv_defs)
qed

section \<open>A name with the separator\<close>

definition no_tick :: "BtAcceptor \<Rightarrow> bool" where
  "no_tick a \<longleftrightarrow> (\<forall>tag p. mSocketPromises a tag = Some p \<and> pr_value p \<noteq> None \<longrightarrow> tick \<notin> set tag)"

lemma acc_on_names_no_tick:
  assumes "acc_on_names a sock s = Inr a'" and "no_tick a"
  shows "no_tick a'"
proof -
  let ?names = "split s tick"
  let ?tag = "chan_tag (?names ! 0) (?names ! 2) (?names ! 1)"
  have l: "2 < length ?names" and p: "prom_set (acc_promise a ?tag) ?tag sock = Inr a'"
    using assms(1) by (simp_all add: acc_on_names_def getSocketPromise_eq guardE_def Let_def split: if_splits)
  have "tick \<notin> set (?names ! k)" if "k \<le> 2" for k
    using l that by (intro split_pieces_free [of _ s]) (auto intro!: nth_mem)
  then have t: "tick \<notin> set ?tag" by (simp add: chan_tag_def)
  have "no_tick (acc_promise a ?tag)" using assms(2) by (auto simp: no_tick_def acc_promise_def)
  then show ?thesis using p t by (auto simp: prom_set_def no_tick_def guardE_def split: option.splits if_splits)
qed

lemma acc_handshake_no_tick: "acc_handshake a sock msg = Inr a' \<Longrightarrow> no_tick a \<Longrightarrow> no_tick a'"
  by (auto simp: acc_handshake_def acc_on_body_def Let_def in_worker_Inr_iff result_simps acc_on_names_no_tick
      split: option.splits if_splits)

lemma acc_ask_no_tick: "acc_ask a tag = Inr a' \<Longrightarrow> no_tick a \<Longrightarrow> no_tick a'"
  by (auto simp: acc_ask_def acc_promise_def no_tick_def guardE_def split: option.splits if_splits)

definition lost_inv :: "string \<Rightarrow> conn \<Rightarrow> bool" where
  "lost_inv run c \<longleftrightarrow> no_tick (cn_acc c) \<and> ep_name (cn_host c) = run \<and> cn_socks c = [] \<and> (\<forall>t. cn_wait c = Some t \<longrightarrow> tick \<in> set t)"

lemma lost_step:
  assumes "conn_step run nCh c (Inr c')" and "lost_inv run c" and "tick \<in> set run"
  shows "lost_inv run c'"
  using assms(1)
proof cases
  case client
  from client(1) [symmetric] show ?thesis using assms(2) by (auto simp: client_add_def lost_inv_def Let_def result_simps)
next
  case (accept k)
  from accept(1) [symmetric] show ?thesis using assms(2)
    by (auto simp: accept_one_def lost_inv_def result_simps acc_handshake_no_tick split: prod.splits)
next
  case host
  from host(1) [symmetric] show ?thesis using assms(2,3)
    by (auto simp: host_add_def lost_inv_def Let_def result_simps ep_addChannel_def getSocket_ask acc_ask_no_tick chan_tag_def)
next
  case (got tag sock)
  then have "tick \<notin> set tag" using assms(2) by (auto simp: lost_inv_def no_tick_def future_get_def split: option.splits)
  then show ?thesis using got assms(2) by (auto simp: lost_inv_def)
qed

lemma lost_runs: "conn_runs run nCh c k c' \<Longrightarrow> lost_inv run c \<Longrightarrow> tick \<in> set run \<Longrightarrow> lost_inv run c'"
  by (induction rule: conn_runs.induct) (auto dest: lost_step)

section \<open>Ports, warm-up and exceptions\<close>

lemma psi_roles: "psi_port base 0 1 = psi_port base 1 0" "isServer 0 1" "\<not> isServer 1 0"
  by (simp_all add: psi_port_def isServer_def)

text \<open>The warm-up returns and leaves the links as it found them.\<close>

lemma warm_channel_idle:
  assumes "j < length out" and "j < length back" and "out ! j = []" and "back ! j = []"
  shows "warm_channel j (out, back) = retC (out, back)"
proof -
  have s: "ch_send lnk j [b] = Inr (lnk[j := [[b]]])" if "lnk ! j = []" for lnk b
    using that by (simp add: ch_send_def ch_put_def size32_def cut32_def)
  have r: "ch_recv (lnk[j := [[b]]]) j 1 = retC ([b], lnk)" if "j < length lnk" "lnk ! j = []" for lnk b
    using that by (simp add: ch_recv_def ch_bytes_def) (metis list_update_id)
  show ?thesis using assms by (simp add: warm_channel_def s r [unfolded One_nat_def])
qed

lemma warmChannels_idle:
  assumes "\<forall>j \<in> set js. j < length out \<and> j < length back \<and> out ! j = [] \<and> back ! j = []"
  shows "warmChannels js (out, back) = retC (out, back)"
  using assms by (induction js) (simp_all add: warm_channel_idle)

lemma pqpsi_ctx_xoodoo:
  assumes "po_pi opts = Some p" and "pi_kind p = PK_Xoodoo" and "po_kem opts = None \<or> po_kem opts = Some ObfMlKem"
    and "pqpsi_early env n xs opts = Inr info"
  shows "pqpsi_ctx env pv me n xs opts = Inl (InvalidArgument ''xoodoo permutation is only supported with eckem'')"
proof -
  have k: "(case po_kem opts of None \<Rightarrow> ObfMlKem | Some k \<Rightarrow> k) = ObfMlKem" using assms(3) by auto
  have "n = length xs" "RBInfoOf (pe_rb env) (length xs) (case po_rb opts of None \<Rightarrow> RBParams_default | Some r \<Rightarrow> r) = Inr info"
    using assms(4) by (simp_all add: pqpsi_early_def guardE_Inr_iff)
  then show ?thesis using assms(1,2) kem_width_pos(2) [of ObfMlKem] by (simp add: pqpsi_ctx_def Let_def k pick_pi_def)
qed

section \<open>Complete runs\<close>

lemma conn_stuck_steps: "conn_inv run nCh k c \<Longrightarrow> (\<forall>r. \<not> conn_step run nCh c r) \<longleftrightarrow> k = 4 * nCh"
  and conn_steps_le: "conn_inv run nCh k c \<Longrightarrow> k \<le> 4 * nCh"
proof -
  assume i: "conn_inv run nCh k c"
  have l: "length (cn_socks c) \<le> length (ep_channels (cn_host c))" "length (ep_channels (cn_host c)) \<le> nCh"
      "length (ep_channels (cn_client c)) \<le> nCh"
      "k + length (cn_sent c) = 2 * length (ep_channels (cn_client c)) + length (ep_channels (cn_host c)) + length (cn_socks c)"
    using i by (cases "cn_wait c"; auto simp: conn_inv_def wait_ok_def ends_ok_def)+
  show "k \<le> 4 * nCh" using l by linarith
  show "(\<forall>r. \<not> conn_step run nCh c r) \<longleftrightarrow> k = 4 * nCh" unfolding conn_stuck_iff [OF i]
  proof
    assume f: "length (cn_socks c) = nCh \<and> cn_sent c = [] \<and> length (ep_channels (cn_client c)) = nCh"
    then show "k = 4 * nCh" using l by simp
  next
    assume "k = 4 * nCh"
    then have "length (cn_socks c) = nCh" "length (cn_sent c) = 0" "length (ep_channels (cn_client c)) = nCh" using l by linarith+
    then show "length (cn_socks c) = nCh \<and> cn_sent c = [] \<and> length (ep_channels (cn_client c)) = nCh" by simp
  qed
qed

lemma conn_extends:
  assumes "conn_inv run nCh 0 c" and "small_names run nCh" and "tick \<notin> set run" and "k \<le> 4 * nCh"
  shows "\<exists>c'. conn_runs run nCh c k c'"
  using assms(4)
proof (induction k)
  case 0
  show ?case using conn_runs.here by blast
next
  case (Suc k)
  then obtain c1 where r: "conn_runs run nCh c k c1" by auto
  have i: "conn_inv run nCh k c1" using conn_runs_inv [OF r assms(1-3)] .
  obtain r' where s: "conn_step run nCh c1 r'" using conn_stuck_steps [OF i] Suc.prems by auto
  then obtain c2 where "r' = Inr c2" using conn_step_inv [OF i assms(2,3) s] by blast
  then show ?case using conn_runs.more [OF r] s by blast
qed

section \<open>The end of a run\<close>

text \<open>
  The channels are closed in the order they were opened, the endpoint is stopped, then the service.
  Every wait returns, and the service can be destroyed.
\<close>

lemma psi_teardown:
  assumes "psi_endpoint base run me i = Inr ep" and "list_all listening (ios_acceptors ios)" and "ios = ios_register (BtIOService_new hw 0) k\<lparr> ios_acceptors := as \<rparr>"
  shows "\<exists>ep' ios'. foldE ep_do ep (map (\<lambda>j. AddChannel (chName run j) (chName run j)) [0..<nCh] @
      map (\<lambda>j. RemoveChannel (chName run j)) [0..<nCh] @ [StopEndpoint]) = Inr ep' \<and>
    ios_stop ios (\<lambda>_. ep_done ep') = retC ios' \<and> ios_destroy ios' = retC ()"
proof -
  obtain ep' where e: "foldE ep_do ep (map (\<lambda>nm. AddChannel nm nm) (map (chName run) [0..<nCh]) @
      map RemoveChannel (map (chName run) [0..<nCh]) @ [StopEndpoint]) = Inr ep'" "ep_done ep'"
    using ep_teardown assms(1) unfolding psi_endpoint_def by blast
  obtain ios' where "ios_stop ios (\<lambda>_. ep_done ep') = retC ios'" "ios_destroy ios' = retC ()"
    using ios_stop_destroy [OF assms(2), of "\<lambda>_. ep_done ep'"] assms(3) e(2) by (auto simp: ios_register_def BtIOService_new_def)
  then show ?thesis using e(1) by (auto simp: comp_def)
qed

end
