(* ===== verification/Psi_Call.thy ===== *)
theory Psi_Call
  imports Psi_Connect
begin

text \<open>
  A whole call of \<open>pqpsi\<close> by one party: what happens before the I/O service exists, the endpoint, the
  channels, the byte each of them is warmed with, the context, the protocol, the teardown, and the
  destructor of the service on every way out. What the operating system and the peer answer is an
  argument. Every stage takes the service and returns it with its result, so that an exception finds
  the service as it is at that moment. The receives that are pending on a socket when an exception
  destroys it are not part of the model.
\<close>

section \<open>Stages\<close>

type_synonym 'a stage = "BtIOService \<Rightarrow> BtIOService \<times> 'a comp"

definition bindS :: "'a stage \<Rightarrow> ('a \<Rightarrow> 'b stage) \<Rightarrow> 'b stage" where
  "bindS m f ios =
     (case m ios of (ios', r) \<Rightarrow>
        case r of None \<Rightarrow> (ios', None) | Some (Inl e) \<Rightarrow> (ios', throwC e) | Some (Inr x) \<Rightarrow> f x ios')"

definition liftS :: "'a comp \<Rightarrow> 'a stage" where
  "liftS c ios = (ios, c)"

text \<open>
  The answers: \<open>os_resolve\<close>, \<open>os_bind\<close> the error of resolving and of binding, \<open>os_port\<close> the port of the
  resolved address, \<open>os_opened\<close>, \<open>os_reopen\<close>, \<open>os_con\<close> the success of opening and connecting the socket
  of a channel, \<open>os_arrive j\<close> the connections whose names the acceptor reads while the host waits for
  channel \<open>j\<close>, \<open>os_in\<close> what the peer sends on each channel, and \<open>os_close\<close> what becomes of closing one.
\<close>

record os_env =
  os_hardware :: nat
  os_tag :: "string option"
  os_portBase :: "nat option"
  os_resolve :: "string option"
  os_port :: u32
  os_bind :: "string option"
  os_opened :: "nat \<Rightarrow> bool"
  os_reopen :: "nat \<Rightarrow> nat \<Rightarrow> bool"
  os_con :: "nat \<Rightarrow> nat \<Rightarrow> bool"
  os_retry :: "int option"
  os_arrive :: "nat \<Rightarrow> (nat \<times> u8 list) list"
  os_in :: link
  os_close :: "nat \<Rightarrow> unit comp"

section \<open>Opening\<close>

text \<open>The party is 0 or 1, and the peer is the other one.\<close>

definition peer_of :: "u64 \<Rightarrow> u64" where
  "peer_of me = (if me = 0 then 1 else 0)"

text \<open>The endpoint with the position of its acceptor.\<close>

definition start_endpoint :: "os_env \<Rightarrow> string \<Rightarrow> u64 \<Rightarrow> (BtEndpoint \<times> nat) stage" where
  "start_endpoint os run me ios =
     (case psi_endpoint (port_base (os_portBase os)) run me (peer_of me) of
        Inl e \<Rightarrow> (ios, throwC e)
      | Inr ep \<Rightarrow>
          if ep_host ep
          then (case getAcceptor ios ep (os_port os) (os_bind os) of (ios', r) \<Rightarrow>
                  case r of Inl e \<Rightarrow> (ios', throwC e) | Inr k \<Rightarrow> (ios_register ios' 0, retC (ep, k)))
          else (case os_resolve os of Some m \<Rightarrow> (ios, throwC (RuntimeError m)) | None \<Rightarrow> (ios_register ios 0, retC (ep, 0))))"

definition add_channel :: "os_env \<Rightarrow> string \<Rightarrow> nat \<Rightarrow> nat \<Rightarrow> BtEndpoint \<Rightarrow> BtEndpoint stage" where
  "add_channel os run k j ep ios =
     (case ep_addChannel ep (chName run j) (chName run j) of
        Inl e \<Rightarrow> (ios, throwC e)
      | Inr (chl, ep') \<Rightarrow>
          if ep_host ep'
          then (case getSocket (ios_acceptors ios ! k) ep' chl of
                  Inl e \<Rightarrow> (ios, throwC e)
                | Inr (tag, a) \<Rightarrow>
                    (case foldE (\<lambda>a c. acc_handshake a (fst c) (snd c)) a (os_arrive os j) of
                       Inl e \<Rightarrow> (ios, throwC e)
                     | Inr a' \<Rightarrow> (ios\<lparr> ios_acceptors := (ios_acceptors ios)[k := a'] \<rparr>,
                         case future_get a' tag of None \<Rightarrow> None | Some sock \<Rightarrow> retC ep')))
          else (ios, liftC (bindE (ep_connect (os_opened os j) (os_reopen os j) (os_con os j) (os_retry os)) (\<lambda>u.
                 bindE (client_wire ep' chl) (\<lambda>msg. Inr ep')))))"

fun add_channels :: "os_env \<Rightarrow> string \<Rightarrow> nat \<Rightarrow> nat list \<Rightarrow> BtEndpoint \<Rightarrow> BtEndpoint stage" where
  "add_channels os run k [] ep = liftS (retC ep)"
| "add_channels os run k (j # js) ep = bindS (add_channel os run k j ep) (\<lambda>ep. add_channels os run k js ep)"

text \<open>The side of one party in \<open>warmChannels\<close>: the lower party sends first. The links are what it sends and what it gets.\<close>

definition warm_side :: "u64 \<Rightarrow> nat \<Rightarrow> link \<times> link \<Rightarrow> (link \<times> link) comp" where
  "warm_side me j ls =
     (if me < peer_of me
      then bindC (liftC (ch_send (fst ls) j [warm_byte me])) (\<lambda>out.
           bindC (ch_recv (snd ls) j 1) (\<lambda>(b, inn). retC (out, inn)))
      else bindC (ch_recv (snd ls) j 1) (\<lambda>(b, inn).
           bindC (liftC (ch_send (fst ls) j [warm_byte me])) (\<lambda>out. retC (out, inn))))"

fun warm_party :: "u64 \<Rightarrow> nat list \<Rightarrow> link \<times> link \<Rightarrow> (link \<times> link) comp" where
  "warm_party me [] ls = retC ls"
| "warm_party me (j # js) ls = bindC (warm_side me j ls) (\<lambda>ls. warm_party me js ls)"

section \<open>The protocol and the end\<close>

text \<open>
  \<open>Recv\<close>, which posts its receive before it sends, and \<open>Send\<close> with the links of the party; the result of a
  receiver is its number of hits.
\<close>

definition party_run :: "psi_env \<Rightarrow> Ctx \<Rightarrow> u64 \<Rightarrow> link \<times> link \<Rightarrow> u64 option comp" where
  "party_run env ctx me ls =
     (if me = 0
      then bindC (liftC (Recv_begin env ctx)) (\<lambda>st.
           let n = length (rs_buf st)
           in bindC (liftC (net_asyncRecv (multiThread ctx) (chls ctx) 1 (16 * n))) (\<lambda>jobs.
              bindC (net_send (multiThread ctx) (chls ctx) 1 (bytesOf (rs_buf st)) (fst ls)) (\<lambda>out.
              bindC (PendingRecv_wait jobs (replicate (16 * n) 0) (snd ls)) (\<lambda>(bytes, inn).
              bindC (liftC (Recv_finish env ctx st (blocksOf n bytes))) (\<lambda>hits. retC (Some hits))))))
      else if me = 1
      then let n = tableSize ctx * rowSize ctx
           in bindC (net_await (multiThread ctx) (chls ctx) 0 (replicate (16 * n) 0) (snd ls)) (\<lambda>(bytes, inn).
              bindC (liftC (Send_reply env ctx (blocksOf n bytes))) (\<lambda>out.
              bindC (net_send (multiThread ctx) (chls ctx) 0 (bytesOf out) (fst ls)) (\<lambda>lnk. retC None)))
      else retC None)"

fun close_all :: "os_env \<Rightarrow> string \<Rightarrow> nat list \<Rightarrow> BtEndpoint \<Rightarrow> BtEndpoint comp" where
  "close_all os run [] ep = retC ep"
| "close_all os run (j # js) ep =
     bindC (os_close os j) (\<lambda>u. bindC (liftC (ep_removeChannel ep (chName run j))) (\<lambda>ep. close_all os run js ep))"

text \<open>The channels are closed, the endpoint stops and waits for its promise, then the service stops.\<close>

definition stop_endpoint :: "os_env \<Rightarrow> string \<Rightarrow> nat \<Rightarrow> BtEndpoint \<Rightarrow> BtEndpoint comp" where
  "stop_endpoint os run nCh ep =
     bindC (close_all os run [0..<nCh] ep) (\<lambda>ep.
     bindC (liftC (ep_stop ep)) (\<lambda>ep. if ep_done ep then retC ep else None))"

definition teardown :: "os_env \<Rightarrow> string \<Rightarrow> nat \<Rightarrow> BtEndpoint \<Rightarrow> unit stage" where
  "teardown os run nCh ep =
     bindS (liftS (stop_endpoint os run nCh ep)) (\<lambda>ep ios.
       case ios_stop ios (\<lambda>_. ep_done ep) of
         None \<Rightarrow> (ios, None) | Some (Inl e) \<Rightarrow> (ios, throwC e) | Some (Inr ios') \<Rightarrow> (ios', retC ()))"

section \<open>The call\<close>

text \<open>
  Everything that happens while the service exists, with the parameters resolved before. The context
  is made after the channels are warm.
\<close>

definition pqpsi_body :: "psi_env \<Rightarrow> perm_env \<Rightarrow> os_env \<Rightarrow> u64 \<Rightarrow> nat \<Rightarrow> block list \<Rightarrow> psi_opts \<Rightarrow> RBInfo \<Rightarrow> u64 option stage" where
  "pqpsi_body env pv os me setSize xs opts info =
     (let run = runName (os_tag os);
          rbCfg = (case po_rb opts of None \<Rightarrow> RBParams_default | Some r \<Rightarrow> r);
          nCh = net_channels (prm_multiThread rbCfg) (inf_workerThreads info) (po_channels opts)
      in bindS (start_endpoint os run me) (\<lambda>(ep, k).
         bindS (add_channels os run k [0..<nCh] ep) (\<lambda>ep.
         bindS (liftS (warm_party me [0..<nCh] (replicate nCh [], os_in os))) (\<lambda>ls.
         bindS (liftS (liftC (pqpsi_ctx env pv me setSize xs opts))) (\<lambda>ctx.
         bindS (liftS (party_run env ctx me ls)) (\<lambda>hits.
         bindS (teardown os run nCh ep) (\<lambda>u. liftS (retC hits))))))))"

text \<open>
  The way out. A process that was terminated by one of its threads, or whose behaviour is undefined,
  does not unwind; everything else runs the destructor of the service first.
\<close>

definition fatal :: "error \<Rightarrow> bool" where
  "fatal e = (case e of Terminate \<Rightarrow> True | Undefined m \<Rightarrow> True | _ \<Rightarrow> False)"

definition leave_scope :: "BtIOService \<times> 'a comp \<Rightarrow> 'a comp" where
  "leave_scope p =
     (case snd p of
        None \<Rightarrow> None
      | Some (Inl e) \<Rightarrow> if fatal e then throwC e else bindC (ios_destroy (fst p)) (\<lambda>u. throwC e)
      | Some (Inr x) \<Rightarrow> bindC (ios_destroy (fst p)) (\<lambda>u. retC x))"

definition pqpsi_call :: "psi_env \<Rightarrow> perm_env \<Rightarrow> os_env \<Rightarrow> u64 \<Rightarrow> nat \<Rightarrow> block list \<Rightarrow> psi_opts \<Rightarrow> u64 option comp" where
  "pqpsi_call env pv os me setSize xs opts =
     bindC (liftC (pqpsi_early env setSize xs opts)) (\<lambda>info.
       leave_scope (pqpsi_body env pv os me setSize xs opts info (BtIOService_new (os_hardware os) 0)))"

lemma bindS_ret: "m ios = (ios', retC x) \<Longrightarrow> bindS m f ios = f x ios'"
  by (simp add: bindS_def retC_def)

lemma bindS_liftS: "bindS (liftS (retC x)) f ios = f x ios" "snd (bindS (liftS (liftC (Inl e))) f ios) = throwC e"
  by (simp_all add: bindS_def liftS_def retC_def liftC_def)

section \<open>The service along the way\<close>

text \<open>Its acceptors listen, its threads run, and it has not been stopped.\<close>

definition serving :: "BtIOService \<Rightarrow> bool" where
  "serving ios \<longleftrightarrow> list_all listening (ios_acceptors ios) \<and> ios_threads ios \<noteq> 0 \<and> \<not> ios_stopped ios"

definition keeps_serving :: "'a stage \<Rightarrow> bool" where
  "keeps_serving m \<longleftrightarrow> (\<forall>ios. serving ios \<longrightarrow> serving (fst (m ios)))"

text \<open>After a stage that threw the service serves; after one that returned it can be destroyed.\<close>

definition ended_ok :: "BtIOService \<times> 'a comp \<Rightarrow> bool" where
  "ended_ok p = (case snd p of None \<Rightarrow> True | Some (Inl e) \<Rightarrow> serving (fst p) | Some (Inr x) \<Rightarrow> ios_destroy (fst p) = retC ())"

definition ends_well :: "'a stage \<Rightarrow> bool" where
  "ends_well m \<longleftrightarrow> (\<forall>ios. serving ios \<longrightarrow> ended_ok (m ios))"

lemma ended_ok_simps [simp]:
  "ended_ok (ios, None)" "ended_ok (ios, throwC e) = serving ios" "ended_ok (ios, Some (Inl e)) = serving ios"
  "ended_ok (ios, retC x) = (ios_destroy ios = retC ())" "ended_ok (ios, Some (Inr x)) = (ios_destroy ios = retC ())"
  by (simp_all add: ended_ok_def throwC_def retC_def)

named_theorems stage_intros

lemma keeps_liftS [stage_intros]: "keeps_serving (liftS c)"
  by (simp add: keeps_serving_def liftS_def)

lemma keeps_bindS [stage_intros]:
  assumes "keeps_serving m" and "\<And>x. keeps_serving (f x)"
  shows "keeps_serving (bindS m f)"
  unfolding keeps_serving_def
proof (intro allI impI)
  fix ios assume "serving ios"
  then obtain ios' r where m: "m ios = (ios', r)" "serving ios'" using assms(1) by (cases "m ios") (auto simp: keeps_serving_def)
  then show "serving (fst (bindS m f ios))"
    using assms(2) by (auto simp: bindS_def keeps_serving_def split: option.split sum.split)
qed

lemma ends_bindS [stage_intros]:
  assumes "keeps_serving m" and "\<And>x. ends_well (f x)"
  shows "ends_well (bindS m f)"
  unfolding ends_well_def
proof (intro allI impI)
  fix ios assume "serving ios"
  then obtain ios' r where m: "m ios = (ios', r)" "serving ios'" using assms(1) by (cases "m ios") (auto simp: keeps_serving_def)
  then show "ended_ok (bindS m f ios)"
    using assms(2) by (auto simp: bindS_def ends_well_def split: option.split sum.split)
qed

lemma ends_return:
  assumes "ends_well m"
  shows "ends_well (bindS m (\<lambda>u. liftS (retC x)))"
  unfolding ends_well_def
proof (intro allI impI)
  fix ios assume s: "serving ios"
  obtain ios' r where m: "m ios = (ios', r)" by (cases "m ios")
  then have "ended_ok (ios', r)" using assms s by (metis ends_well_def)
  then show "ended_ok (bindS m (\<lambda>u. liftS (retC x)) ios)" by (auto simp: bindS_def m liftS_def split: option.split sum.split)
qed

lemma listening_promises: "listening (a\<lparr> mSocketPromises := p \<rparr>) = listening a"
  by (simp add: listening_def)

lemma getSocketPromise_listening: "getSocketPromise a e l r = (tag, a') \<Longrightarrow> listening a' = listening a"
  by (auto simp: getSocketPromise_def Let_def listening_promises split: if_splits)

lemma getSocket_listening: "getSocket a ep chl = Inr (tag, a') \<Longrightarrow> listening a' = listening a"
  by (auto simp: getSocket_def guardE_Inr_iff listening_promises split: prod.splits option.splits dest: getSocketPromise_listening)

lemma acc_handshake_listening: "acc_handshake a sock msg = Inr a' \<Longrightarrow> listening a' = listening a"
  by (auto simp: acc_handshake_def in_worker_def acc_on_body_def acc_on_names_def prom_set_def Let_def guardE_Inr_iff bindE_def
      listening_promises split: option.splits prod.splits sum.splits error.splits if_splits dest!: getSocketPromise_listening)

lemma handshakes_listening: "foldE (\<lambda>a c. acc_handshake a (fst c) (snd c)) a cs = Inr a' \<Longrightarrow> listening a' = listening a"
proof (induction cs arbitrary: a)
  case (Cons c cs)
  then show ?case by (auto simp: result_simps dest: acc_handshake_listening)
qed simp

lemma add_channel_serving [stage_intros]: "keeps_serving (add_channel os run k j ep)"
proof -
  have "serving (fst (add_channel os run k j ep ios))" if s: "serving ios" for ios
  proof (cases "k < length (ios_acceptors ios)")
    case True
    then have l: "listening (ios_acceptors ios ! k)" using s by (auto simp: serving_def list_all_length)
    have "list_all listening ((ios_acceptors ios)[k := a])" if "listening a" for a
      using s that True by (auto simp: serving_def list_all_length nth_list_update)
    then show ?thesis using s l
      by (auto simp: add_channel_def serving_def split: sum.splits prod.splits option.splits dest: getSocket_listening handshakes_listening)
  next
    case False
    then have "(ios_acceptors ios)[k := a] = ios_acceptors ios" for a by (simp add: list_update_beyond)
    then show ?thesis using s by (auto simp: add_channel_def serving_def split: sum.splits prod.splits option.splits)
  qed
  then show ?thesis by (simp add: keeps_serving_def)
qed

lemma add_channels_serving [stage_intros]: "keeps_serving (add_channels os run k js ep)"
  by (induction js arbitrary: ep) (simp_all add: stage_intros)

lemma stop_ends: "ends_well (\<lambda>ios. case ios_stop ios ended of
    None \<Rightarrow> (ios, None) | Some (Inl e) \<Rightarrow> (ios, throwC e) | Some (Inr ios') \<Rightarrow> (ios', retC ()))"
proof -
  have "ios_stop ios ended = None \<or> (\<exists>ios'. ios_stop ios ended = Some (Inr ios') \<and> ios_destroy ios' = retC ())" if s: "serving ios" for ios
  proof -
    have "destroy_all (map acc_stop (ios_acceptors ios)) = retC ()"
      using s by (intro destroy_all_listening) (simp add: serving_def list_all_iff listening_def acc_stop_def)
    then show ?thesis using s by (auto simp: ios_stop_def serving_def ios_destroy_def retC_def)
  qed
  then show ?thesis unfolding ends_well_def by (fastforce simp: retC_def)
qed

lemma teardown_ends: "ends_well (teardown os run nCh ep)"
  unfolding teardown_def by (intro ends_bindS keeps_liftS stop_ends)

section \<open>Every way out\<close>

definition bind_fails :: "os_env \<Rightarrow> u64 \<Rightarrow> bool" where
  "bind_fails os me \<longleftrightarrow> me = 0 \<and> (os_port os \<noteq> psi_port (port_base (os_portBase os)) 0 1 \<or> os_bind os \<noteq> None)"

lemma psi_endpoint_eq:
  "psi_endpoint base run me i = Inr (BtEndpoint_new\<lparr> ep_port := psi_port base me i, ep_host := isServer me i, ep_stopped := False, ep_name := run \<rparr>)"
  by (simp add: psi_endpoint_def ep_start_def BtEndpoint_new_def)

lemma isServer_peer: "isServer me (peer_of me) \<longleftrightarrow> me = 0"
  by (simp add: isServer_def peer_of_def)

lemma start_endpoint_serving:
  assumes "\<not> bind_fails os me" and "hw \<noteq> 0"
  shows "serving (fst (start_endpoint os run me (BtIOService_new hw 0)))"
proof -
  have n: "serving (BtIOService_new hw 0)" "ios_acceptors (BtIOService_new hw 0) = []" using assms(2) by (simp_all add: serving_def BtIOService_new_def)
  have r: "serving (ios_register ios k) = serving ios" for ios k by (simp add: serving_def ios_register_def)
  show ?thesis
  proof (cases "me = 0")
    case True
    let ?ep = "BtEndpoint_new\<lparr> ep_port := psi_port (port_base (os_portBase os)) 0 1, ep_host := True, ep_stopped := False, ep_name := run \<rparr>"
    obtain a where a: "getAcceptor (BtIOService_new hw 0) ?ep (ep_port ?ep) None = ((BtIOService_new hw 0)\<lparr> ios_acceptors := [a] \<rparr>, Inr 0)" "listening a"
      using getAcceptor_listens [of ?ep, OF _ n(2)] by auto
    have "serving ((BtIOService_new hw 0)\<lparr> ios_acceptors := [a] \<rparr>)" using n(1) a(2) by (simp add: serving_def)
    then show ?thesis using True assms(1) a(1)
      by (simp add: start_endpoint_def psi_endpoint_eq isServer_peer bind_fails_def) (simp add: peer_of_def r)
  next
    case False
    then show ?thesis using n(1) by (simp add: start_endpoint_def psi_endpoint_eq isServer_peer r split: option.split)
  qed
qed

lemma start_endpoint_bind_fails:
  assumes "bind_fails os me"
  shows "\<exists>ios m. start_endpoint os run me (BtIOService_new hw 0) = (ios, throwC (RuntimeError m)) \<and> ios_destroy ios = None"
proof -
  let ?p = "psi_port (port_base (os_portBase os)) 0 1"
  have me: "me = 0" "peer_of 0 = 1" using assms by (simp_all add: bind_fails_def peer_of_def)
  let ?ep = "BtEndpoint_new\<lparr> ep_port := ?p, ep_host := True, ep_stopped := False, ep_name := run \<rparr>"
  let ?ios = "(BtIOService_new hw 0)\<lparr> ios_acceptors := [BtAcceptor_new\<lparr> acc_port := ?p \<rparr>] \<rparr>"
  have "\<exists>m. getAcceptor (BtIOService_new hw 0) ?ep (os_port os) (os_bind os) = (?ios, Inl (RuntimeError m))"
    using assms by (auto simp: bind_fails_def getAcceptor_def acc_bind_def guardE_def BtIOService_new_def Let_def)
  then obtain m where "getAcceptor (BtIOService_new hw 0) ?ep (os_port os) (os_bind os) = (?ios, Inl (RuntimeError m))" by blast
  then have "start_endpoint os run me (BtIOService_new hw 0) = (?ios, throwC (RuntimeError m))"
    by (simp add: start_endpoint_def psi_endpoint_eq me isServer_def)
  moreover have "ios_destroy ?ios = None" by (simp add: ios_destroy_def acc_destroy_def acc_stop_def BtAcceptor_new_def Let_def)
  ultimately show ?thesis by blast
qed

lemma leave_scope_ended:
  assumes "ended_ok p"
  shows "leave_scope p = (case snd p of None \<Rightarrow> None | Some (Inl e) \<Rightarrow> throwC (if fatal e then e else Terminate) | Some (Inr x) \<Rightarrow> retC x)"
  using assms by (auto simp: leave_scope_def ended_ok_def serving_def ios_destroy_terminates split: option.split sum.split)

lemma bindS_ended:
  assumes "serving (fst (m ios))" and "\<And>x. ends_well (f x)"
  shows "ended_ok (bindS m f ios)"
  using assms by (cases "m ios") (auto simp: bindS_def ends_well_def split: option.split sum.split)

lemma pqpsi_body_ended:
  assumes "\<not> bind_fails os me" and "hw \<noteq> 0"
  shows "ended_ok (pqpsi_body env pv os me n xs opts info (BtIOService_new hw 0))"
  unfolding pqpsi_body_def Let_def
  by (intro bindS_ended start_endpoint_serving [OF assms])
    (auto intro!: ends_bindS keeps_liftS add_channels_serving ends_return teardown_ends split: prod.split)

lemma pqpsi_body_bind_fails:
  assumes "bind_fails os me"
  shows "\<exists>ios m. pqpsi_body env pv os me n xs opts info (BtIOService_new hw 0) = (ios, throwC (RuntimeError m)) \<and> ios_destroy ios = None"
  using start_endpoint_bind_fails [OF assms, of "runName (os_tag os)" hw]
  by (auto simp: pqpsi_body_def bindS_def throwC_def Let_def)

end
