(* ===== verification/Psi_Check.thy ===== *)
theory Psi_Check
  imports Psi_Setup
begin

text \<open>
  The self-checks of \<open>frontend/pqpsi/check.cpp\<close>: two sets with a given number of common items,
  a run of both parties on them, and the comparison of the count. The generator \<open>PRNG\<close> is the
  stream of the blocks it delivers; \<open>run\<close> is the receiver's count of a session.
\<close>

section \<open>The sets\<close>

definition sameBlock :: "block \<Rightarrow> block \<Rightarrow> bool" where
  "sameBlock a b \<longleftrightarrow> block_bytes a = block_bytes b"

fun hasBlock :: "block list \<Rightarrow> block \<Rightarrow> bool" where
  "hasBlock [] x = False"
| "hasBlock (v # vs) x = (if sameBlock v x then True else hasBlock vs x)"

text \<open>A block of neither list, with the position of the generator behind it; the loop may not end.\<close>

partial_function (option) freshBlock :: "(nat \<Rightarrow> block) \<Rightarrow> block list \<Rightarrow> block list \<Rightarrow> nat \<Rightarrow> (block \<times> nat) option" where
  "freshBlock prng forbidA forbidB pos =
     (let x = prng pos
      in if \<not> hasBlock forbidA x \<and> \<not> hasBlock forbidB x then Some (x, Suc pos)
         else freshBlock prng forbidA forbidB (Suc pos))"

fun replace_misses :: "(nat \<Rightarrow> block) \<Rightarrow> block list \<Rightarrow> nat list \<Rightarrow> block list \<Rightarrow> nat \<Rightarrow> block list option" where
  "replace_misses prng set1 [] set0 pos = Some set0"
| "replace_misses prng set1 (i # is) set0 pos =
     (case freshBlock prng set0 set1 pos of
        None \<Rightarrow> None
      | Some (x, pos) \<Rightarrow> replace_misses prng set1 is (set0[i := x]) pos)"

definition makePairSets :: "(nat \<Rightarrow> block) \<Rightarrow> nat \<Rightarrow> nat \<Rightarrow> (block list \<times> block list) option" where
  "makePairSets prng n hitTarget =
     (let set1 = map prng [0..<n];
          misses = (if hitTarget > n then 0 else n - hitTarget)
      in case replace_misses prng set1 [0..<misses] set1 n of
           None \<Rightarrow> None | Some set0 \<Rightarrow> Some (set0, set1))"

section \<open>The runs\<close>

definition hit_target :: "nat \<Rightarrow> nat \<Rightarrow> nat" where
  "hit_target n hitTarget =
     (let hitTarget = (if hitTarget = 2 ^ 64 - 1 then n - 1 else hitTarget)
      in if hitTarget > n then n else hitTarget)"

text \<open>The outputs \<open>got\<close> and \<open>want\<close> and the verdict.\<close>

definition rbRun :: "(nat \<Rightarrow> block) \<Rightarrow> (block list \<Rightarrow> block list \<Rightarrow> u64) \<Rightarrow> nat \<Rightarrow> nat \<Rightarrow> (u64 \<times> u64 \<times> bool) option" where
  "rbRun prng run n hitTarget =
     (if n = 0 then Some (0, 0, True)
      else let want = hit_target n hitTarget
           in case makePairSets prng n want of
                None \<Rightarrow> None
              | Some (set0, set1) \<Rightarrow>
                  let got = run set0 set1
                  in Some (got, word_of_nat want, got = word_of_nat want))"

definition rbCheck :: "(nat \<Rightarrow> block) \<Rightarrow> (block list \<Rightarrow> block list \<Rightarrow> u64) \<Rightarrow> (u64 \<times> u64 \<times> bool) option" where
  "rbCheck prng run = rbRun prng run 4 (2 ^ 64 - 1)"

section \<open>Correctness\<close>

lemma hasBlock_iff: "hasBlock vs x \<longleftrightarrow> x \<in> set vs"
  by (induction vs) (auto simp: sameBlock_def dest: arg_cong [of _ _ bytes_block])

lemma freshBlock_sound:
  assumes "freshBlock prng A B pos = Some r"
  shows "fst r \<notin> set A \<and> fst r \<notin> set B"
proof (rule freshBlock.raw_induct [OF _ assms])
  fix f prng A B pos r
  assume IH: "\<And>prng A B pos r. f prng A B pos = Some r \<Longrightarrow> fst r \<notin> set A \<and> fst r \<notin> set B"
    and "(let x = prng pos in if \<not> hasBlock A x \<and> \<not> hasBlock B x then Some (x, Suc pos) else f prng A B (Suc pos)) = Some r"
  then show "fst r \<notin> set A \<and> fst r \<notin> set B"
    by (cases "hasBlock A (prng pos) \<or> hasBlock B (prng pos)") (auto simp: Let_def hasBlock_iff dest: IH)
qed

lemma freshBlock_returns:
  assumes "pos \<le> k" and "prng k \<notin> set A" and "prng k \<notin> set B"
  shows "\<exists>r. freshBlock prng A B pos = Some r"
  using assms(1)
proof (induction rule: inc_induct)
  case base
  then show ?case using assms by (subst freshBlock.simps) (simp add: hasBlock_iff Let_def)
next
  case (step p)
  then show ?case by (subst freshBlock.simps) (simp add: Let_def)
qed

lemma length_replace_misses: "replace_misses prng s1 is s0 pos = Some s \<Longrightarrow> length s = length s0"
  by (induction "is" arbitrary: s0 pos) (auto split: option.splits)

lemma replace_misses_spec:
  assumes "replace_misses prng s1 is s0 pos = Some s" and "\<forall>i \<in> set is. i < length s0"
  shows "\<forall>i < length s0. if i \<in> set is then s ! i \<notin> set s1 else s ! i = s0 ! i"
  using assms
proof (induction "is" arbitrary: s0 pos)
  case (Cons j "is")
  obtain x pos' where f: "freshBlock prng s0 s1 pos = Some (x, pos')" and r: "replace_misses prng s1 is (s0[j := x]) pos' = Some s"
    using Cons.prems(1) by (auto split: option.splits)
  have x: "x \<notin> set s1" using freshBlock_sound [OF f] by simp
  have "\<forall>i < length s0. if i \<in> set is then s ! i \<notin> set s1 else s ! i = s0[j := x] ! i"
    using Cons.IH [OF r] Cons.prems(2) by simp
  then show ?case using x Cons.prems(2) by (auto simp: nth_list_update split: if_splits)
qed auto

text \<open>The sets have the size asked for and exactly the rows from \<open>misses\<close> on are common.\<close>

lemma makePairSets_spec:
  assumes "makePairSets prng n h = Some (s0, s1)"
  shows "length s0 = n" and "length s1 = n" and "length (filter (\<lambda>i. s0 ! i \<in> set s1) [0..<n]) = min h n"
proof -
  let ?m = "if h > n then 0 else n - h"
  have s1: "s1 = map prng [0..<n]" and r: "replace_misses prng s1 [0..<?m] s1 n = Some s0"
    using assms by (auto simp: makePairSets_def Let_def split: option.splits)
  show l1: "length s1 = n" by (simp add: s1)
  show l0: "length s0 = n" using length_replace_misses [OF r] l1 by simp
  have m: "\<forall>i \<in> set [0..<?m]. i < length s1" using l1 by auto
  have "s0 ! i \<in> set s1 \<longleftrightarrow> ?m \<le> i" if "i < n" for i
  proof -
    have "if i \<in> set [0..<?m] then s0 ! i \<notin> set s1 else s0 ! i = s1 ! i"
      using replace_misses_spec [OF r m] l1 that by blast
    then show ?thesis using nth_mem [of i s1] l1 that by (auto split: if_splits)
  qed
  then have "filter (\<lambda>i. s0 ! i \<in> set s1) [0..<n] = filter (\<lambda>i. ?m \<le> i) [0..<n]" by (intro filter_cong) auto
  also have "\<dots> = [?m..<n]"
  proof -
    have "[0..<n] = [0..<?m] @ [?m..<n]" by (rule upt_join [symmetric]) auto
    then show ?thesis by (auto simp: filter_empty_conv filter_id_conv split: if_splits)
  qed
  finally show "length (filter (\<lambda>i. s0 ! i \<in> set s1) [0..<n]) = min h n" by auto
qed

lemma replace_misses_returns:
  assumes "\<And>F pos. length F \<le> 2 * length s1 \<Longrightarrow> \<exists>k \<ge> pos. prng k \<notin> set F" and "length s0 = length s1"
  shows "\<exists>s. replace_misses prng s1 is s0 pos = Some s"
  using assms(2)
proof (induction "is" arbitrary: s0 pos)
  case (Cons j "is")
  obtain k where "pos \<le> k" "prng k \<notin> set (s0 @ s1)" using assms(1) [of "s0 @ s1" pos] Cons.prems by auto
  then obtain x pos' where "freshBlock prng s0 s1 pos = Some (x, pos')" using freshBlock_returns [of pos k prng s0 s1] by auto
  then show ?case using Cons.IH [of "s0[j := x]" pos'] Cons.prems by simp
qed simp

end
