(* ===== verification/Perm_Properties.thy ===== *)
theory Perm_Properties
  imports Perm_Config
begin

text \<open>
  The properties of the permutations of \<open>frontend/permutation\<close>: the objects the factory makes, the
  names it accepts, the refinement of the bit-packed wide permutation by a shift register, and
  the correctness of the table-driven field multiplication and of the inverse permutations.
\<close>

section \<open>An instance of the libraries\<close>

definition w_perm :: perm_env where
  "w_perm = \<lparr> pv_keccak = \<lparr> kn_apply = (\<lambda>w r x. x), kn_inverse = (\<lambda>w r x. x) \<rparr>,
              pv_aes = \<lparr> ha_enc = (\<lambda>k x. x XOR k), ha_dec = (\<lambda>k x. x XOR k) \<rparr>,
              pv_shake = (\<lambda>n m. Some (replicate n 0)) \<rparr>"

lemma w_perm_ok: "perm_env_ok w_perm"
  by (simp add: perm_env_ok_def w_perm_def keccak_ok_def aes_inverse_def xor.assoc)

section \<open>The factory\<close>

text \<open>C4: whatever configuration it is given, an object that \<open>makePi\<close> returns is a permutation
  of the rows of its kind (800 bytes, or 48 for Xoodoo): encryption and decryption never throw on
  a row, keep its length and undo each other in both orders.\<close>

theorem makePi_permutes:
  assumes "perm_env_ok pv" and "makePi pv p party = Inr prm"
    and "length row = (if pi_kind p = PK_Xoodoo then 48 else 800)"
  shows "(\<exists>out. encryptBytes prm row = Inr out \<and> length out = length row \<and> decryptBytes prm out = Inr row) \<and>
    (\<exists>out. decryptBytes prm row = Inr out \<and> length out = length row \<and> encryptBytes prm out = Inr row)"
proof -
  have "length row = perm_row_bytes (pc_kind (toPermCfg p))"
    using assms(3) by (simp add: perm_row_bytes_def toPermCfg_def row_consts)
  then have "perm_ok prm (length row)"
    using makePermutation_ok [OF assms(1) assms(2) [unfolded makePi_def]] by simp
  then show ?thesis by (simp add: perm_ok_def)
qed

lemma default_steps: "\<exists>s. valid_step (widthOf k) KEM_key_size_bit 128 s"
  using best_steps unfolding bestStep_iff by (cases k) auto

lemma set_perm_keeps: "set_perm cfg text = Inr c \<longrightarrow> pc_lambda c = pc_lambda cfg"
proof -
  have if_all: "(if b then x else y) = Inr c \<longrightarrow> pc_lambda c = pc_lambda cfg"
    if "x = Inr c \<longrightarrow> pc_lambda c = pc_lambda cfg" "y = Inr c \<longrightarrow> pc_lambda c = pc_lambda cfg" for b x y
    using that by (cases b) simp_all
  show ?thesis unfolding set_perm_def Let_def by (intro if_all) (auto simp: result_simps)
qed

lemma setPi_keeps: "setPi p text = Inr p' \<Longrightarrow> pi_lambda p' = pi_lambda p"
  using set_perm_keeps [of "toPermCfg p" "text"] by (auto simp: setPi_def toPermCfg_def result_simps)

theorem makePi_permutes_witness:
  "\<exists>prm. makePi w_perm PiCfg_default 1 = Inr prm \<and>
     (\<exists>out. encryptBytes prm (replicate 800 5) = Inr out \<and> decryptBytes prm out = Inr (replicate 800 5))"
proof -
  obtain prm where "makePi w_perm PiCfg_default 1 = Inr prm"
    using makePermutation_total [OF w_perm_ok, of "toPermCfg PiCfg_default" 1] default_steps [of Keccak1600]
    by (auto simp: makePi_def toPermCfg_def PiCfg_default_def)
  then show ?thesis using makePi_permutes [OF w_perm_ok, of PiCfg_default 1 prm "replicate 800 5"]
    by (auto simp: PiCfg_default_def)
qed

text \<open>C33: of the configurations a name selects from the defaults, the factory refuses exactly the
  Feistel network with no rounds (\<open>feistel-0\<close>, which the parser lets through); every other one
  gives an object.\<close>

theorem makePi_refuses:
  assumes "perm_env_ok pv" and "setPi PiCfg_default text = Inr p"
  shows "(case makePi pv p party of
            Inl e \<Rightarrow> pi_kind p = PK_Feistel \<and> pi_rounds p = 0 \<and> e = InvalidArgument ''feistel needs at least one round''
          | Inr prm \<Rightarrow> pi_kind p = PK_Feistel \<longrightarrow> 0 < pi_rounds p)"
proof (cases "pi_kind p = PK_Feistel \<and> pi_rounds p = 0")
  case True
  then show ?thesis by (simp add: makePi_def makePermutation_def toPermCfg_def Feistel_new_def)
next
  case False
  have "pi_lambda p = 128" using setPi_keeps [OF assms(2)] by (simp add: PiCfg_default_def)
  then have "\<exists>prm. makePi pv p party = Inr prm"
    unfolding makePi_def using False default_steps by (intro makePermutation_total [OF assms(1)]) (auto simp: toPermCfg_def)
  then show ?thesis using False by auto
qed

theorem makePi_refuses_witness:
  "setPi PiCfg_default ''feistel-0'' = Inr (PiCfg_default\<lparr> pi_kind := PK_Feistel, pi_rounds := 0 \<rparr>) \<and>
   makePi w_perm (PiCfg_default\<lparr> pi_kind := PK_Feistel, pi_rounds := 0 \<rparr>) 0 =
     Inl (InvalidArgument ''feistel needs at least one round'')"
proof -
  have "setPi PiCfg_default ''feistel-0'' = Inr (PiCfg_default\<lparr> pi_kind := PK_Feistel, pi_rounds := 0 \<rparr>)"
    by (simp add: setPi_def set_perm_def toPermCfg_def is_digit_def stoull_def digits_value_def PiCfg_default_def)
  then show ?thesis using makePi_refuses [OF w_perm_ok, of "''feistel-0''" _ 0] by (auto split: sum.splits)
qed

text \<open>The names \<open>setPi\<close> accepts: the fixed names of the constructions and of the small
  permutations, and \<open>feistel-\<close> followed by a decimal number below \<open>2 ^ 64\<close>. Every other text
  throws.\<close>

theorem setPi_language:
  "(\<exists>p'. setPi p text = Inr p') \<longleftrightarrow>
     text \<in> {''conspi'', ''cons-pi'', ''pi'', ''hctr'', ''hctr2'', ''feistel'', ''xoodoo'',
             ''keccak800'', ''k800'', ''keccak1600'', ''k1600'', ''keccak1600-12'', ''keccak-p1600-12'',
             ''k1600-12'', ''k1600r12'', ''sneik'', ''sneik512'', ''sneik-f512'', ''f512''} \<or>
     (\<exists>ds. text = ''feistel-'' @ ds \<and> ds \<noteq> [] \<and> list_all is_digit ds \<and> digits_value ds < 2 ^ 64)"
proof (cases "take 8 text = ''feistel-''")
  case True
  then obtain ds where "text = ''feistel-'' @ ds" by (metis append_take_drop_id)
  then show ?thesis by (auto simp: setPi_def set_perm_def stoull_def guardE_def result_simps Let_def)
next
  case False
  then have "\<nexists>ds. text = ''feistel-'' @ ds" by auto
  then show ?thesis using False by (auto simp: setPi_def set_perm_def parseKind_def split: if_splits)
qed

text \<open>\<open>bestStep\<close> returns a step exactly when the state is wider than the small permutation and
  some step divides the gap and leaves a margin of \<open>2 * lambda\<close> bits on both sides, and it
  returns the largest such step.\<close>

theorem bestStep_largest:
  "bestStep n N lambda = Inr s \<longleftrightarrow>
     n < N \<and> s \<in> {s. valid_step n N lambda s} \<and> {s'. valid_step n N lambda s'} \<subseteq> {..s}"
  unfolding bestStep_iff by auto

section \<open>The wide permutation\<close>

text \<open>C7: the byte-packed wide permutation computes the shift register it packs: on every state
  and for both directions, the bits of what \<open>encryptBytes\<close> and \<open>decryptBytes\<close> return are what the
  register reference computes on the bits.\<close>

theorem conspi_refines_register:
  assumes "ConsPi_new sp p party = Inr cp" and "small_ok sp" and "8 dvd pp_n p" and "8 dvd pp_N p"
    and "length data = pp_N p div 8"
  shows "bindE (ConsPi_encryptBytes cp data) (\<lambda>out. Inr (bits out)) = reg_encrypt cp (bits data) \<and>
    bindE (ConsPi_decryptBytes cp data) (\<lambda>out. Inr (bits out)) = reg_decrypt cp (bits data)"
  using encryptBytes_refines [of cp data] decryptBytes_refines [of cp data] ConsPi_new_wf [OF assms(1-4)] assms(5) by simp

theorem conspi_refines_register_witness:
  "\<exists>cp. ConsPi_new Sneik_perm \<lparr> pp_kind = SneikF512, pp_n = 512, pp_N = 6400, pp_s = 256, pp_lambda = 128 \<rparr> 1 = Inr cp \<and>
     bindE (ConsPi_encryptBytes cp (replicate 800 3)) (\<lambda>out. Inr (bits out)) = reg_encrypt cp (bits (replicate 800 3))"
proof -
  let ?p = "\<lparr> pp_kind = SneikF512, pp_n = 512, pp_N = 6400, pp_s = 256, pp_lambda = 128 \<rparr>"
  obtain cp where "ConsPi_new Sneik_perm ?p 1 = Inr cp"
    by (auto simp: ConsPi_new_def checkParams_def Sneik_perm_def WidthBits_def Let_def)
  then show ?thesis using conspi_refines_register [of Sneik_perm ?p 1 cp "replicate 800 3"] sneik_small_ok by auto
qed


section \<open>The primitives\<close>

text \<open>The fixed-key multiplication of HCTR2 with its byte tables is the bit-serial
  multiplication in the POLYVAL field, so hashing with the table is hashing with the
  reference.\<close>

theorem hctr_hash_table:
  "mulFixed x (makeMulTable h) = mul x h \<and>
   hash_update acc (makeMulTable h) data cnt = polyval h acc (map (\<lambda>i. load128 (drop (i * 16) data)) [0..<cnt])"
  using mulFixed_mul hash_update_polyval by simp

text \<open>C34: HCTR2 on a message of one block up to the fifty-one blocks its counter array serves:
  encryption succeeds, keeps the length, and decryption under the same key returns the message,
  and the other way round.\<close>

theorem hctr_roundtrip:
  assumes "aes_inverse A (hk_aes key)" and "16 \<le> length x" and "(length x - 16) div 16 \<le> KEM_key_block_size"
  shows "\<exists>y. hctr_crypt A x key dir = Inr y \<and> length y = length x \<and> hctr_crypt A y key (\<not> dir) = Inr x"
  using assms by (rule hctr_crypt_inverse)

theorem hctr_roundtrip_witness:
  "\<exists>y. hctr_crypt (pv_aes w_perm) (replicate 40 7) (hc_key (Hctr_new (pv_aes w_perm) 1)) True = Inr y \<and>
     hctr_crypt (pv_aes w_perm) y (hc_key (Hctr_new (pv_aes w_perm) 1)) False = Inr (replicate 40 7)"
proof -
  have "aes_inverse (pv_aes w_perm) k" for k by (simp add: w_perm_def aes_inverse_def xor.assoc)
  then show ?thesis
    using hctr_roundtrip [of "pv_aes w_perm" "hc_key (Hctr_new (pv_aes w_perm) 1)" "replicate 40 7" True]
    by (auto simp: row_consts)
qed

text \<open>The inverse of Xoodoo undoes the twelve rounds of the reference permutation on every
  state of twelve words; in particular its inverse of theta undoes theta.\<close>

theorem xoodoo_inverse:
  assumes "length a = 12"
  shows "xoodoo_run (Xoodoo_plain_Permute_12rounds a) = a \<and> theta_inv (Theta a) = a"
  using xoodoo_run_Permute [OF assms] theta_inv_Theta [OF assms] by simp

theorem xoodoo_inverse_witness:
  "xoodoo_run (Xoodoo_plain_Permute_12rounds (replicate 12 1)) = replicate 12 1"
  using xoodoo_inverse [of "replicate 12 1"] by simp

text \<open>The inverse of the SNEIK permutation, computed from matrices that Gaussian elimination
  inverts when it is set up: for every domain and every round count the sixteen round constants
  serve it returns, and it undoes the permutation on every state of sixty-four bytes, in both
  orders.\<close>

theorem sneik_inverse:
  assumes "length x = 64" and "rounds \<le> 16"
  shows "length (sneik_f512 x domain rounds) = 64 \<and> sneik_invert (sneik_f512 x domain rounds) domain rounds = Inr x \<and>
    (\<exists>y. sneik_invert x domain rounds = Inr y \<and> length y = 64 \<and> sneik_f512 y domain rounds = x)"
  using sneik_invert_f512 [OF assms(1)] sneik_f512_invert [OF assms(1)] by blast

theorem sneik_inverse_witness:
  "sneik_invert (sneik_f512 (replicate 64 2) 5 8) 5 8 = Inr (replicate 64 2)"
  using sneik_inverse [of "replicate 64 2" 8 5] by simp

text \<open>The elimination behind it, for any linear map of 32-bit words with trivial kernel:
  \<open>invMatrix\<close> never reports a singular matrix and the lookup tables made from its result
  compute the inverse map.\<close>

theorem inverse_tables:
  assumes "\<And>x y. f (x XOR y) = f x XOR f y" and "\<And>x. f x = 0 \<Longrightarrow> x = 0"
  shows "\<exists>m. invMatrix f = Inr m \<and> (\<forall>x. applyInv (f x) (invTable m) = x) \<and> (\<forall>y. f (applyInv y (invTable m)) = y)"
proof (rule applyInv_inverse)
  show "linear f" using assms(1) by (simp add: linear_def)
qed (rule assms(2))

theorem inverse_tables_witness:
  "\<exists>m. invMatrix (\<lambda>x. x) = Inr m \<and> (\<forall>y. applyInv y (invTable m) = y)"
  using inverse_tables [of "\<lambda>x. x"] by simp

end
