(* ===== verification/Psi_Properties.thy ===== *)
theory Psi_Properties
  imports Psi_Check RB_Properties Kem_Properties Perm_Properties
begin

text \<open>
  The properties of the protocol and of the layers below it that are specific to it: a session
  of the two parties, the entry point, the channels, the worker threads, the KEM rows and the
  self-check. The concrete instance runs the curve KEM on a group whose exchange is exclusive-or.
\<close>

section \<open>The instance\<close>

definition w_ec :: ec_native where
  "w_ec = \<lparr> elligator_map = (\<lambda>p. p),
            elligator_key_pair = (\<lambda>seed. (take 32 (seed @ replicate 32 0), take 32 (seed @ replicate 32 0))),
            x25519 = (\<lambda>sk p. xor_list sk p),
            blake2b = (\<lambda>n m. take n (drop 9 m @ replicate n 0)), sodium_ok = True \<rparr>"

definition w_kem :: kem_env where
  "w_kem = \<lparr> ke_native = undefined, ke_gmp = undefined, ke_hash = (\<lambda>_. 0),
             ke_keySeed = (\<lambda>i t. replicate 32 (word_of_nat i)), ke_encSeed = (\<lambda>j. replicate 32 (word_of_nat (j + 7))),
             ke_ec = w_ec, ke_deterministic = None, ke_hc = 2 \<rparr>"

definition w_psi :: psi_env where
  "w_psi = \<lparr> pe_rb = w_env, pe_aes = w_aes, pe_kem = w_kem, pe_hc = 2 \<rparr>"

definition w_opts :: psi_opts where
  "w_opts = \<lparr> po_rb = Some w_params, po_pi = None, po_kem = Some EcKem, po_channels = None \<rparr>"

definition w_other :: "block list" where
  "w_other = [4, 5, 1]"

lemma w_ec_sound: "kem_sound EcKem w_kem" "kem_honest EcKem w_kem i j"
  by (simp_all add: ec_sound_def ec_sizes_def ec_honest_def ec_dh_def w_kem_def w_ec_def xor_list_commute min_def)

lemma w_keys_ok: "length xs = 3 \<Longrightarrow> kem ctx = EcKem \<Longrightarrow> items ctx = xs \<Longrightarrow> keys_generated w_psi ctx"
  by (simp add: keys_generated_def w_psi_def ec_gen_def genEc_row_def ec_keyGen_def ec_random_def ec_init_def w_kem_def w_ec_def)

lemma w_ctx:
  assumes "length xs = 3"
  shows "\<exists>ctx. pqpsi_ctx w_psi w_perm me 3 xs w_opts = Inr ctx \<and> kem ctx = EcKem \<and> rb ctx = w_params \<and> items ctx = xs"
proof -
  obtain info where "RBInfoOf w_env 3 w_params = Inr info" using w_info [of 3] by auto
  then show ?thesis using assms
    by (simp add: pqpsi_ctx_def w_psi_def w_opts_def kemRowBlocks_eq pick_pi_def makePi_def toPermCfg_def makePermutation_def Let_def)
qed

lemma w_independent:
  assumes "RBInfoOf w_env 3 w_params = Inr cfg"
  shows "\<not> cancels (mset (map (key_cols (RBMakeHashCtx w_aes w_params) (inf_columns cfg) (inf_bandWidth cfg)) w_keys))"
proof -
  have "RBInfoOf w_env (length w_keys) w_params = Inr cfg" using assms by (simp add: w_keys_def numeral_3_eq_3)
  then show ?thesis
    using RBEncode_decides [OF _ w_shape(3,4) _ w_shape(1), of w_env w_params cfg w_aes "[]"]
      RBEncodeFlat_sim [OF w_shape(3,4), of w_env w_aes "[]" w_params] w_encode [of "concat []"] by auto
qed

lemma w_encodable:
  assumes "mset (items ctx) = mset w_keys" and "rb ctx = w_params"
  shows "encodable w_psi ctx"
proof -
  have "length (items ctx) = 3" using mset_eq_length [OF assms(1)] by (simp add: w_keys_def)
  moreover obtain cfg where "RBInfoOf w_env 3 w_params = Inr cfg" using w_info [of 3] by auto
  ultimately show ?thesis using w_independent [of cfg] assms unfolding encodable_def by (simp add: w_psi_def)
qed

lemma w_cols: "cols_ok w_params 3"
  by (simp add: cols_ok_def w_params_def)

lemma w_setup:
  "\<exists>ctxR ctxS. pqpsi_ctx w_psi w_perm 0 3 w_keys w_opts = Inr ctxR \<and> kem ctxR = EcKem \<and> rb ctxR = w_params \<and>
     pqpsi_ctx w_psi w_perm 1 3 w_other w_opts = Inr ctxS \<and>
     encodable w_psi ctxR \<and> encodable w_psi ctxS \<and> keys_generated w_psi ctxR"
proof -
  have len: "length w_keys = 3" "length w_other = 3" by (simp_all add: w_keys_def w_other_def)
  obtain ctxR where R: "pqpsi_ctx w_psi w_perm 0 3 w_keys w_opts = Inr ctxR" "kem ctxR = EcKem" "rb ctxR = w_params" "items ctxR = w_keys"
    using w_ctx [OF len(1), of 0] by blast
  obtain ctxS where S: "pqpsi_ctx w_psi w_perm 1 3 w_other w_opts = Inr ctxS" "rb ctxS = w_params" "items ctxS = w_other"
    using w_ctx [OF len(2), of 1] by blast
  have enc: "encodable w_psi ctxR" "encodable w_psi ctxS"
    using R S by (auto intro!: w_encodable simp: w_keys_def w_other_def)
  show ?thesis using R S enc w_keys_ok [OF len(1) R(2,4)] by blast
qed

lemma w_fits:
  assumes "pqpsi_ctx w_psi w_perm 0 3 w_keys w_opts = Inr ctx"
  shows "16 * (tableSize ctx * rowSize ctx) < 2 ^ 32"
proof (rule pqpsi_ctxE [OF assms])
  fix info localPi
  assume l: "3 = length w_keys" and i: "RBInfoOf (pe_rb w_psi) (length w_keys) (rb ctx) = Inr info" "tableSize ctx = inf_columns info"
    and r: "rb ctx = (case po_rb w_opts of None \<Rightarrow> RBParams_default | Some r \<Rightarrow> r)" "rowSize ctx = kem_width (kem ctx)"
  have "inf_columns info = 4" using w_info [of 3] i(1) r(1) l by (auto simp: w_psi_def w_opts_def)
  then show ?thesis using i(2) r(2) by (cases "kem ctx") (simp_all add: row_consts)
qed

section \<open>A session\<close>

text \<open>Whether the KEM accepts the row the receiver decodes for its item \<open>i\<close>.\<close>

definition accepts :: "psi_env \<Rightarrow> Ctx \<Rightarrow> recv_state \<Rightarrow> block list \<Rightarrow> nat \<Rightarrow> bool" where
  "accepts env ctx st out i \<longleftrightarrow>
     kem_hit (kem ctx) (pe_kem env) (rs_sk st ! i)
       (unseal_row (own_sealer env ctx (bob_perm ctx (peerPi ctx))) (items ctx ! i)
         (projr (flat_decode (rb_of env ctx) out (items ctx)) ! i)) = Inr True"

lemma session_run:
  assumes R: "pqpsi_ctx env pv 0 n X opts = Inr ctxR" and S: "pqpsi_ctx env pv 1 n Y opts = Inr ctxS"
    and pv: "perm_env_ok pv" and ne: "X \<noteq> []" and ks: "kem_sound (kem ctxR) (pe_kem env)" and cols: "cols_ok (rb ctxR) n"
    and enc: "encodable env ctxR" "encodable env ctxS" and keys: "keys_generated env ctxR"
    and honest: "\<And>i j. i < n \<Longrightarrow> j < n \<Longrightarrow> X ! i = Y ! j \<Longrightarrow> kem_honest (kem ctxR) (pe_kem env) i j"
  shows "\<exists>st out. Recv_begin env ctxR = Inr st \<and> Send_reply env ctxS (rs_buf st) = Inr out \<and>
    length (rs_buf st) = tableSize ctxS * rowSize ctxS \<and> 0 < length (rs_buf st) \<and> length out = length (rs_buf st) \<and>
    Recv_finish env ctxR st out = Inr (word_of_nat (length (filter (accepts env ctxR st out) [0..<n]))) \<and>
    (\<forall>i < n. X ! i \<in> set Y \<longrightarrow> accepts env ctxR st out i)"
proof -
  note A = pqpsi_ctx_agree [OF R S]
  have agree: "kem ctxS = kem ctxR" "rb ctxS = rb ctxR" "tableSize ctxS = tableSize ctxR" "rowSize ctxS = rowSize ctxR"
    using A(1) by (auto simp: ctx_agree_def)
  have x: "items ctxR = X" "n = length X" by (rule pqpsi_ctxE [OF R]; simp)+
  have y: "items ctxS = Y" "n = length Y" by (rule pqpsi_ctxE [OF S]; simp)+
  have Y: "Y \<noteq> []" using ne x y by auto
  have ok: "ctx_ok env ctxR" "ctx_ok env ctxS"
    using pqpsi_ctx_ok [OF R pv ne ks] pqpsi_ctx_ok [OF S pv Y] ks cols agree x y by simp_all
  obtain st out vs q where r: "Recv_begin env ctxR = Inr st" "length (rs_buf st) = tableSize ctxR * rowSize ctxR"
    "Send_reply env ctxS (rs_buf st) = Inr out" "length out = tableSize ctxR * rowSize ctxR"
    "Recv_finish env ctxR st out = Inr (word_of_nat (length (filter q [0..<length (items ctxR)])))"
    "flat_decode (rb_of env ctxR) out (items ctxR) = Inr vs"
    "\<forall>i < length (items ctxR). kem_hit (kem ctxR) (pe_kem env) (rs_sk st ! i)
       (unseal_row (own_sealer env ctxR (bob_perm ctxR (peerPi ctxR))) (items ctxR ! i) (vs ! i)) = Inr (q i)"
    "\<forall>i < length (items ctxR). items ctxR ! i \<in> set (items ctxS) \<longrightarrow> q i"
    using psi_run [OF ok A(1) enc keys] honest x y by auto
  have q: "accepts env ctxR st out i \<longleftrightarrow> q i" if "i < n" for i
    using r(6,7) that x by (simp add: accepts_def)
  then have "filter (accepts env ctxR st out) [0..<n] = filter q [0..<n]" by (intro filter_cong) auto
  moreover have "0 < tableSize ctxR * rowSize ctxR"
  proof -
    obtain cfg where "RBInfoOf (pe_rb env) (length (items ctxR)) (rb ctxR) = Inr cfg" "tableSize ctxR = inf_columns cfg"
      "rowSize ctxR = kem_width (kem ctxR)" using ok(1) unfolding ctx_ok_def by blast
    then show ?thesis using RBInfoOf_bounds(1,3) [of "pe_rb env"] kem_width_pos(1) [of "kem ctxR"] by fastforce
  qed
  ultimately show ?thesis using r agree q x y by (intro exI [of _ st] exI [of _ out]) simp
qed

text \<open>C1: what a session computes. When both parties are set up with the same options, the
  receiver ends with the number of its items whose decoded row the KEM accepts, and the row of
  every item that the sender has too is accepted. The hypotheses are the documented behaviour of
  the libraries, that both sets can be encoded and that every key found an encoding.\<close>

theorem psi_count:
  assumes "pqpsi_ctx env pv 0 n X opts = Inr ctxR" and "pqpsi_ctx env pv 1 n Y opts = Inr ctxS"
    and "perm_env_ok pv" and "X \<noteq> []" and "kem_sound (kem ctxR) (pe_kem env)" and "cols_ok (rb ctxR) n"
    and "encodable env ctxR" and "encodable env ctxS" and "keys_generated env ctxR"
    and "\<And>i j. i < n \<Longrightarrow> j < n \<Longrightarrow> X ! i = Y ! j \<Longrightarrow> kem_honest (kem ctxR) (pe_kem env) i j"
  shows "\<exists>st out. Recv_begin env ctxR = Inr st \<and> Send_reply env ctxS (rs_buf st) = Inr out \<and>
    Recv_finish env ctxR st out = Inr (word_of_nat (length (filter (accepts env ctxR st out) [0..<n]))) \<and>
    (\<forall>i < n. X ! i \<in> set Y \<longrightarrow> accepts env ctxR st out i)"
  using session_run [OF assms] by blast

theorem psi_count_witness:
  "\<exists>ctxR ctxS st out. pqpsi_ctx w_psi w_perm 0 3 w_keys w_opts = Inr ctxR \<and>
     pqpsi_ctx w_psi w_perm 1 3 w_other w_opts = Inr ctxS \<and> Recv_begin w_psi ctxR = Inr st \<and>
     Send_reply w_psi ctxS (rs_buf st) = Inr out \<and> Recv_finish w_psi ctxR st out = Inr 3"
proof -
  obtain ctxR ctxS where R: "pqpsi_ctx w_psi w_perm 0 3 w_keys w_opts = Inr ctxR" "kem ctxR = EcKem" "rb ctxR = w_params"
      and S: "pqpsi_ctx w_psi w_perm 1 3 w_other w_opts = Inr ctxS"
      and enc: "encodable w_psi ctxR" "encodable w_psi ctxS" and keys: "keys_generated w_psi ctxR"
    using w_setup by blast
  have "pe_kem w_psi = w_kem" by (simp add: w_psi_def)
  then obtain st out where so: "Recv_begin w_psi ctxR = Inr st" "Send_reply w_psi ctxS (rs_buf st) = Inr out"
      "Recv_finish w_psi ctxR st out = Inr (word_of_nat (length (filter (accepts w_psi ctxR st out) [0..<3])))"
      "\<forall>i < 3. w_keys ! i \<in> set w_other \<longrightarrow> accepts w_psi ctxR st out i"
    using psi_count [OF R(1) S w_perm_ok w_shape(1) _ _ enc keys] w_ec_sound w_cols R(2,3) by auto
  have "w_keys ! i \<in> set w_other" if "i < 3" for i
    using that by (auto simp: w_keys_def w_other_def less_Suc_eq numeral_3_eq_3)
  then have "filter (accepts w_psi ctxR st out) [0..<3] = [0..<3]" using so(4) by (intro filter_True) auto
  then have "Recv_finish w_psi ctxR st out = Inr 3" using so(3) by simp
  then show ?thesis using R(1) S so by blast
qed

text \<open>C2: a session never gets stuck. From every state that some interleaving of the two
  parties reaches, the session can still reach its end, where both parties are done, the
  receiver has its count and no message is left in the channels; and only that state has no
  further step. The table must be smaller than four gigabytes, the largest message of a channel.\<close>

theorem psi_session_completes:
  assumes "pqpsi_ctx env pv 0 n X opts = Inr ctxR" and "pqpsi_ctx env pv 1 n Y opts = Inr ctxS"
    and "perm_env_ok pv" and "X \<noteq> []" and "kem_sound (kem ctxR) (pe_kem env)" and "cols_ok (rb ctxR) n"
    and "encodable env ctxR" and "encodable env ctxS" and "keys_generated env ctxR"
    and "\<And>i j. i < n \<Longrightarrow> j < n \<Longrightarrow> X ! i = Y ! j \<Longrightarrow> kem_honest (kem ctxR) (pe_kem env) i j"
    and "16 * (tableSize ctxR * rowSize ctxR) < 2 ^ 32"
  shows "\<exists>hits. \<forall>s. (psi_step env ctxR ctxS)\<^sup>*\<^sup>* (psi_start ctxR ctxS) s \<longrightarrow>
    (psi_step env ctxR ctxS)\<^sup>*\<^sup>* s (psi_finished ctxR ctxS hits) \<and>
    ((\<exists>s'. psi_step env ctxR ctxS s s') \<or> s = psi_finished ctxR ctxS hits)"
proof -
  obtain st out hits where r: "Recv_begin env ctxR = Inr st" "length (rs_buf st) = tableSize ctxS * rowSize ctxS"
    "0 < length (rs_buf st)" "Send_reply env ctxS (rs_buf st) = Inr out" "length out = length (rs_buf st)"
    "Recv_finish env ctxR st out = Inr hits"
    using session_run [OF assms(1-10)] by blast
  have "tableSize ctxS * rowSize ctxS = tableSize ctxR * rowSize ctxR"
    using pqpsi_ctx_agree(1) [OF assms(1,2)] by (simp add: ctx_agree_def)
  then have "psi_runs env ctxR ctxS st out hits"
    unfolding psi_runs_def using r pqpsi_ctx_agree(2) [OF assms(1,2)] assms(11) by metis
  from psi_from_reachable [OF this] show ?thesis by blast
qed

theorem psi_session_completes_witness:
  "\<exists>ctxR ctxS hits. pqpsi_ctx w_psi w_perm 0 3 w_keys w_opts = Inr ctxR \<and>
     pqpsi_ctx w_psi w_perm 1 3 w_other w_opts = Inr ctxS \<and>
     (psi_step w_psi ctxR ctxS)\<^sup>*\<^sup>* (psi_start ctxR ctxS) (psi_finished ctxR ctxS hits)"
proof -
  obtain ctxR ctxS where R: "pqpsi_ctx w_psi w_perm 0 3 w_keys w_opts = Inr ctxR" "kem ctxR = EcKem" "rb ctxR = w_params"
      and S: "pqpsi_ctx w_psi w_perm 1 3 w_other w_opts = Inr ctxS"
      and enc: "encodable w_psi ctxR" "encodable w_psi ctxS" and keys: "keys_generated w_psi ctxR"
    using w_setup by blast
  have "pe_kem w_psi = w_kem" by (simp add: w_psi_def)
  then show ?thesis
    using psi_session_completes [OF R(1) S w_perm_ok w_shape(1) _ _ enc keys]
      w_fits [OF R(1)] w_ec_sound w_cols R(1,2,3) S by (metis rtranclp.rtrancl_refl)
qed

section \<open>The entry point\<close>

text \<open>C26: the contexts of two parties that are given the same options and equally many items
  agree on everything the exchange depends on: table and row sizes, KEM, threading, the
  parameters of the store, and permutations that are swapped between own and peer; and the
  channels the two open face each other and are at least one.\<close>

theorem pqpsi_contexts_agree:
  assumes "pqpsi_ctx env pv 0 n xs opts = Inr ctxR" and "pqpsi_ctx env pv 1 n ys opts = Inr ctxS"
  shows "tableSize ctxS = tableSize ctxR \<and> rowSize ctxS = rowSize ctxR \<and> kem ctxS = kem ctxR \<and> rb ctxS = rb ctxR \<and>
    multiThread ctxS = multiThread ctxR \<and> bobPi ctxS = bobPi ctxR \<and>
    ownPi ctxS = peerPi ctxR \<and> peerPi ctxS = ownPi ctxR \<and> length (items ctxS) = length (items ctxR) \<and>
    chls ctxR ! 1 = chls ctxS ! 0 \<and> 0 < chls ctxS ! 0"
  using pqpsi_ctx_agree [OF assms] by (simp add: ctx_agree_def links_ok_def)

theorem pqpsi_contexts_agree_witness:
  "\<exists>ctxR ctxS. pqpsi_ctx w_psi w_perm 0 3 w_keys w_opts = Inr ctxR \<and>
     pqpsi_ctx w_psi w_perm 1 3 w_other w_opts = Inr ctxS \<and> ownPi ctxS = peerPi ctxR \<and> 0 < chls ctxS ! 0"
proof -
  obtain ctxR ctxS where R: "pqpsi_ctx w_psi w_perm 0 3 w_keys w_opts = Inr ctxR"
      and S: "pqpsi_ctx w_psi w_perm 1 3 w_other w_opts = Inr ctxS" using w_setup by blast
  show ?thesis using pqpsi_contexts_agree [OF R S] R S by blast
qed

lemma rnd64_near:
  assumes "1 / 100 \<le> x" and "x \<le> 1000"
  shows "\<bar>rnd64 x - x\<bar> \<le> x / 1000"
proof -
  have "(2::real) powi 1024 = 2 ^ 1024" by simp
  then have "\<bar>x\<bar> < 2 powi 1024" using assms by simp
  moreover have "(2::real) powi (-1022) \<le> 1 / 100" by (simp add: power_int_minus field_simps)
  then have "2 powi (-1022) \<le> \<bar>x\<bar>" using assms by linarith
  ultimately have "\<bar>rnd64 x - x\<bar> \<le> \<bar>x\<bar> / 2 ^ 53" by (rule rnd64_error)
  moreover have "\<bar>x\<bar> / 2 ^ 53 \<le> x / 1000" using assms by simp
  ultimately show ?thesis by linarith
qed

lemma default_columns:
  assumes "1 \<le> n" and "n \<le> 56"
  shows "RBTableSize n RBParams_default < 64"
proof -
  define e where "e = rnd64 (3 / 25)"
  have near: "\<bar>e - 12 / 100\<bar> \<le> 12 / 100 / 1000" using rnd64_near [of "12 / 100"] by (simp add: e_def)
  have e: "0.119 \<le> e" "e \<le> 0.1202" using near unfolding abs_le_iff by simp_all
  define f where "f = rnd64 (1 + e)"
  have nearf: "\<bar>f - (1 + e)\<bar> \<le> (1 + e) / 1000" using rnd64_near [of "1 + e"] e by (simp add: f_def)
  have f: "1 \<le> f" "f \<le> 1.1214" using nearf e unfolding abs_le_iff by simp_all
  have n: "rnd64 (real n) = real n"
  proof (rule rnd64_exact [of _ "int n" 0])
    show "\<bar>real n\<bar> < 2 powi 1024" using assms by (simp add: power_int_def)
  qed (use assms in simp_all)
  have "1 \<le> f * real n" "f * real n \<le> 1.1214 * 56" using f assms mult_mono [of 1 f 1 "real n"] mult_mono [of f "1.1214" "real n" 56] by simp_all
  then have "\<bar>rnd64 (f * real n) - f * real n\<bar> \<le> f * real n / 1000" "f * real n \<le> 62.8"
    using rnd64_near [of "f * real n"] by simp_all
  then have "rnd64 (f * real n) \<le> 63" unfolding abs_le_iff by simp
  moreover define k where "k = \<lceil>rnd64 (f * real n)\<rceil>"
  ultimately have "k < 64" by (simp add: ceiling_less_iff)
  then have "nat k < 64" by simp
  then show ?thesis using assms
    by (simp add: RBTableSize_def RBParams_default_def RBSize_def RBExpand_def RBDefaultEps_def n Let_def flip: e_def f_def k_def)
qed

text \<open>C27: with the default parameters of the store, a session on at most fifty-six items cannot
  even be set up: the band of sixty-four columns does not fit the table, and the entry point
  throws before anything is sent. The self-check's own default of four items is one such case.\<close>

theorem pqpsi_small_set_throws:
  assumes "length xs \<le> 56" and "po_rb opts = None"
  shows "\<exists>e. pqpsi_ctx env pv me (length xs) xs opts = Inl e"
proof (cases "RBInfoOf (pe_rb env) (length xs) RBParams_default")
  case (Inl e)
  then show ?thesis using assms(2) by (simp add: pqpsi_ctx_def)
next
  case (Inr info)
  note b = RBInfoOf_bounds(3,5,6) [OF Inr]
  have "RBTableW (pe_rb env) (max (length xs) 1) (inf_columns info) RBParams_default = Inr 64"
    using assms(1) by (simp add: RBTableW_def RBParams_default_def RBWidth_def)
  then have "64 \<le> RBTableSize (length xs) RBParams_default" using b by simp
  moreover have "RBTableSize (length xs) RBParams_default = RBTableSize (max (length xs) 1) RBParams_default"
    unfolding RBTableSize_def Let_def max.assoc max.idem by (rule refl)
  moreover have "RBTableSize (max (length xs) 1) RBParams_default < 64"
    using assms(1) by (intro default_columns) auto
  ultimately show ?thesis by linarith
qed

theorem pqpsi_small_set_throws_witness:
  "\<exists>e. pqpsi_ctx w_psi w_perm 0 4 [1, 2, 3, 4] \<lparr> po_rb = None, po_pi = None, po_kem = None, po_channels = None \<rparr> = Inl e"
  using pqpsi_small_set_throws [of "[1, 2, 3, 4]" "\<lparr> po_rb = None, po_pi = None, po_kem = None, po_channels = None \<rparr>" w_psi w_perm 0]
  by (simp add: eval_nat_numeral)

section \<open>The order of a session\<close>

text \<open>A receive does not return while the first channel is empty.\<close>

lemma wait_blocks:
  assumes "lnk ! 0 = []"
  shows "net_await mt cs peer buf lnk \<noteq> retC r"
proof
  assume "net_await mt cs peer buf lnk = retC r"
  then obtain jobs where j: "net_asyncRecv mt cs peer (length buf) = Inr jobs" "PendingRecv_wait jobs buf lnk = retC r"
    by (auto simp: net_await_def bindC_retC_iff)
  have "\<exists>p js. jobs = (0, p) # js"
  proof (cases "shouldSplit mt cs peer (length buf)")
    case True
    then have "0 < length buf" "0 < cs ! peer" by (auto simp: shouldSplit_def)
    then have "chunks (length buf) (cs ! peer) \<noteq> []" using chunks_join [of "cs ! peer" buf] by auto
    then show ?thesis using True j(1)
      by (cases "chunks (length buf) (cs ! peer)") (auto simp: net_asyncRecv_def guardE_Inr_iff)
  qed (use j(1) in \<open>auto simp: net_asyncRecv_def guardE_Inr_iff\<close>)
  then show False using assms j(2)
    by (auto simp: PendingRecv_wait_def ch_recv_def bindC_retC_iff split: if_splits)
qed

definition in_order :: "session \<Rightarrow> bool" where
  "in_order s \<longleftrightarrow>
     (se_recv s = RStart \<longrightarrow> se_send s \<noteq> SDone \<and> se_to_sender s ! 0 = []) \<and>
     (se_send s \<noteq> SDone \<longrightarrow> se_to_receiver s ! 0 = [] \<and> (\<forall>h. se_recv s \<noteq> RDone h))"

lemma in_order_step: "psi_step env ctxR ctxS s s' \<Longrightarrow> in_order s \<Longrightarrow> in_order s'"
  by (induction rule: psi_step.induct) (auto simp: in_order_def wait_blocks send_wait_def recv_wait_def)

text \<open>C5: the order of a session, whatever the parties' contexts, the libraries and the
  interleaving: the sender does not reply before the receiver has computed and sent its table, and
  the receiver never has a count unless the sender has computed and sent its reply without an
  exception.\<close>

theorem psi_order:
  assumes "(psi_step env ctxR ctxS)\<^sup>*\<^sup>* (psi_start ctxR ctxS) s" and "0 < chls ctxR ! 1" and "0 < chls ctxS ! 0"
  shows "(se_send s = SDone \<longrightarrow> se_recv s \<noteq> RStart) \<and> (\<forall>h. se_recv s = RDone h \<longrightarrow> se_send s = SDone)"
proof -
  have "in_order s" using assms(1)
  proof (induction rule: rtranclp_induct)
    case base
    then show ?case using assms(2,3) by (simp add: in_order_def psi_start_def)
  qed (rule in_order_step)
  then show ?thesis by (cases "se_send s") (auto simp: in_order_def)
qed

theorem psi_order_witness:
  "\<exists>ctxR ctxS hits. pqpsi_ctx w_psi w_perm 0 3 w_keys w_opts = Inr ctxR \<and>
     (psi_step w_psi ctxR ctxS)\<^sup>*\<^sup>* (psi_start ctxR ctxS) (psi_finished ctxR ctxS hits) \<and>
     se_recv (psi_finished ctxR ctxS hits) = RDone hits \<and> se_send (psi_finished ctxR ctxS hits) = SDone"
proof -
  obtain ctxR ctxS where R: "pqpsi_ctx w_psi w_perm 0 3 w_keys w_opts = Inr ctxR" "kem ctxR = EcKem" "rb ctxR = w_params"
      and S: "pqpsi_ctx w_psi w_perm 1 3 w_other w_opts = Inr ctxS"
      and enc: "encodable w_psi ctxR" "encodable w_psi ctxS" and keys: "keys_generated w_psi ctxR"
    using w_setup by blast
  have k: "kem_sound (kem ctxR) (pe_kem w_psi)" "\<And>i j. kem_honest (kem ctxR) (pe_kem w_psi) i j" "cols_ok (rb ctxR) 3"
    using w_ec_sound w_cols R(2,3) by (simp_all add: w_psi_def)
  obtain st out hits where r: "Recv_begin w_psi ctxR = Inr st" "length (rs_buf st) = tableSize ctxS * rowSize ctxS"
    "0 < length (rs_buf st)" "Send_reply w_psi ctxS (rs_buf st) = Inr out" "length out = length (rs_buf st)"
    "Recv_finish w_psi ctxR st out = Inr hits"
    using session_run [OF R(1) S w_perm_ok w_shape(1) k(1,3) enc keys k(2)] by blast
  note l = pqpsi_ctx_agree(2) [OF R(1) S]
  have "tableSize ctxS * rowSize ctxS = tableSize ctxR * rowSize ctxR"
    using pqpsi_ctx_agree(1) [OF R(1) S] by (simp add: ctx_agree_def)
  then have run: "(psi_step w_psi ctxR ctxS)\<^sup>*\<^sup>* (psi_start ctxR ctxS) (psi_finished ctxR ctxS hits)"
    using psi_completes [of w_psi ctxR ctxS st out hits] l r w_fits [OF R(1)] unfolding psi_runs_def by metis
  have d: "se_recv (psi_finished ctxR ctxS hits) = RDone hits" by (simp add: psi_finished_def)
  have "se_send (psi_finished ctxR ctxS hits) = SDone"
    using psi_order [OF run] d l by (simp add: links_ok_def)
  then show ?thesis using R(1) run d by blast
qed

section \<open>Channels and threads\<close>

text \<open>The parts a buffer is cut into, for any size and number of channels: they join up to the
  buffer, they are at most as many as the channels, none is empty or out of range, and a buffer
  of whole blocks is cut between blocks.\<close>

theorem chunks_partition:
  fixes data :: "u8 list"
  assumes "0 < n"
  shows "concat (map (part data) (chunks (length data) n)) = data \<and> length (chunks (length data) n) \<le> n \<and>
    (\<forall>(begin, len) \<in> set (chunks (length data) n). 0 < len \<and> begin + len \<le> length data \<and>
       (16 dvd length data \<longrightarrow> 16 dvd begin \<and> 16 dvd len))"
proof -
  have "0 < snd p \<and> fst p + snd p \<le> length data \<and> (16 dvd length data \<longrightarrow> 16 dvd fst p \<and> 16 dvd snd p)"
    if "p \<in> set (chunks (length data) n)" for p
    using chunks_bounds [OF that] chunks_aligned [OF _ that] by (simp add: dvd_eq_mod_eq_0)
  then show ?thesis using chunks_join [OF assms, of data] length_chunks [of "length data" n] by (simp add: case_prod_unfold)
qed

theorem chunks_partition_witness:
  "concat (map (part [1, 2, 3, 4, 5 :: u8]) (chunks 5 2)) = [1, 2, 3, 4, 5] \<and> length (chunks 5 2) \<le> 2"
  using chunks_partition [of 2 "[1, 2, 3, 4, 5 :: u8]"] by (simp add: eval_nat_numeral)

text \<open>C10: what one party sends the other receives. Over an idle link, a buffer of one byte up to
  four gigabytes, split over the channels or not, is sent without an exception and arrives unchanged
  with both ways of receiving, and the link is idle again.\<close>

theorem net_transfer:
  assumes "0 < m" and "peer < length cs1" and "cs1 ! peer = m" and "peer' < length cs2" and "cs2 ! peer' = m"
    and "length buf = length data" and "0 < length data" and "length data < 2 ^ 32"
  shows "\<exists>lnk. net_send mt cs1 peer data (replicate m []) = retC lnk \<and>
    net_recv mt cs2 peer' buf lnk = retC (data, replicate m []) \<and> net_await mt cs2 peer' buf lnk = retC (data, replicate m [])"
  using net_recv_net_send [OF refl assms(1,2,3,6,4,5,7,8)] net_recv_wait assms(6,8) by metis

theorem net_transfer_witness:
  "\<exists>lnk. net_send True [0, 2] 1 (replicate 20000 7) [[], []] = retC lnk \<and>
     net_recv True [2, 0] 0 (replicate 20000 0) lnk = retC (replicate 20000 7, [[], []])"
proof -
  have "(replicate 2 [] :: link) = [[], []]" by (simp add: numeral_2_eq_2)
  then show ?thesis using net_transfer [of 2 1 "[0, 2]" 0 "[2, 0]" "replicate 20000 0" "replicate 20000 7" True] by auto
qed

text \<open>C29: the worker threads of \<open>parallelFor\<close> over the rows of a flat buffer: however the threads
  interleave, when all are done every row has been transformed exactly once, as by the
  sequential loop.\<close>

theorem parallelFor_interleavings:
  assumes "interleaves (map (\<lambda>(b, e). [b..<e]) (snd (parallelFor_plan hc k minWork mt wt))) is"
    and "length buf = k * n" and "\<And>i r. length r = n \<Longrightarrow> length (f i r) = n"
  shows "fold (row_step n f) is buf = concat (map (\<lambda>i. f i (rowPtr buf n i)) [0..<k])"
  using assms by (rule interleaving_irrelevant)

theorem parallelFor_interleavings_witness:
  "interleaves [[0], [1]] [1, 0] \<and> fold (row_step 1 (\<lambda>i. map (\<lambda>x. x + 1))) [1, 0] [5, 8] = [6, 9]"
proof -
  have plan: "snd (parallelFor_plan 2 2 1 True 2) = [(0, 1), (1, 2)]"
    by (simp add: parallelFor_plan_def workerCount_def workerLimit_def Let_def spawn_chunks.simps flip: numeral_2_eq_2)
  have il: "interleaves [[0], [1]] [1, 0]"
    by (rule interleaves.pass [of 1 _ 1 "[]"], simp, simp, rule interleaves.pass [of 0 _ 0 "[]"], simp, simp)
      (rule interleaves.idle, simp)
  moreover have "fold (row_step 1 (\<lambda>i. map (\<lambda>x. x + 1))) [1, 0] [5, 8] =
      concat (map (\<lambda>i. map (\<lambda>x. x + 1) (rowPtr [5, 8] 1 i)) [0..<2])"
    using il plan by (intro parallelFor_interleavings [of 2 2 1 True 2]) (simp_all add: upt_rec)
  ultimately show ?thesis by (simp add: rowPtr_def slice_def upt_rec)
qed

section \<open>Keys\<close>

text \<open>C30: decapsulation in the elliptic-curve KEM accepts what encapsulation made for the key and
  returns the same tag, for every pair of seeds on which the curve's exchange commutes.\<close>

theorem eckem_correct:
  assumes "ec_sizes ec" and "ec_dh ec a b" and "ec_keyGen_seed ec a = (pk, sk)" and "ec_encap_seed ec pk b = (ct, tag)"
  shows "EcKem_decap ec sk ct = (True, tag) \<and> length ct = CtBytes \<and> length tag = TagBytes"
  using ec_decap_encap [OF assms] ec_encap_shape [OF assms(1,4)] by (simp add: EcKem_decap_def)

theorem eckem_correct_witness:
  "case ec_keyGen_seed w_ec (replicate 32 3) of (pk, sk) \<Rightarrow> case ec_encap_seed w_ec pk (replicate 32 5) of (ct, tag) \<Rightarrow>
     EcKem_decap w_ec sk ct = (True, tag)"
proof -
  obtain pk sk where kp: "ec_keyGen_seed w_ec (replicate 32 3) = (pk, sk)" by fastforce
  obtain ct tag where en: "ec_encap_seed w_ec pk (replicate 32 5) = (ct, tag)" by fastforce
  have "ec_sizes w_ec" "ec_dh w_ec (replicate 32 3) (replicate 32 5)"
    using w_ec_sound by (simp_all add: ec_sound_def w_kem_def ec_dh_def w_ec_def xor_list_commute)
  then show ?thesis using eckem_correct [OF _ _ kp en] by (simp add: kp en)
qed

lemma key_tries_find:
  assumes "\<And>t. t \<in> set ts \<Longrightarrow> length (fillMlKemKeySeed env i t det) = KeyGenSeedSize \<and>
      keypair_derand (ke_native env) MlKem512 (fillMlKemKeySeed env i t det) = Some (pk t, sk t) \<and>
      encodeKey (ke_gmp env) (ke_hash env) (km env) (pk t) = Inr (ok t, code t)"
  shows "key_tries env i det ts = Inr (map_option (\<lambda>t. (sk t, code t)) (find ok ts))"
  using assms
proof (induction ts)
  case (Cons t ts)
  have "MlKem_keyGen_into (ke_native env) (MlKem_new MlKem512) (fillMlKemKeySeed env i t det)
      (publicKeyBytes (mSizes (MlKem_new MlKem512))) (secretKeyBytes (mSizes (MlKem_new MlKem512))) = Inr (pk t, sk t)"
    using Cons.prems [of t] by (simp add: MlKem_keyGen_into_def requireSize_def requireSuccess_def km512_facts)
  then show ?case using Cons by (simp add: Let_def)
qed simp

text \<open>C31: the key of a row is the first of the sixty-four attempts whose public key the codec can
  encode, with its encoding at the start of a zeroed row; when none of them can be encoded, the
  row throws.\<close>

theorem keygen_first_encodable:
  assumes "\<And>t. t < 64 \<Longrightarrow> length (fillMlKemKeySeed env i t (deterministicKemSeeds (ke_deterministic env))) = KeyGenSeedSize \<and>
      keypair_derand (ke_native env) MlKem512 (fillMlKemKeySeed env i t (deterministicKemSeeds (ke_deterministic env))) = Some (pk t, sk t) \<and>
      encodeKey (ke_gmp env) (ke_hash env) (km env) (pk t) = Inr (ok t, code t)"
    and "\<And>t. length (code t) \<le> rowBytes w"
  shows "genKey_row name env w i =
    (case find ok [0..<64] of
       None \<Rightarrow> Inl (RuntimeError (name @ '': encodeKey failed''))
     | Some t \<Rightarrow> Inr (sk t, blocksOf w (patch_at 0 (code t) (replicate (rowBytes w) 0))))"
proof -
  have "key_tries env i (deterministicKemSeeds (ke_deterministic env)) [0..<64] = Inr (map_option (\<lambda>t. (sk t, code t)) (find ok [0..<64]))"
    using assms(1) by (intro key_tries_find [of _ _ _ _ pk]) simp
  then show ?thesis using assms(2) by (auto simp: genKey_row_def row_consts leD guardE_def split: option.splits)
qed

definition w_zero :: kem_env where
  "w_zero = w_kem\<lparr> ke_native := \<lparr> keypair_derand = (\<lambda>mode seed. Some (replicate 800 0, [7])),
     enc_derand = (\<lambda>mode pk seed. None), dec = (\<lambda>mode ct sk. None) \<rparr>, ke_gmp := gmp_ref,
     ke_keySeed := (\<lambda>i t. replicate KeyGenSeedSize 0) \<rparr>"

theorem keygen_first_encodable_witness:
  "\<exists>row. genKey_row ''genMlKemKeys'' w_zero KEM_key_block_size 3 = Inr ([7], row)"
proof -
  obtain code where e: "encodeKey gmp_ref (\<lambda>_. 0) km512 (replicate 800 0) = Inr (True, code)" using zero_key(2) by blast
  have "length code = codeKeyBytes km512"
    by (rule decodeKey_encodeKey(2) [OF gmp_ref_ok km_wf_new e]) (unfold zero_key(1), auto simp: kq_def)
  then have "length code \<le> rowBytes KEM_key_block_size"
    using codeKeyBytes_row [OF gmp_ref_ok] by (simp add: rowBytes_def row_consts)
  moreover have "find (\<lambda>_. True) [0..<64] = Some (0::nat)" by (simp add: upt_conv_Cons)
  ultimately show ?thesis
    using keygen_first_encodable [of w_zero 3 "\<lambda>_. replicate 800 0" "\<lambda>_. [7]" "\<lambda>_. True" "\<lambda>_. code" KEM_key_block_size "''genMlKemKeys''"] e
    by (simp add: w_zero_def w_kem_def fillMlKemKeySeed_def deterministicKemSeeds_def)
qed

section \<open>The self-check\<close>

text \<open>C32: the sets of the self-check. With a generator that keeps producing blocks outside every
  list of at most \<open>2 * n\<close> blocks, the construction returns; both sets have \<open>n\<close> items and exactly
  \<open>min hits n\<close> items of the first are in the second.\<close>

theorem pair_sets_total:
  assumes "\<And>F pos. length F \<le> 2 * n \<Longrightarrow> \<exists>k \<ge> pos. prng k \<notin> set F"
  shows "\<exists>s0 s1. makePairSets prng n hits = Some (s0, s1) \<and> length s0 = n \<and> length s1 = n \<and>
    length (filter (\<lambda>i. s0 ! i \<in> set s1) [0..<n]) = min hits n"
proof -
  obtain s0 s1 where "makePairSets prng n hits = Some (s0, s1)"
    using replace_misses_returns [of "map prng [0..<n]" prng "map prng [0..<n]" "[0..<if hits > n then 0 else n - hits]" n] assms
    by (auto simp: makePairSets_def Let_def)
  then show ?thesis using makePairSets_spec by blast
qed

lemma counter_fresh:
  assumes "length F \<le> 6"
  shows "\<exists>k \<ge> pos. (word_of_nat k :: block) \<notin> set F"
proof -
  have "card (set F) < card (UNIV :: block set)" using card_length [of F] assms by (simp add: card_word)
  then obtain x :: block where x: "x \<notin> set F" by (metis UNIV_I less_irrefl subsetI top.extremum_unique)
  have "(word_of_nat (unat x + 2 ^ 128 * pos) :: block) = word_of_nat (unat x)"
    unfolding word_of_nat_eq_iff by (simp add: take_bit_eq_mod)
  then have "(word_of_nat (unat x + 2 ^ 128 * pos) :: block) = x" by simp
  then show ?thesis using x by (intro exI [of _ "unat x + 2 ^ 128 * pos"]) (simp add: trans_le_add2)
qed

theorem pair_sets_total_witness:
  "\<exists>s0 s1. makePairSets (\<lambda>k. word_of_nat k) 3 2 = Some (s0, s1) \<and> length (filter (\<lambda>i. s0 ! i \<in> set s1) [0..<3]) = 2"
  using pair_sets_total [of 3 "\<lambda>k. word_of_nat k" 2] counter_fresh by auto

section \<open>Sets that cannot be encoded\<close>

lemma cancels_repeated: "\<not> distinct xs \<Longrightarrow> cancels (mset (map f xs))"
proof -
  assume "\<not> distinct xs"
  then obtain as bs cs y where "xs = as @ [y] @ bs @ [y] @ cs" using not_distinct_decomp by blast
  then have "{#f y, f y#} \<subseteq># mset (map f xs)" by (simp add: subseteq_mset_def)
  then show ?thesis unfolding cancels_def by (intro exI [of _ "{#f y, f y#}"]) simp
qed

text \<open>C28: a set that holds an item twice cannot be stored, and the receiver does not notice: the
  encoder reports failure, \<open>Recv\<close> ignores the report and goes on to send the table the encoder
  left behind.\<close>

theorem recv_sends_failed_table:
  assumes "pqpsi_ctx env pv me n X opts = Inr ctx" and "perm_env_ok pv" and "kem_sound (kem ctx) (pe_kem env)"
    and "cols_ok (rb ctx) n" and "keys_generated env ctx" and "\<not> distinct X"
  shows "\<exists>st rows. Recv_begin env ctx = Inr st \<and>
    RBEncodeFlat (pe_rb env) (pe_aes env) X rows (rowSize ctx) (replicate (tableSize ctx * rowSize ctx) 0) (rb ctx) =
      Inr (False, rs_buf st)"
proof -
  let ?w = "rowSize ctx" and ?s = "own_sealer env ctx (Some (ownPi ctx))" and ?T0 = "replicate (tableSize ctx * rowSize ctx) 0"
  have x: "items ctx = X" "n = length X" by (rule pqpsi_ctxE [OF assms(1)]; simp)+
  have ne: "X \<noteq> []" using assms(6) by auto
  have ok: "ctx_ok env ctx" using pqpsi_ctx_ok [OF assms(1,2) ne assms(3)] assms(4) x by simp
  then have O: "?w = kem_width (kem ctx)" "perm_ok (ownPi ctx) (16 * ?w)" by (auto simp: ctx_ok_def)
  obtain cfg where cfg: "RBInfoOf (pe_rb env) (length X) (rb ctx) = Inr cfg" using ok x by (auto simp: ctx_ok_def)
  obtain f where "\<And>i. i < n \<Longrightarrow> kem_gen (kem ctx) (pe_kem env) i = Inr (f i)"
    using assms(5) x unfolding keys_generated_def by metis
  then have "mapE (kem_gen (kem ctx) (pe_kem env)) [0..<n] = Inr (map f [0..<n])" by (intro mapE_all_Inr) simp
  then have ks: "mapE (kem_gen (kem ctx) (pe_kem env)) [0..<length (items ctx)] = Inr (map f [0..<n])" using x by simp
  let ?v = "map (\<lambda>i. seal_row ?s (X ! i) (map snd (map f [0..<n]) ! i)) [0..<n]"
  have so: "sealer_ok (kem_width (kem ctx)) ?s" and su: "suits_width (kem_width (kem ctx)) (rb_of env ctx)"
    using O by (auto simp: sealer_ok_def own_sealer_def suits_width_def rb_of_def)
  have v: "\<forall>v \<in> set ?v. length v = ?w"
    using psi.sealed_rows_ok [OF so su, of "map snd (map f [0..<n])" n X] kemRows.gens_width [OF assms(3) ks] O(1) by simp
  have lv: "length ?v = length X" and pos: "0 < ?w" using x(2) O(1) kem_width_pos(1) by simp_all
  obtain T where T: "RBEncode (pe_rb env) (pe_aes env) X ?v [?T0] (rb ctx) = Inr (False, T)"
    using RBEncode_decides [OF cfg lv v pos ne, of "pe_aes env" "[?T0]"] cancels_repeated [OF assms(6)] by auto
  have "RBEncodeFlat (pe_rb env) (pe_aes env) X (concat ?v) ?w (concat [?T0]) (rb ctx) = Inr (False, concat T)"
    unfolding RBEncodeFlat_sim [OF lv v pos] T by simp
  then have F: "RBEncodeFlat (pe_rb env) (pe_aes env) X (concat ?v) ?w ?T0 (rb ctx) = Inr (False, concat T)" by simp
  obtain st where "Recv_begin env ctx = Inr st" "rs_buf st = concat T"
    unfolding Recv_begin_eq [OF ok ks] flat_encode_def rb_of_def rb_cfg.simps x(1) x(2) [symmetric] F by simp
  then show ?thesis using F by (intro exI [of _ st] exI [of _ "concat ?v"]) simp
qed

theorem recv_sends_failed_table_witness:
  "\<exists>ctx st rows. pqpsi_ctx w_psi w_perm 0 3 [5, 5, 1] w_opts = Inr ctx \<and> Recv_begin w_psi ctx = Inr st \<and>
     RBEncodeFlat (pe_rb w_psi) (pe_aes w_psi) [5, 5, 1] rows (rowSize ctx) (replicate (tableSize ctx * rowSize ctx) 0) (rb ctx) =
       Inr (False, rs_buf st)"
proof -
  have len: "length [5, 5, 1 :: block] = 3" by simp
  obtain ctx where c: "pqpsi_ctx w_psi w_perm 0 3 [5, 5, 1] w_opts = Inr ctx" "kem ctx = EcKem" "rb ctx = w_params" "items ctx = [5, 5, 1]"
    using w_ctx [OF len, of 0] by blast
  have k: "kem_sound (kem ctx) (pe_kem w_psi)" "cols_ok (rb ctx) 3"
    using w_ec_sound w_cols c by (simp_all add: w_psi_def)
  show ?thesis using recv_sends_failed_table [OF c(1) w_perm_ok k w_keys_ok [OF len c(2,4)]] c(1) by auto
qed

end
