(* ===== verification/Psi_ConnectProperties.thy ===== *)
theory Psi_ConnectProperties
  imports Psi_Call Psi_Properties
begin

text \<open>
  The properties of the connection: the two parties' channels are paired whatever the schedule, a
  run name with the separator pairs none, and an exception that is thrown while the I/O service
  exists does not reach the caller.
\<close>

text \<open>C11: for a run name without the separator of the handshake, in every state that an
  interleaving of the two processes and the service threads reaches: channel \<open>j\<close> of the host has the
  socket of channel \<open>j\<close> of the client, no step throws, at most four steps per channel have been made,
  and a state has no further step exactly when every channel is connected.\<close>

theorem connect_pairs:
  assumes "CHR 0x60 \<notin> set run" and "length run < 2 ^ 30" and "nCh \<le> 2 ^ 20"
    and "conn_start hardware base run = Inr c0" and "conn_runs run nCh c0 k c"
  shows "cn_socks c = [0..<length (cn_socks c)] \<and> k \<le> 4 * nCh \<and> (\<forall>r. conn_step run nCh c r \<longrightarrow> (\<exists>c'. r = Inr c')) \<and>
    ((\<forall>r. \<not> conn_step run nCh c r) \<longleftrightarrow> length (cn_socks c) = nCh \<and> cn_sent c = [] \<and> length (ep_channels (cn_client c)) = nCh)"
proof -
  have s: "small_names run nCh" using assms(2,3) by (simp add: small_names_def)
  have i0: "conn_inv run nCh 0 c0" using conn_start_eq [of hardware base run nCh] assms(4) by auto
  have i: "conn_inv run nCh k c" by (rule conn_runs_inv [OF assms(5) i0 s assms(1)])
  then have "cn_socks c = [0..<length (cn_socks c)]" by (auto simp: conn_inv_def wait_ok_def)
  then show ?thesis using conn_steps_le [OF i] conn_step_inv [OF i s assms(1)] conn_stuck_iff [OF i] by blast
qed

theorem connect_pairs_witness:
  "\<exists>c0 c. conn_start 2 1210 ''psi'' = Inr c0 \<and> conn_runs ''psi'' 2 c0 8 c \<and> cn_socks c = [0..<2]"
proof -
  obtain c0 where c0: "conn_start 2 1210 ''psi'' = Inr c0" "conn_inv ''psi'' 2 0 c0"
    using conn_start_eq [of 2 1210 "''psi''" 2] by blast
  have s: "small_names ''psi'' 2" "CHR 0x60 \<notin> set ''psi''" by (simp_all add: small_names_def)
  obtain c where c: "conn_runs ''psi'' 2 c0 8 c" using conn_extends [OF c0(2) s, of 8] by auto
  have "\<forall>r. \<not> conn_step ''psi'' 2 c r" using conn_stuck_steps [OF conn_runs_inv [OF c c0(2) s]] by simp
  then show ?thesis using connect_pairs [OF s(2) _ _ c0(1) c] c0(1) c by auto
qed

text \<open>C16: a run name that contains the separator of the handshake connects nothing: whatever the
  schedule, no channel of the host ever gets a socket, and the promise it waits for is not set.\<close>

theorem connect_lost:
  assumes "CHR 0x60 \<in> set run" and "conn_start hardware base run = Inr c0" and "conn_runs run nCh c0 k c"
  shows "cn_socks c = [] \<and> (\<forall>tag. cn_wait c = Some tag \<longrightarrow> future_get (cn_acc c) tag = None)"
proof -
  have "lost_inv run c0"
    using conn_start_eq [of hardware base run nCh] assms(2) by (auto simp: lost_inv_def no_tick_def)
  then have "lost_inv run c" using lost_runs assms(1,3) by blast
  then show ?thesis by (fastforce simp: lost_inv_def no_tick_def future_get_def split: option.splits)
qed

theorem connect_lost_witness:
  "\<exists>c0 c tag. conn_start 2 1210 ''psi_a`b'' = Inr c0 \<and> conn_runs ''psi_a`b'' 1 c0 1 c \<and> cn_wait c = Some tag \<and>
     cn_socks c = [] \<and> future_get (cn_acc c) tag = None"
proof -
  let ?run = "''psi_a`b''"
  obtain c0 where c0: "conn_start 2 1210 ?run = Inr c0" "conn_inv ?run 1 0 c0" "cn_wait c0 = None" "ep_channels (cn_host c0) = []"
    using conn_start_eq [of 2 1210 ?run 1] by blast
  have w: "cn_wait c0 = None" "length (ep_channels (cn_host c0)) < 1" using c0(3,4) by simp_all
  obtain c where c: "host_add ?run c0 = Inr c" using host_add_inv [OF c0(2) w(2,1)] by blast
  then obtain tag where t: "cn_wait c = Some tag" by (auto simp: host_add_def Let_def result_simps)
  have "conn_step ?run 1 c0 (Inr c)" using conn_step.host [OF w, of ?run] c by simp
  then have r: "conn_runs ?run 1 c0 1 c" using conn_runs.more [OF conn_runs.here] by simp
  show ?thesis using connect_lost [OF _ c0(1) r] c0(1) r t by auto
qed

text \<open>C12: every way out of a call. What the entry point throws before it creates its I/O service
  reaches the caller. Any exception after that, from starting the endpoint, adding a channel, warming
  the channels, making the context, \<open>Recv\<close> or \<open>Send\<close>, or the teardown, does not: the service is
  destroyed with its threads running and the process is terminated, if it has not come to its end
  (\<open>fatal\<close>) before; or, when it was the acceptor's bind that failed, the destructor waits for ever. A
  call that gets through its teardown returns.\<close>

theorem late_failure_terminates:
  assumes "os_hardware os \<noteq> 0"
  shows "pqpsi_call env pv os me n xs opts =
    (case pqpsi_early env n xs opts of
       Inl e \<Rightarrow> throwC e
     | Inr info \<Rightarrow>
         (case snd (pqpsi_body env pv os me n xs opts info (BtIOService_new (os_hardware os) 0)) of
            None \<Rightarrow> None
          | Some (Inl e) \<Rightarrow> if bind_fails os me then None else throwC (if fatal e then e else Terminate)
          | Some (Inr hits) \<Rightarrow> retC hits))"
proof (cases "pqpsi_early env n xs opts")
  case (Inr info)
  let ?b = "pqpsi_body env pv os me n xs opts info (BtIOService_new (os_hardware os) 0)"
  show ?thesis
  proof (cases "bind_fails os me")
    case True
    then obtain ios m where "?b = (ios, throwC (RuntimeError m))" "ios_destroy ios = None" using pqpsi_body_bind_fails by blast
    then show ?thesis using True Inr by (simp add: pqpsi_call_def leave_scope_def throwC_def fatal_def)
  next
    case False
    then have "leave_scope ?b = (case snd ?b of None \<Rightarrow> None | Some (Inl e) \<Rightarrow> throwC (if fatal e then e else Terminate) | Some (Inr x) \<Rightarrow> retC x)"
      by (intro leave_scope_ended pqpsi_body_ended assms)
    then show ?thesis using False Inr by (auto simp: pqpsi_call_def split: option.split sum.split)
  qed
qed (simp add: pqpsi_call_def)

definition w_os :: os_env where
  "w_os = \<lparr> os_hardware = 2, os_tag = None, os_portBase = None, os_resolve = None, os_port = 0, os_bind = Some ''Address already in use'',
     os_opened = (\<lambda>_. True), os_reopen = (\<lambda>_ _. True), os_con = (\<lambda>_ _. True), os_retry = None, os_arrive = (\<lambda>_. []),
     os_in = [[[0xA0]]], os_close = (\<lambda>_. retC ()) \<rparr>"

definition w_bad_opts :: psi_opts where
  "w_bad_opts = \<lparr> po_rb = Some w_params, po_pi = Some (PiCfg_default\<lparr> pi_kind := PK_Xoodoo \<rparr>), po_kem = None, po_channels = Some 1 \<rparr>"

lemma w_channel:
  assumes "\<not> ep_host ep" and "\<not> ep_stopped ep" and "ep_name ep = ''psi''"
  shows "\<exists>ep'. add_channels w_os ''psi'' k [0] ep ios = (ios, retC ep')"
proof -
  let ?c = "chName ''psi'' 0"
  let ?ep = "ep\<lparr> ep_channels := ep_channels ep @ [(?c, ?c)] \<rparr>"
  have c: "?c \<noteq> []" "length ?c \<le> 8" using chName_facts(1,4) [of "''psi''" 0] by simp_all
  have "length (hello ?ep (?c, ?c)) < 2 ^ 32" using c(2) by (simp add: hello_def assms(3))
  then have w: "client_wire ?ep (?c, ?c) = Inr (frame (str_bytes (hello ?ep (?c, ?c))))" by (rule client_wire_frame)
  have a: "ep_addChannel ep ?c ?c = Inr ((?c, ?c), ?ep)" using assms(2) by (simp add: ep_addChannel_def Let_def guardE_def)
  have "connect_loop r f i n True" for r f i n by (cases n) simp_all
  then have n: "ep_connect (os_opened w_os 0) (os_reopen w_os 0) (os_con w_os 0) (os_retry w_os) = Inr ()"
    by (simp add: ep_connect_def guardE_def w_os_def)
  have "add_channel w_os ''psi'' k 0 ep ios = (ios, retC ?ep)" using assms(1) by (simp add: add_channel_def a n w liftC_def retC_def)
  then show ?thesis by (simp add: bindS_ret liftS_def)
qed

theorem late_failure_terminates_witness:
  "pqpsi_call w_psi w_perm w_os 1 3 w_keys w_bad_opts = throwC Terminate \<and> pqpsi_call w_psi w_perm w_os 0 3 w_keys w_bad_opts = None"
proof -
  obtain info where "RBInfoOf w_env 3 w_params = Inr info" using w_info [of 3] by auto
  then have e: "pqpsi_early w_psi 3 w_keys w_bad_opts = Inr info"
    by (simp add: pqpsi_early_def w_psi_def w_bad_opts_def w_keys_def guardE_def numeral_3_eq_3)
  have x: "pqpsi_ctx w_psi w_perm me 3 w_keys w_bad_opts = Inl (InvalidArgument ''xoodoo permutation is only supported with eckem'')" for me
    by (rule pqpsi_ctx_xoodoo [where p = "PiCfg_default\<lparr> pi_kind := PK_Xoodoo \<rparr>", OF _ _ _ e]) (simp_all add: w_bad_opts_def)
  have h: "os_hardware w_os \<noteq> 0" by (simp add: w_os_def)
  have f: "bind_fails w_os 0" "\<not> bind_fails w_os 1" by (simp_all add: bind_fails_def w_os_def)
  let ?ios = "BtIOService_new (os_hardware w_os) 0"
  let ?ep = "BtEndpoint_new\<lparr> ep_port := psi_port 1210 1 0, ep_host := False, ep_stopped := False, ep_name := ''psi'' \<rparr>"
  have s: "start_endpoint w_os ''psi'' 1 ?ios = (ios_register ?ios 0, retC (?ep, 0))"
    by (simp add: start_endpoint_def psi_endpoint_eq peer_of_def isServer_def port_base_def w_os_def)
  obtain ep where c: "add_channels w_os ''psi'' 0 [0] ?ep (ios_register ?ios 0) = (ios_register ?ios 0, retC ep)"
    using w_channel [of ?ep 0 "ios_register ?ios 0"] by auto
  obtain ls where w: "warm_party 1 [0] ([[]], os_in w_os) = retC ls"
    by (simp add: warm_side_def peer_of_def w_os_def ch_recv_def ch_bytes_def ch_send_def ch_put_def size32_def)
  have n: "[0..<net_channels b t (Some 1)] = [0]" "replicate (net_channels b t (Some 1)) ([] :: u8 list list) = [[]]" for b t
    by (simp_all add: net_channels_def Let_def)
  have o: "runName (os_tag w_os) = ''psi''" "po_channels w_bad_opts = Some 1" by (simp_all add: runName_def w_os_def w_bad_opts_def)
  have b: "snd (pqpsi_body w_psi w_perm w_os 1 3 w_keys w_bad_opts info ?ios) = throwC (InvalidArgument ''xoodoo permutation is only supported with eckem'')"
    unfolding pqpsi_body_def Let_def o n bindS_ret [where m = "start_endpoint w_os ''psi'' 1", OF s] prod.case
      bindS_ret [where m = "add_channels w_os ''psi'' 0 [0] ?ep", OF c] w bindS_liftS x ..
  obtain ios m where b0: "pqpsi_body w_psi w_perm w_os 0 3 w_keys w_bad_opts info ?ios = (ios, throwC (RuntimeError m))"
    using pqpsi_body_bind_fails [OF f(1)] by blast
  have "pqpsi_call w_psi w_perm w_os 1 3 w_keys w_bad_opts = throwC Terminate"
    unfolding late_failure_terminates [OF h] e using f(2) by (simp add: b throwC_def fatal_def)
  moreover have "pqpsi_call w_psi w_perm w_os 0 3 w_keys w_bad_opts = None"
    unfolding late_failure_terminates [OF h] e using f(1) by (simp add: b0 throwC_def)
  ultimately show ?thesis ..
qed

end
