(* ===== verification/Net_Properties.thy ===== *)
theory Net_Properties
  imports Net_SocketCorrect
begin

text \<open>The properties of the channels of \<open>cryptoTools/Network\<close>, over every schedule of the service threads.\<close>

section \<open>A small connection\<close>

lemma small [simp]: "cut32 [x] = [x]" "size32 [x] = 1" "cut32 [x, y] = [x, y]" "size32 [x, y] = 2"
  by (simp_all add: cut32_def size32_def)

definition w_sent :: pipe where
  "w_sent = (pipe_new 16)\<lparr> tx := queue_send BtSocket_new
     \<lparr> op_type = SendData, op_size = 1, op_buff = [7], op_other = None, op_promise = Some 0 \<rparr> \<rparr>"

definition w_recv_op :: "u8 list \<Rightarrow> BoostIOOperation" where
  "w_recv_op dest = \<lparr> op_type = RecvData, op_size = size32 dest, op_buff = dest, op_other = None, op_promise = Some 1 \<rparr>"

definition w_asked :: "u8 list \<Rightarrow> pipe" where
  "w_asked dest = w_sent\<lparr> rx := queue_recv BtSocket_new (w_recv_op dest) \<rparr>"

definition w_header :: "u8 list \<Rightarrow> pipe" where
  "w_header dest = (w_asked dest)\<lparr> wire := [7], tx_pos := 5, rx_got := [1, 0, 0, 0] \<rparr>"

lemmas w_defs = w_header_def w_asked_def w_sent_def w_recv_op_def pipe_new_def BtSocket_new_def

lemma w_sent_run: "runs net_step (pipe_new 16) [Sent [7]] w_sent"
proof -
  have "net_call (pipe_new 16) (Sent (cut32 [7])) w_sent"
    unfolding w_sent_def by (rule net_call.call_send [of _ _ 0]) (simp add: chl_send_def dispatch_def pipe_new_def BtSocket_new_def)
  then show ?thesis using runs_snoc [OF runs_nil, of net_step "pipe_new 16"] by (simp add: net_step_def)
qed

lemma w_hdr_val: "hdr_val [1, 0, 0, 0] = 1"
  using hdr_val_bytes [of 1] by (simp add: hdr_bytes_def)

text \<open>The message is written in two pieces, and its header is read.\<close>

lemma w_header_run:
  assumes "cut32 dest = dest" and "size32 dest \<noteq> 0"
  shows "runs net_step (pipe_new 16) [Sent [7], Asked 1, Quiet, Quiet, Quiet] (w_header dest)"
proof -
  let ?op = "\<lparr> op_type = SendData, op_size = 1, op_buff = [7], op_other = None, op_promise = Some 0 \<rparr>"
  let ?a = "(w_asked dest)\<lparr> wire := [1, 0, 0], tx_pos := 3 \<rparr>" and ?b = "(w_asked dest)\<lparr> wire := [1, 0, 0, 0, 7], tx_pos := 5 \<rparr>"
  have "net_call w_sent (Asked 1) (w_asked dest)"
    unfolding w_asked_def using assms
    by (intro net_call.call_asyncRecv [of _ dest]) (simp_all add: chl_asyncRecv_def dispatch_def w_defs)
  moreover have "net_work (w_asked dest) Quiet ?a"
    using net_work.write_some [of "w_asked dest" ?op "[]" 3] by (simp add: w_defs op_frame_def hdr_bytes_def slice_def)
  moreover have "net_work ?a Quiet ?b"
    using net_work.write_some [of ?a ?op "[]" 2] by (simp add: w_defs op_frame_def hdr_bytes_def slice_def)
  moreover have "net_work ?b Quiet (w_header dest)"
    using net_work.read_some [of ?b "w_recv_op dest" "[]" 4] by (simp add: w_defs rx_want_def)
  ultimately show ?thesis
    using runs_snoc [OF runs_snoc [OF runs_snoc [OF runs_snoc [OF w_sent_run]]], of "Asked 1" "w_asked dest" Quiet ?a Quiet ?b Quiet "w_header dest"]
    by (simp add: net_step_def)
qed

lemma w_delivered_run:
  "\<exists>s. runs net_step (pipe_new 16) [Sent [7], Asked 1, Quiet, Quiet, Quiet, Quiet, Quiet, Delivered (Some 1) [7]] s"
proof -
  let ?op = "(w_recv_op [0])\<lparr> op_size := 1 \<rparr>"
  let ?a = "(w_header [0])\<lparr> rx := (rx (w_header [0]))\<lparr> sk_recvQueue := [?op] \<rparr>, rx_phase := AwaitBody, rx_got := [] \<rparr>"
  let ?b = "?a\<lparr> wire := [], rx_got := [7] \<rparr>"
  have "net_work (w_header [0]) Quiet ?a"
    using net_work.read_header [of "w_header [0]" "w_recv_op [0]" "[]" ?op] by (simp add: w_defs receiveOne_header_def w_hdr_val)
  moreover have "net_work ?a Quiet ?b" using net_work.read_some [of ?a ?op "[]" 1] by (simp add: w_defs rx_want_def)
  moreover obtain c where "net_work ?b (Delivered (Some 1) [7]) c"
    using net_work.read_body [of ?b ?op "[]"] by (simp add: w_defs)
  ultimately show ?thesis
    using runs_snoc [OF runs_snoc [OF runs_snoc [OF w_header_run [of "[0]"]]], of Quiet ?a Quiet ?b "Delivered (Some 1) [7]" c]
    by (auto simp: net_step_def)
qed

section \<open>Order and integrity\<close>

text \<open>C13: a channel is a queue. However the service threads of both ends are scheduled, whatever the
  pieces in which the transport takes and delivers the bytes and however few of them it holds, the
  messages delivered so far are the first messages sent, each complete, unchanged and in the order of
  the calls.\<close>

theorem channel_fifo:
  assumes "runs net_step (pipe_new cap) es s"
  shows "\<exists>waiting. sent_of es = delivered_of es @ waiting"
  by (rule sockets.fifo [OF assms])

theorem channel_fifo_witness:
  "\<exists>es s. runs net_step (pipe_new 16) es s \<and> sent_of es = [[7]] \<and> delivered_of es = [[7]] \<and> (\<exists>waiting. sent_of es = delivered_of es @ waiting)"
proof -
  let ?es = "[Sent [7], Asked 1, Quiet, Quiet, Quiet, Quiet, Quiet, Delivered (Some 1) [7]]"
  obtain s where r: "runs net_step (pipe_new 16) ?es s" using w_delivered_run by blast
  have "sent_of ?es = [[7]]" "delivered_of ?es = [[7]]" by (simp_all add: sent_of_def delivered_of_def)
  then show ?thesis using channel_fifo [OF r] r by blast
qed



text \<open>C15: a receive of the wrong size ruins the channel. When the waiting thread of a receive is
  handed the null exception pointer, the size it asked for was not that of the next message; and
  from then on, whatever the parties call and the threads do, nothing is delivered any more and the
  operation stays at the head of the queue, so that \<open>close\<close> waits for ever too.\<close>

theorem channel_jams:
  assumes "runs net_step (pipe_new cap) es s" and "net_work s (NullException p) s1" and "runs net_step s1 es' s2"
  shows "(\<exists>m rest. sent_of es = delivered_of es @ m # rest \<and> length (op_buff (hd (sk_recvQueue (rx s)))) \<noteq> length m) \<and>
    delivered_of es' = [] \<and> (\<exists>ops. sk_recvQueue (rx s2) = sk_recvQueue (rx s) @ ops) \<and> sk_recvQueue (rx s) \<noteq> []"
proof -
  obtain q where q: "pipe_rep s q" "sent_of es = delivered_of es @ q" using sockets.run_next [OF assms(1)] by blast
  from assms(2) obtain op ops where w: "sk_recvQueue (rx s) = op # ops" "rx_phase s = AwaitHeader" "length (rx_got s) = 4"
      "receiveOne_header op (rx_got s) = WrongSize" "s1 = s\<lparr> rx_phase := Jammed, rx_got := [] \<rparr>"
    by (auto elim: net_work.cases)
  note h = header_read [OF q(1) w(2,3)]
  have "length (op_buff op) \<noteq> length (hd q)" using receiveOne_header_size(2) [OF h(4)] w(4) h(2) by simp
  then have "\<exists>m rest. sent_of es = delivered_of es @ m # rest \<and> length (op_buff op) \<noteq> length m"
    using q(2) h(1) by (intro exI [of _ "hd q"] exI [of _ "tl q"]) simp
  moreover have "delivered_of es' = [] \<and> (\<exists>ops. sk_recvQueue (rx s2) = sk_recvQueue (rx s) @ ops)"
    using jammed_for_good [OF assms(3)] w(5) by simp
  ultimately show ?thesis by (simp add: w(1))
qed

theorem channel_jams_witness:
  "\<exists>es s1. runs net_step (pipe_new 16) es (w_header [0, 0]) \<and> net_work (w_header [0, 0]) (NullException (Some 1)) s1 \<and>
     (\<exists>m rest. sent_of es = delivered_of es @ m # rest \<and> length m \<noteq> 2)"
proof -
  let ?s1 = "(w_header [0, 0])\<lparr> rx_phase := Jammed, rx_got := [] \<rparr>"
  have r: "runs net_step (pipe_new 16) [Sent [7], Asked 1, Quiet, Quiet, Quiet] (w_header [0, 0])" by (rule w_header_run) simp_all
  have n: "net_work (w_header [0, 0]) (NullException (Some 1)) ?s1"
    using net_work.bad_header [of "w_header [0, 0]" "w_recv_op [0, 0]" "[]"] by (simp add: w_defs receiveOne_header_def w_hdr_val)
  have q: "sk_recvQueue (rx (w_header [0, 0])) = [w_recv_op [0, 0]]" "length (op_buff (w_recv_op [0, 0])) = 2" by (simp_all add: w_defs)
  show ?thesis using channel_jams [OF r n runs_nil] r n unfolding q list.sel by metis
qed

end
