(* ===== verification/Crypto_Prng.thy ===== *)
theory Crypto_Prng
  imports Crypto_Aes
begin

text \<open>
  The generator of \<open>cryptoTools/Crypto/PRNG.cpp\<close> and \<open>PRNG.h\<close>: a buffer of sixty-four blocks of
  AES in counter mode that is refilled when it is used up. The loop of \<open>get\<close> ends only when the
  buffer has a capacity, so it is a partial function. What it delivers is the key stream of the
  seed, whatever the sizes of the requests.
\<close>

definition DEFAULT_BUFF_SIZE :: nat where "DEFAULT_BUFF_SIZE = 64"

record PRNG =
  mSeed :: block
  mBuffer :: "block list"
  mAes :: "block list"
  mBytesIdx :: nat
  mBlockIdx :: u64
  mBufferByteCapacity :: nat

text \<open>The counter block: the index in the low half, zero in the high half.\<close>

definition index_block :: "u64 \<Rightarrow> block" where
  "index_block i = ucast i"

definition refillBuffer :: "PRNG \<Rightarrow> PRNG" where
  "refillBuffer g =
     g\<lparr> mBuffer := ecbEncBlocks (mAes g) (map (\<lambda>i. index_block (mBlockIdx g + word_of_nat i)) [0..<length (mBuffer g)]),
        mBlockIdx := mBlockIdx g + word_of_nat (length (mBuffer g)), mBytesIdx := 0 \<rparr>"

definition PRNG_default :: PRNG where
  "PRNG_default = \<lparr> mSeed = 0, mBuffer = replicate DEFAULT_BUFF_SIZE 0, mAes = AES_setKey 0, mBytesIdx = 0, mBlockIdx = 0,
     mBufferByteCapacity = 16 * DEFAULT_BUFF_SIZE \<rparr>"

definition PRNG_new :: "block \<Rightarrow> PRNG" where
  "PRNG_new seed =
     refillBuffer \<lparr> mSeed = seed, mBuffer = replicate DEFAULT_BUFF_SIZE 0, mAes = AES_setKey seed, mBytesIdx = 0, mBlockIdx = 0,
       mBufferByteCapacity = 16 * DEFAULT_BUFF_SIZE \<rparr>"

text \<open>The generator that is left behind, and the new one.\<close>

definition PRNG_move :: "PRNG \<Rightarrow> PRNG \<times> PRNG" where
  "PRNG_move s =
     (\<lparr> mSeed = 0, mBuffer = [], mAes = replicate 11 0, mBytesIdx = 0, mBlockIdx = 0, mBufferByteCapacity = 0 \<rparr>, s)"

definition SetSeed :: "PRNG \<Rightarrow> block \<Rightarrow> PRNG" where
  "SetSeed g seed =
     (let g = g\<lparr> mSeed := seed, mAes := AES_setKey seed, mBlockIdx := 0 \<rparr>;
          g = (if mBuffer g = []
               then g\<lparr> mBuffer := replicate DEFAULT_BUFF_SIZE 0, mBufferByteCapacity := 16 * DEFAULT_BUFF_SIZE \<rparr> else g)
      in refillBuffer g)"

definition getSeed :: "PRNG \<Rightarrow> block" where
  "getSeed g = mSeed g"

partial_function (option) get_loop :: "PRNG \<Rightarrow> nat \<Rightarrow> u8 list \<Rightarrow> (u8 list \<times> PRNG) option" where
  "get_loop g lengthu8 dest =
     (if lengthu8 = 0 then Some (dest, g)
      else
        let step = min lengthu8 (mBufferByteCapacity g - mBytesIdx g);
            dest = dest @ slice (mBytesIdx g) step (bytesOf (mBuffer g));
            g = g\<lparr> mBytesIdx := mBytesIdx g + step \<rparr>;
            g = (if mBytesIdx g = mBufferByteCapacity g then refillBuffer g else g)
        in get_loop g (lengthu8 - step) dest)"

definition prng_get :: "PRNG \<Rightarrow> nat \<Rightarrow> (u8 list \<times> PRNG) option" where
  "prng_get g len = get_loop g len []"

definition get_block :: "PRNG \<Rightarrow> (block \<times> PRNG) option" where
  "get_block g = map_option (\<lambda>(bs, g). (bytes_block bs, g)) (prng_get g 16)"

definition get_u32 :: "PRNG \<Rightarrow> (u32 \<times> PRNG) option" where
  "get_u32 g = map_option (\<lambda>(bs, g). (word_of_nat (le_val bs), g)) (prng_get g 4)"

definition getBit :: "PRNG \<Rightarrow> (u8 \<times> PRNG) option" where
  "getBit g = map_option (\<lambda>(bs, g). (hd bs AND 1, g)) (prng_get g 1)"

section \<open>The key stream\<close>

definition stream_block :: "block \<Rightarrow> nat \<Rightarrow> block" where
  "stream_block seed k = ecbEncBlock (AES_setKey seed) (index_block (word_of_nat k))"

definition key_stream :: "block \<Rightarrow> nat \<Rightarrow> u8" where
  "key_stream seed j = block_bytes (stream_block seed (j div 16)) ! (j mod 16)"

text \<open>The generator has delivered \<open>pos\<close> bytes of the stream: its buffer holds the refill with number \<open>c\<close>.\<close>

definition at_pos :: "block \<Rightarrow> nat \<Rightarrow> PRNG \<Rightarrow> bool" where
  "at_pos seed pos g \<longleftrightarrow> mSeed g = seed \<and> mAes g = AES_setKey seed \<and> mBufferByteCapacity g = 1024 \<and> mBytesIdx g < 1024 \<and>
     (\<exists>c. pos = 1024 * c + mBytesIdx g \<and> mBlockIdx g = word_of_nat (64 * Suc c) \<and>
        mBuffer g = map (stream_block seed) [64 * c..<64 * Suc c])"

lemma refill_at_pos:
  assumes "mSeed g = seed" and "mAes g = AES_setKey seed" and "mBufferByteCapacity g = 1024" and "length (mBuffer g) = 64"
    and "mBlockIdx g = word_of_nat (64 * c)"
  shows "at_pos seed (1024 * c) (refillBuffer g)"
proof -
  have "mBuffer (refillBuffer g) = map (stream_block seed) [64 * c..<64 * Suc c]"
    using assms(2,4,5) by (intro nth_equalityI) (simp_all add: refillBuffer_def ecbEncBlocks_map stream_block_def)
  then show ?thesis using assms by (auto simp: at_pos_def refillBuffer_def intro!: exI [of _ c])
qed

lemma PRNG_new_at_pos: "at_pos seed 0 (PRNG_new seed)"
  using refill_at_pos [of _ seed 0] by (simp add: PRNG_new_def DEFAULT_BUFF_SIZE_def)

lemma SetSeed_at_pos:
  "mBuffer g = [] \<or> length (mBuffer g) = 64 \<and> mBufferByteCapacity g = 1024 \<Longrightarrow> at_pos seed 0 (SetSeed g seed)"
  using refill_at_pos [of _ seed 0] by (auto simp: SetSeed_def DEFAULT_BUFF_SIZE_def Let_def)

lemma buffer_bytes:
  "j < 16 * n \<Longrightarrow> bytesOf (map f [a..<a + n]) ! j = block_bytes (f (a + j div 16)) ! (j mod 16)"
proof -
  assume j: "j < 16 * n"
  have "slice (j div 16 * 16) 16 (concat (map (\<lambda>k. block_bytes (f k)) [a..<a + n])) = block_bytes (f (a + j div 16))"
    using j by (subst slice_concat) (auto simp: less_mult_imp_div_less)
  then have "slice (j div 16 * 16) 16 (bytesOf (map f [a..<a + n])) ! (j mod 16) = block_bytes (f (a + j div 16)) ! (j mod 16)"
    by (simp add: bytesOf_def comp_def)
  then show ?thesis using j by (simp add: slice_def)
qed

lemma at_pos_bytes:
  assumes "at_pos seed pos g" and "k \<le> 1024 - mBytesIdx g"
  shows "slice (mBytesIdx g) k (bytesOf (mBuffer g)) = map (key_stream seed) [pos..<pos + k]"
proof -
  obtain c where c: "pos = 1024 * c + mBytesIdx g" "mBuffer g = map (stream_block seed) [64 * c..<64 * c + 64]" "mBytesIdx g < 1024"
    using assms(1) by (auto simp: at_pos_def add.commute)
  show ?thesis
  proof (rule nth_equalityI)
    fix i assume "i < length (slice (mBytesIdx g) k (bytesOf (mBuffer g)))"
    then have i: "i < k" by (simp add: slice_def)
    then have lt: "mBytesIdx g + i < 16 * 64" using assms(2) c(3) by simp
    have "(1024 * c + (mBytesIdx g + i)) div 16 = 64 * c + (mBytesIdx g + i) div 16"
      "(1024 * c + (mBytesIdx g + i)) mod 16 = (mBytesIdx g + i) mod 16"
      using div_mult_self4 [of 16 "64 * c" "mBytesIdx g + i"] mod_mult_self4 [of 16 "64 * c" "mBytesIdx g + i"] by (simp_all add: mult.assoc [symmetric])
    then have "bytesOf (mBuffer g) ! (mBytesIdx g + i) = key_stream seed (pos + i)"
      unfolding c(2) buffer_bytes [OF lt] by (simp add: key_stream_def c(1) add.assoc)
    moreover have "slice (mBytesIdx g) k (bytesOf (mBuffer g)) ! i = bytesOf (mBuffer g) ! (mBytesIdx g + i)"
      using i lt by (simp add: slice_def c(2))
    ultimately show "slice (mBytesIdx g) k (bytesOf (mBuffer g)) ! i = map (key_stream seed) [pos..<pos + k] ! i" using i by simp
  qed (use assms(2) c in \<open>simp add: slice_def\<close>)
qed

lemma at_pos_advance:
  assumes g: "at_pos seed pos g" and k: "k \<le> 1024 - mBytesIdx g"
  defines "g1 \<equiv> g\<lparr> mBytesIdx := mBytesIdx g + k \<rparr>"
  shows "at_pos seed (pos + k) (if mBytesIdx g1 = mBufferByteCapacity g1 then refillBuffer g1 else g1)"
proof -
  obtain c where c: "pos = 1024 * c + mBytesIdx g" "mBlockIdx g = word_of_nat (64 * Suc c)"
      "mBuffer g = map (stream_block seed) [64 * c..<64 * Suc c]" "mSeed g = seed" "mAes g = AES_setKey seed"
      "mBufferByteCapacity g = 1024" "mBytesIdx g < 1024"
    using g by (auto simp: at_pos_def)
  show ?thesis
  proof (cases "mBytesIdx g + k = 1024")
    case True
    have "at_pos seed (1024 * Suc c) (refillBuffer g1)" using c by (intro refill_at_pos) (simp_all add: g1_def)
    moreover have "pos + k = 1024 * Suc c" using True c(1) by simp
    ultimately show ?thesis using True c(6) by (simp add: g1_def)
  next
    case False
    then have "at_pos seed (pos + k) g1" using c k by (auto simp: at_pos_def g1_def)
    then show ?thesis using False c(6) by (simp add: g1_def)
  qed
qed

lemma get_loop_stream:
  assumes "at_pos seed pos g"
  shows "\<exists>g'. get_loop g n dest = Some (dest @ map (key_stream seed) [pos..<pos + n], g') \<and> at_pos seed (pos + n) g'"
  using assms
proof (induction n arbitrary: g pos dest rule: less_induct)
  case (less n)
  show ?case
  proof (cases "n = 0")
    case True
    then show ?thesis using less.prems by (subst get_loop.simps) simp
  next
    case False
    define k where "k = min n (mBufferByteCapacity g - mBytesIdx g)"
    define g1 where "g1 = g\<lparr> mBytesIdx := mBytesIdx g + k \<rparr>"
    define g2 where "g2 = (if mBytesIdx g1 = mBufferByteCapacity g1 then refillBuffer g1 else g1)"
    have cap: "mBufferByteCapacity g = 1024" "mBytesIdx g < 1024" using less.prems by (auto simp: at_pos_def)
    have k: "0 < k" "k \<le> n" "k \<le> 1024 - mBytesIdx g" using False cap by (auto simp: k_def)
    have step: "get_loop g n dest = get_loop g2 (n - k) (dest @ slice (mBytesIdx g) k (bytesOf (mBuffer g)))"
      using False by (subst get_loop.simps) (simp add: Let_def k_def g1_def g2_def)
    have "at_pos seed (pos + k) g2" unfolding g2_def g1_def by (rule at_pos_advance [OF less.prems k(3)])
    then obtain g' where "get_loop g2 (n - k) (dest @ map (key_stream seed) [pos..<pos + k]) =
        Some ((dest @ map (key_stream seed) [pos..<pos + k]) @ map (key_stream seed) [pos + k..<pos + k + (n - k)], g')"
        "at_pos seed (pos + k + (n - k)) g'"
      using less.IH [of "n - k" "pos + k" g2] k False by fastforce
    moreover have "[pos..<pos + n] = [pos..<pos + k] @ [pos + k..<pos + n]" using k(2) by (intro upt_join [symmetric]) simp_all
    ultimately show ?thesis using k(2) unfolding step at_pos_bytes [OF less.prems k(3)] by simp
  qed
qed

lemma prng_get_stream:
  "at_pos seed pos g \<Longrightarrow> \<exists>g'. prng_get g n = Some (map (key_stream seed) [pos..<pos + n], g') \<and> at_pos seed (pos + n) g'"
  using get_loop_stream [of seed pos g n "[]"] by (simp add: prng_get_def)

text \<open>A sequence of requests.\<close>

fun draws :: "PRNG \<Rightarrow> nat list \<Rightarrow> (u8 list list \<times> PRNG) option" where
  "draws g [] = Some ([], g)"
| "draws g (n # ns) =
     (case prng_get g n of None \<Rightarrow> None
      | Some (bs, g) \<Rightarrow> map_option (\<lambda>(bss, g). (bs # bss, g)) (draws g ns))"

lemma draws_stream:
  "at_pos seed pos g \<Longrightarrow> \<exists>bss g'. draws g ns = Some (bss, g') \<and> map length bss = ns \<and>
     concat bss = map (key_stream seed) [pos..<pos + sum_list ns] \<and> at_pos seed (pos + sum_list ns) g'"
proof (induction ns arbitrary: g pos)
  case (Cons n ns)
  obtain g1 where g1: "prng_get g n = Some (map (key_stream seed) [pos..<pos + n], g1)" "at_pos seed (pos + n) g1"
    using prng_get_stream [OF Cons.prems] by blast
  obtain bss g' where "draws g1 ns = Some (bss, g')" "map length bss = ns"
      "concat bss = map (key_stream seed) [pos + n..<pos + n + sum_list ns]" "at_pos seed (pos + n + sum_list ns) g'"
    using Cons.IH [OF g1(2)] by blast
  moreover have "[pos..<pos + n + sum_list ns] = [pos..<pos + n] @ [pos + n..<pos + n + sum_list ns]"
    by (intro upt_join [symmetric]) simp_all
  ultimately show ?case using g1(1) by (simp add: add.assoc)
qed simp

text \<open>A generator that was moved from does not return.\<close>

definition no_buffer :: "PRNG \<Rightarrow> bool" where
  "no_buffer g \<longleftrightarrow> mBuffer g = [] \<and> mBytesIdx g = 0 \<and> mBufferByteCapacity g = 0"

lemma no_buffer_loop:
  assumes "get_loop g n dest = Some r"
  shows "no_buffer g \<longrightarrow> n = 0"
proof (rule get_loop.raw_induct [OF _ assms])
  fix f g n dest r
  assume IH: "\<And>g n dest r. f g n dest = Some r \<Longrightarrow> no_buffer g \<longrightarrow> n = 0"
    and body: "(if n = 0 then Some (dest, g)
      else let step = min n (mBufferByteCapacity g - mBytesIdx g);
            dest = dest @ slice (mBytesIdx g) step (bytesOf (mBuffer g));
            g = g\<lparr> mBytesIdx := mBytesIdx g + step \<rparr>;
            g = (if mBytesIdx g = mBufferByteCapacity g then refillBuffer g else g)
        in f g (n - step) dest) = Some r"
  show "no_buffer g \<longrightarrow> n = 0"
  proof
    assume g: "no_buffer g"
    show "n = 0"
    proof (rule ccontr)
      assume "n \<noteq> 0"
      moreover have "refillBuffer (g\<lparr> mBytesIdx := 0 \<rparr>) = refillBuffer g" by (simp add: refillBuffer_def)
      ultimately have "f (refillBuffer g) n dest = Some r" using body g by (simp add: no_buffer_def Let_def slice_def)
      moreover have "no_buffer (refillBuffer g)" using g by (simp add: no_buffer_def refillBuffer_def ecbEncBlocks_map)
      ultimately show False using IH \<open>n \<noteq> 0\<close> by blast
    qed
  qed
qed

lemma moved_from_diverges:
  assumes "0 < n"
  shows "prng_get (fst (PRNG_move s)) n = None"
  using assms no_buffer_loop [of "fst (PRNG_move s)" n "[]"]
  by (cases "prng_get (fst (PRNG_move s)) n") (auto simp: prng_get_def PRNG_move_def no_buffer_def)

text \<open>Without a seed the buffer is never filled: the first kilobyte is zero.\<close>

lemma unseeded_zeros:
  assumes "n < 1024"
  shows "\<exists>g. prng_get PRNG_default n = Some (replicate n 0, g)"
proof (cases "n = 0")
  case False
  have "digits b k 0 = replicate k 0" for b k :: nat by (induction k) simp_all
  then have "block_bytes 0 = replicate 16 0" by (simp add: block_bytes_def)
  then have z: "bytesOf (replicate k 0) = replicate (16 * k) 0" for k
    by (induction k) (simp_all add: replicate_add)
  show ?thesis using False assms unfolding prng_get_def
    by (subst get_loop.simps, subst get_loop.simps) (simp add: PRNG_default_def DEFAULT_BUFF_SIZE_def z slice_def Let_def)
qed (simp add: prng_get_def get_loop.simps)

end
