(* ===== verification/Crypto_BitVector.thy ===== *)
theory Crypto_BitVector
  imports Crypto_Prng Perm_Bits
begin

text \<open>
  The bit vector of \<open>cryptoTools/Common/BitVector.cpp\<close> and \<open>BitVector.h\<close>. Bit \<open>i\<close> is bit \<open>i mod 8\<close>
  of byte \<open>i div 8\<close>; the allocation is the list \<open>mData\<close>, so \<open>mAllocBytes\<close> is its length. An access
  behind the allocation, which the C++ code does not check, is the error \<open>OutOfRange\<close>.
\<close>

record BitVector =
  mData :: "u8 list"
  mNumBits :: nat

definition BitVector_empty :: BitVector where
  "BitVector_empty = \<lparr> mData = [], mNumBits = 0 \<rparr>"

definition sizeBytes :: "BitVector \<Rightarrow> nat" where
  "sizeBytes v = (mNumBits v + 7) div 8"

definition capacity :: "BitVector \<Rightarrow> nat" where
  "capacity v = length (mData v) * 8"

section \<open>Storage\<close>

definition bv_resize :: "BitVector \<Rightarrow> nat \<Rightarrow> BitVector" where
  "bv_resize v newSize =
     (let new_nbytes = (newSize + 7) div 8;
          d = (if length (mData v) < new_nbytes
               then take (sizeBytes v) (mData v) @ replicate (new_nbytes - sizeBytes v) 0 else mData v)
      in \<lparr> mData = d, mNumBits = newSize \<rparr>)"

definition bv_reserve :: "BitVector \<Rightarrow> nat \<Rightarrow> BitVector" where
  "bv_reserve v n = (bv_resize v n)\<lparr> mNumBits := mNumBits v \<rparr>"

definition bv_reset :: "BitVector \<Rightarrow> nat \<Rightarrow> BitVector" where
  "bv_reset v new_nbits =
     (let newSize = (new_nbits + 7) div 8
      in \<lparr> mData = (if newSize > length (mData v) then replicate newSize 0
                   else replicate newSize 0 @ drop newSize (mData v)), mNumBits = new_nbits \<rparr>)"

definition BitVector_new :: "nat \<Rightarrow> BitVector" where
  "BitVector_new n = bv_reset BitVector_empty n"

definition bv_assign_block :: "BitVector \<Rightarrow> block \<Rightarrow> BitVector" where
  "bv_assign_block v b = (let v = bv_reset v 128 in v\<lparr> mData := patch_at 0 (block_bytes b) (mData v) \<rparr>)"

definition bv_assign :: "BitVector \<Rightarrow> BitVector \<Rightarrow> BitVector" where
  "bv_assign v k = (let v = bv_reset v (mNumBits k) in v\<lparr> mData := patch_at 0 (take (sizeBytes v) (mData k)) (mData v) \<rparr>)"

definition BitVector_copy :: "BitVector \<Rightarrow> BitVector" where
  "BitVector_copy k = bv_assign BitVector_empty k"

section \<open>Bits\<close>

definition bv_get :: "BitVector \<Rightarrow> nat \<Rightarrow> u8 result" where
  "bv_get v idx =
     guardE (idx \<ge> mNumBits v) (RuntimeError ''rt error'')
       (Inr (drop_bit (idx mod 8) (mData v ! (idx div 8)) AND 1))"

definition bit_write :: "u8 list \<Rightarrow> nat \<Rightarrow> u8 \<Rightarrow> u8 list" where
  "bit_write d idx n =
     (let m = push_bit (idx mod 8) 1; b = d ! (idx div 8)
      in d[idx div 8 := (if n > 0 then b OR m else b AND NOT m)])"

definition bv_set :: "BitVector \<Rightarrow> nat \<Rightarrow> u8 \<Rightarrow> BitVector result" where
  "bv_set v idx n =
     guardE (idx \<ge> mNumBits v) (RuntimeError ''rt error'') (Inr (v\<lparr> mData := bit_write (mData v) idx n \<rparr>))"

definition bv_append :: "BitVector \<Rightarrow> u8 list \<Rightarrow> nat \<Rightarrow> nat \<Rightarrow> BitVector result" where
  "bv_append v data len offset =
     (let destOffset = mNumBits v mod 8; destIdx = mNumBits v div 8; srcOffset = offset mod 8; srcIdx = offset div 8;
          byteLength = (len + 7) div 8; bitIdx = mNumBits v;
          v = bv_resize v (mNumBits v + len)
      in if srcOffset \<noteq> 0 \<or> destOffset \<noteq> 0
         then guardE (0 < len \<and> (offset + len + 7) div 8 > length data) (OutOfRange ''append'')
           (foldE (\<lambda>v i. bv_set v (bitIdx + i) (data ! ((offset + i) div 8) AND push_bit ((offset + i) mod 8) 1)) v [0..<len])
         else guardE (srcIdx + byteLength > length data) (OutOfRange ''append'')
           (Inr (v\<lparr> mData := patch_at destIdx (slice srcIdx byteLength data) (mData v) \<rparr>)))"

definition bv_append_vec :: "BitVector \<Rightarrow> BitVector \<Rightarrow> BitVector result" where
  "bv_append_vec v k = bv_append v (mData k) (mNumBits k) 0"

definition bv_copy :: "BitVector \<Rightarrow> BitVector \<Rightarrow> nat \<Rightarrow> nat \<Rightarrow> BitVector result" where
  "bv_copy v src idx len = bv_append (bv_resize v 0) (mData src) len idx"

definition bv_pushBack :: "BitVector \<Rightarrow> u8 \<Rightarrow> BitVector result" where
  "bv_pushBack v b =
     (let v = (if mNumBits v = capacity v then bv_reserve v (mNumBits v * 2) else v);
          v = bv_resize v (mNumBits v + 1)
      in bv_set v (mNumBits v - 1) b)"

definition fromString :: "BitVector \<Rightarrow> string \<Rightarrow> BitVector result" where
  "fromString v data =
     (let v = bv_resize v (length data)
      in foldE (\<lambda>v i. bv_set v i (word_of_nat (of_char (data ! i)) - 48)) v [0..<length data])"

definition bv_print :: "BitVector \<Rightarrow> string result" where
  "bv_print v = mapE (\<lambda>i. bindE (bv_get v i) (\<lambda>b. Inr (char_of (48 + unat b)))) [0..<mNumBits v]"

section \<open>Bytewise operations\<close>

definition bv_zip :: "(u8 \<Rightarrow> u8 \<Rightarrow> u8) \<Rightarrow> BitVector \<Rightarrow> BitVector \<Rightarrow> BitVector result" where
  "bv_zip f v a =
     guardE (sizeBytes v > length (mData a)) (OutOfRange ''operand'')
       (Inr (v\<lparr> mData := map (\<lambda>i. if i < sizeBytes v then f (mData v ! i) (mData a ! i) else mData v ! i) [0..<length (mData v)] \<rparr>))"

definition bv_and :: "BitVector \<Rightarrow> BitVector \<Rightarrow> BitVector result" where
  "bv_and v a = bv_zip (AND) v a"

definition bv_or :: "BitVector \<Rightarrow> BitVector \<Rightarrow> BitVector result" where
  "bv_or v a = bv_zip (OR) v a"

definition bv_xor :: "BitVector \<Rightarrow> BitVector \<Rightarrow> BitVector result" where
  "bv_xor v a = guardE (mNumBits v \<noteq> mNumBits a) (RuntimeError ''rt error'') (bv_zip (XOR) v a)"

definition bv_not :: "BitVector \<Rightarrow> BitVector" where
  "bv_not v = (let r = BitVector_copy v in
     r\<lparr> mData := map (\<lambda>i. if i < sizeBytes v then NOT (mData v ! i) else mData r ! i) [0..<length (mData r)] \<rparr>)"

text \<open>
  \<open>equals\<close>: the last byte is compared under a mask of the low \<open>mNumBits & 7\<close> bits, which is the
  empty mask when the length is a multiple of eight. Of an empty vector it would compare every
  byte of the address space.
\<close>

definition bv_equals :: "BitVector \<Rightarrow> BitVector \<Rightarrow> bool result" where
  "bv_equals v w =
     (if mNumBits v \<noteq> mNumBits w then Inr False
      else
        guardE (mNumBits v = 0) (OutOfRange ''equals'')
        (let lastByte = sizeBytes v - 1; rem = mNumBits v mod 8; mask = drop_bit (8 - rem) (-1 :: u8)
         in if \<exists>i \<in> set [0..<lastByte]. mData v ! i \<noteq> mData w ! i then Inr False
            else Inr (mData v ! lastByte AND mask = mData w ! lastByte AND mask)))"

text \<open>Each pass of the inner loop clears the lowest set bit.\<close>

function byte_weight :: "u8 \<Rightarrow> nat" where
  "byte_weight b = (if b = 0 then 0 else Suc (byte_weight (b AND (b - 1))))"
  by pat_completeness auto
termination
proof (relation "measure unat")
  fix b :: u8
  assume "b \<noteq> 0"
  then have "0 < unat b" by (simp add: unat_gt_0)
  then have "b - 1 < b" using \<open>b \<noteq> 0\<close> by (simp add: word_less_nat_alt unat_minus_one)
  then have "b AND (b - 1) < b" using word_and_le1 [of b "b - 1"] by (meson le_less_trans)
  then show "(b AND (b - 1), b) \<in> measure unat" by (simp add: word_less_nat_alt)
qed simp

declare byte_weight.simps [simp del]

definition hammingWeight :: "BitVector \<Rightarrow> nat" where
  "hammingWeight v = sum_list (map (\<lambda>i. byte_weight (mData v ! i)) [0..<sizeBytes v])"

definition byte_parity :: "u8 \<Rightarrow> u8" where
  "byte_parity b = foldl (\<lambda>r i. r XOR (drop_bit i b AND 1)) 0 [0..<8]"

definition bv_parity :: "BitVector \<Rightarrow> u8" where
  "bv_parity v =
     (let lastByte = mNumBits v div 8;
          r = foldl (\<lambda>r i. r XOR byte_parity (mData v ! i)) 0 [0..<lastByte]
      in foldl (\<lambda>r i. r XOR (drop_bit i (mData v ! lastByte) AND 1)) r [0..<mNumBits v - lastByte * 8])"


section \<open>The vector is a list of bits\<close>

definition bv_wf :: "BitVector \<Rightarrow> bool" where
  "bv_wf v \<longleftrightarrow> sizeBytes v \<le> length (mData v)"

definition bv_bits :: "BitVector \<Rightarrow> bool list" where
  "bv_bits v = take (mNumBits v) (bits (mData v))"

lemma bv_wf_bits: "bv_wf v \<longleftrightarrow> mNumBits v \<le> 8 * length (mData v)"
  by (auto simp: bv_wf_def sizeBytes_def)

lemma length_bv_bits: "bv_wf v \<Longrightarrow> length (bv_bits v) = mNumBits v"
  by (simp add: bv_bits_def bv_wf_bits)

lemma bv_get_bits: "bv_wf v \<Longrightarrow> i < mNumBits v \<Longrightarrow> bv_get v i = Inr (of_bool (bv_bits v ! i))"
  by (simp add: bv_get_def bv_bits_def nth_bits bv_wf_bits bit_of_def bit_iff_odd_drop_bit and_one_eq odd_iff_mod_2_eq_one of_bool_def)

lemma bits_bit_write:
  assumes "i < 8 * length d"
  shows "bits (bit_write d i n) = (bits d)[i := 0 < n]"
  unfolding bit_write_def Let_def
  by (rule bits_update [OF assms]) (auto simp: bit_simps)

lemma length_bit_write [simp]: "length (bit_write d i n) = length d"
  by (simp add: bit_write_def Let_def)

lemma bv_set_bits:
  assumes "bv_wf v" and "i < mNumBits v"
  shows "\<exists>v'. bv_set v i n = Inr v' \<and> bv_wf v' \<and> mNumBits v' = mNumBits v \<and> bv_bits v' = (bv_bits v)[i := 0 < n]"
  using assms by (simp add: bv_set_def bv_wf_bits bv_bits_def bits_bit_write take_update_swap)

lemma bv_resize_bits:
  assumes "bv_wf v"
  shows "bv_wf (bv_resize v n)" and "mNumBits (bv_resize v n) = n"
    and "take (mNumBits v) (bv_bits (bv_resize v n)) = take n (bv_bits v)"
proof -
  have s: "mNumBits v \<le> 8 * sizeBytes v" "sizeBytes v \<le> length (mData v)" using assms by (simp_all add: bv_wf_def sizeBytes_def)
  show "bv_wf (bv_resize v n)" "mNumBits (bv_resize v n) = n"
    using s by (auto simp: bv_wf_def bv_resize_def sizeBytes_def Let_def)
  show "take (mNumBits v) (bv_bits (bv_resize v n)) = take n (bv_bits v)"
    using s by (auto simp: bv_bits_def bv_resize_def Let_def bits_take min_def)
qed

lemma bv_reset_bits: "bv_wf (bv_reset v n)" "mNumBits (bv_reset v n) = n" "bv_bits (bv_reset v n) = replicate n False"
proof -
  have z: "bits (replicate k 0) = replicate (8 * k) False" for k
    by (intro nth_equalityI) (simp_all add: nth_bits bit_of_def less_mult_imp_div_less)
  have "n \<le> 8 * ((n + 7) div 8)" by simp
  then show "bv_wf (bv_reset v n)" "mNumBits (bv_reset v n) = n" "bv_bits (bv_reset v n) = replicate n False"
    by (auto simp: bv_wf_bits bv_reset_def bv_bits_def Let_def z)
qed

text \<open>A vector that is only extended keeps its bits; the bits behind them are those of the allocation.\<close>

lemma bv_extend_bits:
  assumes "bv_wf v"
  shows "bv_bits (bv_resize v (mNumBits v + n)) = bv_bits v @ drop (mNumBits v) (bv_bits (bv_resize v (mNumBits v + n)))"
  using bv_resize_bits(3) [OF assms, of "mNumBits v + n"] length_bv_bits [OF assms]
  by (metis append_take_drop_id le_add1 take_all)

lemma bv_set_run:
  assumes "bv_wf v" and "a + n \<le> mNumBits v"
  shows "\<exists>v'. foldE (\<lambda>v i. bv_set v (a + i) (f i)) v [0..<n] = Inr v' \<and> bv_wf v' \<and> mNumBits v' = mNumBits v \<and>
    bv_bits v' = take a (bv_bits v) @ map (\<lambda>i. 0 < f i) [0..<n] @ drop (a + n) (bv_bits v)"
  using assms(2)
proof (induction n)
  case (Suc n)
  then obtain v1 where v1: "foldE (\<lambda>v i. bv_set v (a + i) (f i)) v [0..<n] = Inr v1" "bv_wf v1" "mNumBits v1 = mNumBits v"
      "bv_bits v1 = take a (bv_bits v) @ map (\<lambda>i. 0 < f i) [0..<n] @ drop (a + n) (bv_bits v)" by auto
  obtain v2 where v2: "bv_set v1 (a + n) (f n) = Inr v2" "bv_wf v2" "mNumBits v2 = mNumBits v1" "bv_bits v2 = (bv_bits v1)[a + n := 0 < f n]"
    using bv_set_bits [OF v1(2), of "a + n" "f n"] v1(3) Suc.prems by auto
  have l: "length (bv_bits v) = mNumBits v" by (rule length_bv_bits [OF assms(1)])
  then have "drop (a + n) (bv_bits v) = bv_bits v ! (a + n) # drop (a + Suc n) (bv_bits v)"
    using Suc.prems by (simp add: Cons_nth_drop_Suc)
  then have "bv_bits v2 = take a (bv_bits v) @ map (\<lambda>i. 0 < f i) [0..<Suc n] @ drop (a + Suc n) (bv_bits v)"
    using l Suc.prems by (simp add: v2(4) v1(4) list_update_append)
  moreover have "foldE (\<lambda>v i. bv_set v (a + i) (f i)) v [0..<Suc n] = Inr v2" using v1(1) v2(1) by (simp add: foldE_append)
  ultimately show ?case using v1 v2 by auto
qed (use assms length_bv_bits [OF assms(1)] in simp)

section \<open>Operations on the bits\<close>

lemma and_bit_pos: "0 < (b AND push_bit k 1 :: u8) \<longleftrightarrow> bit b k" if "k < 8"
proof -
  define m :: u8 where "m = push_bit k 1"
  have "b AND m = (if bit b k then m else 0)"
    unfolding m_def by (rule bit_word_eqI) (auto simp: bit_simps)
  moreover have "bit m k" unfolding m_def using that by (simp add: bit_simps)
  then have "m \<noteq> 0" by auto
  ultimately show ?thesis unfolding m_def [symmetric] by (simp add: word_neq_0_conv)
qed

text \<open>Appending: the source bits, wherever they start, follow the bits of the vector.\<close>

lemma bv_append_bits:
  assumes wf: "bv_wf v" and src: "offset + len \<le> 8 * length data"
  shows "\<exists>v'. bv_append v data len offset = Inr v' \<and> bv_wf v' \<and> mNumBits v' = mNumBits v + len \<and>
    bv_bits v' = bv_bits v @ take len (drop offset (bits data))"
proof -
  let ?r = "bv_resize v (mNumBits v + len)"
  have r: "bv_wf ?r" "mNumBits ?r = mNumBits v + len" using bv_resize_bits [OF wf] by simp_all
  have keep: "take (mNumBits v) (bv_bits ?r) = bv_bits v" using bv_resize_bits(3) [OF wf, of "mNumBits v + len"] length_bv_bits [OF wf] by simp
  have sb: "take len (drop offset (bits data)) = map (\<lambda>i. bit_of data (offset + i)) [0..<len]"
    using src by (intro nth_equalityI) (simp_all add: nth_bits)
  show ?thesis
  proof (cases "offset mod 8 \<noteq> 0 \<or> mNumBits v mod 8 \<noteq> 0")
    case True
    let ?f = "\<lambda>i. data ! ((offset + i) div 8) AND push_bit ((offset + i) mod 8) 1"
    have f: "0 < ?f i \<longleftrightarrow> bit_of data (offset + i)" for i by (subst and_bit_pos) (simp_all add: bit_of_def)
    obtain v' where v': "foldE (\<lambda>w i. bv_set w (mNumBits v + i) (?f i)) ?r [0..<len] = Inr v'" "bv_wf v'" "mNumBits v' = mNumBits ?r"
        "bv_bits v' = take (mNumBits v) (bv_bits ?r) @ map (\<lambda>i. 0 < ?f i) [0..<len] @ drop (mNumBits v + len) (bv_bits ?r)"
      using bv_set_run [OF r(1), of "mNumBits v" len ?f] r(2) by auto
    have "\<not> (0 < len \<and> (offset + len + 7) div 8 > length data)" using src by auto
    then have "bv_append v data len offset = Inr v'" using True v'(1) unfolding bv_append_def Let_def by (simp add: guardE_def)
    then show ?thesis using v' r keep f sb length_bv_bits [OF r(1)] by simp
  next
    case False
    then obtain q p where q: "mNumBits v = 8 * q" "offset = 8 * p" by (auto elim!: dvdE simp: mod_eq_0_iff_dvd)
    let ?k = "(len + 7) div 8"
    have k: "len \<le> 8 * ?k" "p + ?k \<le> length data" using src q by simp_all
    have "len \<le> 8 * length data - 8 * p" using src q by simp
    have l: "q + ?k \<le> length (mData ?r)" using r q by (simp add: bv_wf_def sizeBytes_def)
    let ?v = "?r\<lparr> mData := patch_at q (slice p ?k data) (mData ?r) \<rparr>"
    have a: "bv_append v data len offset = Inr ?v" using False k(2) by (simp add: bv_append_def Let_def q)
    have "bits (mData ?v) = take (8 * q) (bits (mData ?r)) @ take (8 * ?k) (drop (8 * p) (bits data)) @ drop (8 * (q + ?k)) (bits (mData ?r))"
      using l k(2) by (simp add: patch_at_def slice_def bits_take bits_drop)
    then have "bv_bits ?v = take (8 * q) (bv_bits ?r) @ take len (drop (8 * p) (bits data))"
      using k l r(2) q \<open>len \<le> 8 * length data - 8 * p\<close> by (simp add: bv_bits_def min_def)
    moreover have "length (mData ?v) = length (mData ?r)" using l k(2) by (simp add: patch_at_def slice_def)
    ultimately show ?thesis using a r keep q by (auto simp: bv_wf_bits)
  qed
qed

lemma bv_zip_bits:
  assumes wf: "bv_wf v" "bv_wf a" and n: "mNumBits a = mNumBits v"
    and f: "\<And>x y k. k < 8 \<Longrightarrow> bit (f x y :: u8) k = g (bit x k) (bit y k)"
  shows "\<exists>v'. bv_zip f v a = Inr v' \<and> bv_wf v' \<and> bv_bits v' = map2 g (bv_bits v) (bv_bits a)"
proof -
  have s: "sizeBytes v \<le> length (mData v)" "sizeBytes v \<le> length (mData a)" "sizeBytes a = sizeBytes v"
    using wf n by (simp_all add: bv_wf_def sizeBytes_def)
  let ?d = "map (\<lambda>i. if i < sizeBytes v then f (mData v ! i) (mData a ! i) else mData v ! i) [0..<length (mData v)]"
  have "bits ?d ! i = g (bits (mData v) ! i) (bits (mData a) ! i)" if "i < mNumBits v" for i
  proof -
    have i: "i < 8 * length (mData v)" "i < 8 * length (mData a)" using that wf n by (auto simp: bv_wf_bits)
    have "i div 8 < sizeBytes v" using that by (auto simp: sizeBytes_def)
    then show ?thesis using i s by (simp add: nth_bits bit_of_def f)
  qed
  then have "take (mNumBits v) (bits ?d) = map2 g (bv_bits v) (bv_bits a)"
    using wf n by (intro nth_equalityI) (simp_all add: bv_bits_def bv_wf_bits)
  then show ?thesis using s by (simp add: bv_zip_def guardE_def bv_wf_def bv_bits_def sizeBytes_def)
qed

lemma bv_xor_bits:
  assumes "bv_wf v" "bv_wf a"
  shows "if mNumBits a = mNumBits v then \<exists>v'. bv_xor v a = Inr v' \<and> bv_wf v' \<and> bv_bits v' = map2 (\<noteq>) (bv_bits v) (bv_bits a)
    else bv_xor v a = Inl (RuntimeError ''rt error'')"
proof (cases "mNumBits a = mNumBits v")
  case True
  then show ?thesis using bv_zip_bits [OF assms, of "(XOR)" "(\<noteq>)"] by (simp add: bv_xor_def guardE_def bit_simps)
qed (simp add: bv_xor_def guardE_def)

text \<open>\<open>equals\<close> compares all bits only when the length is not a multiple of eight; otherwise it ignores the last eight.\<close>

lemma bv_equals_bits:
  assumes wf: "bv_wf v" "bv_wf w" and n: "mNumBits w = mNumBits v" "0 < mNumBits v"
  shows "bv_equals v w = Inr (if mNumBits v mod 8 = 0 then take (mNumBits v - 8) (bv_bits v) = take (mNumBits v - 8) (bv_bits w)
     else bv_bits v = bv_bits w)"
proof -
  define q r where "q = sizeBytes v - 1" and "r = mNumBits v mod 8"
  have sq: "sizeBytes v = Suc q" using n(2) by (simp add: q_def sizeBytes_def)
  have len: "q < length (mData v)" "q < length (mData w)" using wf n(1) sq by (simp_all add: bv_wf_def sizeBytes_def)
  have nq: "mNumBits v = (if r = 0 then 8 * q + 8 else 8 * q + r)"
  proof -
    define d where "d = mNumBits v div 8"
    have N: "mNumBits v = 8 * d + r" "r < 8" by (simp_all add: d_def r_def)
    have "(8 * d + r + 7) div 8 = d + (r + 7) div 8" using div_mult_self4 [of 8 d "r + 7"] by (simp add: add.assoc)
    moreover have "(r + 7) div 8 = (if r = 0 then 0 else 1)" using N(2) by (auto simp: div_nat_eqI)
    ultimately have "sizeBytes v = (if r = 0 then d else Suc d)" using N(1) by (simp add: sizeBytes_def)
    then show ?thesis using sq N(1) by (auto split: if_splits)
  qed
  have front: "(\<exists>i \<in> set [0..<q]. mData v ! i \<noteq> mData w ! i) \<longleftrightarrow> take (8 * q) (bits (mData v)) \<noteq> take (8 * q) (bits (mData w))"
  proof -
    have "take q (mData v) = take q (mData w) \<longleftrightarrow> (\<forall>i < q. mData v ! i = mData w ! i)"
      using len by (auto simp: list_eq_iff_nth_eq)
    then show ?thesis using bits_eq_iff [of "take q (mData v)" "take q (mData w)"] by (auto simp: bits_take)
  qed
  show ?thesis
  proof (cases "r = 0")
    case True
    then show ?thesis using nq n front len
      by (auto simp: bv_equals_def Let_def guardE_def bv_bits_def sq r_def [symmetric] q_def [symmetric] sizeBytes_def)
  next
    case False
    have r8: "r < 8" by (simp add: r_def)
    have m: "(mData v ! q AND drop_bit (8 - r) (-1)) = (mData w ! q AND drop_bit (8 - r) (-1)) \<longleftrightarrow>
        (\<forall>k < r. bit (mData v ! q) k = bit (mData w ! q) k)"
    proof -
      have "bit (x AND drop_bit (8 - r) (-1) :: u8) k \<longleftrightarrow> k < r \<and> bit x k" for x k
        using r8 False by (auto simp: bit_simps dest: bit_imp_le_length)
      note b = this
      have "(x AND drop_bit (8 - r) (-1) :: u8) = (y AND drop_bit (8 - r) (-1)) \<longleftrightarrow> (\<forall>k < r. bit x k = bit y k)" for x y
      proof (rule iffI)
        assume e: "(x AND drop_bit (8 - r) (-1) :: u8) = (y AND drop_bit (8 - r) (-1))"
        show "\<forall>k < r. bit x k = bit y k" using b [of x] b [of y] unfolding e by blast
      next
        assume "\<forall>k < r. bit x k = bit y k"
        then show "(x AND drop_bit (8 - r) (-1) :: u8) = (y AND drop_bit (8 - r) (-1))"
          by (intro bit_word_eqI) (simp only: b cong: conj_cong)
      qed
      then show ?thesis .
    qed
    have "bv_bits v = bv_bits w \<longleftrightarrow> take (8 * q) (bits (mData v)) = take (8 * q) (bits (mData w)) \<and>
        (\<forall>k < r. bit (mData v ! q) k = bit (mData w ! q) k)"
    proof -
      have "take (8 * q + r) (bits d) = take (8 * q) (bits d) @ map (bit (d ! q)) [0..<r]" if "q < length d" for d
      proof (rule nth_equalityI)
        fix i assume "i < length (take (8 * q + r) (bits d))"
        then have i: "i < 8 * q + r" by simp
        show "take (8 * q + r) (bits d) ! i = (take (8 * q) (bits d) @ map (bit (d ! q)) [0..<r]) ! i"
        proof (cases "i < 8 * q")
          case False
          then obtain k where "i = 8 * q + k" by (metis le_add_diff_inverse not_less)
          then show ?thesis using i that r8 by (simp add: nth_append nth_bits bit_of_def)
        qed (use that in \<open>simp add: nth_append\<close>)
      qed (use that r8 in simp)
      then show ?thesis using len nq False n(1) by (auto simp: bv_bits_def)
    qed
    then show ?thesis using False front m n sq
      by (auto simp: bv_equals_def Let_def guardE_def r_def [symmetric] q_def [symmetric])
  qed
qed

end
