(* ===== verification/Crypto_Choose.thy ===== *)
theory Crypto_Choose
  imports Crypto_BitVector
begin

text \<open>
  \<open>BitVector::nChoosek\<close> of \<open>cryptoTools/Common/BitVector.cpp\<close>: a random choice of \<open>k\<close> of \<open>n\<close> bits by reservoir
  sampling. The prefix that the sampling starts from is filled byte-wise and then bit-wise from a
  position that is rounded to four and not to eight, so that four bits are missing for half of the
  values of \<open>k\<close>, and the loop does not end for the first four.
\<close>

definition get_u64 :: "PRNG \<Rightarrow> (u64 \<times> PRNG) option" where
  "get_u64 g = map_option (\<lambda>(bs, g). (word_of_nat (le_val bs), g)) (prng_get g 8)"

text \<open>
  The loop that counts \<open>i\<close> down from \<open>k - 1\<close> to \<open>k & ~3\<close>. For \<open>k < 4\<close> the bound is zero and the unsigned
  index goes on below it.
\<close>

definition nck_tail :: "BitVector \<Rightarrow> nat \<Rightarrow> BitVector result" where
  "nck_tail v k =
     (if k < 4 then bindE (foldE (\<lambda>v i. bv_set v i 1) v (rev [0..<k])) (\<lambda>v. bv_set v (2 ^ 64 - 1) 1)
      else foldE (\<lambda>v i. bv_set v i 1) v (rev [k - k mod 4..<k]))"

definition nck_fill :: "BitVector \<Rightarrow> nat \<Rightarrow> nat \<Rightarrow> BitVector result" where
  "nck_fill v n k =
     (let v = bv_reset v n
      in guardE (k div 8 > length (mData v)) (OutOfRange ''memset'')
           (nck_tail (v\<lparr> mData := patch_at 0 (replicate (k div 8) 255) (mData v) \<rparr>) k))"

definition nck_swap :: "BitVector \<Rightarrow> nat \<Rightarrow> nat \<Rightarrow> BitVector result" where
  "nck_swap v j i = bindE (bv_get v j) (\<lambda>b. bindE (bv_set v j 0) (\<lambda>v. bv_set v i b))"

fun nck_loop :: "nat \<Rightarrow> BitVector \<Rightarrow> PRNG \<Rightarrow> nat list \<Rightarrow> (BitVector \<times> PRNG) comp" where
  "nck_loop k v g [] = retC (v, g)"
| "nck_loop k v g (i # is) =
     (case get_u64 g of
        None \<Rightarrow> None
      | Some (r, g) \<Rightarrow>
          let j = unat (r mod word_of_nat i)
          in if j < k then bindC (liftC (nck_swap v j i)) (\<lambda>v. nck_loop k v g is) else nck_loop k v g is)"

definition nChoosek :: "BitVector \<Rightarrow> nat \<Rightarrow> nat \<Rightarrow> PRNG \<Rightarrow> (BitVector \<times> PRNG) comp" where
  "nChoosek v n k g = bindC (liftC (nck_fill v n k)) (\<lambda>v. nck_loop k v g [k..<n])"

section \<open>The prefix\<close>

definition weight :: "bool list \<Rightarrow> nat" where
  "weight bs = length (filter (\<lambda>b. b) bs)"

lemma bv_set_ones:
  assumes "bv_wf v" and "\<forall>i \<in> set is. i < mNumBits v"
  shows "\<exists>v'. foldE (\<lambda>v i. bv_set v i 1) v is = Inr v' \<and> bv_wf v' \<and> mNumBits v' = mNumBits v \<and>
    (\<forall>j < mNumBits v. bv_bits v' ! j \<longleftrightarrow> bv_bits v ! j \<or> j \<in> set is)"
  using assms
proof (induction "is" arbitrary: v)
  case (Cons i "is")
  obtain v1 where v1: "bv_set v i 1 = Inr v1" "bv_wf v1" "mNumBits v1 = mNumBits v" "bv_bits v1 = (bv_bits v)[i := True]"
    using bv_set_bits [OF Cons.prems(1), of i 1] Cons.prems(2) by auto
  obtain v' where v': "foldE (\<lambda>v i. bv_set v i 1) v1 is = Inr v'" "bv_wf v'" "mNumBits v' = mNumBits v1"
      "\<forall>j < mNumBits v1. bv_bits v' ! j \<longleftrightarrow> bv_bits v1 ! j \<or> j \<in> set is"
    using Cons.IH [of v1] v1(2,3) Cons.prems(2) by auto
  have "bv_bits v1 ! j \<longleftrightarrow> bv_bits v ! j \<or> j = i" if "j < mNumBits v" for j
    using that v1(4) Cons.prems length_bv_bits [OF Cons.prems(1)] by (auto simp: nth_list_update)
  then show ?case using v1 v' by auto
qed simp

lemma weight_upt: "weight (map P [0..<n]) = card {i. i < n \<and> P i}"
proof -
  have "weight (map P [0..<n]) = length (filter P [0..<n])" by (simp add: weight_def filter_map comp_def)
  also have "\<dots> = card (set (filter P [0..<n]))" by (rule distinct_card [symmetric]) simp
  also have "set (filter P [0..<n]) = {i. i < n \<and> P i}" by auto
  finally show ?thesis .
qed

lemma nck_fill_bits:
  assumes k: "4 \<le> k" "k \<le> n"
  shows "\<exists>v'. nck_fill v n k = Inr v' \<and> bv_wf v' \<and> mNumBits v' = n \<and>
    (\<forall>j < n. bv_bits v' ! j \<longleftrightarrow> j < 8 * (k div 8) \<or> k - k mod 4 \<le> j \<and> j < k)"
proof -
  define r where "r = bv_reset v n"
  have r: "bv_wf r" "mNumBits r = n" "bv_bits r = replicate n False" using bv_reset_bits by (simp_all add: r_def)
  have d: "k div 8 \<le> length (mData r)" using r(1,2) k(2) by (simp add: bv_wf_bits)
  define f where "f = r\<lparr> mData := patch_at 0 (replicate (k div 8) 255) (mData r) \<rparr>"
  have f: "bv_wf f" "mNumBits f = n" using r d by (simp_all add: f_def bv_wf_bits patch_at_def)
  have "bits (replicate (k div 8) (255 :: u8)) = replicate (8 * (k div 8)) True"
  proof (rule nth_equalityI)
    fix i assume "i < length (bits (replicate (k div 8) (255 :: u8)))"
    then have i: "i < 8 * (k div 8)" by simp
    have e: "(255 :: u8) = - 1" by simp
    have "bit (255 :: u8) (i mod 8)" unfolding e by simp
    then show "bits (replicate (k div 8) (255 :: u8)) ! i = replicate (8 * (k div 8)) True ! i"
      using i by (simp add: nth_bits bit_of_def less_mult_imp_div_less)
  qed simp
  then have b: "bits (mData f) = replicate (8 * (k div 8)) True @ drop (8 * (k div 8)) (bits (mData r))"
    using d by (simp add: f_def patch_at_def bits_drop)
  have fb: "bv_bits f ! j \<longleftrightarrow> j < 8 * (k div 8)" if "j < n" for j
  proof -
    have "bv_bits r ! j = False" using r(3) that by simp
    then show ?thesis using that r(1,2) f(1) by (auto simp: bv_bits_def b nth_append f(2) bv_wf_bits)
  qed
  obtain v' where "foldE (\<lambda>v i. bv_set v i 1) f (rev [k - k mod 4..<k]) = Inr v'" "bv_wf v'" "mNumBits v' = n"
      "\<forall>j < n. bv_bits v' ! j \<longleftrightarrow> bv_bits f ! j \<or> j \<in> set (rev [k - k mod 4..<k])"
    using bv_set_ones [OF f(1), of "rev [k - k mod 4..<k]"] f(2) k(2) by auto
  moreover have "nck_fill v n k = foldE (\<lambda>v i. bv_set v i 1) f (rev [k - k mod 4..<k])"
    using d k(1) by (simp add: nck_fill_def nck_tail_def Let_def flip: r_def f_def)
  ultimately show ?thesis using fb by auto
qed

lemma nck_prefix_card:
  assumes "k \<le> n"
  shows "card {j. j < n \<and> (j < 8 * (k div 8) \<or> k - k mod 4 \<le> j \<and> j < k)} = 8 * (k div 8) + k mod 4"
proof -
  have m: "8 * (k div 8) \<le> k - k mod 4"
  proof -
    have "k mod 8 mod 4 = k mod 4" by (rule mod_mod_cancel) simp
    then have "k mod 4 \<le> k mod 8" using mod_less_eq_dividend [of "k mod 8" 4] by simp
    moreover have "k = 8 * (k div 8) + k mod 8" by simp
    ultimately show ?thesis by linarith
  qed
  have "{j. j < n \<and> (j < 8 * (k div 8) \<or> k - k mod 4 \<le> j \<and> j < k)} = {..<8 * (k div 8)} \<union> {k - k mod 4..<k}"
    using assms m by auto
  moreover have "card ({..<8 * (k div 8)} \<union> {k - k mod 4..<k}) = 8 * (k div 8) + k mod 4"
    using m by (subst card_Un_disjoint) auto
  ultimately show ?thesis by simp
qed

section \<open>The sampling keeps the number of ones\<close>

lemma weight_swap:
  assumes "j < length bs" and "i < length bs" and "j \<noteq> i" and "\<not> bs ! i"
  shows "weight (bs[j := False, i := bs ! j]) = weight bs"
proof -
  have u: "weight (xs[a := x]) + of_bool (xs ! a) = weight xs + of_bool x" if "a < length xs" for xs a x
  proof -
    have "weight xs = weight (take a xs @ xs ! a # drop (Suc a) xs)" using that by (simp flip: id_take_nth_drop)
    then have "weight xs = weight (take a xs) + of_bool (xs ! a) + weight (drop (Suc a) xs)" by (simp add: weight_def)
    moreover have "weight (xs[a := x]) = weight (take a xs) + of_bool x + weight (drop (Suc a) xs)"
      using that by (simp add: upd_conv_take_nth_drop weight_def)
    ultimately show ?thesis by simp
  qed
  show ?thesis using u [of j bs False] u [of i "bs[j := False]" "bs ! j"] assms by (auto split: if_splits)
qed

lemma nck_swap_bits:
  assumes wf: "bv_wf v" and "j < i" and "i < mNumBits v" and "\<not> bv_bits v ! i"
  shows "\<exists>v'. nck_swap v j i = Inr v' \<and> bv_wf v' \<and> mNumBits v' = mNumBits v \<and> weight (bv_bits v') = weight (bv_bits v) \<and>
    (\<forall>m. i < m \<longrightarrow> bv_bits v' ! m = bv_bits v ! m)"
proof -
  have j: "j < mNumBits v" using assms by simp
  obtain v1 where v1: "bv_set v j 0 = Inr v1" "bv_wf v1" "mNumBits v1 = mNumBits v" "bv_bits v1 = (bv_bits v)[j := False]"
    using bv_set_bits [OF wf j, of 0] by auto
  obtain v2 where v2: "bv_set v1 i (of_bool (bv_bits v ! j)) = Inr v2" "bv_wf v2" "mNumBits v2 = mNumBits v1"
      "bv_bits v2 = (bv_bits v1)[i := 0 < (of_bool (bv_bits v ! j) :: u8)]"
    using bv_set_bits [OF v1(2), of i "of_bool (bv_bits v ! j)"] v1(3) assms(3) by auto
  have b: "bv_bits v2 = (bv_bits v)[j := False, i := bv_bits v ! j]" using v2(4) v1(4) by (cases "bv_bits v ! j") simp_all
  have "weight (bv_bits v2) = weight (bv_bits v)"
    unfolding b using length_bv_bits [OF wf] assms by (intro weight_swap) auto
  moreover have "nck_swap v j i = Inr v2" using bv_get_bits [OF wf j] v1(1) v2(1) by (simp add: nck_swap_def)
  ultimately show ?thesis using v1 v2 assms(2) b by auto
qed

lemma get_u64_stream: "at_pos seed pos g \<Longrightarrow> \<exists>r g'. get_u64 g = Some (r, g') \<and> at_pos seed (pos + 8) g'"
  using prng_get_stream [of seed pos g 8] by (auto simp: get_u64_def)

lemma nck_loop_weight:
  assumes "bv_wf v" and "at_pos seed pos g" and "k \<le> a" and "0 < a" and "mNumBits v = n" and "a \<le> n" and "n < 2 ^ 64"
    and "\<forall>m. a \<le> m \<and> m < n \<longrightarrow> \<not> bv_bits v ! m"
  shows "\<exists>v' g'. nck_loop k v g [a..<n] = retC (v', g') \<and> bv_wf v' \<and> mNumBits v' = n \<and> weight (bv_bits v') = weight (bv_bits v)"
  using assms
proof (induction "n - a" arbitrary: a v g pos)
  case 0
  then show ?case by auto
next
  case (Suc d)
  then have upt: "[a..<n] = a # [Suc a..<n]" and a: "a < n" by (simp_all add: upt_conv_Cons)
  obtain r g1 where g1: "get_u64 g = Some (r, g1)" "at_pos seed (pos + 8) g1" using get_u64_stream [OF Suc.prems(2)] by blast
  define j where "j = unat (r mod word_of_nat a)"
  have w: "unat (word_of_nat a :: u64) = a" using a Suc.prems(7) by (simp add: unat_of_nat)
  have "j < a" unfolding j_def unat_mod_distrib w using Suc.prems(4) by simp
  show ?case
  proof (cases "j < k")
    case True
    obtain v1 where v1: "nck_swap v j a = Inr v1" "bv_wf v1" "mNumBits v1 = n" "weight (bv_bits v1) = weight (bv_bits v)"
        "\<forall>m. a < m \<longrightarrow> bv_bits v1 ! m = bv_bits v ! m"
      using nck_swap_bits [OF Suc.prems(1) \<open>j < a\<close>] a Suc.prems(5,8) by auto
    have "\<exists>v' g'. nck_loop k v1 g1 [Suc a..<n] = retC (v', g') \<and> bv_wf v' \<and> mNumBits v' = n \<and> weight (bv_bits v') = weight (bv_bits v1)"
      using Suc.hyps(2) Suc.prems a v1 g1(2) by (intro Suc.hyps(1)) auto
    then show ?thesis using g1(1) True v1 by (simp add: upt Let_def flip: j_def)
  next
    case False
    have "\<exists>v' g'. nck_loop k v g1 [Suc a..<n] = retC (v', g') \<and> bv_wf v' \<and> mNumBits v' = n \<and> weight (bv_bits v') = weight (bv_bits v)"
      using Suc.hyps(2) Suc.prems a g1(2) by (intro Suc.hyps(1)) auto
    then show ?thesis using g1(1) False by (simp add: upt Let_def flip: j_def)
  qed
qed

text \<open>
  The number of ones: right when \<open>k mod 8 < 4\<close>, and four too few otherwise. For \<open>k < 4\<close> the call throws.
\<close>

lemma nChoosek_weight:
  assumes "4 \<le> k" and "k \<le> n" and "n < 2 ^ 64" and "at_pos seed pos g"
  shows "\<exists>v' g'. nChoosek v n k g = retC (v', g') \<and> bv_wf v' \<and> mNumBits v' = n \<and>
    weight (bv_bits v') = (if k mod 8 < 4 then k else k - 4)"
proof -
  obtain u where u: "nck_fill v n k = Inr u" "bv_wf u" "mNumBits u = n"
      "\<forall>j < n. bv_bits u ! j \<longleftrightarrow> j < 8 * (k div 8) \<or> k - k mod 4 \<le> j \<and> j < k"
    using nck_fill_bits [OF assms(1,2)] by blast
  have "bv_bits u = map (\<lambda>j. j < 8 * (k div 8) \<or> k - k mod 4 \<le> j \<and> j < k) [0..<n]"
    using u(3,4) length_bv_bits [OF u(2)] by (intro nth_equalityI) auto
  then have "weight (bv_bits u) = 8 * (k div 8) + k mod 4" by (simp only: weight_upt nck_prefix_card [OF assms(2)])
  also have "\<dots> = (if k mod 8 < 4 then k else k - 4)"
  proof -
    define q r where "q = k div 8" and "r = k mod 8"
    have k: "k = 8 * q + r" "r < 8" by (simp_all add: q_def r_def)
    have "k mod 4 = r mod 4" using mod_mod_cancel [of 4 8 k] by (simp add: r_def)
    moreover have "r mod 4 = (if r < 4 then r else r - 4)" using k(2) by (simp add: mod_if)
    ultimately show ?thesis using k by (simp flip: q_def r_def)
  qed
  finally have w: "weight (bv_bits u) = (if k mod 8 < 4 then k else k - 4)" .
  have "\<exists>v' g'. nck_loop k u g [k..<n] = retC (v', g') \<and> bv_wf v' \<and> mNumBits v' = n \<and> weight (bv_bits v') = weight (bv_bits u)"
    using u assms div_mult_mod_eq [of k 8] by (intro nck_loop_weight [where pos = pos]) auto
  then show ?thesis using u(1) w by (simp add: nChoosek_def)
qed

lemma nChoosek_small_throws:
  assumes "k < 4" and "n < 2 ^ 64"
  shows "\<exists>e. nChoosek v n k g = throwC e"
proof -
  have n: "mNumBits (bv_reset v n) = n" by (rule bv_reset_bits(2))
  have set_n: "bv_set u i b = Inr u' \<Longrightarrow> mNumBits u' = mNumBits u" for u i b u' by (auto simp: bv_set_def guardE_Inr_iff)
  have "foldE (\<lambda>v i. bv_set v i 1) u js = Inr u' \<Longrightarrow> mNumBits u' = mNumBits u" for u u' js
    by (induction js arbitrary: u) (auto simp: bindE_Inr_iff dest!: set_n)
  moreover have "bv_set u (2 ^ 64 - 1) 1 = Inl (RuntimeError ''rt error'')" if "mNumBits u = n" for u
    using that assms(2) by (simp add: bv_set_def guardE_def)
  ultimately have "\<exists>e. nck_tail u k = Inl e" if "mNumBits u = n" for u
    using that assms(1) by (cases "foldE (\<lambda>v i. bv_set v i 1) u (rev [0..<k])") (auto simp: nck_tail_def)
  then have "\<exists>e. nck_fill v n k = Inl e"
    using n assms(1) by (auto simp: nck_fill_def Let_def guardE_def)
  then show ?thesis by (auto simp: nChoosek_def liftC_def throwC_def)
qed

end
