(* ===== verification/Crypto_BitIterator.thy ===== *)
theory Crypto_BitIterator
  imports Crypto_Choose
begin

text \<open>
  The iterators over bits of \<open>cryptoTools/Common/BitIterator.h\<close>, and the operations of \<open>BitVector\<close> that
  build on them, on the generator or on the other operations. An iterator is a position in the
  bytes with a mask and a shift.
\<close>

section \<open>Iterators\<close>

record BitIterator =
  it_byte :: nat
  it_mask :: u8
  it_shift :: nat

definition it_new :: "nat \<Rightarrow> nat \<Rightarrow> BitIterator" where
  "it_new byte shift = \<lparr> it_byte = byte, it_mask = push_bit shift 1, it_shift = shift \<rparr>"

text \<open>Reading and writing through the reference that \<open>operator*\<close> returns.\<close>

definition it_read :: "u8 list \<Rightarrow> BitIterator \<Rightarrow> u8" where
  "it_read d it = drop_bit (it_shift it) (d ! it_byte it AND it_mask it)"

definition it_write :: "u8 list \<Rightarrow> BitIterator \<Rightarrow> u8 \<Rightarrow> u8 list" where
  "it_write d it n =
     (let b = d ! it_byte it in d[it_byte it := (if n > 0 then b OR it_mask it else b AND NOT (it_mask it))])"

definition it_inc :: "BitIterator \<Rightarrow> BitIterator" where
  "it_inc it =
     (let byte = it_byte it + (if it_shift it = 7 then 1 else 0); shift = (it_shift it + 1) mod 8
      in \<lparr> it_byte = byte, it_mask = push_bit shift 1, it_shift = shift \<rparr>)"

text \<open>The mask of the result is made from the shift of the iterator that is added to.\<close>

definition it_plus :: "BitIterator \<Rightarrow> int \<Rightarrow> BitIterator result" where
  "it_plus it v =
     guardE (v < 0) (RuntimeError ''not impl'')
     (let byte = it_byte it + nat v div 8; shift = it_shift it + nat v mod 8;
          byte = (if shift > 7 then byte + 1 else byte)
      in Inr \<lparr> it_byte = byte, it_mask = push_bit (it_shift it) 1, it_shift = shift mod 8 \<rparr>)"

definition it_equal :: "BitIterator \<Rightarrow> BitIterator \<Rightarrow> bool" where
  "it_equal a b \<longleftrightarrow> it_byte a = it_byte b \<and> it_shift a = it_shift b"

definition bv_begin :: "BitVector \<Rightarrow> BitIterator" where
  "bv_begin v = it_new 0 0"

definition bv_end :: "BitVector \<Rightarrow> BitIterator" where
  "bv_end v = it_new (mNumBits v div 8) (mNumBits v mod 8)"

section \<open>Further operations of the bit vector\<close>

definition BitVector_of_string :: "string \<Rightarrow> BitVector result" where
  "BitVector_of_string data = fromString BitVector_empty data"

definition BitVector_of :: "u8 list \<Rightarrow> nat \<Rightarrow> BitVector result" where
  "BitVector_of data len = bv_append BitVector_empty data len 0"

text \<open>The new vector and what is left of the old one.\<close>

definition BitVector_move :: "BitVector \<Rightarrow> BitVector \<times> BitVector" where
  "BitVector_move r = (r, BitVector_empty)"

definition bv_xor_new :: "BitVector \<Rightarrow> BitVector \<Rightarrow> BitVector result" where
  "bv_xor_new v b = bv_xor (BitVector_copy v) b"

definition bv_and_new :: "BitVector \<Rightarrow> BitVector \<Rightarrow> BitVector result" where
  "bv_and_new v b = bv_and (BitVector_copy v) b"

definition bv_or_new :: "BitVector \<Rightarrow> BitVector \<Rightarrow> BitVector result" where
  "bv_or_new v b = bv_or (BitVector_copy v) b"

definition bv_randomize :: "BitVector \<Rightarrow> PRNG \<Rightarrow> (BitVector \<times> PRNG) option" where
  "bv_randomize v g =
     (case prng_get g (sizeBytes v) of None \<Rightarrow> None
      | Some (bs, g) \<Rightarrow> Some (v\<lparr> mData := patch_at 0 bs (mData v) \<rparr>, g))"

definition hex_digit :: "nat \<Rightarrow> char" where
  "hex_digit d = ''0123456789abcdef'' ! d"

definition bv_hex :: "BitVector \<Rightarrow> string" where
  "bv_hex v = concat (map (\<lambda>i. let b = unat (mData v ! i) in [hex_digit (b div 16), hex_digit (b mod 16)]) [0..<sizeBytes v])"

definition bv_ChannelBufferResize :: "BitVector \<Rightarrow> nat \<Rightarrow> BitVector result" where
  "bv_ChannelBufferResize v len = guardE (sizeBytes v \<noteq> len) (InvalidArgument ''asdsdasfaf ;) '') (Inr v)"

section \<open>What an iterator reads\<close>

lemma it_inc_new: "s < 8 \<Longrightarrow> it_inc (it_new b s) = it_new ((8 * b + s + 1) div 8) ((8 * b + s + 1) mod 8)"
proof -
  assume s: "s < 8"
  show ?thesis
  proof (cases "s = 7")
    case True
    then have "8 * b + s + 1 = 8 * Suc b" by simp
    then show ?thesis using True by (simp only: it_inc_def it_new_def) simp
  next
    case False
    then have "(8 * b + s + 1) div 8 = b" "(8 * b + s + 1) mod 8 = s + 1" using s by simp_all
    then show ?thesis using False s by (simp add: it_inc_def it_new_def)
  qed
qed

lemma it_inc_run: "(it_inc ^^ i) (bv_begin v) = it_new (i div 8) (i mod 8)"
proof (induction i)
  case (Suc i)
  have "8 * (i div 8) + i mod 8 = i" by simp
  then show ?case using it_inc_new [of "i mod 8" "i div 8"] Suc by simp
qed (simp add: bv_begin_def)

text \<open>Counting up from \<open>begin\<close> reads the bits in order and meets \<open>end\<close> after the last one.\<close>

lemma it_read_run: "i < mNumBits v \<Longrightarrow> bv_get v i = Inr (it_read (mData v) ((it_inc ^^ i) (bv_begin v)))"
proof -
  assume i: "i < mNumBits v"
  have "drop_bit k b AND 1 = drop_bit k (b AND push_bit k 1)" for k and b :: u8
    by (rule bit_word_eqI) (auto simp: bit_simps dest: bit_imp_le_length)
  then show ?thesis using i by (simp add: bv_get_def it_read_def it_inc_run it_new_def)
qed

lemma it_end_run: "it_equal ((it_inc ^^ i) (bv_begin v)) (bv_end v) \<longleftrightarrow> i = mNumBits v"
  by (simp add: it_inc_run it_equal_def bv_end_def it_new_def) (metis div_mult_mod_eq)

lemma it_write_run: "it_write d ((it_inc ^^ i) (bv_begin v)) n = bit_write d i n"
  by (simp add: it_write_def bit_write_def it_inc_run it_new_def Let_def)

text \<open>Jumping ahead with \<open>+\<close> instead reads zero at every position that is not a multiple of eight.\<close>

lemma it_plus_reads_zero:
  assumes m: "k mod 8 \<noteq> 0"
  shows "\<exists>it. it_plus (bv_begin w) (int k) = Inr it \<and> it_byte it = k div 8 \<and> it_shift it = k mod 8 \<and> it_read d it = 0"
proof -
  let ?it = "\<lparr> it_byte = k div 8, it_mask = 1, it_shift = k mod 8 \<rparr>"
  have "drop_bit j (b AND 1) = 0" if "0 < j" for j and b :: u8
    using that by (intro bit_word_eqI) (auto simp: bit_simps)
  then have "it_read d ?it = 0" using m by (simp add: it_read_def)
  moreover have "it_plus (bv_begin w) (int k) = Inr ?it" using m by (simp add: it_plus_def bv_begin_def it_new_def Let_def)
  ultimately show ?thesis by simp
qed

section \<open>Hexadecimal text\<close>

definition hex_value :: "char \<Rightarrow> nat" where
  "hex_value c = length (takeWhile (\<lambda>x. x \<noteq> c) ''0123456789abcdef'')"

fun unhex :: "string \<Rightarrow> u8 list" where
  "unhex (a # b # s) = word_of_nat (16 * hex_value a + hex_value b) # unhex s"
| "unhex s = []"

lemma hex_value_digit: "d < 16 \<Longrightarrow> hex_value (hex_digit d) = d"
proof -
  have "\<forall>d \<in> set [0..<16]. hex_value (hex_digit d) = d" by code_simp
  then show "d < 16 \<Longrightarrow> ?thesis" by simp
qed

lemma unhex_hex: "bv_wf v \<Longrightarrow> unhex (bv_hex v) = take (sizeBytes v) (mData v)"
proof -
  assume w: "bv_wf v"
  have "unat b < 256" for b :: u8 using unsigned_less [of b] by simp
  then have "unhex (concat (map (\<lambda>b. [hex_digit (unat b div 16), hex_digit (unat b mod 16)]) bs)) = bs" for bs :: "u8 list"
    by (induction bs) (simp_all add: hex_value_digit less_mult_imp_div_less)
  moreover have "map (\<lambda>i. [hex_digit (unat (mData v ! i) div 16), hex_digit (unat (mData v ! i) mod 16)]) [0..<sizeBytes v] =
      map (\<lambda>b. [hex_digit (unat b div 16), hex_digit (unat b mod 16)]) (take (sizeBytes v) (mData v))"
    using w by (intro nth_equalityI) (simp_all add: bv_wf_def)
  ultimately show ?thesis by (simp add: bv_hex_def Let_def)
qed

end
