(* ===== verification/Crypto_Sha1.thy ===== *)
theory Crypto_Sha1
  imports Crypto_Prng Crypto_ByteStream
begin

text \<open>
  The hash and the commitment of \<open>cryptoTools/Crypto/sha1.cpp\<close> and \<open>Commit.h\<close>. The portable rounds,
  unrolled over renamed registers and a schedule of sixteen words, compute the compression
  function of FIPS 180-4. The class around it is modelled with the compression as an argument,
  because the source has an assembly version too, which \<open>cryptoTools/CMakeLists.txt\<close> disables. What it hashes is
  described by a padded message, and that padding does not separate messages.
\<close>

section \<open>The rounds\<close>

text \<open>
  The five registers \<open>a\<close> to \<open>e\<close> are the positions 0 to 4 of a list and stand beside the schedule;
  a macro is given the positions it works on.
\<close>

type_synonym sha_vars = "u32 list \<times> u32 list"

definition ROTL32_sha :: "u32 \<Rightarrow> nat \<Rightarrow> u32" where
  "ROTL32_sha x n = push_bit n x OR drop_bit (32 - n) x"

definition LOADSCHEDULE :: "u8 list \<Rightarrow> nat \<Rightarrow> sha_vars \<Rightarrow> sha_vars" where
  "LOADSCHEDULE blk i v =
     (fst v, (snd v)[i := push_bit 24 (ucast (blk ! (i * 4 + 0))) OR push_bit 16 (ucast (blk ! (i * 4 + 1)))
                          OR push_bit 8 (ucast (blk ! (i * 4 + 2))) OR push_bit 0 (ucast (blk ! (i * 4 + 3)))])"

definition SCHEDULE :: "nat \<Rightarrow> sha_vars \<Rightarrow> sha_vars" where
  "SCHEDULE i v =
     (let s = snd v;
          temp = s ! ((i - 3) mod 16) XOR s ! ((i - 8) mod 16) XOR s ! ((i - 14) mod 16) XOR s ! ((i - 16) mod 16)
      in (fst v, s[i mod 16 := ROTL32_sha temp 1]))"

definition ROUNDTAIL :: "nat \<Rightarrow> nat \<Rightarrow> nat \<Rightarrow> u32 \<Rightarrow> nat \<Rightarrow> u32 \<Rightarrow> sha_vars \<Rightarrow> sha_vars" where
  "ROUNDTAIL a b e f i k v =
     (let r = (fst v)[e := fst v ! e + ROTL32_sha (fst v ! a) 5 + f + k + snd v ! (i mod 16)]
      in (r[b := ROTL32_sha (r ! b) 30], snd v))"

definition ROUND0a :: "u8 list \<Rightarrow> nat \<Rightarrow> nat \<Rightarrow> nat \<Rightarrow> nat \<Rightarrow> nat \<Rightarrow> nat \<Rightarrow> sha_vars \<Rightarrow> sha_vars" where
  "ROUND0a blk a b c d e i v =
     (let v = LOADSCHEDULE blk i v; r = fst v
      in ROUNDTAIL a b e ((r ! b AND r ! c) OR (NOT (r ! b) AND r ! d)) i 0x5A827999 v)"

definition ROUND0b :: "nat \<Rightarrow> nat \<Rightarrow> nat \<Rightarrow> nat \<Rightarrow> nat \<Rightarrow> nat \<Rightarrow> sha_vars \<Rightarrow> sha_vars" where
  "ROUND0b a b c d e i v =
     (let v = SCHEDULE i v; r = fst v
      in ROUNDTAIL a b e ((r ! b AND r ! c) OR (NOT (r ! b) AND r ! d)) i 0x5A827999 v)"

definition ROUND1 :: "nat \<Rightarrow> nat \<Rightarrow> nat \<Rightarrow> nat \<Rightarrow> nat \<Rightarrow> nat \<Rightarrow> sha_vars \<Rightarrow> sha_vars" where
  "ROUND1 a b c d e i v =
     (let v = SCHEDULE i v; r = fst v in ROUNDTAIL a b e (r ! b XOR r ! c XOR r ! d) i 0x6ED9EBA1 v)"

definition ROUND2 :: "nat \<Rightarrow> nat \<Rightarrow> nat \<Rightarrow> nat \<Rightarrow> nat \<Rightarrow> nat \<Rightarrow> sha_vars \<Rightarrow> sha_vars" where
  "ROUND2 a b c d e i v =
     (let v = SCHEDULE i v; r = fst v
      in ROUNDTAIL a b e ((r ! b AND r ! c) XOR (r ! b AND r ! d) XOR (r ! c AND r ! d)) i 0x8F1BBCDC v)"

definition ROUND3 :: "nat \<Rightarrow> nat \<Rightarrow> nat \<Rightarrow> nat \<Rightarrow> nat \<Rightarrow> nat \<Rightarrow> sha_vars \<Rightarrow> sha_vars" where
  "ROUND3 a b c d e i v =
     (let v = SCHEDULE i v; r = fst v in ROUNDTAIL a b e (r ! b XOR r ! c XOR r ! d) i 0xCA62C1D6 v)"

definition sha1_rounds :: "u8 list \<Rightarrow> (sha_vars \<Rightarrow> sha_vars) list" where
  "sha1_rounds blk = [
     ROUND0a blk 0 1 2 3 4 0, ROUND0a blk 4 0 1 2 3 1, ROUND0a blk 3 4 0 1 2 2, ROUND0a blk 2 3 4 0 1 3, ROUND0a blk 1 2 3 4 0 4,
     ROUND0a blk 0 1 2 3 4 5, ROUND0a blk 4 0 1 2 3 6, ROUND0a blk 3 4 0 1 2 7, ROUND0a blk 2 3 4 0 1 8, ROUND0a blk 1 2 3 4 0 9,
     ROUND0a blk 0 1 2 3 4 10, ROUND0a blk 4 0 1 2 3 11, ROUND0a blk 3 4 0 1 2 12, ROUND0a blk 2 3 4 0 1 13, ROUND0a blk 1 2 3 4 0 14,
     ROUND0a blk 0 1 2 3 4 15, ROUND0b 4 0 1 2 3 16, ROUND0b 3 4 0 1 2 17, ROUND0b 2 3 4 0 1 18, ROUND0b 1 2 3 4 0 19,
     ROUND1 0 1 2 3 4 20, ROUND1 4 0 1 2 3 21, ROUND1 3 4 0 1 2 22, ROUND1 2 3 4 0 1 23, ROUND1 1 2 3 4 0 24,
     ROUND1 0 1 2 3 4 25, ROUND1 4 0 1 2 3 26, ROUND1 3 4 0 1 2 27, ROUND1 2 3 4 0 1 28, ROUND1 1 2 3 4 0 29,
     ROUND1 0 1 2 3 4 30, ROUND1 4 0 1 2 3 31, ROUND1 3 4 0 1 2 32, ROUND1 2 3 4 0 1 33, ROUND1 1 2 3 4 0 34,
     ROUND1 0 1 2 3 4 35, ROUND1 4 0 1 2 3 36, ROUND1 3 4 0 1 2 37, ROUND1 2 3 4 0 1 38, ROUND1 1 2 3 4 0 39,
     ROUND2 0 1 2 3 4 40, ROUND2 4 0 1 2 3 41, ROUND2 3 4 0 1 2 42, ROUND2 2 3 4 0 1 43, ROUND2 1 2 3 4 0 44,
     ROUND2 0 1 2 3 4 45, ROUND2 4 0 1 2 3 46, ROUND2 3 4 0 1 2 47, ROUND2 2 3 4 0 1 48, ROUND2 1 2 3 4 0 49,
     ROUND2 0 1 2 3 4 50, ROUND2 4 0 1 2 3 51, ROUND2 3 4 0 1 2 52, ROUND2 2 3 4 0 1 53, ROUND2 1 2 3 4 0 54,
     ROUND2 0 1 2 3 4 55, ROUND2 4 0 1 2 3 56, ROUND2 3 4 0 1 2 57, ROUND2 2 3 4 0 1 58, ROUND2 1 2 3 4 0 59,
     ROUND3 0 1 2 3 4 60, ROUND3 4 0 1 2 3 61, ROUND3 3 4 0 1 2 62, ROUND3 2 3 4 0 1 63, ROUND3 1 2 3 4 0 64,
     ROUND3 0 1 2 3 4 65, ROUND3 4 0 1 2 3 66, ROUND3 3 4 0 1 2 67, ROUND3 2 3 4 0 1 68, ROUND3 1 2 3 4 0 69,
     ROUND3 0 1 2 3 4 70, ROUND3 4 0 1 2 3 71, ROUND3 3 4 0 1 2 72, ROUND3 2 3 4 0 1 73, ROUND3 1 2 3 4 0 74,
     ROUND3 0 1 2 3 4 75, ROUND3 4 0 1 2 3 76, ROUND3 3 4 0 1 2 77, ROUND3 2 3 4 0 1 78, ROUND3 1 2 3 4 0 79]"

text \<open>The schedule is an uninitialised local array; each word is loaded before it is read.\<close>

definition sha1_compress :: "u32 list \<Rightarrow> u8 list \<Rightarrow> u32 list" where
  "sha1_compress state blk =
     (let r = fst (fold (\<lambda>f. f) (sha1_rounds blk) (map (\<lambda>i. state ! i) [0..<5], replicate 16 0))
      in map (\<lambda>i. state ! i + r ! i) [0..<5])"

section \<open>The hash object\<close>

record SHA1 =
  sha_state :: "u32 list"
  sha_buffer :: "u8 list"
  sha_idx :: nat

type_synonym compression = "u32 list \<Rightarrow> u8 list \<Rightarrow> u32 list"

definition SHA1_Reset :: SHA1 where
  "SHA1_Reset = \<lparr> sha_state = replicate 5 0, sha_buffer = replicate 64 0, sha_idx = 0 \<rparr>"

partial_function (option) SHA1_Update :: "compression \<Rightarrow> SHA1 \<Rightarrow> u8 list \<Rightarrow> SHA1 option" where
  "SHA1_Update compress s dataIn =
     (if dataIn = [] then Some s
      else
        let step = min (length dataIn) (64 - sha_idx s);
            s = s\<lparr> sha_buffer := patch_at (sha_idx s) (take step dataIn) (sha_buffer s), sha_idx := sha_idx s + step \<rparr>;
            s = (if sha_idx s = 64 then s\<lparr> sha_state := compress (sha_state s) (sha_buffer s), sha_idx := 0 \<rparr> else s)
        in SHA1_Update compress s (drop step dataIn))"

definition SHA1_Update_block :: "compression \<Rightarrow> SHA1 \<Rightarrow> block \<Rightarrow> SHA1 option" where
  "SHA1_Update_block compress s blk = SHA1_Update compress s (block_bytes blk)"

text \<open>The five words that \<open>memcpy\<close> writes to the output, and the object that is left.\<close>

definition SHA1_Final :: "compression \<Rightarrow> SHA1 \<Rightarrow> u32 list \<times> SHA1" where
  "SHA1_Final compress s =
     (let s = (if sha_idx s \<noteq> 0 then s\<lparr> sha_state := compress (sha_state s) (sha_buffer s) \<rparr> else s);
          s = s\<lparr> sha_idx := 0 \<rparr>
      in (sha_state s, s))"

text \<open>The assignment leaves the fill position of the target as it was.\<close>

definition SHA1_assign :: "SHA1 \<Rightarrow> SHA1 \<Rightarrow> SHA1" where
  "SHA1_assign s src = s\<lparr> sha_state := sha_state src, sha_buffer := sha_buffer src \<rparr>"

section \<open>Commitments\<close>

definition commit_hash :: "compression \<Rightarrow> u8 list \<Rightarrow> u32 list option" where
  "commit_hash compress d =
     map_option (\<lambda>sha. fst (SHA1_Final compress sha)) (SHA1_Update compress SHA1_Reset d)"

definition commit_hash_rand :: "compression \<Rightarrow> u8 list \<Rightarrow> block \<Rightarrow> u32 list option" where
  "commit_hash_rand compress d r =
     (case SHA1_Update compress SHA1_Reset d of None \<Rightarrow> None
      | Some sha \<Rightarrow> map_option (\<lambda>sha. fst (SHA1_Final compress sha)) (SHA1_Update_block compress sha r))"

definition Commit_block :: "compression \<Rightarrow> block \<Rightarrow> u32 list option" where
  "Commit_block compress b = commit_hash compress (block_bytes b)"

text \<open>Each call of \<open>hash\<close> starts a new object and overwrites the buffer.\<close>

definition Commit_array :: "compression \<Rightarrow> block list \<Rightarrow> u32 list option" where
  "Commit_array compress bs =
     (case commit_hash compress (block_bytes (bs ! 0)) of None \<Rightarrow> None
      | Some buff \<Rightarrow> case commit_hash compress (block_bytes (bs ! 1)) of None \<Rightarrow> None
      | Some buff \<Rightarrow> commit_hash compress (block_bytes (bs ! 2)))"

definition Commit_block_prng :: "compression \<Rightarrow> block \<Rightarrow> PRNG \<Rightarrow> (u32 list \<times> PRNG) option" where
  "Commit_block_prng compress b g =
     (case get_block g of None \<Rightarrow> None
      | Some (r, g) \<Rightarrow> map_option (\<lambda>c. (c, g)) (commit_hash_rand compress (block_bytes b) r))"

definition Commit_block_rand :: "compression \<Rightarrow> block \<Rightarrow> block \<Rightarrow> u32 list option" where
  "Commit_block_rand compress b r = commit_hash_rand compress (block_bytes b) r"

text \<open>The bytes that \<open>data()\<close> and \<open>size()\<close> give: the start of the buffer, the number of unread bytes.\<close>

definition stream_input :: "ByteStream \<Rightarrow> u8 list" where
  "stream_input s = take (bs_size s) (bs_data s)"

definition Commit_stream_prng :: "compression \<Rightarrow> ByteStream \<Rightarrow> PRNG \<Rightarrow> (u32 list \<times> PRNG) option" where
  "Commit_stream_prng compress s g =
     (case get_block g of None \<Rightarrow> None
      | Some (r, g) \<Rightarrow> map_option (\<lambda>c. (c, g)) (commit_hash_rand compress (stream_input s) r))"

definition Commit_stream_rand :: "compression \<Rightarrow> ByteStream \<Rightarrow> block \<Rightarrow> u32 list option" where
  "Commit_stream_rand compress s r = commit_hash_rand compress (stream_input s) r"

definition Commit_stream :: "compression \<Rightarrow> ByteStream \<Rightarrow> u32 list option" where
  "Commit_stream compress s = commit_hash compress (stream_input s)"

definition Commit_bytes :: "compression \<Rightarrow> u8 list \<Rightarrow> u32 list option" where
  "Commit_bytes compress d = commit_hash compress d"

definition Commit_equal :: "u32 list \<Rightarrow> u32 list \<Rightarrow> bool" where
  "Commit_equal a b \<longleftrightarrow> foldr (\<lambda>i k. if a ! i \<noteq> b ! i then False else k) [0..<5] True"

section \<open>The compression function of FIPS 180-4\<close>

fun W :: "u8 list \<Rightarrow> nat \<Rightarrow> u32" where
  "W blk t =
     (if t < 16 then word_of_nat (foldl (\<lambda>x b. 256 * x + unat b) 0 [blk ! (t * 4 + 0), blk ! (t * 4 + 1), blk ! (t * 4 + 2), blk ! (t * 4 + 3)])
      else word_rotl 1 (W blk (t - 3) XOR W blk (t - 8) XOR W blk (t - 14) XOR W blk (t - 16)))"

declare W.simps [simp del]

definition fips_f :: "nat \<Rightarrow> u32 \<Rightarrow> u32 \<Rightarrow> u32 \<Rightarrow> u32" where
  "fips_f t x y z =
     (if t < 20 then (x AND y) XOR (NOT x AND z) else if t < 40 then x XOR y XOR z
      else if t < 60 then (x AND y) XOR (x AND z) XOR (y AND z) else x XOR y XOR z)"

definition fips_K :: "nat \<Rightarrow> u32" where
  "fips_K t = (if t < 20 then 0x5A827999 else if t < 40 then 0x6ED9EBA1 else if t < 60 then 0x8F1BBCDC else 0xCA62C1D6)"

fun fips_round :: "u8 list \<Rightarrow> nat \<Rightarrow> u32 \<times> u32 \<times> u32 \<times> u32 \<times> u32 \<Rightarrow> u32 \<times> u32 \<times> u32 \<times> u32 \<times> u32" where
  "fips_round blk t (a, b, c, d, e) =
     (word_rotl 5 a + fips_f t b c d + e + fips_K t + W blk t, a, word_rotl 30 b, c, d)"

definition fips_compress :: "u32 list \<Rightarrow> u8 list \<Rightarrow> u32 list" where
  "fips_compress H blk =
     (case fold (fips_round blk) [0..<80] (H ! 0, H ! 1, H ! 2, H ! 3, H ! 4) of
        (a, b, c, d, e) \<Rightarrow> [H ! 0 + a, H ! 1 + b, H ! 2 + c, H ! 3 + d, H ! 4 + e])"

lemma ROTL32_sha_rotl: "0 < n \<Longrightarrow> n < 32 \<Longrightarrow> ROTL32_sha x n = word_rotl n x"
proof (rule bit_word_eqI)
  fix k assume n: "0 < n" "n < 32" and "k < LENGTH(32)"
  then have k: "k < 32" by simp
  have r: "bit (word_rotl n x) k = bit x ((k + (32 - n)) mod 32)" using k n by (simp add: bit_word_rotl_iff)
  have l: "bit (ROTL32_sha x n) k \<longleftrightarrow> n \<le> k \<and> bit x (k - n) \<or> bit x (32 - n + k)" using k by (simp add: ROTL32_sha_def bit_simps)
  show "bit (ROTL32_sha x n) k \<longleftrightarrow> bit (word_rotl n x) k"
  proof (cases "n \<le> k")
    case True
    then have "(k + (32 - n)) mod 32 = k - n" and "\<not> bit x (32 - n + k)"
      using k n bit_imp_le_length [of x "32 - n + k"] by (auto simp: mod_if)
    then show ?thesis using True l r by simp
  next
    case False
    then have "(k + (32 - n)) mod 32 = 32 - n + k" using n by (auto simp: mod_if)
    then show ?thesis using False l r by simp
  qed
qed

lemma choose_or_xor: "(x AND y) OR (NOT x AND z) = (x AND y) XOR (NOT x AND (z :: u32))"
  by (rule bit_word_eqI) (auto simp: bit_simps)

text \<open>Position of the register that plays role \<open>j\<close> in round \<open>t\<close>.\<close>

definition role :: "nat \<Rightarrow> nat \<Rightarrow> nat" where
  "role t j = (j + 4 * t) mod 5"

definition sha_step :: "u8 list \<Rightarrow> nat \<Rightarrow> sha_vars \<Rightarrow> sha_vars" where
  "sha_step blk t v =
     (let v = (if t < 16 then LOADSCHEDULE blk t v else SCHEDULE t v); r = fst v
      in ROUNDTAIL (role t 0) (role t 1) (role t 4) (fips_f t (r ! role t 1) (r ! role t 2) (r ! role t 3)) t (fips_K t) v)"

lemma sha1_rounds_steps: "sha1_rounds blk = map (sha_step blk) [0..<80]"
proof -
  have u: "[0..<80] = 0 # 1 # [2..<80]" by (simp add: upt_conv_Cons numeral_2_eq_2)
  show ?thesis
    by (simp add: u sha1_rounds_def sha_step_def role_def fun_eq_iff Let_def fips_f_def fips_K_def choose_or_xor
        ROUND0a_def ROUND0b_def ROUND1_def ROUND2_def ROUND3_def)
qed

text \<open>The registers in their roles at round \<open>t\<close>, and the words of the schedule that are still held.\<close>

definition sha_view :: "u32 list \<Rightarrow> nat \<Rightarrow> u32 \<times> u32 \<times> u32 \<times> u32 \<times> u32" where
  "sha_view r t = (r ! role t 0, r ! role t 1, r ! role t 2, r ! role t 3, r ! role t 4)"

definition sched_ok :: "u8 list \<Rightarrow> nat \<Rightarrow> u32 list \<Rightarrow> bool" where
  "sched_ok blk t s \<longleftrightarrow> length s = 16 \<and> (\<forall>k < t. t \<le> k + 16 \<longrightarrow> s ! (k mod 16) = W blk k)"

lemma role_less [simp]: "role t j < 5"
  by (simp add: role_def)

lemma role_Suc:
  "role (Suc t) 0 = role t 4" "role (Suc t) 1 = role t 0" "role (Suc t) 2 = role t 1" "role (Suc t) 3 = role t 2"
  "role (Suc t) 4 = role t 3"
  by (simp_all add: role_def) presburger+

lemma role_eq_iff: "i < 5 \<Longrightarrow> j < 5 \<Longrightarrow> role t i = role t j \<longleftrightarrow> i = j"
proof -
  have e: "role t k = (k + 4 * t mod 5) mod 5" for k by (simp add: role_def mod_add_right_eq)
  have "4 * t mod 5 < 5" by simp
  then show "i < 5 \<Longrightarrow> j < 5 \<Longrightarrow> role t i = role t j \<longleftrightarrow> i = j" unfolding e
    by (auto simp: mod_if [of "_ + _"] split: if_splits)
qed

lemma W_load:
  "t < 16 \<Longrightarrow> W blk t = push_bit 24 (ucast (blk ! (t * 4 + 0))) OR push_bit 16 (ucast (blk ! (t * 4 + 1)))
      OR push_bit 8 (ucast (blk ! (t * 4 + 2))) OR push_bit 0 (ucast (blk ! (t * 4 + 3)))"
proof -
  have h: "\<not> bit x n" if "8 \<le> n" for x :: u8 and n using that by (auto dest: bit_imp_le_length)
  have or4: "push_bit 24 (ucast a) OR push_bit 16 (ucast b) OR push_bit 8 (ucast c) OR push_bit 0 (ucast d) =
      push_bit 24 (ucast a) + (push_bit 16 (ucast b) + (push_bit 8 (ucast c) + (ucast d :: u32)))" for a b c d :: u8
  proof -
    have "push_bit 8 (ucast c) AND (ucast d :: u32) = 0" by (rule bit_word_eqI) (auto simp: bit_simps h)
    moreover have "push_bit 16 (ucast b) AND (push_bit 8 (ucast c) OR (ucast d :: u32)) = 0"
      by (rule bit_word_eqI) (auto simp: bit_simps h)
    moreover have "push_bit 24 (ucast a) AND (push_bit 16 (ucast b) OR push_bit 8 (ucast c) OR (ucast d :: u32)) = 0"
      by (rule bit_word_eqI) (auto simp: bit_simps h)
    ultimately show ?thesis by (simp add: disjunctive_add_eq_or)
  qed
  assume "t < 16"
  then show ?thesis unfolding or4 by (simp add: W.simps [of blk t] push_bit_eq_mult algebra_simps)
qed

lemma sched_step:
  assumes "sched_ok blk t s" and "t < 80"
  shows "sched_ok blk (Suc t) (snd (if t < 16 then LOADSCHEDULE blk t (r, s) else SCHEDULE t (r, s)))"
    and "snd (if t < 16 then LOADSCHEDULE blk t (r, s) else SCHEDULE t (r, s)) ! (t mod 16) = W blk t"
proof -
  let ?s = "snd (if t < 16 then LOADSCHEDULE blk t (r, s) else SCHEDULE t (r, s))"
  have l: "length s = 16" and w: "\<And>k. k < t \<Longrightarrow> t \<le> k + 16 \<Longrightarrow> s ! (k mod 16) = W blk k"
    using assms(1) by (auto simp: sched_ok_def)
  have e: "?s = s[t mod 16 := W blk t]"
  proof (cases "t < 16")
    case False
    then show ?thesis using w [of "t - 3"] w [of "t - 8"] w [of "t - 14"] w [of "t - 16"]
      by (simp add: SCHEDULE_def Let_def ROTL32_sha_rotl W.simps [of blk t])
  qed (simp add: LOADSCHEDULE_def W_load)
  show "?s ! (t mod 16) = W blk t" unfolding e using l by simp
  have "s[t mod 16 := W blk t] ! (k mod 16) = W blk k" if "k < Suc t" "Suc t \<le> k + 16" for k
  proof (cases "k = t")
    case False
    then have "\<not> 16 dvd t - k" using that by (auto dest: dvd_imp_le)
    then have "k mod 16 \<noteq> t mod 16" using that mod_eq_dvd_iff_nat [of k t 16] by auto
    then show ?thesis using w [of k] that False by simp
  qed (use l in simp)
  then show "sched_ok blk (Suc t) ?s" unfolding e using l by (simp add: sched_ok_def)
qed

lemma sha_step_round:
  assumes "sched_ok blk t s" and "t < 80" and "length r = 5"
  shows "length (fst (sha_step blk t (r, s))) = 5 \<and> sched_ok blk (Suc t) (snd (sha_step blk t (r, s))) \<and>
    sha_view (fst (sha_step blk t (r, s))) (Suc t) = fips_round blk t (sha_view r t)"
proof -
  define v where "v = (if t < 16 then LOADSCHEDULE blk t (r, s) else SCHEDULE t (r, s))"
  have v: "fst v = r" "sched_ok blk (Suc t) (snd v)" "snd v ! (t mod 16) = W blk t"
    using sched_step [OF assms(1,2), of r] by (simp_all add: v_def LOADSCHEDULE_def SCHEDULE_def Let_def)
  define x where "x = r ! role t 4 + word_rotl 5 (r ! role t 0) + fips_f t (r ! role t 1) (r ! role t 2) (r ! role t 3)
    + fips_K t + W blk t"
  have s: "sha_step blk t (r, s) = (r[role t 4 := x, role t 1 := word_rotl 30 (r ! role t 1)], snd v)"
    using assms(3) v
    by (simp add: sha_step_def v_def [symmetric] Let_def ROUNDTAIL_def ROTL32_sha_rotl x_def role_eq_iff)
  have "sha_view (r[role t 4 := x, role t 1 := word_rotl 30 (r ! role t 1)]) (Suc t) = fips_round blk t (sha_view r t)"
    unfolding sha_view_def role_Suc using assms(3) by (simp add: role_eq_iff nth_list_update x_def)
  then show ?thesis using v assms(3) by (simp add: s)
qed

lemma sha_steps_fold:
  assumes "length r = 5" and "length s = 16" and "t \<le> 80"
  shows "\<exists>r' s'. fold (\<lambda>f. f) (map (sha_step blk) [0..<t]) (r, s) = (r', s') \<and> length r' = 5 \<and> sched_ok blk t s' \<and>
    sha_view r' t = fold (fips_round blk) [0..<t] (sha_view r 0)"
  using assms(3)
proof (induction t)
  case 0
  then show ?case using assms by (simp add: sched_ok_def)
next
  case (Suc t)
  then obtain r' s' where i: "fold (\<lambda>f. f) (map (sha_step blk) [0..<t]) (r, s) = (r', s')" "length r' = 5" "sched_ok blk t s'"
    "sha_view r' t = fold (fips_round blk) [0..<t] (sha_view r 0)" by auto
  obtain r'' s'' where e: "sha_step blk t (r', s') = (r'', s'')" by fastforce
  then show ?case using sha_step_round [OF i(3) _ i(2)] Suc.prems i by simp
qed

lemma sha1_compress_view:
  assumes "length state = 5"
  shows "sha1_compress state blk = fips_compress state blk"
proof -
  have m: "map (\<lambda>i. state ! i) [0..<5] = state" using assms map_nth [of state] by simp
  obtain r s where f: "fold (\<lambda>f. f) (sha1_rounds blk) (state, replicate 16 0) = (r, s)"
      "sha_view r 80 = fold (fips_round blk) [0..<80] (sha_view state 0)"
    using sha_steps_fold [OF assms, of "replicate 16 0" 80 blk] by (auto simp: sha1_rounds_steps)
  have u: "[0..<5] = [0, 1, 2, 3, 4 :: nat]" by (simp add: upt_rec numeral_eq_Suc)
  have g: "(r ! 0, r ! 1, r ! 2, r ! 3, r ! 4) = fold (fips_round blk) [0..<80] (state ! 0, state ! 1, state ! 2, state ! 3, state ! 4)"
    using f(2) by (simp add: sha_view_def role_def)
  show ?thesis unfolding sha1_compress_def fips_compress_def m f(1) by (simp only: u flip: g) simp
qed

section \<open>The hash of a byte stream\<close>

text \<open>The object after one more byte.\<close>

definition push_byte :: "compression \<Rightarrow> u8 \<Rightarrow> SHA1 \<Rightarrow> SHA1" where
  "push_byte compress b s =
     (let s = s\<lparr> sha_buffer := (sha_buffer s)[sha_idx s := b], sha_idx := Suc (sha_idx s) \<rparr>
      in if sha_idx s = 64 then s\<lparr> sha_state := compress (sha_state s) (sha_buffer s), sha_idx := 0 \<rparr> else s)"

definition sha_wf :: "SHA1 \<Rightarrow> bool" where
  "sha_wf s \<longleftrightarrow> length (sha_buffer s) = 64 \<and> sha_idx s < 64"

lemma sha_wf_Reset: "sha_wf SHA1_Reset"
  by (simp add: sha_wf_def SHA1_Reset_def)

lemma push_byte_wf: "sha_wf s \<Longrightarrow> sha_wf (push_byte compress b s)"
  by (auto simp: sha_wf_def push_byte_def Let_def)

lemma push_bytes_wf: "sha_wf s \<Longrightarrow> sha_wf (fold (push_byte compress) d s)"
  by (induction d arbitrary: s) (simp_all add: push_byte_wf)

lemma SHA1_Final_wf: "sha_wf s \<Longrightarrow> sha_wf (snd (SHA1_Final compress s))"
  by (auto simp: sha_wf_def SHA1_Final_def Let_def)

lemma SHA1_assign_wf: "sha_wf s \<Longrightarrow> sha_wf src \<Longrightarrow> sha_wf (SHA1_assign s src)"
  by (simp add: sha_wf_def SHA1_assign_def)

text \<open>One pass of the loop of \<open>Update\<close>.\<close>

lemma push_bytes_patch:
  assumes "sha_wf s" and "d \<noteq> []" and "sha_idx s + length d \<le> 64"
  shows "fold (push_byte compress) d s =
    (let s = s\<lparr> sha_buffer := patch_at (sha_idx s) d (sha_buffer s), sha_idx := sha_idx s + length d \<rparr>
     in if sha_idx s = 64 then s\<lparr> sha_state := compress (sha_state s) (sha_buffer s), sha_idx := 0 \<rparr> else s)"
  using assms
proof (induction d arbitrary: s)
  case (Cons b d)
  have p: "patch_at (Suc i) ys (xs[i := y]) = patch_at i (y # ys) xs" if "i < length xs" for i y ys and xs :: "u8 list"
    using that by (simp add: patch_at_def take_Suc_conv_app_nth upd_conv_take_nth_drop add.commute)
  show ?case
  proof (cases "d = []")
    case True
    then show ?thesis using Cons.prems by (simp add: push_byte_def Let_def sha_wf_def patch_at_def upd_conv_take_nth_drop)
  next
    case False
    let ?t = "s\<lparr> sha_buffer := (sha_buffer s)[sha_idx s := b], sha_idx := Suc (sha_idx s) \<rparr>"
    have t: "push_byte compress b s = ?t" using False Cons.prems by (cases d) (simp_all add: push_byte_def Let_def)
    have "sha_wf ?t" "Suc (sha_idx s) + length d \<le> 64"
      using False Cons.prems by (cases d; simp add: sha_wf_def)+
    then show ?thesis using Cons.IH [OF _ False, of ?t] Cons.prems by (simp add: t p sha_wf_def Let_def)
  qed
qed simp

lemma SHA1_Update_fold: "sha_wf s \<Longrightarrow> SHA1_Update compress s d = Some (fold (push_byte compress) d s)"
proof (induction "length d" arbitrary: s d rule: less_induct)
  case less
  show ?case
  proof (cases "d = []")
    case True
    then show ?thesis by (simp add: SHA1_Update.simps)
  next
    case False
    define k where "k = min (length d) (64 - sha_idx s)"
    have k: "0 < k" "k \<le> length d" "sha_idx s + k \<le> 64" using False less.prems by (auto simp: k_def sha_wf_def)
    have "SHA1_Update compress s d = SHA1_Update compress (fold (push_byte compress) (take k d) s) (drop k d)"
      using push_bytes_patch [OF less.prems, of "take k d" compress] k False
      by (subst SHA1_Update.simps) (simp add: k_def [symmetric] Let_def)
    also have "\<dots> = Some (fold (push_byte compress) (drop k d) (fold (push_byte compress) (take k d) s))"
      using k by (intro less.hyps push_bytes_wf less.prems) simp
    also have "\<dots> = Some (fold (push_byte compress) (take k d @ drop k d) s)" by (simp only: fold_append comp_apply)
    finally show ?thesis by simp
  qed
qed

text \<open>The object after the message \<open>m\<close>: the buffer keeps the last sixty-four bytes, zero before them.\<close>

definition sha_after :: "compression \<Rightarrow> u8 list \<Rightarrow> SHA1" where
  "sha_after compress m = fold (push_byte compress) m SHA1_Reset"

definition stale :: "u8 list \<Rightarrow> nat \<Rightarrow> u8" where
  "stale m i = (if length m + i < 64 then 0 else m ! (length m + i - 64))"

lemma sha_after_snoc: "sha_after compress (m @ [b]) = push_byte compress b (sha_after compress m)"
  by (simp add: sha_after_def)

lemma sha_after_wf: "sha_wf (sha_after compress m)"
  by (simp add: sha_after_def push_bytes_wf sha_wf_Reset)

lemma sha_after_idx: "sha_idx (sha_after compress m) = length m mod 64"
proof (induction m rule: rev_induct)
  case (snoc b m)
  then show ?case by (auto simp: sha_after_snoc push_byte_def Let_def mod_Suc)
qed (simp add: sha_after_def SHA1_Reset_def)

lemma sha_after_buffer: "i < 64 \<Longrightarrow> sha_buffer (sha_after compress m) ! ((length m + i) mod 64) = stale m i"
proof (induction m arbitrary: i rule: rev_induct)
  case (snoc b m)
  let ?s = "sha_after compress m"
  have b: "sha_buffer (sha_after compress (m @ [b])) = (sha_buffer ?s)[length m mod 64 := b]"
    by (simp add: sha_after_snoc push_byte_def Let_def sha_after_idx)
  have l: "length (sha_buffer ?s) = 64" using sha_after_wf by (simp add: sha_wf_def)
  show ?case
  proof (cases "i = 63")
    case True
    then show ?thesis using l by (simp add: b stale_def nth_append add.commute)
  next
    case False
    then have i: "Suc i < 64" using snoc.prems by simp
    have "\<not> 64 dvd Suc i" using i by (auto dest: dvd_imp_le)
    then have "(length m + Suc i) mod 64 \<noteq> length m mod 64"
      using mod_eq_dvd_iff_nat [of "length m" "length m + Suc i" 64] by auto
    then show ?thesis using snoc.IH [OF i] i l by (auto simp: b stale_def nth_append)
  qed
qed (simp add: sha_after_def SHA1_Reset_def stale_def)

definition sha_digest :: "compression \<Rightarrow> u8 list \<Rightarrow> u32 list" where
  "sha_digest compress m = fst (SHA1_Final compress (sha_after compress m))"

text \<open>A byte that repeats what the buffer already holds does not change the digest of a message that ends inside a block.\<close>

lemma sha_digest_stale:
  assumes "length m mod 64 \<noteq> 0"
  shows "sha_digest compress (m @ [stale m 0]) = sha_digest compress m"
proof -
  let ?s = "sha_after compress m"
  have "(sha_buffer ?s)[sha_idx ?s := stale m 0] = sha_buffer ?s"
    using sha_after_buffer [of 0 compress m] by (simp add: sha_after_idx list_update_same_conv)
      (metis list_update_id)
  then show ?thesis using assms
    by (auto simp: sha_digest_def sha_after_snoc push_byte_def SHA1_Final_def Let_def sha_after_idx)
qed

text \<open>The bytes that fill the last block, and the blocks of a message.\<close>

definition sha_pad :: "u8 list \<Rightarrow> u8 list" where
  "sha_pad m = (if length m mod 64 = 0 then m else m @ map (stale m) [0..<64 - length m mod 64])"

definition blocks64 :: "u8 list \<Rightarrow> u8 list list" where
  "blocks64 m = map (\<lambda>i. slice (64 * i) 64 m) [0..<length m div 64]"

lemma sha_digest_pad_upto:
  "length m mod 64 + k \<le> 64 \<Longrightarrow> length m mod 64 \<noteq> 0 \<Longrightarrow> sha_digest compress (m @ map (stale m) [0..<k]) = sha_digest compress m"
proof (induction k)
  case (Suc k)
  let ?m = "m @ map (stale m) [0..<k]"
  have "(length m + k) mod 64 = (length m mod 64 + k) mod 64" by (simp only: mod_add_left_eq)
  then have "length ?m mod 64 \<noteq> 0" using Suc.prems by simp
  moreover have "stale ?m 0 = stale m k" using Suc.prems by (auto simp: stale_def nth_append)
  ultimately show ?case using sha_digest_stale [of ?m compress] Suc by simp
qed simp

lemma sha_state_blocks:
  "length m = 64 * n \<Longrightarrow> sha_state (sha_after compress m) = fold (\<lambda>b st. compress st b) (blocks64 m) (replicate 5 0)"
proof (induction n arbitrary: m)
  case 0
  then show ?case by (simp add: sha_after_def SHA1_Reset_def blocks64_def)
next
  case (Suc n)
  let ?a = "take (64 * n) m" and ?b = "drop (64 * n) m"
  have l: "length ?a = 64 * n" "length ?b = 64" using Suc.prems by simp_all
  have i: "sha_idx (sha_after compress ?a) = 0" unfolding sha_after_idx l(1) by simp
  have w: "sha_wf (sha_after compress ?a)" by (rule sha_after_wf)
  have "sha_after compress (?a @ ?b) = fold (push_byte compress) ?b (sha_after compress ?a)" by (simp only: sha_after_def fold_append comp_apply)
  also have "sha_state \<dots> = compress (sha_state (sha_after compress ?a)) ?b"
    using push_bytes_patch [OF w, of ?b compress] i l w by (simp add: patch_at_def sha_wf_def Let_def)
  finally have s: "sha_state (sha_after compress m) = compress (sha_state (sha_after compress ?a)) ?b" by simp
  have "blocks64 m = blocks64 ?a @ [?b]" using Suc.prems by (auto simp: blocks64_def slice_def min_def take_drop)
  then show ?case using Suc.IH [OF l(1)] by (simp add: s)
qed

lemma sha_digest_blocks: "sha_digest compress m = fold (\<lambda>b st. compress st b) (blocks64 (sha_pad m)) (replicate 5 0)"
proof -
  have l: "length (sha_pad m) mod 64 = 0"
  proof (cases "length m mod 64 = 0")
    case False
    have "length m mod 64 < 64" by simp
    then have "(length m + (64 - length m mod 64)) mod 64 = (length m mod 64 + (64 - length m mod 64)) mod 64" by (simp only: mod_add_left_eq)
    then show ?thesis using False by (simp add: sha_pad_def)
  qed (simp add: sha_pad_def)
  have d: "sha_digest compress (sha_pad m) = sha_digest compress m"
    using sha_digest_pad_upto [of m "64 - length m mod 64" compress] by (simp add: sha_pad_def)
  have "sha_digest compress (sha_pad m) = sha_state (sha_after compress (sha_pad m))"
    by (simp add: sha_digest_def SHA1_Final_def Let_def sha_after_idx l)
  then show ?thesis using d sha_state_blocks [of "sha_pad m" "length (sha_pad m) div 64" compress] l by auto
qed

section \<open>What a commitment hashes\<close>

lemma commit_hash_digest: "commit_hash compress d = Some (sha_digest compress d)"
  by (simp add: commit_hash_def SHA1_Update_fold sha_wf_Reset sha_digest_def sha_after_def)

lemma commit_hash_rand_digest: "commit_hash_rand compress d r = Some (sha_digest compress (d @ block_bytes r))"
  by (simp add: commit_hash_rand_def SHA1_Update_block_def SHA1_Update_fold sha_wf_Reset push_bytes_wf sha_digest_def sha_after_def)

lemma Commit_array_last: "Commit_array compress [x, y, z] = Commit_block compress z"
  by (simp add: Commit_array_def Commit_block_def commit_hash_digest)

lemma Commit_equal_iff: "length a = 5 \<Longrightarrow> length b = 5 \<Longrightarrow> Commit_equal a b \<longleftrightarrow> a = b"
  by (auto simp: Commit_equal_def upt_rec list_eq_iff_nth_eq less_Suc_eq numeral_eq_Suc)

text \<open>A stream that was read from is committed to by other bytes than the unread ones.\<close>

lemma stream_input_unread: "bs_wf s \<Longrightarrow> bs_get s = 0 \<Longrightarrow> stream_input s = bs_unread s"
  by (simp add: stream_input_def bs_unread_def slice_def bs_size_def)

lemma SHA1_pieces:
  "fold (\<lambda>d r. Option.bind r (\<lambda>s. SHA1_Update compress s d)) ds (Some s) = Some (fold (push_byte compress) (concat ds) s)"
  if "sha_wf s"
  using that by (induction ds arbitrary: s) (simp_all add: SHA1_Update_fold push_bytes_wf)

end
