(* ===== verification/Crypto_Mpsc.thy ===== *)
theory Crypto_Mpsc
  imports PSI_Prelude
begin

text \<open>
  The queue for several producers and one consumer of \<open>cryptoTools/Common/mpsc_queue.h\<close>. Its nodes
  live in a heap of addresses, which the allocator may hand out again after they were freed. The
  producers and the consumer interleave at the accesses to what they share: an enqueue exchanges the
  head and only later links the old head to its node; a dequeue loads the next node, copies its data,
  stores the tail and deletes the old node. Every interleaving is first in, first out, and no
  operation touches a node that is not allocated.
\<close>

section \<open>The operations\<close>

text \<open>
  The first node has no data. \<open>mq_pending\<close> holds the old head and the new node of the producers between
  their two steps, \<open>mq_taking\<close> says how far the consumer is: it knows the next node, the data too, or
  has stored the tail and still has the old node to delete.
\<close>

datatype 'a taking = NotTaking | Loaded nat | Copied nat 'a | Stored nat 'a

record 'a buffer_node =
  nd_data :: "'a option"
  nd_next :: "nat option"

record 'a mpsc_queue =
  mq_heap :: "nat \<rightharpoonup> 'a buffer_node"
  mq_head :: nat
  mq_tail :: nat
  mq_pending :: "(nat \<times> nat) list"
  mq_taking :: "'a taking"

definition mpsc_new :: "nat \<Rightarrow> 'a mpsc_queue" where
  "mpsc_new n = \<lparr> mq_heap = [n \<mapsto> \<lparr> nd_data = None, nd_next = None \<rparr>], mq_head = n, mq_tail = n, mq_pending = [], mq_taking = NotTaking \<rparr>"

text \<open>\<open>enqueue\<close> up to the exchange of the head, for the address \<open>n\<close> of the new node; and its last store.\<close>

definition enqueue_exchange :: "'a mpsc_queue \<Rightarrow> nat \<Rightarrow> 'a \<Rightarrow> 'a mpsc_queue" where
  "enqueue_exchange m n input =
     m\<lparr> mq_heap := (mq_heap m)(n \<mapsto> \<lparr> nd_data = Some input, nd_next = None \<rparr>), mq_head := n,
        mq_pending := mq_pending m @ [(mq_head m, n)] \<rparr>"

definition enqueue_link :: "'a mpsc_queue \<Rightarrow> nat \<Rightarrow> 'a mpsc_queue result" where
  "enqueue_link m k =
     (case mq_pending m ! k of (prev_head, node) \<Rightarrow>
        case mq_heap m prev_head of
          None \<Rightarrow> Inl (Undefined ''prev_head'')
        | Some nd \<Rightarrow> Inr (m\<lparr> mq_heap := (mq_heap m)(prev_head \<mapsto> nd\<lparr> nd_next := Some node \<rparr>),
                              mq_pending := take k (mq_pending m) @ drop (Suc k) (mq_pending m) \<rparr>))"

text \<open>The parts of \<open>dequeue\<close>, and the call when nobody interferes; \<open>None\<close> is the result \<open>false\<close>. Only the consumer writes the tail.\<close>

definition deq_load :: "'a mpsc_queue \<Rightarrow> nat option result" where
  "deq_load m = (case mq_heap m (mq_tail m) of None \<Rightarrow> Inl (Undefined ''tail'') | Some nd \<Rightarrow> Inr (nd_next nd))"

definition deq_copy :: "'a mpsc_queue \<Rightarrow> nat \<Rightarrow> 'a result" where
  "deq_copy m next =
     (case mq_heap m next of
        None \<Rightarrow> Inl (Undefined ''next'')
      | Some nx \<Rightarrow> (case nd_data nx of None \<Rightarrow> Inl (Undefined ''data'') | Some x \<Rightarrow> Inr x))"

definition deq_store :: "'a mpsc_queue \<Rightarrow> nat \<Rightarrow> 'a mpsc_queue" where
  "deq_store m next = m\<lparr> mq_tail := next \<rparr>"

definition deq_delete :: "'a mpsc_queue \<Rightarrow> nat \<Rightarrow> 'a mpsc_queue result" where
  "deq_delete m old =
     (case mq_heap m old of None \<Rightarrow> Inl (Undefined ''delete'') | Some nd \<Rightarrow> Inr (m\<lparr> mq_heap := (mq_heap m)(old := None) \<rparr>))"

definition dequeue :: "'a mpsc_queue \<Rightarrow> ('a option \<times> 'a mpsc_queue) result" where
  "dequeue m =
     bindE (deq_load m) (\<lambda>r. case r of
         None \<Rightarrow> Inr (None, m)
       | Some next \<Rightarrow> bindE (deq_copy m next) (\<lambda>x. bindE (deq_delete (deq_store m next) (mq_tail m)) (\<lambda>m. Inr (Some x, m))))"

text \<open>The destructor takes everything out and deletes the last node; its result is what is left of the heap.\<close>

partial_function (option) mpsc_destroy :: "'a mpsc_queue \<Rightarrow> (nat \<rightharpoonup> 'a buffer_node) result option" where
  "mpsc_destroy m =
     (case dequeue m of
        Inl e \<Rightarrow> Some (Inl e)
      | Inr p \<Rightarrow>
          (case fst p of
             Some x \<Rightarrow> mpsc_destroy (snd p)
           | None \<Rightarrow>
               Some (case mq_heap (snd p) (mq_head (snd p)) of
                       None \<Rightarrow> Inl (Undefined ''front'')
                     | Some nd \<Rightarrow> Inr ((mq_heap (snd p))(mq_head (snd p) := None)))))"

section \<open>Interleavings\<close>

datatype 'a mpsc_event = Exchanged 'a | Linked | Took | Dequeued "'a option"

inductive mpsc_step :: "'a mpsc_queue \<Rightarrow> 'a mpsc_event \<Rightarrow> 'a mpsc_queue result \<Rightarrow> bool" where
  exchange: "mq_heap m n = None \<Longrightarrow> mpsc_step m (Exchanged x) (Inr (enqueue_exchange m n x))"
| link: "k < length (mq_pending m) \<Longrightarrow> mpsc_step m Linked (enqueue_link m k)"
| load_null: "mq_taking m = NotTaking \<Longrightarrow> deq_load m = Inr None \<Longrightarrow> mpsc_step m (Dequeued None) (Inr m)"
| load: "mq_taking m = NotTaking \<Longrightarrow> deq_load m = Inr (Some next) \<Longrightarrow> mpsc_step m Took (Inr (m\<lparr> mq_taking := Loaded next \<rparr>))"
| load_fail: "mq_taking m = NotTaking \<Longrightarrow> deq_load m = Inl e \<Longrightarrow> mpsc_step m Took (Inl e)"
| copy: "mq_taking m = Loaded next \<Longrightarrow> mpsc_step m Took (bindE (deq_copy m next) (\<lambda>x. Inr (m\<lparr> mq_taking := Copied next x \<rparr>)))"
| store: "mq_taking m = Copied next x \<Longrightarrow> mpsc_step m Took (Inr ((deq_store m next)\<lparr> mq_taking := Stored (mq_tail m) x \<rparr>))"
| delete: "mq_taking m = Stored old x \<Longrightarrow>
    mpsc_step m (Dequeued (Some x)) (bindE (deq_delete m old) (\<lambda>m. Inr (m\<lparr> mq_taking := NotTaking \<rparr>)))"

inductive mpsc_runs :: "'a mpsc_queue \<Rightarrow> 'a mpsc_event list \<Rightarrow> 'a mpsc_queue \<Rightarrow> bool" where
  start: "mpsc_runs m [] m"
| more: "mpsc_runs m es m' \<Longrightarrow> mpsc_step m' e (Inr m'') \<Longrightarrow> mpsc_runs m (es @ [e]) m''"

definition put_in :: "'a mpsc_event list \<Rightarrow> 'a list" where
  "put_in es = concat (map (\<lambda>e. case e of Exchanged x \<Rightarrow> [x] | _ \<Rightarrow> []) es)"

definition taken_out :: "'a mpsc_event list \<Rightarrow> 'a list" where
  "taken_out es = concat (map (\<lambda>e. case e of Dequeued (Some x) \<Rightarrow> [x] | _ \<Rightarrow> []) es)"

section \<open>The chain of nodes\<close>

text \<open>
  \<open>ns\<close> are the allocated nodes from the tail, or the node that is still to be deleted, to the head. A
  node is linked to its successor, or the producer that will link it is pending.
\<close>

definition front :: "'a mpsc_queue \<Rightarrow> nat" where
  "front m = (case mq_taking m of Stored old x \<Rightarrow> old | _ \<Rightarrow> mq_tail m)"

lemma front_upd [simp]:
  "front (m\<lparr> mq_heap := h \<rparr>) = front m" "front (m\<lparr> mq_head := k \<rparr>) = front m" "front (m\<lparr> mq_pending := p \<rparr>) = front m"
  by (simp_all add: front_def split: taking.split)

definition chain :: "'a mpsc_queue \<Rightarrow> nat list \<Rightarrow> bool" where
  "chain m ns \<longleftrightarrow> ns \<noteq> [] \<and> distinct ns \<and> dom (mq_heap m) = set ns \<and> hd ns = front m \<and> last ns = mq_head m \<and>
     (\<forall>nd. mq_heap m (last ns) = Some nd \<longrightarrow> nd_next nd = None) \<and>
     (\<forall>i nd. Suc i < length ns \<longrightarrow> mq_heap m (ns ! i) = Some nd \<longrightarrow>
        (if (ns ! i, ns ! Suc i) \<in> set (mq_pending m) then nd_next nd = None else nd_next nd = Some (ns ! Suc i))) \<and>
     distinct (mq_pending m) \<and> (\<forall>(p, n) \<in> set (mq_pending m). \<exists>i. Suc i < length ns \<and> p = ns ! i \<and> n = ns ! Suc i)"

definition holds :: "'a mpsc_queue \<Rightarrow> nat list \<Rightarrow> 'a list \<Rightarrow> bool" where
  "holds m ns q \<longleftrightarrow> map (\<lambda>n. map_option nd_data (mq_heap m n)) (tl ns) = map (\<lambda>x. Some (Some x)) q"

text \<open>What the consumer knows between two of its steps stays true.\<close>

definition second_is :: "'a mpsc_queue \<Rightarrow> nat list \<Rightarrow> nat \<Rightarrow> bool" where
  "second_is m ns nx \<longleftrightarrow> Suc 0 < length ns \<and> ns ! Suc 0 = nx \<and> (ns ! 0, nx) \<notin> set (mq_pending m)"

definition taking_ok :: "'a mpsc_queue \<Rightarrow> nat list \<Rightarrow> 'a list \<Rightarrow> bool" where
  "taking_ok m ns q =
     (case mq_taking m of
        NotTaking \<Rightarrow> True
      | Loaded nx \<Rightarrow> second_is m ns nx
      | Copied nx x \<Rightarrow> second_is m ns nx \<and> q \<noteq> [] \<and> hd q = x
      | Stored old x \<Rightarrow> second_is m ns (mq_tail m) \<and> q \<noteq> [] \<and> hd q = x)"

definition mpsc_rep :: "'a mpsc_queue \<Rightarrow> 'a list \<Rightarrow> bool" where
  "mpsc_rep m q \<longleftrightarrow> (\<exists>ns. chain m ns \<and> holds m ns q \<and> taking_ok m ns q)"

lemma chain_index:
  assumes "chain m ns"
  shows "ns \<noteq> []" "distinct ns" "dom (mq_heap m) = set ns" "ns ! 0 = front m" "last ns = mq_head m" "distinct (mq_pending m)"
    and "mq_heap m (last ns) = Some nd \<Longrightarrow> nd_next nd = None"
    and "Suc i < length ns \<Longrightarrow> mq_heap m (ns ! i) = Some nd \<Longrightarrow>
      nd_next nd = (if (ns ! i, ns ! Suc i) \<in> set (mq_pending m) then None else Some (ns ! Suc i))"
    and "pn \<in> set (mq_pending m) \<Longrightarrow> \<exists>i. Suc i < length ns \<and> pn = (ns ! i, ns ! Suc i)"
  using assms by (auto simp: chain_def hd_conv_nth)

lemma chainI:
  assumes "ns \<noteq> []" "distinct ns" "dom (mq_heap m) = set ns" "ns ! 0 = front m" "last ns = mq_head m" "distinct (mq_pending m)"
    and "\<And>nd. mq_heap m (last ns) = Some nd \<Longrightarrow> nd_next nd = None"
    and "\<And>i nd. Suc i < length ns \<Longrightarrow> mq_heap m (ns ! i) = Some nd \<Longrightarrow>
      nd_next nd = (if (ns ! i, ns ! Suc i) \<in> set (mq_pending m) then None else Some (ns ! Suc i))"
    and "\<And>pn. pn \<in> set (mq_pending m) \<Longrightarrow> \<exists>i. Suc i < length ns \<and> pn = (ns ! i, ns ! Suc i)"
  shows "chain m ns"
proof -
  have "\<forall>(p, n) \<in> set (mq_pending m). \<exists>i. Suc i < length ns \<and> p = ns ! i \<and> n = ns ! Suc i" using assms(9) by fastforce
  then show ?thesis using assms by (simp add: chain_def hd_conv_nth)
qed

lemma exchange_rep:
  assumes "mpsc_rep m q" and "mq_heap m n = None"
  shows "mpsc_rep (enqueue_exchange m n x) (q @ [x])"
proof -
  obtain ns where c: "chain m ns" and h: "holds m ns q" and t: "taking_ok m ns q" using assms(1) by (auto simp: mpsc_rep_def)
  note ci = chain_index [OF c]
  let ?m = "enqueue_exchange m n x"
  have n: "n \<notin> set ns" using assms(2) ci(3) by auto
  have out: "ns ! i \<noteq> n" if "i < length ns" for i using n that by auto
  have "chain ?m (ns @ [n])"
  proof (rule chainI)
    show "distinct (mq_pending ?m)" using ci(6) ci(9) [of "(mq_head m, n)"] out by (auto simp: enqueue_exchange_def)
    fix i nd
    assume i: "Suc i < length (ns @ [n])" and nd: "mq_heap ?m ((ns @ [n]) ! i) = Some nd"
    then have nd': "mq_heap m (ns ! i) = Some nd" using out by (auto simp: enqueue_exchange_def nth_append split: if_splits)
    show "nd_next nd = (if ((ns @ [n]) ! i, (ns @ [n]) ! Suc i) \<in> set (mq_pending ?m) then None else Some ((ns @ [n]) ! Suc i))"
    proof (cases "Suc i < length ns")
      case True
      then show ?thesis using ci(8) [OF True nd'] out [OF True] by (auto simp: enqueue_exchange_def nth_append)
    next
      case False
      then have l: "i < length ns" "Suc i = length ns" using i by simp_all
      then have "i = length ns - 1" by simp
      then have "ns ! i = last ns" using ci(1) by (simp add: last_conv_nth)
      then show ?thesis using l ci(5,7) nd' by (auto simp: enqueue_exchange_def nth_append)
    qed
  next
    fix pn assume "pn \<in> set (mq_pending ?m)"
    then consider "pn \<in> set (mq_pending m)" | "pn = (mq_head m, n)" by (auto simp: enqueue_exchange_def)
    then show "\<exists>i. Suc i < length (ns @ [n]) \<and> pn = ((ns @ [n]) ! i, (ns @ [n]) ! Suc i)"
    proof cases
      case 1
      then obtain i where "Suc i < length ns" "pn = (ns ! i, ns ! Suc i)" using ci(9) by blast
      then show ?thesis by (intro exI [of _ i]) (simp add: nth_append)
    next
      case 2
      then show ?thesis using ci(1,5) by (intro exI [of _ "length ns - 1"]) (auto simp: nth_append last_conv_nth)
    qed
  qed (use ci n in \<open>auto simp: enqueue_exchange_def nth_append\<close>)
  moreover have "holds ?m (ns @ [n]) (q @ [x])"
  proof -
    have "mq_heap ?m k = mq_heap m k" if "k \<in> set (tl ns)" for k
      using that n list.set_sel(2) [OF ci(1)] by (auto simp: enqueue_exchange_def)
    then show ?thesis using h ci(1) by (simp add: holds_def enqueue_exchange_def cong: map_cong)
  qed
  moreover have "taking_ok ?m (ns @ [n]) (q @ [x])"
  proof -
    have "second_is ?m (ns @ [n]) a" if "second_is m ns a" for a
      using that out [of "Suc 0"] ci(1) by (auto simp: second_is_def enqueue_exchange_def nth_append)
    then show ?thesis using t by (auto simp: taking_ok_def enqueue_exchange_def split: taking.split)
  qed
  ultimately show ?thesis unfolding mpsc_rep_def by blast
qed

lemma link_rep:
  assumes "mpsc_rep m q" and k: "k < length (mq_pending m)"
  shows "\<exists>m'. enqueue_link m k = Inr m' \<and> mpsc_rep m' q"
proof -
  obtain ns where c: "chain m ns" and h: "holds m ns q" and t: "taking_ok m ns q" using assms(1) by (auto simp: mpsc_rep_def)
  note ci = chain_index [OF c]
  obtain p n xs ys where pend: "mq_pending m = xs @ (p, n) # ys" "length xs = k"
    using id_take_nth_drop [OF k] k by (metis length_take min.absorb4 surj_pair)
  then obtain i where i: "Suc i < length ns" "p = ns ! i" "n = ns ! Suc i" using ci(9) [of "(p, n)"] by auto
  then have "p \<in> dom (mq_heap m)" using ci(3) by simp
  then obtain nd where nd: "mq_heap m p = Some nd" by blast
  let ?m = "m\<lparr> mq_heap := (mq_heap m)(p \<mapsto> nd\<lparr> nd_next := Some n \<rparr>), mq_pending := xs @ ys \<rparr>"
  have e: "enqueue_link m k = Inr ?m" using pend nd by (simp add: enqueue_link_def nth_append)
  have gone: "(p, n) \<notin> set (xs @ ys)" using ci(6) pend(1) by simp
  have eq: "ns ! j = p \<longleftrightarrow> j = i" if "j < length ns" for j using ci(2) i that by (auto simp: nth_eq_iff_index_eq)
  have lst: "last ns \<noteq> p" using eq [of "length ns - 1"] i(1) ci(1) by (auto simp: last_conv_nth)
  have "chain ?m ns"
  proof (rule chainI)
    show "dom (mq_heap ?m) = set ns" using ci(3) nd by auto
    fix j nd'
    assume j: "Suc j < length ns" and nd': "mq_heap ?m (ns ! j) = Some nd'"
    show "nd_next nd' = (if (ns ! j, ns ! Suc j) \<in> set (mq_pending ?m) then None else Some (ns ! Suc j))"
    proof (cases "j = i")
      case True
      then show ?thesis using nd' gone i by auto
    next
      case False
      then have "ns ! j \<noteq> p" using eq j by simp
      then show ?thesis using ci(8) [OF j] nd' pend(1) by auto
    qed
  qed (use ci lst pend(1) in auto)
  moreover have "map_option nd_data (mq_heap ?m a) = map_option nd_data (mq_heap m a)" for a using nd by simp
  then have "holds ?m ns q" using h unfolding holds_def by (simp only:)
  moreover have "second_is ?m ns a" if "second_is m ns a" for a using that pend(1) by (simp add: second_is_def)
  then have "taking_ok ?m ns q" using t by (auto simp: taking_ok_def split: taking.split)
  ultimately show ?thesis using e unfolding mpsc_rep_def by blast
qed

text \<open>The steps of the consumer.\<close>

lemma load_rep:
  assumes "mpsc_rep m q" and nt: "mq_taking m = NotTaking"
  shows "deq_load m = Inr None \<and> (q \<noteq> [] \<longrightarrow> mq_pending m \<noteq> []) \<or>
    (\<exists>nx. deq_load m = Inr (Some nx) \<and> q \<noteq> [] \<and> mpsc_rep (m\<lparr> mq_taking := Loaded nx \<rparr>) q)"
proof -
  obtain ns where c: "chain m ns" and h: "holds m ns q" using assms(1) by (auto simp: mpsc_rep_def)
  note ci = chain_index [OF c]
  have len: "length (tl ns) = length q" using arg_cong [OF h [unfolded holds_def], of length] by simp
  have f: "ns ! 0 = mq_tail m" using ci(4) nt by (simp add: front_def)
  obtain nd where nd: "mq_heap m (mq_tail m) = Some nd" using ci(1,3) f by (metis domD length_greater_0_conv nth_mem)
  show ?thesis
  proof (cases "nd_next nd")
    case None
    have "mq_pending m \<noteq> []" if "q \<noteq> []"
    proof -
      have "Suc 0 < length ns" using that len by (cases q) auto
      then show ?thesis using ci(8) [of 0 nd] f nd None by (auto split: if_splits)
    qed
    then show ?thesis using nd None by (simp add: deq_load_def)
  next
    case (Some nx)
    have l: "Suc 0 < length ns"
    proof (rule ccontr)
      assume "\<not> Suc 0 < length ns"
      then have "last ns = mq_tail m" using f ci(1) by (cases ns) auto
      then show False using ci(7) [of nd] nd Some by simp
    qed
    have s: "nx = ns ! Suc 0" "(ns ! 0, ns ! Suc 0) \<notin> set (mq_pending m)"
      using ci(8) [OF l, of nd] f nd Some by (auto split: if_splits)
    have "chain (m\<lparr> mq_taking := Loaded nx \<rparr>) ns" using c nt by (simp add: chain_def front_def)
    moreover have "holds (m\<lparr> mq_taking := Loaded nx \<rparr>) ns q" using h by (simp add: holds_def)
    moreover have "taking_ok (m\<lparr> mq_taking := Loaded nx \<rparr>) ns q" using s l by (simp add: taking_ok_def second_is_def)
    ultimately have "mpsc_rep (m\<lparr> mq_taking := Loaded nx \<rparr>) q" unfolding mpsc_rep_def by blast
    moreover have "q \<noteq> []" using l len by auto
    ultimately show ?thesis using nd Some by (simp add: deq_load_def)
  qed
qed

lemma copy_rep:
  assumes "mpsc_rep m q" and "mq_taking m = Loaded nx"
  shows "deq_copy m nx = Inr (hd q) \<and> mpsc_rep (m\<lparr> mq_taking := Copied nx (hd q) \<rparr>) q \<and> q \<noteq> []"
proof -
  obtain ns where c: "chain m ns" and h: "holds m ns q" and t: "second_is m ns nx"
    using assms by (auto simp: mpsc_rep_def taking_ok_def)
  obtain a rest where ns: "ns = a # nx # rest" using t by (cases ns; cases "tl ns") (auto simp: second_is_def)
  then obtain x q' where q: "q = x # q'" using h by (cases q) (simp_all add: holds_def)
  obtain nd where nd: "mq_heap m nx = Some nd" "nd_data nd = Some x" using h ns q by (auto simp: holds_def)
  have "chain (m\<lparr> mq_taking := Copied nx x \<rparr>) ns" using c assms(2) by (simp add: chain_def front_def)
  moreover have "holds (m\<lparr> mq_taking := Copied nx x \<rparr>) ns q" using h by (simp add: holds_def)
  moreover have "taking_ok (m\<lparr> mq_taking := Copied nx x \<rparr>) ns q" using t q by (simp add: taking_ok_def second_is_def)
  ultimately show ?thesis using nd q by (auto simp: deq_copy_def mpsc_rep_def)
qed

lemma store_rep:
  assumes "mpsc_rep m q" and "mq_taking m = Copied nx x"
  shows "mpsc_rep ((deq_store m nx)\<lparr> mq_taking := Stored (mq_tail m) x \<rparr>) q"
proof -
  obtain ns where c: "chain m ns" and h: "holds m ns q" and t: "second_is m ns nx" "q \<noteq> []" "hd q = x"
    using assms by (auto simp: mpsc_rep_def taking_ok_def)
  let ?m = "(deq_store m nx)\<lparr> mq_taking := Stored (mq_tail m) x \<rparr>"
  have "chain ?m ns" using c assms(2) by (simp add: chain_def front_def deq_store_def)
  moreover have "holds ?m ns q" using h by (simp add: holds_def deq_store_def)
  moreover have "taking_ok ?m ns q" using t by (simp add: taking_ok_def second_is_def deq_store_def)
  ultimately show ?thesis unfolding mpsc_rep_def by blast
qed

lemma delete_rep:
  assumes "mpsc_rep m q" and st: "mq_taking m = Stored old x"
  shows "\<exists>m' q'. deq_delete m old = Inr m' \<and> q = x # q' \<and> mpsc_rep (m'\<lparr> mq_taking := NotTaking \<rparr>) q'"
proof -
  obtain ns where c: "chain m ns" and h: "holds m ns q" and t: "second_is m ns (mq_tail m)" "q \<noteq> []" "hd q = x"
    using assms by (auto simp: mpsc_rep_def taking_ok_def)
  note ci = chain_index [OF c]
  obtain q' where q: "q = x # q'" using t(2,3) by (cases q) auto
  have f: "ns ! 0 = old" using ci(4) st by (simp add: front_def)
  obtain nx rest where full: "ns = old # nx # rest" "nx = mq_tail m" using t(1) f by (cases ns; cases "tl ns") (auto simp: second_is_def)
  have s: "(old, nx) \<notin> set (mq_pending m)" using t(1) full by (simp add: second_is_def)
  obtain nd where nd: "mq_heap m old = Some nd" using ci(3) full(1) by (metis domD list.set_intros(1))
  let ?m = "m\<lparr> mq_heap := (mq_heap m)(old := None), mq_taking := NotTaking \<rparr>"
  have out: "old \<notin> set (nx # rest)" using ci(2) full(1) by simp
  have "chain ?m (nx # rest)"
  proof (rule chainI)
    show "dom (mq_heap ?m) = set (nx # rest)" using ci(3) full(1) out by auto
    show "(nx # rest) ! 0 = front ?m" using full(2) by (simp add: front_def)
    show "\<And>nd. mq_heap ?m (last (nx # rest)) = Some nd \<Longrightarrow> nd_next nd = None"
      using ci(7) full(1) by (auto split: if_splits)
    fix j nd'
    assume j: "Suc j < length (nx # rest)" and nd': "mq_heap ?m ((nx # rest) ! j) = Some nd'"
    then show "nd_next nd' = (if ((nx # rest) ! j, (nx # rest) ! Suc j) \<in> set (mq_pending ?m) then None else Some ((nx # rest) ! Suc j))"
      using ci(8) [of "Suc j" nd'] full(1) by (auto split: if_splits)
  next
    fix pn assume pn: "pn \<in> set (mq_pending ?m)"
    then obtain i where i: "Suc i < length ns" "pn = (ns ! i, ns ! Suc i)" using ci(9) [of pn] by auto
    then obtain j where "i = Suc j" using s pn full(1) by (cases i) auto
    then show "\<exists>i. Suc i < length (nx # rest) \<and> pn = ((nx # rest) ! i, (nx # rest) ! Suc i)" using i full(1) by auto
  qed (use ci full(1) in auto)
  moreover have "holds ?m (nx # rest) q'"
  proof -
    have "(mq_heap ?m) k = mq_heap m k" if "k \<in> set rest" for k using that out by auto
    then show ?thesis using h full(1) q by (auto simp: holds_def cong: map_cong)
  qed
  moreover have "taking_ok ?m (nx # rest) q'" by (simp add: taking_ok_def)
  ultimately have "mpsc_rep ?m q'" unfolding mpsc_rep_def by blast
  then show ?thesis using nd q by (simp add: deq_delete_def)
qed

text \<open>A call of \<open>dequeue\<close> that nobody interferes with is these steps.\<close>

lemma dequeue_rep:
  assumes "mpsc_rep m q" and nt: "mq_taking m = NotTaking"
  shows "\<exists>r m'. dequeue m = Inr (r, m') \<and>
    (case r of None \<Rightarrow> m' = m \<and> (q \<noteq> [] \<longrightarrow> mq_pending m \<noteq> [])
     | Some x \<Rightarrow> mq_taking m' = NotTaking \<and> mq_pending m' = mq_pending m \<and> (\<exists>q'. q = x # q' \<and> mpsc_rep m' q'))"
proof -
  consider "deq_load m = Inr None" "q \<noteq> [] \<longrightarrow> mq_pending m \<noteq> []" | nx where "deq_load m = Inr (Some nx)" "mpsc_rep (m\<lparr> mq_taking := Loaded nx \<rparr>) q"
    using load_rep [OF assms] by blast
  then show ?thesis
  proof cases
    case 1
    then show ?thesis by (simp add: dequeue_def)
  next
    case 2
    let ?m1 = "m\<lparr> mq_taking := Loaded nx \<rparr>" and ?m3 = "m\<lparr> mq_tail := nx, mq_taking := Stored (mq_tail m) (hd q) \<rparr>"
    have k: "deq_copy m nx = Inr (hd q)" "mpsc_rep (m\<lparr> mq_taking := Copied nx (hd q) \<rparr>) q"
      using copy_rep [OF 2(2), of nx] by (simp_all add: deq_copy_def)
    have "mpsc_rep ?m3 q" using store_rep [OF k(2), of nx "hd q"] by (simp add: deq_store_def)
    then obtain m' q' where d: "deq_delete ?m3 (mq_tail m) = Inr m'" "q = hd q # q'" "mpsc_rep (m'\<lparr> mq_taking := NotTaking \<rparr>) q'"
      using delete_rep [of ?m3 q "mq_tail m" "hd q"] by auto
    then have "deq_delete (deq_store m nx) (mq_tail m) = Inr (m'\<lparr> mq_taking := NotTaking \<rparr>)" "mq_pending m' = mq_pending m"
      using nt by (auto simp: deq_delete_def deq_store_def split: option.splits)
    then show ?thesis using 2(1) k(1) d(2,3) by (simp add: dequeue_def) blast
  qed
qed

text \<open>With no producer left between its two steps, the destructor ends and frees every node.\<close>

lemma mpsc_rep_Nil:
  assumes "mpsc_rep m []"
  shows "\<exists>nd. mq_heap m = [mq_head m \<mapsto> nd]"
proof -
  obtain ns where c: "chain m ns" and h: "holds m ns []" using assms by (auto simp: mpsc_rep_def)
  have "tl ns = []" using h by (simp add: holds_def)
  then obtain a where "ns = [a]" using chain_index(1) [OF c] by (cases ns) auto
  then have "dom (mq_heap m) = {mq_head m}" using chain_index(3,5) [OF c] by simp
  then show ?thesis by (simp add: dom_eq_singleton_conv)
qed

lemma destroy_frees: "mpsc_rep m q \<Longrightarrow> mq_pending m = [] \<Longrightarrow> mq_taking m = NotTaking \<Longrightarrow> mpsc_destroy m = Some (Inr Map.empty)"
proof (induction q arbitrary: m)
  case Nil
  then have "dequeue m = Inr (None, m)" using dequeue_rep [OF Nil(1,3)] by (auto split: option.splits)
  moreover obtain nd where nd: "mq_heap m = [mq_head m \<mapsto> nd]" using mpsc_rep_Nil [OF Nil(1)] by blast
  then have "mq_heap m (mq_head m) = Some nd" "(mq_heap m)(mq_head m := None) = Map.empty" by (metis map_upd_Some_unfold, metis fun_upd_triv fun_upd_upd)
  ultimately show ?case by (simp add: mpsc_destroy.simps [of m])
next
  case (Cons x q)
  then obtain m' where m': "dequeue m = Inr (Some x, m')" "mpsc_rep m' q" "mq_pending m' = []" "mq_taking m' = NotTaking"
    using dequeue_rep [OF Cons.prems(1,3)] by (auto split: option.splits)
  then have "mpsc_destroy m' = Some (Inr Map.empty)" using Cons.IH by blast
  then show ?case using m'(1) by (simp add: mpsc_destroy.simps [of m])
qed

section \<open>First in, first out\<close>

lemma mpsc_rep_new: "mpsc_rep (mpsc_new n) []"
  unfolding mpsc_rep_def by (rule exI [of _ "[n]"]) (simp add: chain_def holds_def taking_ok_def front_def mpsc_new_def)

lemma mpsc_runs_rep:
  assumes "mpsc_runs m es m'" and "mpsc_rep m []"
  shows "\<exists>q. mpsc_rep m' q \<and> put_in es = taken_out es @ q"
  using assms
proof induction
  case (start m)
  then show ?case by (auto simp: put_in_def taken_out_def)
next
  case (more m es m' e m'')
  then obtain q where q: "mpsc_rep m' q" "put_in es = taken_out es @ q" by blast
  from more.hyps(2) show ?case
  proof cases
    case (exchange n x)
    then show ?thesis using exchange_rep [OF q(1), of n x] q(2) by (auto simp: put_in_def taken_out_def)
  next
    case (link k)
    then show ?thesis using link_rep [OF q(1), of k] q(2) by (auto simp: put_in_def taken_out_def)
  next
    case load_null
    then show ?thesis using q by (auto simp: put_in_def taken_out_def)
  next
    case (load nx)
    then show ?thesis using load_rep [OF q(1)] q(2) by (auto simp: put_in_def taken_out_def)
  next
    case (copy nx)
    then show ?thesis using copy_rep [OF q(1)] q(2) by (auto simp: put_in_def taken_out_def)
  next
    case (store nx x)
    then show ?thesis using store_rep [OF q(1)] q(2) by (auto simp: put_in_def taken_out_def)
  next
    case (delete old x)
    then show ?thesis using delete_rep [OF q(1)] q(2) by (auto simp: put_in_def taken_out_def)
  qed
qed

text \<open>No step fails.\<close>

lemma mpsc_step_safe:
  assumes "mpsc_rep m q" and "mpsc_step m e r"
  shows "\<exists>m'. r = Inr m'"
  using assms(2)
proof cases
  case (link k)
  then show ?thesis using link_rep [OF assms(1)] by blast
next
  case (load_fail err)
  then show ?thesis using load_rep [OF assms(1)] by auto
next
  case (copy nx)
  then show ?thesis using copy_rep [OF assms(1)] by simp
next
  case (delete old x)
  then show ?thesis using delete_rep [OF assms(1)] by auto
qed simp_all

end
