(* ===== verification/Crypto_Properties.thy ===== *)
theory Crypto_Properties
  imports Crypto_BitIterator Crypto_Sha1 Crypto_Defines Crypto_Mpsc
begin

text \<open>
  The properties of the block cipher, the generator, the bit vector, the byte stream, the hash and
  the commitment of \<open>cryptoTools\<close>.
\<close>

section \<open>Appending a bit\<close>

lemma bv_reserve_bits:
  assumes "bv_wf v"
  shows "bv_wf (bv_reserve v n)" and "mNumBits (bv_reserve v n) = mNumBits v"
proof -
  have "length (mData v) \<le> length (mData (bv_resize v n))" using assms by (auto simp: bv_resize_def Let_def bv_wf_def)
  then show "bv_wf (bv_reserve v n)" using assms by (simp add: bv_reserve_def bv_wf_bits)
qed (simp add: bv_reserve_def)

lemma bv_reserve_keeps:
  assumes "bv_wf v"
  shows "bv_bits (bv_reserve v n) = bv_bits v"
proof -
  have "take (mNumBits v) (bits (mData (bv_resize v n))) = bv_bits v"
  proof (cases "length (mData v) < (n + 7) div 8")
    case True
    have "mNumBits v \<le> 8 * sizeBytes v" by (simp add: sizeBytes_def)
    then have "take (mNumBits v) (bits (mData v)) = take (mNumBits v) (take (8 * sizeBytes v) (bits (mData v)))"
      by (simp add: min_def)
    moreover have "bits (take (sizeBytes v) (mData v) @ ys) = take (8 * sizeBytes v) (bits (mData v)) @ bits ys" for ys
      by (simp add: bits_take)
    ultimately show ?thesis using True assms \<open>mNumBits v \<le> 8 * sizeBytes v\<close>
      by (simp add: bv_resize_def Let_def bv_bits_def bv_wf_bits)
  qed (simp add: bv_resize_def Let_def bv_bits_def)
  then show ?thesis by (simp add: bv_reserve_def bv_bits_def)
qed

lemma bv_pushBack_bits:
  assumes wf: "bv_wf v"
  shows "\<exists>v'. bv_pushBack v b = Inr v' \<and> bv_wf v' \<and> bv_bits v' = bv_bits v @ [0 < b]"
proof -
  define u where "u = (if mNumBits v = capacity v then bv_reserve v (mNumBits v * 2) else v)"
  have u: "bv_wf u" "mNumBits u = mNumBits v" "bv_bits u = bv_bits v"
    using wf bv_reserve_bits bv_reserve_keeps by (simp_all add: u_def)
  define r where "r = bv_resize u (mNumBits v + 1)"
  have r: "bv_wf r" "mNumBits r = mNumBits v + 1" "take (mNumBits v) (bv_bits r) = bv_bits v"
    using bv_resize_bits [OF u(1), of "mNumBits v + 1"] u length_bv_bits [OF wf] by (simp_all add: r_def)
  obtain v' where v': "bv_set r (mNumBits v) b = Inr v'" "bv_wf v'" "bv_bits v' = (bv_bits r)[mNumBits v := 0 < b]"
    using bv_set_bits [OF r(1), of "mNumBits v" b] r(2) by auto
  have "length (bv_bits r) = Suc (mNumBits v)" using length_bv_bits [OF r(1)] r(2) by simp
  then have "(bv_bits r)[mNumBits v := 0 < b] = bv_bits v @ [0 < b]"
    using r(3) by (simp add: upd_conv_take_nth_drop)
  moreover have "bv_pushBack v b = bv_set r (mNumBits v) b"
    unfolding bv_pushBack_def Let_def u_def [symmetric] using u(2) r(2) by (simp add: r_def)
  ultimately show ?thesis using v' by simp
qed

section \<open>The cipher\<close>

text \<open>C36: The unrolled encryption routines compute block-wise encryption, although each lane and each
  round of them is a statement of its own: \<open>ecbEncBlocks\<close> with its groups of eight and its remainder,
  the routines for two, four and sixteen blocks, and the counter mode, whose 64-bit index wraps
  around.\<close>

theorem aes_batches:
  "ecbEncBlocks rk ps = map (ecbEncBlock rk) ps \<and>
   ecbEncTwoBlocks rk ps = map (\<lambda>i. ecbEncBlock rk (ps ! i)) [0, 1] \<and>
   ecbEncFourBlocks rk ps = map (\<lambda>i. ecbEncBlock rk (ps ! i)) [0, 1, 2, 3] \<and>
   ecbEnc16Blocks rk ps = map (\<lambda>i. ecbEncBlock rk (ps ! i)) [0, 1, 2, 3, 4, 5, 6, 7, 8, 9, 10, 11, 12, 13, 14, 15] \<and>
   ecbEncCounterMode rk base n = map (\<lambda>i. ecbEncBlock rk (mm_set1_epi64x (base + word_of_nat i))) [0..<n]"
  by (intro conjI ecbEncBlocks_map ecbEncTwoBlocks_lanes ecbEncFourBlocks_lanes ecbEnc16Blocks_lanes ecbEncCounterMode_map)

section \<open>The generator\<close>

text \<open>C37: However the requests are cut, a generator made from a seed, or any generator after
  \<open>SetSeed\<close>, one that was moved from included, answers all of them, with as many bytes as each asks
  for, and the answers in order are the AES key stream of the seed from its start.\<close>

theorem prng_stream:
  assumes "g = PRNG_new seed \<or> g = SetSeed h seed \<and> (mBuffer h = [] \<or> length (mBuffer h) = 64 \<and> mBufferByteCapacity h = 1024)"
  shows "\<exists>bss g'. draws g ns = Some (bss, g') \<and> map length bss = ns \<and> concat bss = map (key_stream seed) [0..<sum_list ns] \<and>
    getSeed g' = seed"
proof -
  have "at_pos seed 0 g" using assms PRNG_new_at_pos SetSeed_at_pos by blast
  from draws_stream [OF this, of ns] show ?thesis by (auto simp: getSeed_def at_pos_def)
qed

theorem prng_stream_witness:
  "\<exists>bss g'. draws (SetSeed (fst (PRNG_move (PRNG_new 7))) 9) [3, 0, 2000, 16] = Some (bss, g') \<and> map length bss = [3, 0, 2000, 16] \<and>
    concat bss = map (key_stream 9) [0..<2019] \<and> getSeed g' = 9"
  using prng_stream [of "SetSeed (fst (PRNG_move (PRNG_new 7))) 9" 9 "fst (PRNG_move (PRNG_new 7))" "[3, 0, 2000, 16]"]
  by (simp add: PRNG_move_def)

section \<open>The bit vector\<close>

text \<open>C38: On vectors whose bytes are allocated, the packed operations are those of a list of bits:
  reading and writing by index with an exception behind the end, appending a vector at any bit
  position, pushing one bit, and the exclusive or, which throws for different lengths. The
  allocation stays large enough.\<close>

theorem bitvector_refines:
  assumes "bv_wf v" and "bv_wf w"
  shows "bv_get v i = (if i < mNumBits v then Inr (of_bool (bv_bits v ! i)) else Inl (RuntimeError ''rt error'')) \<and>
    (if i < mNumBits v then \<exists>v'. bv_set v i b = Inr v' \<and> bv_wf v' \<and> bv_bits v' = (bv_bits v)[i := 0 < b]
     else bv_set v i b = Inl (RuntimeError ''rt error'')) \<and>
    (\<exists>v'. bv_append_vec v w = Inr v' \<and> bv_wf v' \<and> bv_bits v' = bv_bits v @ bv_bits w) \<and>
    (\<exists>v'. bv_pushBack v b = Inr v' \<and> bv_wf v' \<and> bv_bits v' = bv_bits v @ [0 < b]) \<and>
    (if mNumBits w = mNumBits v then \<exists>v'. bv_xor v w = Inr v' \<and> bv_wf v' \<and> bv_bits v' = map2 (\<noteq>) (bv_bits v) (bv_bits w)
     else bv_xor v w = Inl (RuntimeError ''rt error''))"
proof (intro conjI)
  show "bv_get v i = (if i < mNumBits v then Inr (of_bool (bv_bits v ! i)) else Inl (RuntimeError ''rt error''))"
    using bv_get_bits [OF assms(1)] by (simp add: bv_get_def guardE_def)
  show "if i < mNumBits v then \<exists>v'. bv_set v i b = Inr v' \<and> bv_wf v' \<and> bv_bits v' = (bv_bits v)[i := 0 < b]
     else bv_set v i b = Inl (RuntimeError ''rt error'')"
    using bv_set_bits [OF assms(1), of i b] by (auto simp: bv_set_def guardE_def)
  show "\<exists>v'. bv_append_vec v w = Inr v' \<and> bv_wf v' \<and> bv_bits v' = bv_bits v @ bv_bits w"
    using bv_append_bits [OF assms(1), of 0 "mNumBits w" "mData w"] assms(2) by (auto simp: bv_append_vec_def bv_wf_bits bv_bits_def)
qed (use bv_pushBack_bits [OF assms(1)] bv_xor_bits [OF assms] in simp_all)

theorem bitvector_refines_witness:
  "bv_bits \<lparr> mData = [5], mNumBits = 3 \<rparr> = [True, False, True] \<and>
   (\<exists>v'. bv_append_vec \<lparr> mData = [5], mNumBits = 3 \<rparr> \<lparr> mData = [2, 0], mNumBits = 2 \<rparr> = Inr v' \<and> bv_wf v' \<and>
     bv_bits v' = [True, False, True] @ [False, True]) \<and>
   bv_xor \<lparr> mData = [5], mNumBits = 3 \<rparr> \<lparr> mData = [2, 0], mNumBits = 2 \<rparr> = Inl (RuntimeError ''rt error'')"
proof -
  let ?v = "\<lparr> mData = [5], mNumBits = 3 \<rparr>" and ?w = "\<lparr> mData = [2, 0], mNumBits = 2 \<rparr>"
  have wf: "bv_wf ?v" "bv_wf ?w" by (simp_all add: bv_wf_def sizeBytes_def)
  have b: "bv_bits ?v = [True, False, True]" "bv_bits ?w = [False, True]"
    by (simp_all add: bv_bits_def bits_Cons upt_rec [of _ 8])
  show ?thesis using bitvector_refines [OF wf, of 0 0] by (simp add: b)
qed

section \<open>The byte stream, the hash and the commitment\<close>

lemma bs_setp_wf: "bs_wf s \<Longrightarrow> bs_setp s l = Inr t \<Longrightarrow> bs_wf t"
  by (auto simp: bs_setp_def bs_wf_def guardE_Inr_iff)

text \<open>C40: the operations of a byte stream keep its type: the read position stays at or before the
  write position and the write position inside the allocation; resizing never throws. Appending
  adds to the unread bytes at the end, and consuming takes from the front or throws when there are
  too few.\<close>

theorem bytestream_typed:
  assumes "bs_wf s" and "bs_wf os"
  shows "bs_wf (bs_reserve s l) \<and> (\<exists>t. bs_resize s l = Inr t \<and> bs_wf t) \<and> (\<forall>t. bs_setg s l = Inr t \<longrightarrow> bs_wf t) \<and>
    (\<forall>t. bs_setp s l = Inr t \<longrightarrow> bs_wf t) \<and> bs_wf (ByteStream_copy s) \<and> bs_wf (bs_assign s os) \<and> bs_wf (ChannelBufferResize s l) \<and>
    bs_wf (bs_append s x) \<and> bs_unread (bs_append s x) = bs_unread s @ x \<and>
    (case bs_consume s l of Inr (b, t) \<Rightarrow> bs_wf t \<and> bs_unread s = b @ bs_unread t \<and> length b = l | Inl e \<Rightarrow> length (bs_unread s) < l)"
proof -
  note r = bs_reserve_keeps [OF assms(1), of l]
  have "\<exists>t. bs_resize s l = Inr t" using r(2) by (simp add: bs_resize_def bs_setp_def)
  moreover have "bs_wf t" if "bs_resize s l = Inr t" for t using that bs_setp_wf [OF r(1)] by (simp add: bs_resize_def)
  moreover have "bs_wf t" if "bs_setg s l = Inr t" for t using that assms(1) by (auto simp: bs_setg_def bs_wf_def guardE_Inr_iff)
  moreover have "bs_wf (ByteStream_copy s)" "bs_wf (ChannelBufferResize s l)"
    using assms(1) by (auto simp: ByteStream_copy_def ChannelBufferResize_def bs_wf_def)
  moreover have "case bs_consume s l of Inr (b, t) \<Rightarrow> bs_wf t \<and> bs_unread s = b @ bs_unread t \<and> length b = l | Inl e \<Rightarrow> length (bs_unread s) < l"
    using bs_consume_queue [OF assms(1), of l] by simp
  ultimately show ?thesis
    using r(1) bs_setp_wf [OF assms(1)] bs_assign_equal [OF assms(2)] bs_append_queue [OF assms(1)] by blast
qed

theorem bytestream_typed_witness:
  "bs_wf (ByteStream_of [1, 2, 3]) \<and> (case bs_consume (ByteStream_of [1, 2, 3]) 2 of
     Inr (b, t) \<Rightarrow> bs_wf t \<and> bs_unread (ByteStream_of [1, 2, 3]) = b @ bs_unread t \<and> length b = 2
   | Inl e \<Rightarrow> length (bs_unread (ByteStream_of [1, 2, 3])) < 2)"
proof -
  have w: "bs_wf (ByteStream_of [1, 2, 3])" using ByteStream_of_unread by blast
  show ?thesis using bytestream_typed [OF w w, of 2 "[]"] w by blast
qed

text \<open>C17: the eighty unrolled rounds, which rename five registers instead of moving them and keep
  sixteen words of the schedule, compute the compression function of FIPS 180-4.\<close>

theorem sha1_compress_fips:
  assumes "length state = 5"
  shows "sha1_compress state blk = fips_compress state blk"
  using assms by (rule sha1_compress_view)

theorem sha1_compress_fips_witness:
  "length [0x67452301, 0xEFCDAB89, 0x98BADCFE, 0x10325476, 0xC3D2E1F0 :: u32] = 5 \<and>
   sha1_compress [0x67452301, 0xEFCDAB89, 0x98BADCFE, 0x10325476, 0xC3D2E1F0] (replicate 64 0) =
   fips_compress [0x67452301, 0xEFCDAB89, 0x98BADCFE, 0x10325476, 0xC3D2E1F0] (replicate 64 0)"
  using sha1_compress_fips [of "[0x67452301, 0xEFCDAB89, 0x98BADCFE, 0x10325476, 0xC3D2E1F0]" "replicate 64 0"] by simp

text \<open>C18: a message given to \<open>Update\<close> in pieces of any sizes is accepted, and the digest is that of
  the whole message: the chain of the compression function, started from zero words, over the
  message filled up to a multiple of sixty-four bytes with what the buffer held before.\<close>

theorem sha1_stream:
  "\<exists>s. fold (\<lambda>d r. Option.bind r (\<lambda>s. SHA1_Update compress s d)) pieces (Some SHA1_Reset) = Some s \<and>
     fst (SHA1_Final compress s) = fold (\<lambda>b st. compress st b) (blocks64 (sha_pad (concat pieces))) (replicate 5 0)"
  using SHA1_pieces [OF sha_wf_Reset] sha_digest_blocks [of compress "concat pieces"]
  by (simp add: sha_digest_def sha_after_def)

text \<open>C19: commitments do not bind: whatever the compression function, a message that ends inside a
  block and the same message with one more byte (zero in the first block) have the same
  commitment; and the commitment to three blocks depends on the last only.\<close>

theorem commit_not_binding:
  assumes "length m mod 64 \<noteq> 0"
  shows "(\<exists>c. Commit_bytes compress m = Some c \<and>
      Commit_bytes compress (m @ [if length m < 64 then 0 else m ! (length m - 64)]) = Some c) \<and>
    Commit_array compress [x, y, z] = Commit_block compress z"
  using sha_digest_stale [OF assms, of compress] Commit_array_last [of compress x y z]
  by (auto simp: Commit_bytes_def commit_hash_digest stale_def split: if_splits)

theorem commit_not_binding_witness:
  "\<exists>c. Commit_bytes sha1_compress [7] = Some c \<and> Commit_bytes sha1_compress [7, 0] = Some c"
  using commit_not_binding [of "[7]" sha1_compress] by simp

section \<open>The queue of several producers\<close>

text \<open>C39: whatever the interleaving of the producers and the consumer at their accesses to the queue
  and whatever addresses the allocator returns, the values taken out of the queue are the first
  values put in, in the order of the exchanges; no operation touches a node that is not allocated;
  and when nobody is between two steps, a dequeue reports an empty queue exactly when everything was
  taken out, and the destructor ends and leaves no node allocated.\<close>

theorem mpsc_fifo:
  assumes "mpsc_runs (mpsc_new n) es m"
  shows "\<exists>q. put_in es = taken_out es @ q \<and> (\<forall>e r. mpsc_step m e r \<longrightarrow> (\<exists>m'. r = Inr m')) \<and>
    (mq_pending m = [] \<and> mq_taking m = NotTaking \<longrightarrow> (dequeue m = Inr (None, m) \<longleftrightarrow> q = []) \<and> mpsc_destroy m = Some (Inr Map.empty))"
proof -
  obtain q where q: "mpsc_rep m q" "put_in es = taken_out es @ q" using mpsc_runs_rep [OF assms mpsc_rep_new] by blast
  have "dequeue m = Inr (None, m) \<longleftrightarrow> q = []" if "mq_pending m = []" "mq_taking m = NotTaking"
    using dequeue_rep [OF q(1)] that by (auto split: option.splits)
  moreover have "mpsc_destroy m = Some (Inr Map.empty)" if "mq_pending m = []" "mq_taking m = NotTaking"
    using destroy_frees [OF q(1)] that by blast
  ultimately show ?thesis using q(2) mpsc_step_safe [OF q(1)] by blast
qed

theorem mpsc_fifo_witness:
  "\<exists>es m q. mpsc_runs (mpsc_new 0) es m \<and> put_in es = [5 :: nat, 6] \<and> taken_out es = [5] \<and> put_in es = taken_out es @ q"
proof -
  let ?es = "[Exchanged 5, Linked, Took, Exchanged 6, Took, Took, Dequeued (Some (5 :: nat))]"
  define m1 :: "nat mpsc_queue" where "m1 = enqueue_exchange (mpsc_new 0) 1 5"
  note defs = m1_def enqueue_exchange_def mpsc_new_def
  have s1: "mpsc_step (mpsc_new 0) (Exchanged 5) (Inr m1)" unfolding m1_def by (rule mpsc_step.exchange) (simp add: mpsc_new_def)
  obtain m2 where s2: "mpsc_step m1 Linked (Inr m2)" and m2: "enqueue_link m1 0 = Inr m2"
    using mpsc_step.link [of 0 m1] by (auto simp: defs enqueue_link_def)
  define m3 where "m3 = m2\<lparr> mq_taking := Loaded 1 \<rparr>"
  have s3: "mpsc_step m2 Took (Inr m3)" unfolding m3_def
    by (rule mpsc_step.load) (use m2 in \<open>auto simp: defs enqueue_link_def deq_load_def\<close>)
  define m4 where "m4 = enqueue_exchange m3 2 6"
  have s4: "mpsc_step m3 (Exchanged 6) (Inr m4)" unfolding m4_def
    by (rule mpsc_step.exchange) (use m2 in \<open>auto simp: m3_def defs enqueue_link_def\<close>)
  define m5 where "m5 = m4\<lparr> mq_taking := Copied 1 5 \<rparr>"
  have t4: "mq_taking m4 = Loaded 1" "deq_copy m4 1 = Inr 5"
    using m2 by (auto simp: m4_def m3_def defs enqueue_link_def deq_copy_def)
  have s5: "mpsc_step m4 Took (Inr m5)" using mpsc_step.copy [OF t4(1)] t4(2) by (simp add: m5_def)
  define m6 where "m6 = (deq_store m5 1)\<lparr> mq_taking := Stored (mq_tail m5) 5 \<rparr>"
  have s6: "mpsc_step m5 Took (Inr m6)" unfolding m6_def by (rule mpsc_step.store) (simp add: m5_def)
  have t6: "mq_taking m6 = Stored (mq_tail m5) 5" by (simp add: m6_def)
  have "\<exists>m7. deq_delete m6 (mq_tail m5) = Inr m7"
    using m2 by (auto simp: m6_def m5_def m4_def m3_def defs enqueue_link_def deq_delete_def deq_store_def)
  then obtain m7 where s7: "mpsc_step m6 (Dequeued (Some 5)) (Inr m7)" using mpsc_step.delete [OF t6] by auto
  have "mpsc_runs (mpsc_new 0) ((((((([] @ [Exchanged 5]) @ [Linked]) @ [Took]) @ [Exchanged 6]) @ [Took]) @ [Took]) @ [Dequeued (Some 5)]) m7"
    by (intro mpsc_runs.more [OF _ s7] mpsc_runs.more [OF _ s6] mpsc_runs.more [OF _ s5] mpsc_runs.more [OF _ s4]
      mpsc_runs.more [OF _ s3] mpsc_runs.more [OF _ s2] mpsc_runs.more [OF _ s1] mpsc_runs.start)
  then have r: "mpsc_runs (mpsc_new 0) ?es m7" by simp
  have "put_in ?es = [5, 6]" "taken_out ?es = [5]" by (simp_all add: put_in_def taken_out_def)
  then show ?thesis using mpsc_fifo [OF r] r by blast
qed

end
