(* ===== verification/Spec2Isabelle.thy ===== *)
theory Spec2Isabelle
  imports RB_Properties Kem_Properties Kemeleon_Stats Psi_Model Psi_ConnectProperties Net_Properties Crypto_Properties
begin

text \<open>
  PQ-PSI is a two-party private set intersection protocol. Both parties hold a set of 128-bit items.
  The receiver makes one KEM key pair per item, hides each public key in an oblivious key-value
  store (OKVS) under its item, masked and run through a keyed permutation, and sends the table. The
  sender decodes the table at its own items, undoes permutation and mask, encapsulates to what it
  finds, seals the ciphertexts in the same way and sends a table back. The receiver counts the items
  whose decoded ciphertext decapsulates to the tag of its own key. This theory is the root of the
  development; the theories below it follow the source files.

  \<^bold>\<open>Shared layer.\<close> \<open>PSI_Prelude\<close>: integer types of \<open>cryptoTools/Common/Defines.h\<close>, exceptions as the type
  \<open>error\<close> and results \<open>error + 'a\<close> with \<open>bindE\<close>, \<open>guardE\<close>, \<open>foldE\<close> and \<open>mapE\<close>, slices and patches of buffers.
  \<open>Float64\<close>: binary64 rounding, for the parameter fit.

  \<^bold>\<open>OKVS\<close> (\<open>frontend/okvs/rb\<close>). \<open>RB_Params\<close>: \<open>types.h\<close> and \<open>fit.h\<close>; \<open>RB_Parallel\<close>: \<open>RBFor\<close> of \<open>parallel.h\<close>; \<open>RB_Bits\<close>
  and \<open>RB_Rows\<close>: \<open>rows.h\<close>, the 256-bit masks and the hashing to band rows; \<open>RB_Encode\<close> and \<open>RB_Flat\<close>: the
  encoders and decoders of \<open>codec.h\<close> on row tables and on flat buffers. \<open>RB_Correct\<close> shows that a
  table that is returned satisfies the equation of every row, \<open>RB_FlatCorrect\<close> that the flat code
  refines the row code, \<open>RB_Rank\<close> that encoding fails exactly when band rows are linearly dependent.
  \<open>RB_Okvs\<close> states the contract as the locale \<open>okvs\<close> with its three interpretations.

  \<^bold>\<open>KEMs\<close> (\<open>frontend/kem\<close>). \<open>Kem_MlKem\<close>: \<open>MlKem.cpp\<close>; \<open>Kem_Bits\<close>, \<open>Kem_Vec\<close>, \<open>Kemeleon\<close>: \<open>Kemeleon.cpp\<close>, the codec that makes
  ML-KEM keys and ciphertexts look like uniform strings; \<open>Kemeleon_Key\<close> and \<open>Kemeleon_Cipher\<close> hold its
  round trips and the progress of its rejection sampling, \<open>Kemeleon_Stats\<close> the encoder with
  statistics, which encodes the same; \<open>Kem_Ec\<close>: the curve KEM of \<open>eckem\<close>.
  \<open>Kem_Rows\<close>: \<open>protocols/tools/kem_rows.h\<close>. \<open>Kem_RowsCorrect\<close> states the contract \<open>row_kem\<close>, interpreted on both
  KEMs and on the choice between them.

  \<^bold>\<open>Permutations\<close> (\<open>frontend/permutation\<close>). \<open>Perm_Api\<close>: \<open>api.h\<close> and the contract \<open>byte_perm\<close>; \<open>Perm_Cons\<close>: \<open>cons.h\<close> and
  \<open>params.h\<close>; \<open>Perm_Feistel\<close>, \<open>Perm_Hctr\<close> (with \<open>Perm_Polyval\<close>), \<open>Perm_Xoodoo\<close>, \<open>Perm_Sneik\<close>, \<open>Perm_Small\<close>: the headers of the same
  names; \<open>Perm_Config\<close>: \<open>permutation.h\<close> and the parsing of names. \<open>Perm_ConsCorrect\<close> and \<open>Perm_SneikCorrect\<close> hold the
  longer proofs. \<open>byte_perm\<close> is interpreted on the four kinds of permutation objects.

  \<^bold>\<open>Protocol\<close> (\<open>frontend/pqpsi\<close>). \<open>Psi_Bytes\<close> and \<open>Psi_Tools\<close>: \<open>tools/base.h\<close>, \<open>tools/parallel.h\<close>, \<open>tools/mask.h\<close>; \<open>Psi_Net\<close>: \<open>net.h\<close>, where a
  channel is the queue of messages sent and not yet received, each shorter than 2^32 bytes; \<open>Psi_Protocol\<close>: \<open>send.cpp\<close> and \<open>recv.cpp\<close>,
  and the step relation \<open>psi_step\<close> of a session, in which each party computes up to its next blocking
  receive. \<open>Psi_Core\<close> proves once, in a locale that extends \<open>okvs\<close> and \<open>row_kem\<close>, why the receiver finds every
  common item; \<open>Psi_Correct\<close> shows that the two parties compute that; \<open>Psi_Session\<close> that no interleaving
  is stuck; \<open>Psi_Setup\<close> that the entry point of \<open>pqpsi.cpp\<close> gives both parties contexts that fit;
  \<open>Psi_Check\<close>: \<open>check.cpp\<close>. \<open>Psi_Connect\<close>: the connection part of \<open>pqpsi.cpp\<close>, with the two processes and the service
  threads as the step relation \<open>conn_step\<close> and the byte that warms each channel. At most four steps are
  made per channel, so every schedule ends. \<open>Psi_Call\<close>: a whole call of one party in stages that hand on the
  I/O service, with the destructor of the service on every way out. \<open>Psi_Model\<close>: the cost model of \<open>model.h\<close>.

  \<^bold>\<open>cryptoTools.\<close> \<open>Crypto_Aes\<close>: \<open>Crypto/AES.cpp\<close> over a model of the AES-NI instructions; \<open>Crypto_Prng\<close>: \<open>Crypto/PRNG.cpp\<close> and
  \<open>PRNG.h\<close>; \<open>Crypto_BitVector\<close>, \<open>Crypto_Choose\<close> and \<open>Crypto_BitIterator\<close>: \<open>Common/BitVector.cpp\<close> and
  \<open>BitIterator.h\<close>, refining a list of bits; \<open>Crypto_Mpsc\<close>: \<open>Common/mpsc_queue.h\<close>, whose every interleaving is a queue;
  \<open>Crypto_ByteStream\<close>: \<open>Common/ByteStream.cpp\<close>, refining a queue of bytes; \<open>Crypto_Sha1\<close>: \<open>Crypto/sha1.cpp\<close> and \<open>Commit.h\<close>,
  the rounds against FIPS 180-4 and the class as a chain of compressions; \<open>Crypto_Defines\<close>: the free
  functions of \<open>Common/Defines.cpp\<close>. The theories above them take the
  block cipher as an argument; below, the wide-block mode is put on this AES. \<open>Net_Socket\<close>: a channel of
  \<open>Network/BtChannel.cpp\<close> with the queues and handlers of \<open>BtIOService.cpp\<close> over a byte stream of bounded
  capacity, read and written in pieces of any size;
  \<open>Net_SocketCorrect\<close> shows, in the locale \<open>message_channel\<close>, that it implements the queue of \<open>Psi_Net\<close>.
  \<open>Net_Connect\<close>: \<open>BtAcceptor.cpp\<close>, \<open>BtEndpoint.cpp\<close> and the life cycle of \<open>BtIOService\<close>; \<open>Net_ConnectCorrect\<close> shows, in the
  locale \<open>meeting_point\<close>, that a client and a host channel find each other in either order.

  \<^bold>\<open>Properties\<close> are in \<open>RB_Properties\<close>, \<open>Kem_Properties\<close>, \<open>Perm_Properties\<close>, \<open>Psi_Properties\<close>, \<open>Psi_ConnectProperties\<close>,
  \<open>Net_Properties\<close> and \<open>Crypto_Properties\<close>, each with a concrete application where it has hypotheses.

  \<^bold>\<open>Parameters and hypotheses.\<close> mlkem-native, GMP, libsodium, monocypher, KeccakTools, SHAKE256 and
  \<open>std::log2\<close> are arguments, and so are the answers of the operating system to bind, connect and receive
  and, for the hash object, the compression function (the build uses the portable one, \<open>sha1_compress\<close>);
  what is assumed of them is named (\<open>gmp_ok\<close>, \<open>ec_dh\<close>, \<open>aes_inverse\<close>, \<open>shake_ok\<close> and the
  like) and is their documented behaviour. The number of hardware threads is an argument.

  \<^bold>\<open>Loops and fuel.\<close> All loops over data are structural or have a measure. The attempts at a key are
  bounded by the constant of the code. The ciphertext encoder, the generator and the construction of
  test sets may run for ever on an unfair source; their progress is proved under a named fairness.

  \<^bold>\<open>Sizes.\<close> Sizes and indices are natural numbers where the code cannot wrap. This leaves out: a margin
  \<open>lambda\<close> of \<open>2 ^ 63\<close> or more in \<open>bestStep\<close> (the default is 128), a byte count of \<open>consume\<close> that no buffer has,
  and conversions from \<open>double\<close> in \<open>RBNeedW\<close>, \<open>RBSize\<close> and \<open>RBTableSize\<close> of values that do not fit 64 bits.

  \<^bold>\<open>Not modelled.\<close> The loss of connections, the collection of timing statistics and traces, benchmarks, unit tests and the
  command line, volePSI and the other vendored code, the curve wrapper and the views of cryptoTools.
  Data races in the C++ sense are outside the model: worker threads are interleaved at the level of
  one iteration, the lock-free queue under sequential consistency, and the handshake reads the header and the names of a connection in one piece each.
  Security (indistinguishability) is not stated.
\<close>

section \<open>The wide-block mode on the AES of the repository\<close>

lemma hctr_ni_usable: "hctr_usable (Hctr_new hctr_aes_ni party)"
  by (simp add: hctr_usable_def Hctr_new_def aes_inverse_ni)

text \<open>C35: The classes \<open>AES\<close> and \<open>AESDec\<close> undo each other under every key, and so the permutation
  object \<open>hctr2\<close> that is built on them is a permutation of the rows of 800 bytes for both parties:
  neither operation throws, and each undoes the other.\<close>

theorem hctr_over_aes:
  assumes "length row = kKemBytes"
  shows "ecbDecBlock (AESDec_setKey key) (ecbEncBlock (AES_setKey key) b) = b \<and>
    ecbEncBlock (AES_setKey key) (ecbDecBlock (AESDec_setKey key) b) = b \<and>
    (\<exists>out. Hctr_encryptBytes (Hctr_new hctr_aes_ni party) row = Inr out \<and> length out = kKemBytes \<and>
       Hctr_decryptBytes (Hctr_new hctr_aes_ni party) out = Inr row) \<and>
    (\<exists>out. Hctr_decryptBytes (Hctr_new hctr_aes_ni party) row = Inr out \<and> length out = kKemBytes \<and>
       Hctr_encryptBytes (Hctr_new hctr_aes_ni party) out = Inr row)"
  using hctr.enc_ok [OF hctr_ni_usable assms] hctr.dec_ok [OF hctr_ni_usable assms]
  by (simp add: ecbDec_ecbEnc ecbEnc_ecbDec)

theorem hctr_over_aes_witness:
  "ecbDecBlock (AESDec_setKey 7) (ecbEncBlock (AES_setKey 7) 9) = 9 \<and>
   (\<exists>out. Hctr_encryptBytes (Hctr_new hctr_aes_ni 1) (replicate 800 5) = Inr out \<and>
      Hctr_decryptBytes (Hctr_new hctr_aes_ni 1) out = Inr (replicate 800 5))"
proof -
  have "length (replicate 800 (5 :: u8)) = kKemBytes" by (simp add: row_consts)
  from hctr_over_aes [OF this, of 7 9 1] show ?thesis by blast
qed

section \<open>The buffers a channel receives into\<close>

text \<open>What \<open>Net_Socket\<close> says of resizing a buffer is what the two classes of buffers do.\<close>

lemma resize_ByteStream: "chl_resize Growing len = Inr (bs_size (ChannelBufferResize s len))"
  by (simp add: ChannelBufferResize_def bs_size_def Let_def)

lemma resize_BitVector: "chl_resize (Fixed (sizeBytes v)) len = bindE (bv_ChannelBufferResize v len) (\<lambda>v. Inr (sizeBytes v))"
  by (simp add: bv_ChannelBufferResize_def guardE_def)

end
